(* ===== verification/Prelude.thy ===== *)
theory Prelude
  imports Main "HOL-Library.AList" "HOL-Library.Word"
begin

text \<open>
  The shared vocabulary of the development: the identifier types of
  \<^verbatim>\<open>include/mcmini/defines.h\<close> and \<^verbatim>\<open>include/mcmini/model/state.hpp\<close>, the exceptions the
  C++ code raises as values of one \<open>error\<close> type, the sequencing of fallible steps, and the
  standard containers the code uses (\<^verbatim>\<open>std::vector\<close>, \<^verbatim>\<open>std::unordered_map\<close>,
  \<^verbatim>\<open>std::unordered_set\<close>, \<^verbatim>\<open>std::map\<close>) with the behaviour the code relies on.

  Conventions. Runner ids (\<^verbatim>\<open>uint16_t\<close>) and object ids (\<^verbatim>\<open>uint32_t\<close>) are natural numbers; a
  conversion that narrows a \<^verbatim>\<open>size_t\<close> is written out with \<open>u16\<close> or \<open>u32\<close>. A
  \<^verbatim>\<open>std::unordered_map\<close> is an association list read with \<open>map_of\<close>, an
  \<^verbatim>\<open>std::unordered_set\<close> is a list without duplicates (its unspecified iteration order), an
  \<^verbatim>\<open>std::map\<close> is an association list sorted by key. A pointer into the target process is a
  natural number, the null pointer being 0.
\<close>

section \<open>Identifiers and machine integers\<close>

type_synonym runner_id = nat
type_synonym objid = nat
type_synonym address = nat

definition u16 :: "nat \<Rightarrow> nat" where
  "u16 n = n mod 2 ^ 16"

definition u32 :: "nat \<Rightarrow> nat" where
  "u32 n = n mod 2 ^ 32"

text \<open>Subtraction on \<^verbatim>\<open>uint32_t\<close> wraps around at zero.\<close>

definition u32_minus :: "nat \<Rightarrow> nat \<Rightarrow> nat" where
  "u32_minus a b = (u32 a + 2 ^ 32 - u32 b) mod 2 ^ 32"

definition invalid_objid :: objid where
  "invalid_objid = 2 ^ 32 - 1"

definition invalid_rid :: runner_id where
  "invalid_rid = 2 ^ 16 - 1"

definition RUNNER_ID_MAX :: runner_id where
  "RUNNER_ID_MAX = 2 ^ 16 - 1"

definition RID_INVALID :: runner_id where
  "RID_INVALID = 2 ^ 16 - 1"

definition RID_MAIN_THREAD :: runner_id where
  "RID_MAIN_THREAD = 0"

definition MAX_TOTAL_THREADS_IN_PROGRAM :: nat where
  "MAX_TOTAL_THREADS_IN_PROGRAM = 20"

lemma u16_id [simp]: "n < 65536 \<Longrightarrow> u16 n = n"
  by (simp add: u16_def)

lemma u32_id [simp]: "n < 4294967296 \<Longrightarrow> u32 n = n"
  by (simp add: u32_def)

lemma u16_bound [simp]: "u16 n < 65536"
  by (simp add: u16_def)

lemma u32_bound [simp]: "u32 n < 4294967296"
  by (simp add: u32_def)

lemma u32_minus_one_pos: "0 < n \<Longrightarrow> n < 4294967296 \<Longrightarrow> u32_minus n 1 = n - 1"
  by (cases n) (simp_all add: u32_minus_def)

lemma u32_minus_one_zero: "u32_minus 0 1 = 4294967295"
  by (simp add: u32_minus_def u32_def)

section \<open>Exceptions as values\<close>

text \<open>
  One constructor per kind of exception or failed run-time check the modelled code can raise.
  \<open>Undefined_behavior\<close> is \<^verbatim>\<open>model::undefined_behavior_exception\<close>; \<open>Null_dereference\<close>,
  \<open>Bad_cast\<close>, \<open>Empty_container\<close> and \<open>Array_overrun\<close> stand for C++ expressions whose
  behaviour the language leaves undefined, and \<open>Assertion_failure\<close> for a failed
  \<^verbatim>\<open>assert()\<close>.
\<close>

datatype error =
    Runtime_error string
  | Out_of_range
  | Invalid_insertion
  | Undefined_behavior string
  | Execution_error string
  | Termination_error int runner_id
  | Nonzero_exit_code_error int runner_id
  | Process_creation_exception string
  | Assertion_failure
  | Null_dereference
  | Bad_cast
  | Empty_container
  | Array_overrun

type_synonym 'a res = "error + 'a"

named_theorems res_simps \<open>unfolding of fallible steps\<close>
named_theorems wf_intros \<open>preservation of well-formedness invariants\<close>

definition bind_res :: "'a res \<Rightarrow> ('a \<Rightarrow> 'b res) \<Rightarrow> 'b res" where
  "bind_res m f = (case m of Inl e \<Rightarrow> Inl e | Inr x \<Rightarrow> f x)"

lemma bind_res_Inr [simp]: "bind_res (Inr x) f = f x"
  by (simp add: bind_res_def)

lemma bind_res_Inl [simp]: "bind_res (Inl e) f = Inl e"
  by (simp add: bind_res_def)

lemma bind_res_eq_Inr [res_simps]:
  "bind_res m f = Inr y \<longleftrightarrow> (\<exists>x. m = Inr x \<and> f x = Inr y)"
  by (cases m) auto

lemma bind_res_eq_Inl:
  "bind_res m f = Inl e \<longleftrightarrow> m = Inl e \<or> (\<exists>x. m = Inr x \<and> f x = Inl e)"
  by (cases m) auto

lemma bind_res_assoc: "bind_res (bind_res m f) g = bind_res m (\<lambda>x. bind_res (f x) g)"
  by (cases m) auto

text \<open>A sequence of fallible steps stops at the first error, as an exception would.\<close>

fun fold_res :: "('e \<Rightarrow> 's \<Rightarrow> 's res) \<Rightarrow> 'e list \<Rightarrow> 's \<Rightarrow> 's res" where
  "fold_res f [] s = Inr s"
| "fold_res f (e # es) s = bind_res (f e s) (fold_res f es)"

lemma fold_res_append:
  "fold_res f (xs @ ys) s = bind_res (fold_res f xs s) (fold_res f ys)"
  by (induction xs arbitrary: s) (auto simp: bind_res_def split: sum.splits)

lemma fold_res_invariant:
  assumes "fold_res f es s = Inr s'" and "I s"
    and "\<And>e s s'. e \<in> set es \<Longrightarrow> I s \<Longrightarrow> f e s = Inr s' \<Longrightarrow> I s'"
  shows "I s'"
  using assms
proof (induction es arbitrary: s)
  case (Cons e es)
  from Cons.prems(1) obtain u where u: "f e s = Inr u" "fold_res f es u = Inr s'"
    by (auto simp: res_simps)
  moreover have "I u" using Cons.prems(2,3) u(1) by auto
  ultimately show ?case using Cons.IH Cons.prems(3) by auto
qed simp

section \<open>Containers\<close>

text \<open>\<^verbatim>\<open>std::vector::at\<close> and \<^verbatim>\<open>std::vector::back\<close>.\<close>

definition vec_at :: "'a list \<Rightarrow> nat \<Rightarrow> 'a res" where
  "vec_at xs i = (if i < length xs then Inr (xs ! i) else Inl Out_of_range)"

definition vec_back :: "'a list \<Rightarrow> 'a res" where
  "vec_back xs = (if xs = [] then Inl Empty_container else Inr (last xs))"

text \<open>\<^verbatim>\<open>std::unordered_map::at\<close>.\<close>

definition map_at :: "('k \<times> 'v) list \<Rightarrow> 'k \<Rightarrow> 'v res" where
  "map_at m k = (case map_of m k of None \<Rightarrow> Inl Out_of_range | Some v \<Rightarrow> Inr v)"

lemma vec_at_Inr [simp]: "i < length xs \<Longrightarrow> vec_at xs i = Inr (xs ! i)"
  by (simp add: vec_at_def)

lemma vec_at_Inl [simp]: "\<not> i < length xs \<Longrightarrow> vec_at xs i = Inl Out_of_range"
  by (simp add: vec_at_def)

lemma vec_at_eq_Inr [res_simps]: "vec_at xs i = Inr x \<longleftrightarrow> i < length xs \<and> xs ! i = x"
  by (simp add: vec_at_def)

lemma vec_back_eq_Inr [res_simps]: "vec_back xs = Inr x \<longleftrightarrow> xs \<noteq> [] \<and> last xs = x"
  by (simp add: vec_back_def)

lemma map_at_Some [simp]: "map_of m k = Some v \<Longrightarrow> map_at m k = Inr v"
  by (simp add: map_at_def)

lemma map_at_eq_Inr [res_simps]: "map_at m k = Inr v \<longleftrightarrow> map_of m k = Some v"
  by (simp add: map_at_def split: option.splits)

lemma map_of_update [simp]:
  "map_of (AList.update k v al) j = (if j = k then Some v else map_of al j)"
  by (simp add: update_conv')

lemma distinct_keys_update [simp]:
  "distinct (map fst al) \<Longrightarrow> distinct (map fst (AList.update k v al))"
  by (rule distinct_update)

text \<open>\<^verbatim>\<open>std::map::operator[]\<close> as an assignment: the keys stay in ascending order.\<close>

fun omap_put :: "'k::linorder \<Rightarrow> 'v \<Rightarrow> ('k \<times> 'v) list \<Rightarrow> ('k \<times> 'v) list" where
  "omap_put k v [] = [(k, v)]"
| "omap_put k v (p # ps) =
     (if fst p = k then (k, v) # ps
      else if k < fst p then (k, v) # p # ps
      else p # omap_put k v ps)"

abbreviation omap_wf :: "('k::linorder \<times> 'v) list \<Rightarrow> bool" where
  "omap_wf m \<equiv> sorted_wrt (<) (map fst m)"

lemma keys_omap_put: "fst ` set (omap_put k v m) = insert k (fst ` set m)"
  by (induction m) auto

lemma omap_wf_put [wf_intros]: "omap_wf m \<Longrightarrow> omap_wf (omap_put k v m)"
proof (induction m)
  case Nil
  then show ?case by simp
next
  case (Cons p ps)
  then have above: "\<forall>j \<in> fst ` set ps. fst p < j" and tail: "omap_wf (omap_put k v ps)"
    by auto
  show ?case
  proof (cases "k > fst p")
    case True
    then have "\<forall>j \<in> fst ` set (omap_put k v ps). fst p < j"
      using above by (simp add: keys_omap_put)
    with True tail show ?thesis by auto
  next
    case False
    with Cons.prems above show ?thesis by auto
  qed
qed

lemma map_of_omap_put [simp]:
  "omap_wf m \<Longrightarrow> map_of (omap_put k v m) j = (if j = k then Some v else map_of m j)"
proof (induction m)
  case (Cons p ps)
  have "map_of ps k = None" if "k < fst p"
    using Cons.prems that by (auto simp: map_of_eq_None_iff)
  with Cons show ?case by auto
qed simp

lemma omap_wf_distinct: "omap_wf m \<Longrightarrow> distinct (map fst m)"
  by (metis strict_sorted_iff)

text \<open>\<^verbatim>\<open>std::unordered_set\<close>: insertion keeps the list free of duplicates.\<close>

definition set_insert :: "'a \<Rightarrow> 'a list \<Rightarrow> 'a list" where
  "set_insert x xs = (if x \<in> set xs then xs else xs @ [x])"

definition set_erase :: "'a \<Rightarrow> 'a list \<Rightarrow> 'a list" where
  "set_erase x xs = filter (\<lambda>y. y \<noteq> x) xs"

lemma set_set_insert [simp]: "set (set_insert x xs) = insert x (set xs)"
  by (auto simp: set_insert_def)

lemma distinct_set_insert [wf_intros]: "distinct xs \<Longrightarrow> distinct (set_insert x xs)"
  by (simp add: set_insert_def)

lemma set_set_erase [simp]: "set (set_erase x xs) = set xs - {x}"
  by (auto simp: set_erase_def)

lemma distinct_set_erase [wf_intros]: "distinct xs \<Longrightarrow> distinct (set_erase x xs)"
  by (simp add: set_erase_def)

lemma set_erase_absent [simp]: "x \<notin> set xs \<Longrightarrow> set_erase x xs = xs"
  by (auto simp: set_erase_def filter_id_conv)

lemma set_erase_Cons [simp]:
  "set_erase x (y # ys) = (if y = x then set_erase x ys else y # set_erase x ys)"
  by (simp add: set_erase_def)

section \<open>Lists\<close>

lemma last_of_take:
  assumes "0 < n" and "n < length xs"
  shows "take n xs \<noteq> [] \<and> last (take n xs) = xs ! (n - 1)"
proof -
  have "take n xs \<noteq> []" using assms by auto
  then show ?thesis using assms by (simp add: last_conv_nth min_def del: take_eq_Nil)
qed

lemma set_fold_set_insert [simp]: "set (fold set_insert xs ys) = set xs \<union> set ys"
  by (induction xs arbitrary: ys) auto

lemma distinct_fold_set_insert [wf_intros]: "distinct ys \<Longrightarrow> distinct (fold set_insert xs ys)"
  by (induction xs arbitrary: ys) (auto intro: wf_intros)

lemma set_remove1_distinct: "distinct xs \<Longrightarrow> set (remove1 x xs) = set xs - {x}"
  by (rule set_remove1_eq)

end
