(* ===== verification/Clock_Vector.thy ===== *)
theory Clock_Vector
  imports Prelude
begin

text \<open>
  Clock vectors: \<^verbatim>\<open>model_checking/algorithms/classic_dpor/clock_vector.hpp\<close> and
  \<^verbatim>\<open>clock_vector.cpp\<close>. A clock vector is a table from runners to indices; a runner it does not
  mention has the index \<open>0\<close>. The locale \<open>clock_join\<close> says what DPOR relies on, that \<open>max\<close> is
  taken pointwise; its lemmas are about folds of \<open>max\<close> over a list of clocks.
\<close>

type_synonym clock_vector = "(runner_id \<times> nat) list"

definition cv_size :: "clock_vector \<Rightarrow> nat" where
  "cv_size cv = length cv"

definition value_for :: "clock_vector \<Rightarrow> runner_id \<Rightarrow> nat" where
  "value_for cv tid = (case map_of cv tid of Some i \<Rightarrow> i | None \<Rightarrow> 0)"

definition has_explicit_mapping_for :: "clock_vector \<Rightarrow> runner_id \<Rightarrow> bool" where
  "has_explicit_mapping_for cv rid \<longleftrightarrow> map_of cv rid \<noteq> None"

definition has_implicit_mapping_for :: "clock_vector \<Rightarrow> runner_id \<Rightarrow> bool" where
  "has_implicit_mapping_for cv rid \<longleftrightarrow> map_of cv rid = None"

text \<open>Assignment through \<^verbatim>\<open>operator[]\<close>.\<close>

definition cv_set :: "runner_id \<Rightarrow> nat \<Rightarrow> clock_vector \<Rightarrow> clock_vector" where
  "cv_set tid i cv = AList.update tid i cv"

definition cv_max :: "clock_vector \<Rightarrow> clock_vector \<Rightarrow> clock_vector" where
  "cv_max cv1 cv2 =
     fold (\<lambda>e max_cv. cv_set (fst e) (max (value_for cv2 (fst e)) (snd e)) max_cv) cv1
       (fold (\<lambda>e max_cv. cv_set (fst e) (max (value_for cv1 (fst e)) (snd e)) max_cv) cv2 [])"

section \<open>The interface\<close>

locale clock_join =
  fixes join :: "'c \<Rightarrow> 'c \<Rightarrow> 'c"
    and val :: "'c \<Rightarrow> 'r \<Rightarrow> nat"
    and wf :: "'c \<Rightarrow> bool"
  assumes join_wf: "wf a \<Longrightarrow> wf b \<Longrightarrow> wf (join a b)"
    and join_val: "wf a \<Longrightarrow> wf b \<Longrightarrow> val (join a b) r = max (val a r) (val b r)"
begin

definition join_all :: "'c list \<Rightarrow> 'c \<Rightarrow> 'c" where
  "join_all cs a = fold (\<lambda>c acc. join acc c) cs a"

lemma join_all_simps [simp]:
  "join_all [] a = a" "join_all (c # cs) a = join_all cs (join a c)"
  by (simp_all add: join_all_def)

lemma join_all_wf: "wf a \<Longrightarrow> \<forall>c \<in> set cs. wf c \<Longrightarrow> wf (join_all cs a)"
  by (induction cs arbitrary: a) (auto simp: join_wf)

lemma join_all_le_iff:
  "wf a \<Longrightarrow> \<forall>c \<in> set cs. wf c \<Longrightarrow>
   val (join_all cs a) r \<le> n \<longleftrightarrow> val a r \<le> n \<and> (\<forall>c \<in> set cs. val c r \<le> n)"
  by (induction cs arbitrary: a) (auto simp: join_wf join_val)

lemma join_all_attained:
  assumes "wf a" and "\<forall>c \<in> set cs. wf c"
  shows "val (join_all cs a) r = val a r \<or> (\<exists>c \<in> set cs. val (join_all cs a) r = val c r)"
  using assms
proof (induction cs arbitrary: a)
  case (Cons c cs)
  then have "wf (join a c)" and "val (join a c) r = max (val a r) (val c r)"
    by (simp_all add: join_wf join_val)
  with Cons.IH [of "join a c"] Cons.prems show ?case by (auto simp: max_def split: if_splits)
qed simp

end

section \<open>Clock vectors meet it\<close>

abbreviation cv_wf :: "clock_vector \<Rightarrow> bool" where
  "cv_wf cv \<equiv> distinct (map fst cv)"

lemma value_for_simps [simp]:
  "value_for [] r = 0"
  "value_for (cv_set tid i cv) r = (if r = tid then i else value_for cv r)"
  by (simp_all add: value_for_def cv_set_def)

lemma cv_set_wf [wf_intros]: "cv_wf cv \<Longrightarrow> cv_wf (cv_set tid i cv)"
  by (simp add: cv_set_def distinct_keys_update)

lemma fold_cv_set_wf: "cv_wf acc \<Longrightarrow> cv_wf (fold (\<lambda>e. cv_set (fst e) (f e)) es acc)"
  by (induction es arbitrary: acc) (auto simp: cv_set_wf)

lemma fold_cv_set_value:
  "cv_wf es \<Longrightarrow> value_for (fold (\<lambda>e. cv_set (fst e) (f e)) es acc) r =
     (case map_of es r of Some i \<Rightarrow> f (r, i) | None \<Rightarrow> value_for acc r)"
proof (induction es arbitrary: acc)
  case (Cons e es)
  then have "map_of es (fst e) = None" by (simp add: map_of_eq_None_iff)
  with Cons show ?case by (cases e) (auto split: option.split)
qed simp

lemma cv_max_wf [wf_intros]: "cv_wf (cv_max a b)"
  by (simp add: cv_max_def fold_cv_set_wf)

lemma cv_max_value:
  assumes "cv_wf a" and "cv_wf b"
  shows "value_for (cv_max a b) r = max (value_for a r) (value_for b r)"
proof -
  have "value_for (cv_max a b) r = (case map_of a r of Some i \<Rightarrow> max (value_for b r) i
      | None \<Rightarrow> (case map_of b r of Some i \<Rightarrow> max (value_for a r) i | None \<Rightarrow> 0))"
    using fold_cv_set_value [OF assms(1), of "\<lambda>e. max (value_for b (fst e)) (snd e)"]
      fold_cv_set_value [OF assms(2), of "\<lambda>e. max (value_for a (fst e)) (snd e)"]
    by (simp add: cv_max_def split: option.split)
  then show ?thesis
    by (cases "map_of a r"; cases "map_of b r") (simp_all add: value_for_def max.commute)
qed

interpretation clk: clock_join cv_max value_for cv_wf
  by unfold_locales (simp_all add: cv_max_wf cv_max_value)

end
