(* ===== verification/Cond_Policy.thy ===== *)
theory Cond_Policy
  imports Prelude
begin

text \<open>
  The wakeup policy of condition variables: \<^verbatim>\<open>include/mcmini/misc/cond/\<close> and
  \<^verbatim>\<open>src/mcmini/model/cond_var_*.cpp\<close>. The record \<open>policy\<close> collects the fields of
  \<^verbatim>\<open>ConditionVariableDefaultPolicy\<close> and \<^verbatim>\<open>ConditionVariableSingleGroupPolicy\<close>; every
  condition variable of the program carries a \<^verbatim>\<open>ConditionVariableArbitraryPolicy\<close>, whose
  virtual calls resolve to the definitions below without a class prefix.

  The locale \<open>waiter_policy\<close> is the interface a condition variable relies on. Its laws speak
  of \<open>tokens\<close>: the wake-ups that signals and broadcasts have granted and no thread has
  consumed yet. The locale's lemmas bound the wake-ups of any sequence of registrations, signals,
  broadcasts and wake-ups by the tokens granted; the interpretation at the end discharges the laws for the code's policy.
\<close>

section \<open>State\<close>

datatype condition_variable_status =
  CV_UNINITIALIZED | CV_INITIALIZED | CV_WAITING | CV_SIGNALED | CV_PREWAITING | CV_DESTROYED

type_synonym wake_group = "runner_id list"

record policy =
  broadcast_eligible_threads :: "runner_id list"
  wake_groups :: "wake_group list"
  wait_queue :: "runner_id list"
  threads_with_states :: "(runner_id \<times> condition_variable_status) list"

definition new_policy :: policy where
  "new_policy = \<lparr>broadcast_eligible_threads = [], wake_groups = [], wait_queue = [],
     threads_with_states = []\<rparr>"

section \<open>Wake groups\<close>

definition wg_contains :: "wake_group \<Rightarrow> runner_id \<Rightarrow> bool" where
  "wg_contains wg tid \<longleftrightarrow> tid \<in> set wg"

definition wg_remove_candidate_thread :: "runner_id \<Rightarrow> wake_group \<Rightarrow> wake_group" where
  "wg_remove_candidate_thread tid wg = removeAll tid wg"

section \<open>The default policy\<close>

definition default_receive_broadcast_message :: "policy \<Rightarrow> policy" where
  "default_receive_broadcast_message p =
     p\<lparr>broadcast_eligible_threads :=
         fold (\<lambda>wg s. fold set_insert wg s) (wake_groups p) (broadcast_eligible_threads p),
       wake_groups := []\<rparr>"

definition default_has_waiters :: "policy \<Rightarrow> bool" where
  "default_has_waiters p \<longleftrightarrow> broadcast_eligible_threads p \<noteq> [] \<or> wake_groups p \<noteq> []"

definition thread_can_exit :: "policy \<Rightarrow> runner_id \<Rightarrow> bool" where
  "thread_can_exit p tid \<longleftrightarrow>
     tid \<in> set (broadcast_eligible_threads p) \<or>
     list_ex (\<lambda>wg. wg_contains wg tid) (wake_groups p)"

text \<open>\<^verbatim>\<open>std::find_if\<close> followed by \<^verbatim>\<open>erase\<close>; \<open>None\<close> when no element qualifies.\<close>

fun erase_first :: "('a \<Rightarrow> bool) \<Rightarrow> 'a list \<Rightarrow> 'a list option" where
  "erase_first P [] = None"
| "erase_first P (x # xs) = (if P x then Some xs else map_option ((#) x) (erase_first P xs))"

definition default_wake_thread :: "runner_id \<Rightarrow> policy \<Rightarrow> policy res" where
  "default_wake_thread tid p =
     bind_res
       (if tid \<in> set (broadcast_eligible_threads p)
        then Inr (p\<lparr>broadcast_eligible_threads :=
                      set_erase tid (broadcast_eligible_threads p)\<rparr>)
        else (case erase_first (\<lambda>wg. wg_contains wg tid) (wake_groups p) of
                None \<Rightarrow> Inl Assertion_failure
              | Some wgs \<Rightarrow> Inr (p\<lparr>wake_groups := wgs\<rparr>)))
       (\<lambda>q. Inr (q\<lparr>wake_groups := map (wg_remove_candidate_thread tid) (wake_groups q)\<rparr>))"

section \<open>The single-group policy\<close>

definition receive_broadcast_message :: "policy \<Rightarrow> policy" where
  "receive_broadcast_message p =
     (let q = default_receive_broadcast_message p
      in q\<lparr>broadcast_eligible_threads :=
             fold set_insert (wait_queue q) (broadcast_eligible_threads q),
           wait_queue := []\<rparr>)"

definition wake_thread :: "runner_id \<Rightarrow> policy \<Rightarrow> policy res" where
  "wake_thread tid p =
     bind_res (default_wake_thread tid p)
       (\<lambda>q. Inr (q\<lparr>wait_queue := remove1 tid (wait_queue q)\<rparr>))"

definition add_waiter :: "runner_id \<Rightarrow> policy \<Rightarrow> policy" where
  "add_waiter tid p = p\<lparr>wait_queue := wait_queue p @ [tid]\<rparr>"

section \<open>The arbitrary policy\<close>

definition receive_signal_message :: "policy \<Rightarrow> policy" where
  "receive_signal_message p =
     (if wait_queue p \<noteq> [] then p\<lparr>wake_groups := wake_groups p @ [wait_queue p]\<rparr> else p)"

definition has_waiters :: "policy \<Rightarrow> bool" where
  "has_waiters p \<longleftrightarrow> wait_queue p \<noteq> []"

definition return_wait_queue :: "policy \<Rightarrow> runner_id list" where
  "return_wait_queue p = wait_queue p"

definition return_wake_groups :: "policy \<Rightarrow> wake_group list" where
  "return_wake_groups p = wake_groups p"

definition add_to_wake_groups :: "runner_id list \<Rightarrow> policy \<Rightarrow> policy" where
  "add_to_wake_groups threads p =
     (if threads \<noteq> [] then p\<lparr>wake_groups := wake_groups p @ [threads]\<rparr> else p)"

definition add_waiter_with_state ::
    "runner_id \<Rightarrow> condition_variable_status \<Rightarrow> policy \<Rightarrow> policy" where
  "add_waiter_with_state tid state p =
     (let q = add_waiter tid p
      in q\<lparr>threads_with_states := AList.update tid state (threads_with_states q)\<rparr>)"

definition get_thread_cv_state :: "policy \<Rightarrow> runner_id \<Rightarrow> condition_variable_status" where
  "get_thread_cv_state p tid =
     (case map_of (threads_with_states p) tid of Some st \<Rightarrow> st | None \<Rightarrow> CV_UNINITIALIZED)"

definition update_thread_cv_state ::
    "runner_id \<Rightarrow> condition_variable_status \<Rightarrow> policy \<Rightarrow> policy" where
  "update_thread_cv_state tid state p =
     p\<lparr>threads_with_states := AList.update tid state (threads_with_states p)\<rparr>"

text \<open>\<^verbatim>\<open>clone()\<close> copies every field.\<close>

definition clone_policy :: "policy \<Rightarrow> policy" where
  "clone_policy p =
     \<lparr>broadcast_eligible_threads = broadcast_eligible_threads p, wake_groups = wake_groups p,
      wait_queue = wait_queue p, threads_with_states = threads_with_states p\<rparr>"

lemma clone_policy_id [simp]: "clone_policy p = p"
  by (simp add: clone_policy_def)

section \<open>The interface of a wakeup policy\<close>

datatype policy_event =
    Register runner_id
  | Signal
  | Notify "runner_id list"
  | Broadcast
  | Wake runner_id

fun woken :: "policy_event \<Rightarrow> nat" where
  "woken (Wake t) = 1"
| "woken _ = 0"

text \<open>What the events of a run grant in all, each in the state in which it happens.\<close>

fun granted_over :: "('e \<Rightarrow> 'p \<Rightarrow> nat) \<Rightarrow> ('e \<Rightarrow> 'p \<Rightarrow> 'p res) \<Rightarrow> 'e list \<Rightarrow> 'p \<Rightarrow> nat" where
  "granted_over grant event [] p = 0"
| "granted_over grant event (e # es) p =
     grant e p + (case event e p of Inr q \<Rightarrow> granted_over grant event es q | Inl _ \<Rightarrow> 0)"

text \<open>
  \<open>waiting\<close> are the sleeping threads, \<open>freed\<close> counts those a broadcast makes eligible that were not.
\<close>

locale waiter_policy =
  fixes inv :: "'p \<Rightarrow> bool"
    and register :: "runner_id \<Rightarrow> 'p \<Rightarrow> 'p"
    and signal :: "'p \<Rightarrow> 'p"
    and notify :: "runner_id list \<Rightarrow> 'p \<Rightarrow> 'p"
    and broadcast :: "'p \<Rightarrow> 'p"
    and can_exit :: "'p \<Rightarrow> runner_id \<Rightarrow> bool"
    and wake :: "runner_id \<Rightarrow> 'p \<Rightarrow> 'p res"
    and waiting :: "'p \<Rightarrow> runner_id list"
    and freed :: "'p \<Rightarrow> nat"
    and tokens :: "'p \<Rightarrow> nat"
    and grant :: "policy_event \<Rightarrow> 'p \<Rightarrow> nat"
    and event :: "policy_event \<Rightarrow> 'p \<Rightarrow> 'p res"
  assumes events:
      "event (Register t) p = Inr (register t p)" "event Signal p = Inr (signal p)"
      "event (Notify ts) p = Inr (notify ts p)" "event Broadcast p = Inr (broadcast p)"
      "event (Wake t) p = wake t p"
    and grants:
      "grant (Register t) p = 0" "grant Signal p = (if waiting p = [] then 0 else 1)"
      "grant (Notify ts) p = (if ts = [] then 0 else 1)" "grant Broadcast p = freed p"
      "grant (Wake t) p = 0"
    and inv_register: "inv p \<Longrightarrow> inv (register t p)"
    and inv_signal: "inv p \<Longrightarrow> inv (signal p)"
    and inv_notify: "inv p \<Longrightarrow> inv (notify ts p)"
    and inv_broadcast: "inv p \<Longrightarrow> inv (broadcast p)"
    and inv_wake: "inv p \<Longrightarrow> wake t p = Inr q \<Longrightarrow> inv q"
    and wake_defined: "(\<exists>q. wake t p = Inr q) \<longleftrightarrow> can_exit p t"
    and tokens_register: "tokens (register t p) = tokens p"
    and tokens_signal: "tokens (signal p) = tokens p + (if waiting p = [] then 0 else 1)"
    and tokens_notify: "tokens (notify ts p) = tokens p + (if ts = [] then 0 else 1)"
    and tokens_broadcast: "inv p \<Longrightarrow> tokens (broadcast p) \<le> tokens p + freed p"
    and tokens_wake: "inv p \<Longrightarrow> wake t p = Inr q \<Longrightarrow> tokens p = Suc (tokens q)"
begin

lemma can_exit_has_token: "inv p \<Longrightarrow> can_exit p t \<Longrightarrow> 0 < tokens p"
  using wake_defined tokens_wake by (metis zero_less_Suc)

lemma event_step:
  assumes "inv p" and "event e p = Inr q"
  shows "inv q \<and> woken e + tokens q \<le> tokens p + grant e p \<and>
    (e \<noteq> Broadcast \<longrightarrow> woken e + tokens q = tokens p + grant e p)"
proof (cases e)
  case (Wake t)
  with assms have "wake t p = Inr q" by (simp add: events)
  with assms(1) Wake show ?thesis using inv_wake tokens_wake by (fastforce simp: grants)
qed (use assms in \<open>auto simp: events grants inv_register inv_signal inv_notify inv_broadcast
      tokens_register tokens_signal tokens_notify tokens_broadcast\<close>)

text \<open>Over any run, wake-ups are paid for by tokens; without broadcasts no token is lost.\<close>

lemma run_budget:
  assumes "inv p" and "fold_res event es p = Inr q"
  shows "inv q \<and>
    sum_list (map woken es) + tokens q \<le> tokens p + granted_over grant event es p \<and>
    (Broadcast \<notin> set es \<longrightarrow>
       sum_list (map woken es) + tokens q = tokens p + granted_over grant event es p)"
  using assms
proof (induction es arbitrary: p)
  case (Cons e es)
  from Cons.prems(2) obtain r where r: "event e p = Inr r" "fold_res event es r = Inr q"
    by (auto simp: res_simps)
  from event_step [OF Cons.prems(1) r(1)] Cons.IH [OF _ r(2)] r(1) show ?case by auto
qed simp

lemma one_signal_one_wake:
  assumes "inv p" and "tokens p = 0" and "wake t (notify ts p) = Inr q"
  shows "\<not> can_exit q u"
proof -
  have n: "inv (notify ts p)" using assms(1) by (rule inv_notify)
  from n assms(3) have q: "inv q" by (rule inv_wake)
  have "tokens (notify ts p) \<le> 1" using assms(2) by (simp add: tokens_notify)
  with tokens_wake [OF n assms(3)] have "tokens q = 0" by simp
  with can_exit_has_token [OF q] show ?thesis by auto
qed

end

section \<open>Lemmas on the code's policy\<close>

lemma add_to_wake_groups_Nil [simp]: "add_to_wake_groups [] p = p"
  by (simp add: add_to_wake_groups_def)

lemma erase_first_None: "erase_first P xs = None \<longleftrightarrow> \<not> list_ex P xs"
  by (induction xs) auto

lemma erase_first_length: "erase_first P xs = Some ys \<Longrightarrow> length xs = Suc (length ys)"
  by (induction xs arbitrary: ys) (auto split: if_splits)

lemma erase_first_subset: "erase_first P xs = Some ys \<Longrightarrow> set ys \<subseteq> set xs"
  by (induction xs arbitrary: ys) (auto split: if_splits)

lemma list_ex_set: "list_ex P xs \<longleftrightarrow> (\<exists>x \<in> set xs. P x)"
  by (rule list_ex_iff)

lemma set_fold_groups:
  "set (fold (\<lambda>wg s. fold set_insert wg s) wgs s) = \<Union> (set ` set wgs) \<union> set s"
  by (induction wgs arbitrary: s) auto

lemma distinct_fold_groups:
  "distinct s \<Longrightarrow> distinct (fold (\<lambda>wg s. fold set_insert wg s) wgs s)"
  by (induction wgs arbitrary: s) (auto intro: wf_intros)

lemma length_set_erase:
  "distinct xs \<Longrightarrow> x \<in> set xs \<Longrightarrow> length xs = Suc (length (set_erase x xs))"
  by (induction xs) auto

text \<open>The only fact about the fields the code keeps: the eligible threads form a set.\<close>

definition policy_wf :: "policy \<Rightarrow> bool" where
  "policy_wf p \<longleftrightarrow> distinct (broadcast_eligible_threads p)"

definition policy_tokens :: "policy \<Rightarrow> nat" where
  "policy_tokens p = length (wake_groups p) + length (broadcast_eligible_threads p)"

text \<open>\<open>Signal\<close> and \<open>Broadcast\<close> are the policy's own messages, \<open>Notify\<close> is the signal of a transition.\<close>

fun policy_event_step :: "policy_event \<Rightarrow> policy \<Rightarrow> policy res" where
  "policy_event_step (Register t) p = Inr (add_waiter_with_state t CV_WAITING p)"
| "policy_event_step Signal p = Inr (receive_signal_message p)"
| "policy_event_step (Notify ts) p = Inr (add_to_wake_groups ts p)"
| "policy_event_step Broadcast p = Inr (receive_broadcast_message p)"
| "policy_event_step (Wake t) p = wake_thread t p"

lemma wake_thread_defined: "(\<exists>q. wake_thread t p = Inr q) \<longleftrightarrow> thread_can_exit p t"
  using erase_first_None [of "\<lambda>wg. wg_contains wg t" "wake_groups p"]
  by (auto simp: wake_thread_def default_wake_thread_def thread_can_exit_def
      split: option.splits)

lemma wake_thread_error: "\<not> thread_can_exit p t \<Longrightarrow> wake_thread t p = Inl Assertion_failure"
  using erase_first_None [of "\<lambda>wg. wg_contains wg t" "wake_groups p"]
  by (auto simp: wake_thread_def default_wake_thread_def thread_can_exit_def
      split: option.splits)

lemma wake_thread_queue: "wake_thread t p = Inr q \<Longrightarrow> wait_queue q = remove1 t (wait_queue p)"
  by (auto simp: wake_thread_def default_wake_thread_def res_simps
      split: if_splits option.splits)

lemma wake_thread_wf [wf_intros]: "policy_wf p \<Longrightarrow> wake_thread t p = Inr q \<Longrightarrow> policy_wf q"
  by (auto simp: wake_thread_def default_wake_thread_def policy_wf_def res_simps
      intro: wf_intros split: if_splits option.splits)

lemma wake_thread_no_exit:
  assumes "wake_thread t p = Inr q"
  shows "\<not> thread_can_exit q t"
  using assms
  by (auto simp: wake_thread_def default_wake_thread_def thread_can_exit_def res_simps
      wg_contains_def wg_remove_candidate_thread_def list_ex_set
      split: if_splits option.splits)

lemma wake_thread_tokens:
  "policy_wf p \<Longrightarrow> wake_thread t p = Inr q \<Longrightarrow> policy_tokens p = Suc (policy_tokens q)"
  by (auto simp: wake_thread_def default_wake_thread_def policy_tokens_def policy_wf_def
      res_simps length_set_erase dest: erase_first_length split: if_splits option.splits)

text \<open>The threads a broadcast lets go that no earlier broadcast had.\<close>

definition newly_eligible :: "policy \<Rightarrow> runner_id set" where
  "newly_eligible p =
     (\<Union>(set ` set (wake_groups p)) \<union> set (wait_queue p)) - set (broadcast_eligible_threads p)"

fun granted :: "policy_event \<Rightarrow> policy \<Rightarrow> nat" where
  "granted Signal p = (if wait_queue p = [] then 0 else 1)"
| "granted (Notify ts) p = (if ts = [] then 0 else 1)"
| "granted Broadcast p = card (newly_eligible p)"
| "granted _ p = 0"

lemma set_fold_insert [simp]: "set (fold set_insert xs s) = set xs \<union> set s"
  by (induction xs arbitrary: s) auto

lemma distinct_fold_insert: "distinct s \<Longrightarrow> distinct (fold set_insert xs s)"
  by (induction xs arbitrary: s) (auto intro: wf_intros)

lemma broadcast_wf [wf_intros]: "policy_wf p \<Longrightarrow> policy_wf (receive_broadcast_message p)"
  by (simp add: policy_wf_def receive_broadcast_message_def default_receive_broadcast_message_def
      Let_def distinct_fold_insert distinct_fold_groups)

lemma broadcast_tokens:
  assumes "policy_wf p"
  shows "policy_tokens (receive_broadcast_message p)
    = length (broadcast_eligible_threads p) + card (newly_eligible p)"
proof -
  let ?q = "receive_broadcast_message p"
  have "set (broadcast_eligible_threads ?q) = newly_eligible p \<union> set (broadcast_eligible_threads p)"
    by (auto simp: receive_broadcast_message_def default_receive_broadcast_message_def Let_def
        set_fold_groups newly_eligible_def)
  moreover have "card (newly_eligible p \<union> set (broadcast_eligible_threads p)) =
      card (newly_eligible p) + card (set (broadcast_eligible_threads p))"
    by (rule card_Un_disjoint) (auto simp: newly_eligible_def)
  moreover have "wake_groups ?q = []"
    by (simp add: receive_broadcast_message_def default_receive_broadcast_message_def Let_def)
  ultimately show ?thesis
    using assms broadcast_wf [OF assms]
    by (simp add: policy_tokens_def policy_wf_def distinct_card [symmetric])
qed

interpretation pol: waiter_policy policy_wf "\<lambda>t. add_waiter_with_state t CV_WAITING"
  receive_signal_message add_to_wake_groups receive_broadcast_message thread_can_exit wake_thread
  wait_queue "\<lambda>p. card (newly_eligible p)" policy_tokens granted policy_event_step
proof (unfold_locales, goal_cases)
  case (14 p)
  then show ?case by (rule broadcast_wf)
next
  case (15 p t q)
  then show ?case by (rule wake_thread_wf)
next
  case (16 t p)
  show ?case by (rule wake_thread_defined)
next
  case (20 p)
  then show ?case by (simp only: broadcast_tokens) (simp add: policy_tokens_def)
next
  case (21 p t q)
  then show ?case by (rule wake_thread_tokens)
qed (auto simp: policy_wf_def policy_tokens_def add_waiter_with_state_def add_waiter_def Let_def
    add_to_wake_groups_def receive_signal_message_def)

section \<open>Properties\<close>

text \<open>
  C8. Wake-ups are paid for. In any run of the policy's operations, in which threads register, signals
  and broadcasts arrive in any order and threads wake, the number of wake-ups is at most the number of
  signals outstanding at the start and granted during the run: one for a signal that finds a waiter, one
  for every thread a broadcast lets go that could not leave through an earlier broadcast. What is not spent
  is outstanding at the end: without broadcasts exactly that, and a broadcast may merge a signal into
  its own wake-up of the same thread, never the other way round.
\<close>

theorem wakeups_bounded_by_signals:
  assumes "policy_wf p" and "fold_res policy_event_step es p = Inr q"
  shows "sum_list (map woken es) + policy_tokens q
      \<le> policy_tokens p + granted_over granted policy_event_step es p \<and>
    (Broadcast \<notin> set es \<longrightarrow>
      sum_list (map woken es) + policy_tokens q
        = policy_tokens p + granted_over granted policy_event_step es p)"
  using pol.run_budget [OF assms] by blast

theorem wakeups_bounded_by_signals_witness:
  "sum_list (map woken [Register 1, Register 2, Signal, Wake 2, Register 2, Broadcast, Wake 1])
     + policy_tokens (new_policy\<lparr>broadcast_eligible_threads := [2],
         threads_with_states := [(1, CV_WAITING), (2, CV_WAITING)]\<rparr>) \<le> 3 \<and>
   granted_over granted policy_event_step
     [Register 1, Register 2, Signal, Wake 2, Register 2, Broadcast, Wake 1] new_policy = 3"
proof -
  let ?es = "[Register 1, Register 2, Signal, Wake 2, Register 2, Broadcast, Wake 1]"
  let ?q = "new_policy\<lparr>broadcast_eligible_threads := [2],
         threads_with_states := [(1, CV_WAITING), (2, CV_WAITING)]\<rparr>"
  note unfolds = new_policy_def add_waiter_with_state_def add_waiter_def receive_signal_message_def
    receive_broadcast_message_def default_receive_broadcast_message_def Let_def wake_thread_def
    default_wake_thread_def wg_contains_def wg_remove_candidate_thread_def set_insert_def
  have wf: "policy_wf new_policy" by (simp add: policy_wf_def new_policy_def)
  have run: "fold_res policy_event_step ?es new_policy = Inr ?q"
    by (simp add: unfolds)
  have grants: "granted_over granted policy_event_step ?es new_policy = 3"
    by (simp add: unfolds newly_eligible_def)
  have "policy_tokens new_policy = 0" by (simp add: policy_tokens_def new_policy_def)
  with wakeups_bounded_by_signals [OF wf run] grants show ?thesis by simp
qed

text \<open>
  A single signal wakes a single thread: when nothing else is outstanding and one of the
  threads a signal made eligible has woken, no thread at all may leave until another signal
  or broadcast arrives.
\<close>

lemma one_signal_wakes_one_thread:
  assumes "policy_wf p" and "policy_tokens p = 0"
    and "wake_thread t (add_to_wake_groups ts p) = Inr q"
  shows "\<not> thread_can_exit q u"
  using assms by (rule pol.one_signal_one_wake)

lemma one_signal_wakes_one_thread_example:
  "\<not> thread_can_exit (new_policy\<lparr>wait_queue := [7]\<rparr>) 7"
proof -
  let ?p = "new_policy\<lparr>wait_queue := [5, 7]\<rparr>"
  have wf: "policy_wf ?p" and tok: "policy_tokens ?p = 0"
    by (simp_all add: policy_wf_def new_policy_def policy_tokens_def)
  have "wake_thread 5 (add_to_wake_groups [5, 7] ?p) = Inr (new_policy\<lparr>wait_queue := [7]\<rparr>)"
    by (simp add: new_policy_def add_to_wake_groups_def wake_thread_def default_wake_thread_def
        wg_contains_def)
  from one_signal_wakes_one_thread [OF wf tok this] show ?thesis .
qed

text \<open>
  A broadcast releases exactly the sleeping threads and those already signalled: afterwards
  the queue and the wake groups are empty, and a thread may leave iff it could leave before or
  was sleeping.
\<close>

lemma broadcast_releases_all_waiters:
  "wait_queue (receive_broadcast_message p) = [] \<and>
   wake_groups (receive_broadcast_message p) = [] \<and>
   (thread_can_exit (receive_broadcast_message p) t \<longleftrightarrow>
      thread_can_exit p t \<or> t \<in> set (wait_queue p))"
  by (auto simp: receive_broadcast_message_def default_receive_broadcast_message_def Let_def
      thread_can_exit_def set_fold_groups list_ex_set wg_contains_def)

text \<open>
  A thread released by a broadcast does not steal a later signal: when it wakes, every
  other thread the later signal was sent to can still wake.
\<close>

lemma broadcast_waiter_keeps_later_signal:
  assumes "t \<in> set (wait_queue p)" and "u \<in> set ts" and "u \<noteq> t"
    and "wake_thread t (add_to_wake_groups ts (receive_broadcast_message p)) = Inr q"
  shows "thread_can_exit q u"
proof -
  let ?p = "add_to_wake_groups ts (receive_broadcast_message p)"
  have "t \<in> set (broadcast_eligible_threads ?p)" and "ts \<in> set (wake_groups ?p)"
    using assms(1,2)
    by (auto simp: add_to_wake_groups_def receive_broadcast_message_def
        default_receive_broadcast_message_def Let_def)
  with assms(4) have "removeAll t ts \<in> set (wake_groups q)"
    by (auto simp: wake_thread_def default_wake_thread_def wg_remove_candidate_thread_def)
  moreover have "u \<in> set (removeAll t ts)" using assms(2,3) by simp
  ultimately show ?thesis
    unfolding thread_can_exit_def list_ex_set wg_contains_def by blast
qed

lemma broadcast_waiter_keeps_later_signal_example:
  "thread_can_exit (new_policy\<lparr>wake_groups := [[2]]\<rparr>) 2"
proof -
  have "wake_thread 1 (add_to_wake_groups [1, 2]
          (receive_broadcast_message (new_policy\<lparr>wait_queue := [1]\<rparr>)))
        = Inr (new_policy\<lparr>wake_groups := [[2]]\<rparr>)"
    by (simp add: new_policy_def add_to_wake_groups_def receive_broadcast_message_def
        default_receive_broadcast_message_def Let_def wake_thread_def default_wake_thread_def
        wg_remove_candidate_thread_def set_insert_def)
  from broadcast_waiter_keeps_later_signal [OF _ _ _ this] show ?thesis by simp
qed

text \<open>
  Waking removes the thread from the policy: a thread that slept once is in no queue and may
  not leave again, and the other sleepers stay queued in order. This needs the queue to hold
  the thread at most once; see \<open>reregistered_waiter_survives_wake\<close>.
\<close>

lemma wake_removes_thread:
  assumes "count_list (wait_queue p) t \<le> 1" and "wake_thread t p = Inr q"
  shows "t \<notin> set (wait_queue q) \<and> \<not> thread_can_exit q t \<and>
    wait_queue q = removeAll t (wait_queue p)"
proof -
  have "remove1 t xs = removeAll t xs" if "count_list xs t \<le> 1" for xs :: "runner_id list"
    using that by (induction xs) (auto simp: count_list_0_iff)
  with assms have "wait_queue q = removeAll t (wait_queue p)" by (simp add: wake_thread_queue)
  with wake_thread_no_exit [OF assms(2)] show ?thesis by simp
qed

lemma wake_removes_thread_example:
  "wait_queue (new_policy\<lparr>wait_queue := [4, 6]\<rparr>) = removeAll 5 [4, 5, 6]"
proof -
  have "wake_thread 5 (new_policy\<lparr>wait_queue := [4, 5, 6], wake_groups := [[4, 5]]\<rparr>)
      = Inr (new_policy\<lparr>wait_queue := [4, 6]\<rparr>)"
    by (simp add: new_policy_def wake_thread_def default_wake_thread_def wg_contains_def)
  from wake_removes_thread [OF _ this] show ?thesis by simp
qed

text \<open>
  A thread that is already in the sleep queue when it registers again (a waiter restored from
  a checkpoint that then runs its enqueue transition) is queued twice, and one wake-up leaves
  it behind: the condition variable still counts the thread as a waiter after it has left.
\<close>

lemma reregistered_waiter_survives_wake:
  assumes "t \<in> set (wait_queue p)" and "wake_thread t (add_to_wake_groups ts
    (add_waiter_with_state t CV_WAITING p)) = Inr q"
  shows "t \<in> set (wait_queue q) \<and> has_waiters q"
proof -
  have "wait_queue q = remove1 t (wait_queue p @ [t])"
    using assms(2)
    by (auto simp: add_to_wake_groups_def add_waiter_with_state_def add_waiter_def Let_def
        dest!: wake_thread_queue split: if_splits)
  with assms(1) show ?thesis by (auto simp: remove1_append has_waiters_def)
qed

lemma reregistered_waiter_survives_wake_example:
  "has_waiters (new_policy\<lparr>wait_queue := [3], threads_with_states := [(3, CV_WAITING)]\<rparr>)"
proof -
  have "wake_thread 3 (add_to_wake_groups [3] (add_waiter_with_state 3 CV_WAITING
          (new_policy\<lparr>wait_queue := [3], threads_with_states := [(3, CV_WAITING)]\<rparr>)))
        = Inr (new_policy\<lparr>wait_queue := [3], threads_with_states := [(3, CV_WAITING)]\<rparr>)"
    by (simp add: new_policy_def add_to_wake_groups_def add_waiter_with_state_def add_waiter_def
        wake_thread_def default_wake_thread_def wg_contains_def)
  from reregistered_waiter_survives_wake [OF _ this] show ?thesis by simp
qed

end
