(* ===== verification/Objects.thy ===== *)
theory Objects
  imports Cond_Policy
begin

text \<open>
  The states of visible objects (\<^verbatim>\<open>include/mcmini/model/objects/\<close>) and the visible object
  itself, a history of such states (\<^verbatim>\<open>include/mcmini/model/visible_object.hpp\<close>).

  A \<^verbatim>\<open>const visible_object_state*\<close> is a value of the datatype \<open>vos\<close>, one constructor per
  concrete subclass; \<^verbatim>\<open>clone()\<close> copies it. A condition variable's copies share its policy by
  pointer in the code. They share it here by value, which is the same because every transition
  clones the policy before changing it (see \<open>Transitions\<close>).

  A C++ \<^verbatim>\<open>static_cast\<close> to the wrong subclass is the error \<open>Bad_cast\<close>.
\<close>

section \<open>Integers\<close>

text \<open>The conversion of a \<^verbatim>\<open>size_t\<close> to the 32-bit \<^verbatim>\<open>int\<close>.\<close>

definition int32_of :: "nat \<Rightarrow> int" where
  "int32_of n = sint (word_of_nat n :: 32 word)"

lemma int32_of_small: "n < 2 ^ 31 \<Longrightarrow> int32_of n = int n"
  by (simp add: int32_of_def signed_of_nat signed_take_bit_int_eq_self_iff)

lemma int32_of_0 [simp]: "int32_of 0 = 0"
  by (simp add: int32_of_def)

section \<open>Mutexes\<close>

datatype mutex_state = Mutex_uninitialized | Mutex_unlocked | Mutex_locked | Mutex_destroyed

record mutex =
  mutex_current_state :: mutex_state
  location :: address
  owner :: runner_id

definition new_mutex :: "mutex_state \<Rightarrow> address \<Rightarrow> runner_id \<Rightarrow> mutex" where
  "new_mutex s loc tid = \<lparr>mutex_current_state = s, location = loc, owner = tid\<rparr>"

definition mutex_eq :: "mutex \<Rightarrow> mutex \<Rightarrow> bool" where
  "mutex_eq m n \<longleftrightarrow> mutex_current_state m = mutex_current_state n \<and> owner m = owner n"

definition mutex_neq :: "mutex \<Rightarrow> mutex \<Rightarrow> bool" where
  "mutex_neq m n \<longleftrightarrow> mutex_current_state m \<noteq> mutex_current_state n"

definition is_locked_by :: "mutex \<Rightarrow> runner_id \<Rightarrow> bool" where
  "is_locked_by m tid \<longleftrightarrow> mutex_current_state m = Mutex_locked \<and> owner m = tid"

definition is_locked :: "mutex \<Rightarrow> bool" where
  "is_locked m \<longleftrightarrow> mutex_current_state m = Mutex_locked"

definition is_unlocked :: "mutex \<Rightarrow> bool" where
  "is_unlocked m \<longleftrightarrow> mutex_current_state m = Mutex_unlocked"

section \<open>Semaphores\<close>

datatype semaphore_state = Sem_uninitialized | Sem_initialized | Sem_destroyed

record semaphore =
  sem_count :: "32 word"
  sem_current_state :: semaphore_state

definition new_semaphore :: "semaphore_state \<Rightarrow> 32 word \<Rightarrow> semaphore" where
  "new_semaphore s n = \<lparr>sem_count = n, sem_current_state = s\<rparr>"

text \<open>\<^verbatim>\<open>semaphore(unsigned count)\<close>.\<close>

definition semaphore_of_count :: "32 word \<Rightarrow> semaphore" where
  "semaphore_of_count n = new_semaphore Sem_initialized n"

text \<open>The bits of the field \<^verbatim>\<open>_count\<close> are read as an \<^verbatim>\<open>int\<close>.\<close>

definition will_block :: "semaphore \<Rightarrow> bool" where
  "will_block s \<longleftrightarrow> sint (sem_count s) \<le> 0"

section \<open>Condition variables\<close>

datatype cv_state =
  Cv_uninitialized | Cv_initialized | Cv_waiting | Cv_signaled | Cv_transitional | Cv_destroyed

text \<open>The field \<^verbatim>\<open>hadwaiters\<close> is never written or read and has no counterpart.\<close>

record condition_variable =
  cv_current_state :: cv_state
  numRemainingSpuriousWakeups :: nat
  running_thread :: runner_id
  associated_mutex :: address
  waiting_count :: int
  prev_waiting_count :: int
  lost_wakeups :: int
  cv_policy :: policy

text \<open>The constructor files recorded waiters into the policy it is given or creates.\<close>

definition init_policy ::
    "(runner_id \<times> condition_variable_status) list \<Rightarrow> policy \<Rightarrow> policy" where
  "init_policy thread_states p =
     (let q = fold (\<lambda>(tid, st) r.
            if st = CV_PREWAITING \<or> st = CV_WAITING then add_waiter_with_state tid st r else r)
            thread_states p;
          signaled = map fst (filter (\<lambda>(tid, st). st = CV_SIGNALED) thread_states)
      in if signaled \<noteq> [] then add_to_wake_groups signaled q else q)"

definition new_condition_variable ::
    "cv_state \<Rightarrow> runner_id \<Rightarrow> address \<Rightarrow> int \<Rightarrow>
     (runner_id \<times> condition_variable_status) list \<Rightarrow> policy option \<Rightarrow> condition_variable" where
  "new_condition_variable s tid mutex count thread_states p =
     \<lparr>cv_current_state = s, numRemainingSpuriousWakeups = 0, running_thread = tid,
      associated_mutex = mutex, waiting_count = count, prev_waiting_count = 0,
      lost_wakeups = 0,
      cv_policy = init_policy thread_states
                    (case p of Some q \<Rightarrow> q | None \<Rightarrow> new_policy)\<rparr>"

definition cv_eq :: "condition_variable \<Rightarrow> condition_variable \<Rightarrow> bool" where
  "cv_eq c d \<longleftrightarrow> cv_current_state c = cv_current_state d"

definition cv_is_uninitialized :: "condition_variable \<Rightarrow> bool" where
  "cv_is_uninitialized c \<longleftrightarrow> cv_current_state c = Cv_uninitialized"

definition cv_is_destroyed :: "condition_variable \<Rightarrow> bool" where
  "cv_is_destroyed c \<longleftrightarrow> cv_current_state c = Cv_destroyed"

definition set_policy :: "policy \<Rightarrow> condition_variable \<Rightarrow> condition_variable" where
  "set_policy p c = c\<lparr>cv_policy := p\<rparr>"

definition set_associated_mutex :: "address \<Rightarrow> condition_variable \<Rightarrow> condition_variable" where
  "set_associated_mutex m c = c\<lparr>associated_mutex := m\<rparr>"

definition cv_has_waiters :: "condition_variable \<Rightarrow> bool" where
  "cv_has_waiters c \<longleftrightarrow> has_waiters (cv_policy c)"

definition remove_waiter :: "runner_id \<Rightarrow> condition_variable \<Rightarrow> condition_variable res" where
  "remove_waiter tid c =
     bind_res (wake_thread tid (cv_policy c))
       (\<lambda>p. Inr (c\<lparr>cv_policy := p,
                   numRemainingSpuriousWakeups :=
                     (if numRemainingSpuriousWakeups c > 0
                      then numRemainingSpuriousWakeups c - 1
                      else numRemainingSpuriousWakeups c)\<rparr>))"

definition cv_add_waiter :: "runner_id \<Rightarrow> condition_variable \<Rightarrow> condition_variable" where
  "cv_add_waiter tid c = c\<lparr>cv_policy := add_waiter tid (cv_policy c)\<rparr>"

definition waiter_can_exit :: "condition_variable \<Rightarrow> runner_id \<Rightarrow> bool" where
  "waiter_can_exit c tid \<longleftrightarrow>
     numRemainingSpuriousWakeups c > 0 \<or> thread_can_exit (cv_policy c) tid"

definition send_signal_message :: "condition_variable \<Rightarrow> condition_variable" where
  "send_signal_message c = c\<lparr>cv_policy := receive_signal_message (cv_policy c)\<rparr>"

definition send_broadcast_message :: "condition_variable \<Rightarrow> condition_variable" where
  "send_broadcast_message c = c\<lparr>cv_policy := receive_broadcast_message (cv_policy c)\<rparr>"

text \<open>The warning written to the error stream is the flag of the result.\<close>

definition check_for_lost_wakeup ::
    "bool \<Rightarrow> int \<Rightarrow> condition_variable \<Rightarrow> condition_variable \<times> bool" where
  "check_for_lost_wakeup is_signal prev c =
     (if \<not> is_signal then (c, False)
      else
        let any_thread_signaled =
              list_ex (\<lambda>id. get_thread_cv_state (cv_policy c) id = CV_SIGNALED)
                (return_wait_queue (cv_policy c))
        in if \<not> any_thread_signaled \<and> prev > 0
           then (c\<lparr>lost_wakeups := lost_wakeups c + 1\<rparr>, True)
           else (c, False))"

section \<open>Threads\<close>

datatype thread_state = Running | Exited | Killed | Embryo

datatype thread_status = ALIVE | EXITED

definition thread_of_status :: "thread_status \<Rightarrow> thread_state" where
  "thread_of_status s = (case s of ALIVE \<Rightarrow> Running | EXITED \<Rightarrow> Exited)"

definition is_embryo :: "thread_state \<Rightarrow> bool" where
  "is_embryo t \<longleftrightarrow> t = Embryo"

definition is_running :: "thread_state \<Rightarrow> bool" where
  "is_running t \<longleftrightarrow> t = Running"

definition has_exited :: "thread_state \<Rightarrow> bool" where
  "has_exited t \<longleftrightarrow> t = Exited"

definition is_active :: "thread_state \<Rightarrow> bool" where
  "is_active t \<longleftrightarrow> is_running t"

section \<open>Object states and visible objects\<close>

datatype vos =
    Mutex_obj mutex
  | Sem_obj semaphore
  | Cv_obj condition_variable
  | Thread_obj thread_state

text \<open>\<^verbatim>\<open>static_cast\<close> to a concrete subclass.\<close>

definition as_mutex :: "vos \<Rightarrow> mutex res" where
  "as_mutex v = (case v of Mutex_obj m \<Rightarrow> Inr m | _ \<Rightarrow> Inl Bad_cast)"

definition as_semaphore :: "vos \<Rightarrow> semaphore res" where
  "as_semaphore v = (case v of Sem_obj s \<Rightarrow> Inr s | _ \<Rightarrow> Inl Bad_cast)"

definition as_cv :: "vos \<Rightarrow> condition_variable res" where
  "as_cv v = (case v of Cv_obj c \<Rightarrow> Inr c | _ \<Rightarrow> Inl Bad_cast)"

definition as_thread :: "vos \<Rightarrow> thread_state res" where
  "as_thread v = (case v of Thread_obj t \<Rightarrow> Inr t | _ \<Rightarrow> Inl Bad_cast)"

lemma as_mutex_eq_Inr [res_simps]: "as_mutex v = Inr m \<longleftrightarrow> v = Mutex_obj m"
  by (cases v) (auto simp: as_mutex_def)

lemma as_semaphore_eq_Inr [res_simps]: "as_semaphore v = Inr s \<longleftrightarrow> v = Sem_obj s"
  by (cases v) (auto simp: as_semaphore_def)

lemma as_cv_eq_Inr [res_simps]: "as_cv v = Inr c \<longleftrightarrow> v = Cv_obj c"
  by (cases v) (auto simp: as_cv_def)

lemma as_thread_eq_Inr [res_simps]: "as_thread v = Inr t \<longleftrightarrow> v = Thread_obj t"
  by (cases v) (auto simp: as_thread_def)

lemma as_obj_simps [simp]:
  "as_mutex (Mutex_obj m) = Inr m" "as_semaphore (Sem_obj s) = Inr s"
  "as_cv (Cv_obj c) = Inr c" "as_thread (Thread_obj t) = Inr t"
  by (simp_all add: as_mutex_def as_semaphore_def as_cv_def as_thread_def)

text \<open>A visible object owns the list of its states, oldest first.\<close>

type_synonym visible_object = "vos list"

definition get_num_states :: "visible_object \<Rightarrow> nat" where
  "get_num_states vo = length vo"

text \<open>\<^verbatim>\<open>history.size() - 1\<close>; every object the model keeps has a state, so nothing wraps.\<close>

definition get_last_state_index :: "visible_object \<Rightarrow> nat" where
  "get_last_state_index vo = length vo - 1"

definition vo_state_at :: "visible_object \<Rightarrow> nat \<Rightarrow> vos res" where
  "vo_state_at vo i = vec_at vo i"

definition vo_get_current_state :: "visible_object \<Rightarrow> vos res" where
  "vo_get_current_state vo = vec_back vo"

definition push_state :: "vos \<Rightarrow> visible_object \<Rightarrow> visible_object" where
  "push_state s vo = vo @ [s]"

text \<open>\<^verbatim>\<open>slice\<close> keeps the states up to and including \<open>index\<close>.\<close>

definition slice_object :: "nat \<Rightarrow> visible_object \<Rightarrow> visible_object" where
  "slice_object index vo = take (index + 1) vo"

definition copy_slice :: "nat \<Rightarrow> visible_object \<Rightarrow> visible_object res" where
  "copy_slice num_states vo =
     (if num_states \<le> length vo then Inr (take num_states vo) else Inl Out_of_range)"

definition consume_into_current_state :: "visible_object \<Rightarrow> vos option \<times> visible_object" where
  "consume_into_current_state vo = (if vo = [] then (None, []) else (Some (last vo), butlast vo))"

end
