(* ===== verification/Injective_Function.thy ===== *)
theory Injective_Function
  imports Prelude
begin

text \<open>
  The one-to-one maps of \<^verbatim>\<open>include/mcmini/misc/injective_function.hpp\<close>, which tie runner ids
  to the object ids of the runners' states. The two hash tables are association lists; the
  invariant \<open>inj_wf\<close> is the comment "forward and backward are mirrors of one another".

  \<^verbatim>\<open>insert\<close> changes the forward table before it finds out that the value is taken and throws.
  The model keeps that state: \<open>inj_insert\<close> returns the function left behind together with the
  outcome of the call.
\<close>

record ('d, 'r) injective_function =
  forward :: "('d \<times> 'r) list"
  backward :: "('r \<times> 'd) list"

definition inj_empty :: "('d, 'r) injective_function" where
  "inj_empty = \<lparr>forward = [], backward = []\<rparr>"

definition inj_size :: "('d, 'r) injective_function \<Rightarrow> nat" where
  "inj_size f = length (forward f)"

definition inj_at :: "('d, 'r) injective_function \<Rightarrow> 'd \<Rightarrow> 'r res" where
  "inj_at f d = map_at (forward f) d"

definition inj_range_at :: "('d, 'r) injective_function \<Rightarrow> 'r \<Rightarrow> 'd res" where
  "inj_range_at f r = map_at (backward f) r"

definition count_domain :: "('d, 'r) injective_function \<Rightarrow> 'd \<Rightarrow> bool" where
  "count_domain f d \<longleftrightarrow> map_of (forward f) d \<noteq> None"

definition count_range :: "('d, 'r) injective_function \<Rightarrow> 'r \<Rightarrow> bool" where
  "count_range f r \<longleftrightarrow> map_of (backward f) r \<noteq> None"

definition inj_insert ::
    "'d \<times> 'r \<Rightarrow> ('d, 'r) injective_function \<Rightarrow> ('d, 'r) injective_function \<times> bool res" where
  "inj_insert vt f =
     (if count_domain f (fst vt) then (f, Inr False)
      else
        let g = f\<lparr>forward := forward f @ [vt]\<rparr>
        in if count_range g (snd vt) then (g, Inl Invalid_insertion)
           else (g\<lparr>backward := backward g @ [(snd vt, fst vt)]\<rparr>, Inr True))"

text \<open>The call as its callers see it, which let the exception through.\<close>

definition inj_insert_or_throw ::
    "'d \<times> 'r \<Rightarrow> ('d, 'r) injective_function \<Rightarrow> ('d, 'r) injective_function res" where
  "inj_insert_or_throw vt f =
     (case inj_insert vt f of (g, Inr _) \<Rightarrow> Inr g | (_, Inl e) \<Rightarrow> Inl e)"

lemma inj_size_extend [simp]:
  "inj_size (f\<lparr>forward := forward f @ xs, backward := ys\<rparr>) = inj_size f + length xs"
  by (simp add: inj_size_def)

section \<open>The invariant\<close>

definition inj_wf :: "('d, 'r) injective_function \<Rightarrow> bool" where
  "inj_wf f \<longleftrightarrow>
     distinct (map fst (forward f)) \<and> distinct (map fst (backward f)) \<and>
     length (forward f) = length (backward f) \<and>
     (\<forall>d r. map_of (forward f) d = Some r \<longleftrightarrow> map_of (backward f) r = Some d)"

lemma inj_wf_empty [simp, wf_intros]: "inj_wf inj_empty"
  by (simp add: inj_wf_def inj_empty_def)

lemma map_of_append_single:
  "map_of xs k = None \<Longrightarrow> map_of (xs @ [(k, v)]) j = (if j = k then Some v else map_of xs j)"
  by (simp add: map_add_def split: option.splits)

lemma inj_wf_append:
  assumes "inj_wf f" and "map_of (forward f) d = None" and "map_of (backward f) r = None"
  shows "inj_wf (f\<lparr>forward := forward f @ [(d, r)], backward := backward f @ [(r, d)]\<rparr>)"
proof -
  have "d \<notin> fst ` set (forward f)" "r \<notin> fst ` set (backward f)"
    using assms(2,3) by (simp_all add: map_of_eq_None_iff)
  moreover have "map_of (forward f) d' = Some r' \<longleftrightarrow> map_of (backward f) r' = Some d'" for d' r'
    using assms(1) by (simp add: inj_wf_def)
  ultimately show ?thesis
    using assms by (auto simp: inj_wf_def map_of_append_single simp del: map_of_append)
qed

lemma inj_insert_fresh:
  assumes "inj_wf f" and "map_of (forward f) d = None" and "map_of (backward f) r = None"
  shows "inj_insert_or_throw (d, r) f
    = Inr (f\<lparr>forward := forward f @ [(d, r)], backward := backward f @ [(r, d)]\<rparr>)"
  using assms
  by (simp add: inj_insert_or_throw_def inj_insert_def count_domain_def count_range_def)

lemma inj_insert_wf [wf_intros]:
  "inj_wf f \<Longrightarrow> inj_insert_or_throw vt f = Inr g \<Longrightarrow> inj_wf g"
  using inj_wf_append [of f "fst vt" "snd vt"]
  by (auto simp: inj_insert_or_throw_def inj_insert_def count_domain_def count_range_def Let_def
      split: if_splits prod.splits sum.splits)

lemma inj_wf_one_to_one:
  "inj_wf f \<Longrightarrow> map_of (forward f) d = Some r \<Longrightarrow> map_of (forward f) d' = Some r \<Longrightarrow> d = d'"
  by (auto simp: inj_wf_def)

section \<open>Properties\<close>

text \<open>
  The two tables stay mirrors of one another: an insertion that returns keeps the invariant,
  so the map is one-to-one, it holds the new pair exactly when the key was unused, and it
  reads back from either side.
\<close>

lemma inj_insert_keeps_mirror:
  assumes "inj_wf f" and "inj_insert vt f = (g, Inr inserted)"
  shows "inj_wf g \<and> (inserted \<longleftrightarrow> \<not> count_domain f (fst vt)) \<and>
    (inserted \<longrightarrow> inj_at g (fst vt) = Inr (snd vt) \<and> inj_range_at g (snd vt) = Inr (fst vt)) \<and>
    (\<forall>d r. inj_at f d = Inr r \<longrightarrow> inj_at g d = Inr r \<and> inj_range_at g r = Inr d)"
proof -
  have i: "inj_insert_or_throw vt f = Inr g" using assms(2) by (simp add: inj_insert_or_throw_def)
  have wf: "inj_wf g" using assms(1) i by (rule inj_insert_wf)
  have flag: "inserted \<longleftrightarrow> \<not> count_domain f (fst vt)"
    using assms(2) by (auto simp: inj_insert_def Let_def split: if_splits)
  have new: "map_of (forward g) (fst vt) = Some (snd vt)" if inserted
    using that flag assms(2) map_of_append_single [of "forward f" "fst vt" "snd vt"]
    by (auto simp: inj_insert_def Let_def count_domain_def
        simp del: map_of_append split: if_splits)
  have old: "map_of (forward g) d = Some r" if "map_of (forward f) d = Some r" for d r
    using that assms(2) by (auto simp: inj_insert_def Let_def map_add_def split: if_splits)
  from wf have mirror: "map_of (forward g) d = Some r \<longleftrightarrow> map_of (backward g) r = Some d" for d r
    by (simp add: inj_wf_def)
  show ?thesis
    using wf flag new old mirror by (auto simp: inj_at_def inj_range_at_def res_simps)
qed

lemma inj_insert_keeps_mirror_example:
  "inj_wf \<lparr>forward = [(0::nat, 4::nat)], backward = [(4, 0)]\<rparr>"
proof -
  have "inj_insert (0, 4) inj_empty
      = (\<lparr>forward = [(0::nat, 4::nat)], backward = [(4, 0)]\<rparr>, Inr True)"
    by (simp add: inj_insert_def inj_empty_def count_domain_def count_range_def)
  from inj_insert_keeps_mirror [OF inj_wf_empty this] show ?thesis by simp
qed

text \<open>
  An insertion that throws does not leave the map as it was: the forward table already holds
  the rejected pair, so two keys map to one value and the map is no longer one-to-one.
\<close>

lemma inj_insert_throw_breaks_mirror:
  assumes "inj_wf f" and "inj_insert vt f = (g, Inl e)"
  shows "e = Invalid_insertion \<and> \<not> inj_wf g \<and>
    (\<exists>d. d \<noteq> fst vt \<and> inj_at g d = Inr (snd vt) \<and> inj_at g (fst vt) = Inr (snd vt))"
proof -
  from assms(2) have fresh: "map_of (forward f) (fst vt) = None"
    and taken: "map_of (backward f) (snd vt) \<noteq> None" and e: "e = Invalid_insertion"
    and g: "g = f\<lparr>forward := forward f @ [vt]\<rparr>"
    by (auto simp: inj_insert_def Let_def count_domain_def count_range_def split: if_splits)
  from taken obtain d where "map_of (backward f) (snd vt) = Some d" by auto
  with assms(1) have d: "map_of (forward f) d = Some (snd vt)" by (simp add: inj_wf_def)
  with fresh have neq: "d \<noteq> fst vt" by auto
  have "inj_at g d = Inr (snd vt)" "inj_at g (fst vt) = Inr (snd vt)"
    using d fresh neq map_of_append_single [of "forward f" "fst vt" "snd vt"]
    by (simp_all add: g inj_at_def res_simps del: map_of_append)
  then show ?thesis using neq e by (auto simp: inj_at_def res_simps dest: inj_wf_one_to_one)
qed

lemma inj_insert_throw_breaks_mirror_example:
  "\<not> inj_wf \<lparr>forward = [(0::nat, 4::nat), (1, 4)], backward = [(4, 0)]\<rparr>"
proof -
  have wf: "inj_wf \<lparr>forward = [(0::nat, 4::nat)], backward = [(4, 0)]\<rparr>"
    by (auto simp: inj_wf_def)
  have "inj_insert (1, 4) \<lparr>forward = [(0::nat, 4::nat)], backward = [(4, 0)]\<rparr>
      = (\<lparr>forward = [(0, 4), (1, 4)], backward = [(4, 0)]\<rparr>, Inl Invalid_insertion)"
    by (simp add: inj_insert_def count_domain_def count_range_def)
  from inj_insert_throw_breaks_mirror [OF wf this] show ?thesis by simp
qed

end
