(* ===== verification/States.thy ===== *)
theory States
  imports Objects Injective_Function
begin

text \<open>
  Program states: \<^verbatim>\<open>include/mcmini/model/state.hpp\<close> and the three implementations of its
  interface, \<^verbatim>\<open>detached_state\<close>, \<^verbatim>\<open>diff_state\<close> and \<^verbatim>\<open>state_sequence\<close> with its
  \<^verbatim>\<open>element\<close>s (\<^verbatim>\<open>include/mcmini/model/state/\<close>, \<^verbatim>\<open>src/mcmini/model/*_state.cpp\<close>,
  \<^verbatim>\<open>state_sequence.cpp\<close>).

  The virtual functions of \<^verbatim>\<open>model::state\<close> are the fields of the record \<open>state_view\<close>, so a
  \<^verbatim>\<open>const state&\<close> is a view: \<open>detached_view\<close>, \<open>diff_view\<close>, \<open>element_view\<close> and
  \<open>seq_view\<close> are the overrides of each class. The invariants of the classes and the laws of
  the interface are in \<open>State_Laws\<close>.
\<close>

section \<open>The interface\<close>

record state_view =
  sv_count :: nat
  sv_runner_count :: nat
  sv_is_runner :: "objid \<Rightarrow> bool"
  sv_contains_object :: "objid \<Rightarrow> bool"
  sv_contains_runner :: "runner_id \<Rightarrow> bool"
  sv_objid_for_runner :: "runner_id \<Rightarrow> objid"
  sv_runner_for_obj :: "objid \<Rightarrow> runner_id"
  sv_object :: "objid \<Rightarrow> vos res"
  sv_runner :: "runner_id \<Rightarrow> vos res"

text \<open>A lookup by \<^verbatim>\<open>at()\<close> that a test in front of it keeps from throwing.\<close>

definition guarded :: "bool \<Rightarrow> 'a res \<Rightarrow> 'a \<Rightarrow> 'a" where
  "guarded b m d = (if b then (case m of Inr x \<Rightarrow> x | Inl _ \<Rightarrow> d) else d)"

section \<open>Detached states\<close>

record detached_state =
  det_visible_objects :: "visible_object list"
  det_runner_to_obj_map :: "(runner_id, objid) injective_function"

definition new_detached :: detached_state where
  "new_detached = \<lparr>det_visible_objects = [], det_runner_to_obj_map = inj_empty\<rparr>"

definition detached_get_object :: "detached_state \<Rightarrow> objid \<Rightarrow> vos res" where
  "detached_get_object d oid = bind_res (vec_at (det_visible_objects d) oid) vo_get_current_state"

definition detached_objid_for_runner :: "detached_state \<Rightarrow> runner_id \<Rightarrow> objid" where
  "detached_objid_for_runner d r =
     guarded (count_domain (det_runner_to_obj_map d) r) (inj_at (det_runner_to_obj_map d) r)
       invalid_objid"

definition detached_view :: "detached_state \<Rightarrow> state_view" where
  "detached_view d =
     \<lparr>sv_count = length (det_visible_objects d),
      sv_runner_count = inj_size (det_runner_to_obj_map d),
      sv_is_runner = count_range (det_runner_to_obj_map d),
      sv_contains_object = (\<lambda>oid. oid < length (det_visible_objects d)),
      sv_contains_runner = count_domain (det_runner_to_obj_map d),
      sv_objid_for_runner = detached_objid_for_runner d,
      sv_runner_for_obj = (\<lambda>oid. guarded (count_range (det_runner_to_obj_map d) oid)
        (inj_range_at (det_runner_to_obj_map d) oid) invalid_rid),
      sv_object = detached_get_object d,
      sv_runner = (\<lambda>r. detached_get_object d (detached_objid_for_runner d r))\<rparr>"

definition detached_add_object :: "vos \<Rightarrow> detached_state \<Rightarrow> objid \<times> detached_state" where
  "detached_add_object s d =
     (let e = d\<lparr>det_visible_objects := det_visible_objects d @ [[s]]\<rparr>
      in (u32 (length (det_visible_objects e) - 1), e))"

definition detached_add_runner :: "vos \<Rightarrow> detached_state \<Rightarrow> (runner_id \<times> detached_state) res" where
  "detached_add_runner s d =
     (let (runner_objid, e) = detached_add_object s d;
          next_runner_id = u16 (inj_size (det_runner_to_obj_map e))
      in bind_res (inj_insert_or_throw (next_runner_id, runner_objid) (det_runner_to_obj_map e))
           (\<lambda>m. Inr (next_runner_id, e\<lparr>det_runner_to_obj_map := m\<rparr>)))"

definition detached_add_state_for_obj ::
    "objid \<Rightarrow> vos \<Rightarrow> detached_state \<Rightarrow> detached_state res" where
  "detached_add_state_for_obj oid s d =
     (if oid = invalid_objid
      then Inl (Runtime_error ''Attempted to insert a state for an invalid object id'')
      else bind_res (vec_at (det_visible_objects d) oid)
        (\<lambda>vo. Inr (d\<lparr>det_visible_objects := (det_visible_objects d)[oid := push_state s vo]\<rparr>)))"

definition detached_add_state_for_runner ::
    "runner_id \<Rightarrow> vos \<Rightarrow> detached_state \<Rightarrow> detached_state res" where
  "detached_add_state_for_runner r s d =
     detached_add_state_for_obj (detached_objid_for_runner d r) s d"

section \<open>Differences from a base state\<close>

record diff_state =
  base_state :: state_view
  new_runners :: "(runner_id, objid) injective_function"
  new_object_states :: "(objid \<times> visible_object) list"

definition new_diff :: "state_view \<Rightarrow> diff_state" where
  "new_diff s = \<lparr>base_state = s, new_runners = inj_empty, new_object_states = []\<rparr>"

text \<open>The copy constructor does not copy \<open>new_runners\<close>.\<close>

definition copy_diff :: "diff_state \<Rightarrow> diff_state" where
  "copy_diff d = \<lparr>base_state = base_state d, new_runners = inj_empty,
     new_object_states = new_object_states d\<rparr>"

definition differs_from_base :: "diff_state \<Rightarrow> bool" where
  "differs_from_base d \<longleftrightarrow> new_object_states d \<noteq> [] \<or> forward (new_runners d) \<noteq> []"

definition diff_count :: "diff_state \<Rightarrow> nat" where
  "diff_count d =
     fold (\<lambda>p count. if sv_contains_object (base_state d) (fst p) then count - 1 else count)
       (new_object_states d) (length (new_object_states d) + sv_count (base_state d))"

definition diff_get_object :: "diff_state \<Rightarrow> objid \<Rightarrow> vos res" where
  "diff_get_object d oid =
     (case map_of (new_object_states d) oid of
        Some vo \<Rightarrow> vo_get_current_state vo
      | None \<Rightarrow> sv_object (base_state d) oid)"

definition diff_objid_for_runner :: "diff_state \<Rightarrow> runner_id \<Rightarrow> objid" where
  "diff_objid_for_runner d r =
     (if count_domain (new_runners d) r
      then guarded True (inj_at (new_runners d) r) invalid_objid
      else sv_objid_for_runner (base_state d) r)"

definition diff_runner_count :: "diff_state \<Rightarrow> nat" where
  "diff_runner_count d = sv_runner_count (base_state d) + inj_size (new_runners d)"

definition diff_get_runner :: "diff_state \<Rightarrow> runner_id \<Rightarrow> vos res" where
  "diff_get_runner d r =
     (if count_domain (new_runners d) r
      then bind_res (inj_at (new_runners d) r) (diff_get_object d)
      else sv_runner (base_state d) r)"

definition diff_view :: "diff_state \<Rightarrow> state_view" where
  "diff_view d =
     \<lparr>sv_count = diff_count d,
      sv_runner_count = diff_runner_count d,
      sv_is_runner = (\<lambda>oid. count_range (new_runners d) oid \<or> sv_is_runner (base_state d) oid),
      sv_contains_object = (\<lambda>oid. map_of (new_object_states d) oid \<noteq> None \<or>
        sv_contains_object (base_state d) oid),
      sv_contains_runner = (\<lambda>r. count_domain (new_runners d) r \<or>
        sv_contains_runner (base_state d) r),
      sv_objid_for_runner = diff_objid_for_runner d,
      sv_runner_for_obj = (\<lambda>oid. if count_range (new_runners d) oid
        then guarded True (inj_range_at (new_runners d) oid) invalid_rid
        else sv_runner_for_obj (base_state d) oid),
      sv_object = diff_get_object d,
      sv_runner = diff_get_runner d\<rparr>"

text \<open>
  \<^verbatim>\<open>new_object_states[next_id] = initial_state\<close> move-assigns a fresh visible object, so it
  replaces whatever the diff recorded under that id.
\<close>

definition diff_add_object :: "vos \<Rightarrow> diff_state \<Rightarrow> objid \<times> diff_state" where
  "diff_add_object s d =
     (let next_id = u32 (sv_count (base_state d) + length (new_object_states d))
      in (next_id, d\<lparr>new_object_states := AList.update next_id [s] (new_object_states d)\<rparr>))"

definition diff_add_runner :: "vos \<Rightarrow> diff_state \<Rightarrow> (runner_id \<times> diff_state) res" where
  "diff_add_runner s d =
     (let (objid, e) = diff_add_object s d;
          next_runner_id = u16 (diff_runner_count e)
      in bind_res (inj_insert_or_throw (next_runner_id, objid) (new_runners e))
           (\<lambda>m. Inr (next_runner_id, e\<lparr>new_runners := m\<rparr>)))"

text \<open>\<^verbatim>\<open>new_object_states[oid]\<close> starts an empty visible object when the id is new.\<close>

definition diff_add_state_for_obj :: "objid \<Rightarrow> vos \<Rightarrow> diff_state \<Rightarrow> diff_state res" where
  "diff_add_state_for_obj oid s d =
     (if oid = invalid_objid
      then Inl (Runtime_error ''Attempted to insert a state for an invalid object id'')
      else
        let vo = (case map_of (new_object_states d) oid of Some vo \<Rightarrow> vo | None \<Rightarrow> [])
        in Inr (d\<lparr>new_object_states :=
                    AList.update oid (push_state s vo) (new_object_states d)\<rparr>))"

definition diff_add_state_for_runner :: "runner_id \<Rightarrow> vos \<Rightarrow> diff_state \<Rightarrow> diff_state res" where
  "diff_add_state_for_runner r s d = diff_add_state_for_obj (diff_objid_for_runner d r) s d"

section \<open>State sequences\<close>

record seq_element =
  visible_object_indices :: "(objid \<times> nat) list"
  max_visible_runner_id :: runner_id

record state_sequence =
  runner_to_obj_map :: "(runner_id, objid) injective_function"
  visible_objects :: "visible_object list"
  states_in_sequence :: "seq_element list"

definition record_new_runner :: "seq_element \<Rightarrow> seq_element" where
  "record_new_runner e = e\<lparr>max_visible_runner_id := u16 (max_visible_runner_id e + 1)\<rparr>"

definition point_to_next_state_for :: "objid \<Rightarrow> seq_element \<Rightarrow> seq_element" where
  "point_to_next_state_for oid e =
     e\<lparr>visible_object_indices :=
         (case map_of (visible_object_indices e) oid of
            Some i \<Rightarrow> AList.update oid (i + 1) (visible_object_indices e)
          | None \<Rightarrow> AList.update oid 0 (visible_object_indices e))\<rparr>"

text \<open>\<^verbatim>\<open>element(const state_sequence*)\<close>: a snapshot of every object's last state.\<close>

definition new_element :: "state_sequence \<Rightarrow> seq_element" where
  "new_element ss =
     \<lparr>visible_object_indices =
        map (\<lambda>i. (i, get_last_state_index (visible_objects ss ! i)))
          [0..<length (visible_objects ss)],
      max_visible_runner_id = u16 (inj_size (runner_to_obj_map ss))\<rparr>"

definition element_contains_object :: "seq_element \<Rightarrow> objid \<Rightarrow> bool" where
  "element_contains_object e oid \<longleftrightarrow> oid < length (visible_object_indices e)"

definition element_contains_runner :: "state_sequence \<Rightarrow> seq_element \<Rightarrow> runner_id \<Rightarrow> bool" where
  "element_contains_runner ss e r \<longleftrightarrow>
     r < max_visible_runner_id e \<and> count_domain (runner_to_obj_map ss) r"

definition element_is_runner :: "state_sequence \<Rightarrow> seq_element \<Rightarrow> objid \<Rightarrow> bool" where
  "element_is_runner ss e oid \<longleftrightarrow>
     element_contains_object e oid \<and> count_range (runner_to_obj_map ss) oid"

definition element_objid_for_runner :: "state_sequence \<Rightarrow> seq_element \<Rightarrow> runner_id \<Rightarrow> objid" where
  "element_objid_for_runner ss e r =
     guarded (element_contains_runner ss e r) (inj_at (runner_to_obj_map ss) r) invalid_objid"

definition element_get_object :: "state_sequence \<Rightarrow> seq_element \<Rightarrow> objid \<Rightarrow> vos res" where
  "element_get_object ss e oid =
     bind_res (vec_at (visible_objects ss) oid)
       (\<lambda>vo. bind_res (map_at (visible_object_indices e) oid) (\<lambda>i. vo_state_at vo i))"

definition element_view :: "state_sequence \<Rightarrow> seq_element \<Rightarrow> state_view" where
  "element_view ss e =
     \<lparr>sv_count = length (visible_object_indices e),
      sv_runner_count = max_visible_runner_id e,
      sv_is_runner = element_is_runner ss e,
      sv_contains_object = element_contains_object e,
      sv_contains_runner = element_contains_runner ss e,
      sv_objid_for_runner = element_objid_for_runner ss e,
      sv_runner_for_obj = (\<lambda>oid. guarded (element_is_runner ss e oid)
        (inj_range_at (runner_to_obj_map ss) oid) invalid_rid),
      sv_object = element_get_object ss e,
      sv_runner = (\<lambda>r. element_get_object ss e (element_objid_for_runner ss e r))\<rparr>"

definition representative_state :: "state_sequence \<Rightarrow> seq_element" where
  "representative_state ss = last (states_in_sequence ss)"

definition update_representative ::
    "(seq_element \<Rightarrow> seq_element) \<Rightarrow> state_sequence \<Rightarrow> state_sequence" where
  "update_representative f ss =
     ss\<lparr>states_in_sequence :=
          butlast (states_in_sequence ss) @ [f (last (states_in_sequence ss))]\<rparr>"

text \<open>A sequence answers every query through its last element.\<close>

definition seq_view :: "state_sequence \<Rightarrow> state_view" where
  "seq_view ss = element_view ss (representative_state ss)"

definition push_state_snapshot :: "state_sequence \<Rightarrow> state_sequence" where
  "push_state_snapshot ss = ss\<lparr>states_in_sequence := states_in_sequence ss @ [new_element ss]\<rparr>"

definition new_seq :: state_sequence where
  "new_seq = push_state_snapshot
     \<lparr>runner_to_obj_map = inj_empty, visible_objects = [], states_in_sequence = []\<rparr>"

definition seq_of_objects :: "visible_object list \<Rightarrow> state_sequence" where
  "seq_of_objects initial_objects = push_state_snapshot
     \<lparr>runner_to_obj_map = inj_empty, visible_objects = initial_objects, states_in_sequence = []\<rparr>"

definition seq_add_object :: "vos \<Rightarrow> state_sequence \<Rightarrow> objid \<times> state_sequence" where
  "seq_add_object s ss =
     (let oid = u32 (length (visible_objects ss));
          ss1 = update_representative (point_to_next_state_for oid) ss
      in (oid, ss1\<lparr>visible_objects := visible_objects ss1 @ [[s]]\<rparr>))"

definition seq_add_runner :: "vos \<Rightarrow> state_sequence \<Rightarrow> (runner_id \<times> state_sequence) res" where
  "seq_add_runner s ss =
     (let (runner_objid, ss1) = seq_add_object s ss;
          next_runner_id = u16 (inj_size (runner_to_obj_map ss1))
      in bind_res (inj_insert_or_throw (next_runner_id, runner_objid) (runner_to_obj_map ss1))
           (\<lambda>m. Inr (next_runner_id,
             update_representative record_new_runner (ss1\<lparr>runner_to_obj_map := m\<rparr>))))"

definition seq_add_state_for_obj :: "objid \<Rightarrow> vos \<Rightarrow> state_sequence \<Rightarrow> state_sequence res" where
  "seq_add_state_for_obj oid s ss =
     (if oid = invalid_objid
      then Inl (Runtime_error ''Attempted to insert a state for an invalid object id'')
      else
        let ss1 = update_representative (point_to_next_state_for oid) ss
        in bind_res (vec_at (visible_objects ss1) oid)
             (\<lambda>vo. Inr (ss1\<lparr>visible_objects := (visible_objects ss1)[oid := push_state s vo]\<rparr>)))"

definition seq_add_state_for_runner ::
    "runner_id \<Rightarrow> vos \<Rightarrow> state_sequence \<Rightarrow> state_sequence res" where
  "seq_add_state_for_runner r s ss =
     (let objid = sv_objid_for_runner (seq_view ss) r
      in if objid = invalid_objid
         then Inl (Runtime_error
           ''Attempted to insert a state for a runner that does not exist in this state.'')
         else seq_add_state_for_obj objid s ss)"

text \<open>\<^verbatim>\<open>state_sequence(const state&)\<close>: the objects, then the runners, of another state.\<close>

definition seq_of_state :: "state_view \<Rightarrow> state_sequence res" where
  "seq_of_state s =
     bind_res
       (fold_res (\<lambda>i ss. bind_res (sv_object s i) (\<lambda>v. Inr (snd (seq_add_object v ss))))
          [0..<u32 (sv_count s)] new_seq)
       (fold_res (\<lambda>p ss.
            let ss1 = update_representative record_new_runner ss
            in bind_res (inj_insert_or_throw (p, sv_objid_for_runner s p)
                          (runner_to_obj_map ss1))
                 (\<lambda>m. Inr (ss1\<lparr>runner_to_obj_map := m\<rparr>)))
          [0..<u16 (sv_runner_count s)])"

text \<open>\<^verbatim>\<open>state_at\<close>, \<^verbatim>\<open>front\<close>, \<^verbatim>\<open>back\<close>.\<close>

definition seq_state_at :: "state_sequence \<Rightarrow> nat \<Rightarrow> state_view res" where
  "seq_state_at ss i =
     bind_res (vec_at (states_in_sequence ss) i) (\<lambda>e. Inr (element_view ss e))"

definition seq_back :: "state_sequence \<Rightarrow> state_view res" where
  "seq_back ss = bind_res (vec_back (states_in_sequence ss)) (\<lambda>e. Inr (element_view ss e))"

definition get_num_states_in_sequence :: "state_sequence \<Rightarrow> nat" where
  "get_num_states_in_sequence ss = length (states_in_sequence ss)"

text \<open>
  The end of \<^verbatim>\<open>follow\<close>: every object the diff changed gets the diff's last state for it, and
  a snapshot closes the step. The element access \<^verbatim>\<open>visible_objects[id]\<close> is unchecked, and an
  object without a state would be given a null pointer.
\<close>

definition seq_push_new_state :: "objid \<times> visible_object \<Rightarrow> state_sequence \<Rightarrow> state_sequence res" where
  "seq_push_new_state new_state ss =
     (case fst (consume_into_current_state (snd new_state)) of
        None \<Rightarrow> Inl Null_dereference
      | Some v \<Rightarrow>
          if fst new_state < length (visible_objects ss)
          then Inr (ss\<lparr>visible_objects := (visible_objects ss)
                 [fst new_state := push_state v (visible_objects ss ! fst new_state)]\<rparr>)
          else Inl Array_overrun)"

definition seq_commit :: "diff_state \<Rightarrow> state_sequence \<Rightarrow> state_sequence res" where
  "seq_commit d ss =
     bind_res (fold_res seq_push_new_state (new_object_states d) ss)
       (\<lambda>ss1. Inr (push_state_snapshot ss1))"

text \<open>The object at index \<open>i\<close> loses the states the new last element does not know.\<close>

definition slice_for_element :: "seq_element \<Rightarrow> objid \<Rightarrow> state_sequence \<Rightarrow> state_sequence res" where
  "slice_for_element current_state i ss =
     bind_res
       (if element_contains_object current_state i
        then map_at (visible_object_indices current_state) i
        else Inr 0)
       (\<lambda>idx. Inr (ss\<lparr>visible_objects :=
          (visible_objects ss)[i := slice_object idx (visible_objects ss ! i)]\<rparr>))"

definition consume_into_subsequence :: "nat \<Rightarrow> state_sequence \<Rightarrow> state_sequence res" where
  "consume_into_subsequence num_states ss =
     (if num_states \<ge> length (states_in_sequence ss) then Inr ss
      else
        let ss1 = ss\<lparr>states_in_sequence := take num_states (states_in_sequence ss)\<rparr>
        in bind_res (vec_back (states_in_sequence ss1))
             (\<lambda>current_state. fold_res (slice_for_element current_state)
                [0..<length (visible_objects ss1)] ss1))"

end
