(* ===== verification/Transitions.thy ===== *)
theory Transitions
  imports States
begin

text \<open>
  Transitions: \<^verbatim>\<open>include/mcmini/model/transition.hpp\<close> and the classes under
  \<^verbatim>\<open>include/mcmini/model/transitions/\<close>. The datatype \<open>transition\<close> has one constructor per
  class, its arguments the executor and the class's fields. Each \<^verbatim>\<open>modify\<close> is a definition of
  its own on a \<open>diff_state\<close>, the only \<^verbatim>\<open>mutable_state\<close> \<^verbatim>\<open>apply_to\<close> passes, and
  \<open>modify\<close> is the virtual call. A result carries the modified state and the status; a
  \<^verbatim>\<open>static_cast\<close> to the wrong class or a failed lookup is an error.

  \<^verbatim>\<open>sem_destroy.hpp\<close> names a member it does not have and is included nowhere; it has no
  constructor here. The texts of \<^verbatim>\<open>to_string\<close> are not modelled.
\<close>

datatype transition =
    Thread_start runner_id
  | Thread_create runner_id runner_id
  | Thread_exit runner_id
  | Thread_join runner_id runner_id
  | Mutex_init runner_id objid
  | Mutex_lock runner_id objid
  | Mutex_unlock runner_id objid
  | Cond_init runner_id objid
  | Cond_enqueue runner_id objid objid
  | Cond_wait runner_id objid objid
  | Cond_signal runner_id objid
  | Cond_broadcast runner_id objid
  | Cond_destroy runner_id objid
  | Sem_init runner_id objid "32 word"
  | Sem_post runner_id objid
  | Sem_wait runner_id objid
  | Process_exit runner_id int
  | Process_abort runner_id

fun get_executor :: "transition \<Rightarrow> runner_id" where
  "get_executor (Thread_start e) = e"
| "get_executor (Thread_create e _) = e"
| "get_executor (Thread_exit e) = e"
| "get_executor (Thread_join e _) = e"
| "get_executor (Mutex_init e _) = e"
| "get_executor (Mutex_lock e _) = e"
| "get_executor (Mutex_unlock e _) = e"
| "get_executor (Cond_init e _) = e"
| "get_executor (Cond_enqueue e _ _) = e"
| "get_executor (Cond_wait e _ _) = e"
| "get_executor (Cond_signal e _) = e"
| "get_executor (Cond_broadcast e _) = e"
| "get_executor (Cond_destroy e _) = e"
| "get_executor (Sem_init e _ _) = e"
| "get_executor (Sem_post e _) = e"
| "get_executor (Sem_wait e _) = e"
| "get_executor (Process_exit e _) = e"
| "get_executor (Process_abort e) = e"

datatype status = Exists | Disabled | Undefined

type_synonym outcome = "(diff_state \<times> status) res"

text \<open>A write followed by \<^verbatim>\<open>return status::exists\<close>.\<close>

definition exists_after :: "diff_state res \<Rightarrow> outcome" where
  "exists_after m = bind_res m (\<lambda>d. Inr (d, Exists))"

definition get_mutex :: "diff_state \<Rightarrow> objid \<Rightarrow> mutex res" where
  "get_mutex s oid = bind_res (diff_get_object s oid) as_mutex"

definition get_semaphore :: "diff_state \<Rightarrow> objid \<Rightarrow> semaphore res" where
  "get_semaphore s oid = bind_res (diff_get_object s oid) as_semaphore"

definition get_cv :: "diff_state \<Rightarrow> objid \<Rightarrow> condition_variable res" where
  "get_cv s oid = bind_res (diff_get_object s oid) as_cv"

definition get_thread :: "diff_state \<Rightarrow> runner_id \<Rightarrow> thread_state res" where
  "get_thread s r = bind_res (diff_get_runner s r) as_thread"

section \<open>Threads\<close>

definition thread_start_modify :: "runner_id \<Rightarrow> diff_state \<Rightarrow> outcome" where
  "thread_start_modify executor s =
     bind_res (get_thread s executor)
       (\<lambda>thread_state. Inr (s, if is_embryo thread_state then Disabled else Exists))"

definition thread_create_modify :: "runner_id \<Rightarrow> diff_state \<Rightarrow> outcome" where
  "thread_create_modify target s =
     exists_after (diff_add_state_for_runner target (Thread_obj Running) s)"

definition thread_exit_modify :: "runner_id \<Rightarrow> diff_state \<Rightarrow> outcome" where
  "thread_exit_modify executor s =
     bind_res (get_thread s executor)
       (\<lambda>thread_state.
          if \<not> is_running thread_state \<or> executor = RID_MAIN_THREAD then Inr (s, Disabled)
          else exists_after (diff_add_state_for_runner executor (Thread_obj Exited) s))"

definition thread_join_modify :: "runner_id \<Rightarrow> diff_state \<Rightarrow> outcome" where
  "thread_join_modify target s =
     bind_res (get_thread s target)
       (\<lambda>target_state. Inr (s, if has_exited target_state then Exists else Disabled))"

section \<open>Mutexes\<close>

definition mutex_init_modify :: "objid \<Rightarrow> diff_state \<Rightarrow> outcome" where
  "mutex_init_modify mutex_id s =
     bind_res (get_mutex s mutex_id)
       (\<lambda>ms. exists_after (diff_add_state_for_obj mutex_id
          (Mutex_obj (new_mutex Mutex_unlocked (location ms) RID_INVALID)) s))"

definition mutex_lock_modify :: "runner_id \<Rightarrow> objid \<Rightarrow> diff_state \<Rightarrow> outcome" where
  "mutex_lock_modify executor mutex_id s =
     bind_res (get_mutex s mutex_id)
       (\<lambda>ms.
          if is_locked ms then Inr (s, Disabled)
          else exists_after (diff_add_state_for_obj mutex_id
            (Mutex_obj (new_mutex Mutex_locked (location ms) executor)) s))"

definition mutex_unlock_modify :: "runner_id \<Rightarrow> objid \<Rightarrow> diff_state \<Rightarrow> outcome" where
  "mutex_unlock_modify executor mutex_id s =
     bind_res (get_mutex s mutex_id)
       (\<lambda>ms.
          if \<not> is_locked_by ms executor then Inr (s, Disabled)
          else exists_after (diff_add_state_for_obj mutex_id
            (Mutex_obj (new_mutex Mutex_unlocked (location ms) RID_INVALID)) s))"

section \<open>Condition variables\<close>

definition cond_init_modify :: "objid \<Rightarrow> diff_state \<Rightarrow> outcome" where
  "cond_init_modify cond_id s =
     exists_after (diff_add_state_for_obj cond_id
       (Cv_obj (new_condition_variable Cv_initialized RID_INVALID 0 0 [] None)) s)"

text \<open>\<^verbatim>\<open>const int new_waiting_count = new_policy->return_wait_queue().size()\<close>.\<close>

definition new_waiting_count :: "policy \<Rightarrow> int" where
  "new_waiting_count p = int32_of (length (return_wait_queue p))"

definition state_for_count :: "int \<Rightarrow> cv_state" where
  "state_for_count n = (if n > 0 then Cv_waiting else Cv_signaled)"

definition cond_enqueue_modify ::
    "runner_id \<Rightarrow> objid \<Rightarrow> objid \<Rightarrow> diff_state \<Rightarrow> outcome" where
  "cond_enqueue_modify executor cond_id mutex_id s =
     bind_res (get_cv s cond_id) (\<lambda>cv.
     bind_res (get_mutex s mutex_id) (\<lambda>m.
       if is_unlocked m then Inr (s, Disabled)
       else if \<not> is_locked_by m executor then Inr (s, Disabled)
       else
         let p0 = clone_policy (cv_policy cv);
             p1 = (if get_thread_cv_state p0 executor = CV_PREWAITING
                   then update_thread_cv_state executor CV_WAITING p0 else p0);
             p2 = add_waiter_with_state executor CV_WAITING p1;
             new_cv = set_policy p2 (new_condition_variable Cv_waiting executor (location m)
               (new_waiting_count p2) [] None)
         in exists_after
              (bind_res (diff_add_state_for_obj cond_id (Cv_obj new_cv) s)
                 (diff_add_state_for_obj mutex_id
                    (Mutex_obj (new_mutex Mutex_unlocked (location m) RID_INVALID))))))"

definition cond_wait_modify :: "runner_id \<Rightarrow> objid \<Rightarrow> objid \<Rightarrow> diff_state \<Rightarrow> outcome" where
  "cond_wait_modify executor cond_id mutex_id s =
     bind_res (get_cv s cond_id) (\<lambda>cv.
     bind_res (get_mutex s mutex_id) (\<lambda>m.
       if cv_is_uninitialized cv \<or> cv_is_destroyed cv then Inr (s, Undefined)
       else if is_locked_by m executor then Inr (s, Disabled)
       else if \<not> (waiter_can_exit cv executor \<and> location m = associated_mutex cv \<and> is_unlocked m)
       then Inr (s, Disabled)
       else
         bind_res (diff_add_state_for_obj mutex_id
             (Mutex_obj (new_mutex Mutex_locked (location m) executor)) s) (\<lambda>s1.
         bind_res (wake_thread executor (clone_policy (cv_policy cv))) (\<lambda>p.
           let n = new_waiting_count p;
               new_cv = set_policy p (new_condition_variable (state_for_count n) executor
                 (location m) n [] None)
           in exists_after (diff_add_state_for_obj cond_id (Cv_obj new_cv) s1)))))"

text \<open>The sleeping threads, without those still preparing to sleep.\<close>

definition waiting_threads :: "condition_variable \<Rightarrow> runner_id list" where
  "waiting_threads cv =
     filter (\<lambda>tid. get_thread_cv_state (cv_policy cv) tid = CV_WAITING)
       (return_wait_queue (cv_policy cv))"

definition cond_signal_modify :: "objid \<Rightarrow> diff_state \<Rightarrow> outcome" where
  "cond_signal_modify cond_id s =
     bind_res (get_cv s cond_id) (\<lambda>cv.
       if cv_is_uninitialized cv then Inr (s, Undefined)
       else if cv_is_destroyed cv then Inr (s, Undefined)
       else if \<not> cv_has_waiters cv then Inr (s, Exists)
       else
         let p0 = clone_policy (cv_policy cv);
             p = (if waiting_threads cv \<noteq> [] then add_to_wake_groups (waiting_threads cv) p0
                  else p0);
             n = new_waiting_count p;
             new_cv = set_associated_mutex (associated_mutex cv)
               (set_policy p (new_condition_variable (state_for_count n) RID_INVALID 0 n [] None))
         in exists_after (diff_add_state_for_obj cond_id (Cv_obj new_cv) s))"

text \<open>
  Whether signalling \<open>cv\<close> prints the lost-wakeup warning. The check runs on a temporary
  condition variable built without the policy of \<open>cv\<close>.
\<close>

definition signal_warns :: "condition_variable \<Rightarrow> bool" where
  "signal_warns cv \<longleftrightarrow>
     \<not> cv_is_uninitialized cv \<and> \<not> cv_is_destroyed cv \<and> cv_has_waiters cv \<and>
     (let prev_waiting_count = int (length (waiting_threads cv));
          n = new_waiting_count (cv_policy cv);
          mutable_cv = new_condition_variable (state_for_count n) RID_INVALID 0 n [] None
      in snd (check_for_lost_wakeup True prev_waiting_count mutable_cv))"

definition cond_broadcast_modify :: "runner_id \<Rightarrow> objid \<Rightarrow> diff_state \<Rightarrow> outcome" where
  "cond_broadcast_modify executor cond_id s =
     bind_res (get_cv s cond_id) (\<lambda>cv.
       if cv_is_uninitialized cv then Inr (s, Undefined)
       else if cv_is_destroyed cv then Inr (s, Undefined)
       else if \<not> cv_has_waiters cv then Inr (s, Exists)
       else
         let p0 = clone_policy (cv_policy cv);
             p1 = (if waiting_threads cv \<noteq> [] then add_to_wake_groups (waiting_threads cv) p0
                   else p0);
             p = receive_broadcast_message p1;
             n = new_waiting_count p;
             new_cv = set_policy p (new_condition_variable (state_for_count n) executor
               (associated_mutex cv) n [] None)
         in exists_after (diff_add_state_for_obj cond_id (Cv_obj new_cv) s))"

definition cond_destroy_modify :: "runner_id \<Rightarrow> objid \<Rightarrow> diff_state \<Rightarrow> outcome" where
  "cond_destroy_modify executor cond_id s =
     bind_res (get_cv s cond_id) (\<lambda>cv.
       if cv_is_uninitialized cv then Inr (s, Undefined)
       else if cv_is_destroyed cv then Inr (s, Undefined)
       else if cv_has_waiters cv then Inr (s, Undefined)
       else exists_after (diff_add_state_for_obj cond_id
         (Cv_obj (new_condition_variable Cv_destroyed executor 0 0 [] None)) s))"

section \<open>Semaphores\<close>

definition sem_init_modify :: "objid \<Rightarrow> 32 word \<Rightarrow> diff_state \<Rightarrow> outcome" where
  "sem_init_modify sem_id count s =
     exists_after (diff_add_state_for_obj sem_id (Sem_obj (semaphore_of_count count)) s)"

definition sem_post_modify :: "objid \<Rightarrow> diff_state \<Rightarrow> outcome" where
  "sem_post_modify sem_id s =
     bind_res (get_semaphore s sem_id)
       (\<lambda>sem. exists_after (diff_add_state_for_obj sem_id
          (Sem_obj (semaphore_of_count (sem_count sem + 1))) s))"

definition sem_wait_modify :: "objid \<Rightarrow> diff_state \<Rightarrow> outcome" where
  "sem_wait_modify sem_id s =
     bind_res (get_semaphore s sem_id)
       (\<lambda>sem.
          if will_block sem then Inr (s, Disabled)
          else exists_after (diff_add_state_for_obj sem_id
            (Sem_obj (semaphore_of_count (sem_count sem - 1))) s))"

section \<open>Processes\<close>

definition process_exit_modify :: "runner_id \<Rightarrow> diff_state \<Rightarrow> outcome" where
  "process_exit_modify executor s =
     exists_after (diff_add_state_for_runner executor (Thread_obj Exited) s)"

definition process_abort_modify :: "diff_state \<Rightarrow> outcome" where
  "process_abort_modify s = Inr (s, Exists)"

fun program_exit_code :: "transition \<Rightarrow> int" where
  "program_exit_code (Process_exit _ exit_code) = exit_code"
| "program_exit_code _ = -1"

fun aborts_program_execution :: "transition \<Rightarrow> bool" where
  "aborts_program_execution (Process_abort _) = True"
| "aborts_program_execution _ = False"

section \<open>Applying a transition\<close>

fun modify :: "transition \<Rightarrow> diff_state \<Rightarrow> outcome" where
  "modify (Thread_start e) s = thread_start_modify e s"
| "modify (Thread_create e t) s = thread_create_modify t s"
| "modify (Thread_exit e) s = thread_exit_modify e s"
| "modify (Thread_join e t) s = thread_join_modify t s"
| "modify (Mutex_init e m) s = mutex_init_modify m s"
| "modify (Mutex_lock e m) s = mutex_lock_modify e m s"
| "modify (Mutex_unlock e m) s = mutex_unlock_modify e m s"
| "modify (Cond_init e c) s = cond_init_modify c s"
| "modify (Cond_enqueue e c m) s = cond_enqueue_modify e c m s"
| "modify (Cond_wait e c m) s = cond_wait_modify e c m s"
| "modify (Cond_signal e c) s = cond_signal_modify c s"
| "modify (Cond_broadcast e c) s = cond_broadcast_modify e c s"
| "modify (Cond_destroy e c) s = cond_destroy_modify e c s"
| "modify (Sem_init e sm n) s = sem_init_modify sm n s"
| "modify (Sem_post e sm) s = sem_post_modify sm s"
| "modify (Sem_wait e sm) s = sem_wait_modify sm s"
| "modify (Process_exit e n) s = process_exit_modify e s"
| "modify (Process_abort e) s = process_abort_modify s"

definition apply_to :: "transition \<Rightarrow> state_view \<Rightarrow> outcome" where
  "apply_to t s =
     bind_res (bind_res (sv_runner s (get_executor t)) as_thread) (\<lambda>executor_state.
       if is_active executor_state
       then bind_res (modify t (new_diff s)) (\<lambda>(s_prime, st).
              if st = Exists then Inr (copy_diff s_prime, Exists)
              else Inr (copy_diff (new_diff s), Disabled))
       else Inr (copy_diff (new_diff s), Disabled))"

definition is_enabled_in :: "transition \<Rightarrow> state_view \<Rightarrow> bool res" where
  "is_enabled_in t s = bind_res (apply_to t s) (\<lambda>(_, st). Inr (st = Exists))"

definition is_disabled_in :: "transition \<Rightarrow> state_view \<Rightarrow> bool res" where
  "is_disabled_in t s = bind_res (is_enabled_in t s) (\<lambda>b. Inr (\<not> b))"

text \<open>\<^verbatim>\<open>state_sequence::follow\<close>.\<close>

definition follow :: "transition \<Rightarrow> state_sequence \<Rightarrow> (status \<times> state_sequence) res" where
  "follow t ss =
     bind_res (apply_to t (seq_view ss)) (\<lambda>(d, st).
       if st = Exists then bind_res (seq_commit d ss) (\<lambda>ss1. Inr (st, ss1))
       else Inr (st, ss))"

end
