(* ===== verification/Stack_Item.thy ===== *)
theory Stack_Item
  imports Clock_Vector Transitions
begin

text \<open>
  What DPOR remembers about a state it has visited:
  \<^verbatim>\<open>model_checking/algorithms/classic_dpor/runner_item.hpp\<close> and \<^verbatim>\<open>stack_item.hpp\<close>. The
  sets are lists without duplicates; \<^verbatim>\<open>*begin()\<close> of a set is the head of the list. The pointer
  to the outgoing transition is the transition it points to, which outlives the pointer as long as
  the item is on the stack.
\<close>

section \<open>Runner items\<close>

record runner_item =
  executionDepth :: nat
  ri_cv :: clock_vector

definition new_runner_item :: runner_item where
  "new_runner_item = \<lparr>executionDepth = 0, ri_cv = []\<rparr>"

definition increment_execution_depth :: "runner_item \<Rightarrow> runner_item" where
  "increment_execution_depth ri = ri\<lparr>executionDepth := u32 (executionDepth ri + 1)\<rparr>"

text \<open>\<^verbatim>\<open>std::min(0u, executionDepth - 1)\<close>.\<close>

definition decrement_execution_depth_if_possible :: "runner_item \<Rightarrow> runner_item" where
  "decrement_execution_depth_if_possible ri =
     ri\<lparr>executionDepth := min 0 (u32_minus (executionDepth ri) 1)\<rparr>"

definition set_clock_vector :: "clock_vector \<Rightarrow> runner_item \<Rightarrow> runner_item" where
  "set_clock_vector new_cv ri = ri\<lparr>ri_cv := new_cv\<rparr>"

section \<open>Stack items\<close>

record stack_item =
  si_cv :: clock_vector
  per_runner_clocks :: "runner_item list"
  out_transition :: "transition option"
  backtrack_set :: "runner_id list"
  done_set :: "runner_id list"
  sleep_set :: "runner_id list"
  enabled_runners :: "runner_id list"

text \<open>The \<^verbatim>\<open>std::array\<close> of clocks has one entry for each possible thread.\<close>

definition no_clocks :: "runner_item list" where
  "no_clocks = replicate MAX_TOTAL_THREADS_IN_PROGRAM new_runner_item"

definition new_stack_item ::
    "clock_vector \<Rightarrow> runner_item list \<Rightarrow> transition option \<Rightarrow> runner_id list \<Rightarrow> stack_item" where
  "new_stack_item cv clocks out enabled =
     \<lparr>si_cv = cv, per_runner_clocks = clocks, out_transition = out, backtrack_set = [],
      done_set = [], sleep_set = [], enabled_runners = enabled\<rparr>"

text \<open>\<^verbatim>\<open>stack_item(cv, enabled_runners)\<close>.\<close>

definition initial_stack_item :: "clock_vector \<Rightarrow> runner_id list \<Rightarrow> stack_item" where
  "initial_stack_item cv enabled = new_stack_item cv no_clocks None enabled"

definition backtrack_set_empty :: "stack_item \<Rightarrow> bool" where
  "backtrack_set_empty si \<longleftrightarrow> backtrack_set si = []"

definition backtrack_set_contains :: "stack_item \<Rightarrow> runner_id \<Rightarrow> bool" where
  "backtrack_set_contains si r \<longleftrightarrow> r \<in> set (backtrack_set si)"

definition sleep_set_contains :: "stack_item \<Rightarrow> runner_id \<Rightarrow> bool" where
  "sleep_set_contains si r \<longleftrightarrow> r \<in> set (sleep_set si)"

definition done_set_contains :: "stack_item \<Rightarrow> runner_id \<Rightarrow> bool" where
  "done_set_contains si r \<longleftrightarrow> r \<in> set (done_set si)"

definition has_enabled_runners :: "stack_item \<Rightarrow> bool" where
  "has_enabled_runners si \<longleftrightarrow> enabled_runners si \<noteq> []"

definition insert_into_backtrack_set_unless_completed :: "runner_id \<Rightarrow> stack_item \<Rightarrow> stack_item" where
  "insert_into_backtrack_set_unless_completed r si =
     (if \<not> done_set_contains si r then si\<lparr>backtrack_set := set_insert r (backtrack_set si)\<rparr> else si)"

definition insert_into_sleep_set :: "runner_id \<Rightarrow> stack_item \<Rightarrow> stack_item" where
  "insert_into_sleep_set r si = si\<lparr>sleep_set := set_insert r (sleep_set si)\<rparr>"

definition mark_searched :: "runner_id \<Rightarrow> stack_item \<Rightarrow> stack_item" where
  "mark_searched r si =
     si\<lparr>done_set := set_insert r (done_set si), backtrack_set := set_erase r (backtrack_set si)\<rparr>"

definition mark_enabled_in_state :: "runner_id list \<Rightarrow> stack_item \<Rightarrow> stack_item" where
  "mark_enabled_in_state rs si = si\<lparr>enabled_runners := fold set_insert rs (enabled_runners si)\<rparr>"

definition backtrack_set_pop :: "stack_item \<Rightarrow> (runner_id \<times> stack_item) res" where
  "backtrack_set_pop si =
     (if backtrack_set_empty si
      then Inl (Runtime_error ''There are no more threads to backtrack on'')
      else let r = hd (backtrack_set si) in Inr (r, mark_searched r si))"

definition backtrack_set_pop_first :: "stack_item \<Rightarrow> (runner_id \<times> stack_item) res" where
  "backtrack_set_pop_first si =
     (if backtrack_set_empty si
      then Inl (Runtime_error ''There are no more threads to backtrack on'')
      else let r = fold min (backtrack_set si) (hd (backtrack_set si)) in Inr (r, mark_searched r si))"

definition get_first_enabled_runner :: "stack_item \<Rightarrow> runner_id" where
  "get_first_enabled_runner si = fold min (enabled_runners si) RUNNER_ID_MAX"

definition set_out_transition :: "transition option \<Rightarrow> stack_item \<Rightarrow> stack_item" where
  "set_out_transition out si = si\<lparr>out_transition := out\<rparr>"

section \<open>Laws\<close>

text \<open>
  The sets have no duplicates and no runner is scheduled that was searched already. The two other
  exclusions the header announces do not hold; see \<open>Dpor_Properties\<close>.
\<close>

definition item_wf :: "stack_item \<Rightarrow> bool" where
  "item_wf si \<longleftrightarrow>
     cv_wf (si_cv si) \<and> length (per_runner_clocks si) = MAX_TOTAL_THREADS_IN_PROGRAM \<and>
     (\<forall>ri \<in> set (per_runner_clocks si). cv_wf (ri_cv ri)) \<and>
     distinct (backtrack_set si) \<and> distinct (done_set si) \<and> distinct (sleep_set si) \<and>
     set (backtrack_set si) \<inter> set (done_set si) = {} \<and>
     set (done_set si) \<subseteq> {..<MAX_TOTAL_THREADS_IN_PROGRAM}"

lemma item_ops_simps [simp]:
  "si_cv (insert_into_backtrack_set_unless_completed r si) = si_cv si"
  "per_runner_clocks (insert_into_backtrack_set_unless_completed r si) = per_runner_clocks si"
  "out_transition (insert_into_backtrack_set_unless_completed r si) = out_transition si"
  "done_set (insert_into_backtrack_set_unless_completed r si) = done_set si"
  "sleep_set (insert_into_backtrack_set_unless_completed r si) = sleep_set si"
  "enabled_runners (insert_into_backtrack_set_unless_completed r si) = enabled_runners si"
  "set (backtrack_set (insert_into_backtrack_set_unless_completed r si)) =
     (if r \<in> set (done_set si) then set (backtrack_set si) else insert r (set (backtrack_set si)))"
  by (simp_all add: insert_into_backtrack_set_unless_completed_def done_set_contains_def)

lemma insert_backtrack_wf [wf_intros]:
  "item_wf si \<Longrightarrow> item_wf (insert_into_backtrack_set_unless_completed r si)"
  by (auto simp: item_wf_def insert_into_backtrack_set_unless_completed_def done_set_contains_def
      distinct_set_insert)

lemma insert_sleep_wf [wf_intros]: "item_wf si \<Longrightarrow> item_wf (insert_into_sleep_set r si)"
  by (simp add: item_wf_def insert_into_sleep_set_def distinct_set_insert)

lemma mark_searched_wf [wf_intros]:
  "item_wf si \<Longrightarrow> r < MAX_TOTAL_THREADS_IN_PROGRAM \<Longrightarrow> item_wf (mark_searched r si)"
  by (auto simp: item_wf_def mark_searched_def distinct_set_insert distinct_set_erase)

lemma set_out_wf [wf_intros]: "item_wf si \<Longrightarrow> item_wf (set_out_transition out si)"
  by (simp add: item_wf_def set_out_transition_def)

lemma new_item_wf [wf_intros]:
  "cv_wf cv \<Longrightarrow> length clocks = MAX_TOTAL_THREADS_IN_PROGRAM \<Longrightarrow>
   \<forall>ri \<in> set clocks. cv_wf (ri_cv ri) \<Longrightarrow> item_wf (new_stack_item cv clocks out enabled)"
  by (simp add: item_wf_def new_stack_item_def)

lemma initial_item_wf [wf_intros]: "item_wf (initial_stack_item [] enabled)"
  by (simp add: item_wf_def initial_stack_item_def new_stack_item_def no_clocks_def
      new_runner_item_def)

lemma fold_min_Min:
  "fold min xs a = Min (insert a (set xs))" for a :: "'a::linorder"
  by (simp add: Min.set_eq_fold [symmetric])

lemma pop_first_spec:
  assumes "backtrack_set si \<noteq> []"
  shows "backtrack_set_pop_first si
    = Inr (Min (set (backtrack_set si)), mark_searched (Min (set (backtrack_set si))) si)"
proof -
  have "insert (hd (backtrack_set si)) (set (backtrack_set si)) = set (backtrack_set si)"
    using assms by (simp add: insert_absorb)
  with assms show ?thesis
    by (simp add: backtrack_set_pop_first_def backtrack_set_empty_def fold_min_Min Let_def)
qed

lemma first_enabled_spec:
  assumes "enabled_runners si \<noteq> []" and "\<forall>r \<in> set (enabled_runners si). r \<le> RUNNER_ID_MAX"
  shows "get_first_enabled_runner si = Min (set (enabled_runners si))"
proof -
  let ?E = "set (enabled_runners si)"
  have "Min ?E \<in> ?E" using assms(1) by simp
  then have "min RUNNER_ID_MAX (Min ?E) = Min ?E" using assms(2) by simp
  with assms(1) show ?thesis by (simp add: get_first_enabled_runner_def fold_min_Min)
qed

end
