(* ===== verification/Dependency.thy ===== *)
theory Dependency
  imports Transitions
begin

text \<open>
  The dependency and co-enabledness relations of DPOR: the double-dispatch table of
  \<^verbatim>\<open>include/mcmini/misc/ddt.hpp\<close>, the member functions \<^verbatim>\<open>depends\<close> and
  \<^verbatim>\<open>coenabled_with\<close> of the transition classes that \<^verbatim>\<open>classic_dpor.cpp\<close> registers, and
  \<^verbatim>\<open>are_dependent\<close> and \<^verbatim>\<open>are_coenabled\<close>.

  \<open>transition_type\<close> is \<^verbatim>\<open>typeid\<close> of a transition. A registered callback is a function of the
  two transitions; the casts around it are the identity because a callback is only called on
  transitions of the types it was registered for.
\<close>

section \<open>The double-dispatch table\<close>

datatype transition_type =
    Ty_thread_start | Ty_thread_create | Ty_thread_exit | Ty_thread_join
  | Ty_mutex_init | Ty_mutex_lock | Ty_mutex_unlock
  | Ty_cond_init | Ty_cond_enqueue | Ty_cond_wait | Ty_cond_signal | Ty_cond_broadcast
  | Ty_cond_destroy | Ty_sem_init | Ty_sem_post | Ty_sem_wait
  | Ty_process_exit | Ty_process_abort

fun typeid :: "transition \<Rightarrow> transition_type" where
  "typeid (Thread_start _) = Ty_thread_start"
| "typeid (Thread_create _ _) = Ty_thread_create"
| "typeid (Thread_exit _) = Ty_thread_exit"
| "typeid (Thread_join _ _) = Ty_thread_join"
| "typeid (Mutex_init _ _) = Ty_mutex_init"
| "typeid (Mutex_lock _ _) = Ty_mutex_lock"
| "typeid (Mutex_unlock _ _) = Ty_mutex_unlock"
| "typeid (Cond_init _ _) = Ty_cond_init"
| "typeid (Cond_enqueue _ _ _) = Ty_cond_enqueue"
| "typeid (Cond_wait _ _ _) = Ty_cond_wait"
| "typeid (Cond_signal _ _) = Ty_cond_signal"
| "typeid (Cond_broadcast _ _) = Ty_cond_broadcast"
| "typeid (Cond_destroy _ _) = Ty_cond_destroy"
| "typeid (Sem_init _ _ _) = Ty_sem_init"
| "typeid (Sem_post _ _) = Ty_sem_post"
| "typeid (Sem_wait _ _) = Ty_sem_wait"
| "typeid (Process_exit _ _) = Ty_process_exit"
| "typeid (Process_abort _) = Ty_process_abort"

type_synonym callback = "transition \<Rightarrow> transition \<Rightarrow> bool"

record dd_table =
  internal_table :: "(transition_type \<times> (transition_type \<times> callback) list) list"
  interface_member_function_table :: "(transition_type \<times> callback) list"

definition empty_dd_table :: dd_table where
  "empty_dd_table = \<lparr>internal_table = [], interface_member_function_table = []\<rparr>"

text \<open>The row \<^verbatim>\<open>internal_table[ty]\<close>, empty when there is none.\<close>

definition dd_row :: "dd_table \<Rightarrow> transition_type \<Rightarrow> (transition_type \<times> callback) list" where
  "dd_row tbl ty = (case map_of (internal_table tbl) ty of Some row \<Rightarrow> row | None \<Rightarrow> [])"

definition register_dd_interface ::
    "transition_type \<Rightarrow> callback \<Rightarrow> dd_table \<Rightarrow> dd_table res" where
  "register_dd_interface ty cb tbl =
     (if map_of (interface_member_function_table tbl) ty \<noteq> None
      then Inl (Runtime_error ''A function is already registered'')
      else Inr (tbl\<lparr>interface_member_function_table :=
                      AList.update ty cb (interface_member_function_table tbl)\<rparr>))"

definition dd_put :: "transition_type \<Rightarrow> transition_type \<Rightarrow> callback \<Rightarrow> dd_table \<Rightarrow> dd_table" where
  "dd_put ty1 ty2 cb tbl =
     tbl\<lparr>internal_table :=
           AList.update ty1 (AList.update ty2 cb (dd_row tbl ty1)) (internal_table tbl)\<rparr>"

text \<open>The callback is stored for both orders, its arguments swapped for the second.\<close>

definition register_dd_entry ::
    "transition_type \<Rightarrow> transition_type \<Rightarrow> callback \<Rightarrow> dd_table \<Rightarrow> dd_table res" where
  "register_dd_entry ty1 ty2 cb tbl =
     (if map_of (dd_row tbl ty1) ty2 \<noteq> None
      then Inl (Runtime_error ''A function is already registered for the pair'')
      else Inr (dd_put ty2 ty1 (\<lambda>t1 t2. cb t2 t1) (dd_put ty1 ty2 cb tbl)))"

definition call_or :: "bool \<Rightarrow> transition \<Rightarrow> transition \<Rightarrow> dd_table \<Rightarrow> bool" where
  "call_or fallback t1 t2 tbl =
     (case map_of (internal_table tbl) (typeid t1) of
        Some row \<Rightarrow>
          (case map_of row (typeid t2) of Some cb \<Rightarrow> cb t1 t2 | None \<Rightarrow> fallback)
      | None \<Rightarrow>
          (case map_of (interface_member_function_table tbl) (typeid t1) of
             Some cb \<Rightarrow> cb t1 t2
           | None \<Rightarrow>
               (case map_of (interface_member_function_table tbl) (typeid t2) of
                  Some cb \<Rightarrow> cb t2 t1
                | None \<Rightarrow> fallback)))"

section \<open>Member functions of the transitions\<close>

definition thread_create_depends :: callback where
  "thread_create_depends t1 t2 =
     (case t1 of Thread_create _ target \<Rightarrow> target = get_executor t2 | _ \<Rightarrow> False)"

definition thread_create_coenabled_with :: callback where
  "thread_create_coenabled_with t1 t2 =
     (case t1 of Thread_create _ target \<Rightarrow> target \<noteq> get_executor t2 | _ \<Rightarrow> False)"

definition thread_join_depends :: callback where
  "thread_join_depends t1 t2 =
     (case t1 of Thread_join _ target \<Rightarrow> target = get_executor t2 | _ \<Rightarrow> False)"

definition thread_join_coenabled_with :: callback where
  "thread_join_coenabled_with t1 t2 =
     (case t1 of Thread_join _ target \<Rightarrow> target \<noteq> get_executor t2 | _ \<Rightarrow> False)"

definition mutex_lock_depends :: callback where
  "mutex_lock_depends t1 t2 =
     (case t1 of Mutex_lock _ m \<Rightarrow>
        (case t2 of Mutex_init _ m' \<Rightarrow> m = m' | Mutex_lock _ m' \<Rightarrow> m = m' | _ \<Rightarrow> False)
      | _ \<Rightarrow> False)"

definition mutex_lock_coenabled_with :: callback where
  "mutex_lock_coenabled_with t1 t2 =
     (case t1 of Mutex_lock _ m \<Rightarrow> (case t2 of Mutex_unlock _ m' \<Rightarrow> m \<noteq> m' | _ \<Rightarrow> False)
      | _ \<Rightarrow> False)"

definition cond_wait_depends :: callback where
  "cond_wait_depends t1 t2 =
     (case t1 of Cond_wait _ c m \<Rightarrow>
        (case t2 of Cond_init _ c' \<Rightarrow> c = c' | Mutex_lock _ m' \<Rightarrow> m = m' | _ \<Rightarrow> False)
      | _ \<Rightarrow> False)"

definition cond_signal_depends :: callback where
  "cond_signal_depends t1 t2 =
     (case t1 of Cond_signal _ c \<Rightarrow>
        (case t2 of Cond_wait _ c' m' \<Rightarrow> c = c' | Mutex_lock _ m' \<Rightarrow> c = m' | _ \<Rightarrow> False)
      | _ \<Rightarrow> False)"

definition cond_signal_coenabled_with :: callback where
  "cond_signal_coenabled_with t1 t2 =
     (case t1 of Cond_signal _ c \<Rightarrow>
        (case t2 of Mutex_unlock _ m' \<Rightarrow> c \<noteq> m' | Cond_wait _ c' m' \<Rightarrow> c \<noteq> c' | _ \<Rightarrow> False)
      | _ \<Rightarrow> False)"

definition cond_broadcast_coenabled_with :: callback where
  "cond_broadcast_coenabled_with t1 t2 =
     (case t1 of Cond_broadcast _ c \<Rightarrow>
        (case t2 of Cond_wait _ c' m' \<Rightarrow> True | Mutex_unlock _ m' \<Rightarrow> True
         | Cond_destroy _ c' \<Rightarrow> c \<noteq> c' | _ \<Rightarrow> False)
      | _ \<Rightarrow> False)"

definition cond_destroy_coenabled_with :: callback where
  "cond_destroy_coenabled_with t1 t2 =
     (case t1 of Cond_destroy _ c \<Rightarrow>
        (case t2 of Cond_wait _ c' m' \<Rightarrow> c \<noteq> c' | Cond_signal _ c' \<Rightarrow> c \<noteq> c' | _ \<Rightarrow> False)
      | _ \<Rightarrow> False)"

section \<open>The default relations\<close>

definition default_dependencies :: "dd_table res" where
  "default_dependencies =
     bind_res (register_dd_interface Ty_thread_create thread_create_depends empty_dd_table) (\<lambda>d.
     bind_res (register_dd_interface Ty_thread_join thread_join_depends d) (\<lambda>d.
     bind_res (register_dd_entry Ty_mutex_lock Ty_mutex_init mutex_lock_depends d) (\<lambda>d.
     bind_res (register_dd_entry Ty_mutex_lock Ty_mutex_lock mutex_lock_depends d) (\<lambda>d.
     bind_res (register_dd_entry Ty_cond_wait Ty_cond_init cond_wait_depends d) (\<lambda>d.
     bind_res (register_dd_entry Ty_cond_wait Ty_mutex_lock cond_wait_depends d) (\<lambda>d.
     bind_res (register_dd_entry Ty_cond_signal Ty_cond_wait cond_signal_depends d) (\<lambda>d.
       register_dd_entry Ty_cond_signal Ty_mutex_lock cond_signal_depends d)))))))"

definition default_coenabledness :: "dd_table res" where
  "default_coenabledness =
     bind_res (register_dd_interface Ty_thread_create thread_create_coenabled_with
       empty_dd_table) (\<lambda>d.
     bind_res (register_dd_interface Ty_thread_join thread_join_coenabled_with d) (\<lambda>d.
     bind_res (register_dd_entry Ty_mutex_lock Ty_mutex_unlock mutex_lock_coenabled_with d) (\<lambda>d.
     bind_res (register_dd_entry Ty_cond_signal Ty_cond_wait cond_signal_coenabled_with d) (\<lambda>d.
     bind_res (register_dd_entry Ty_cond_signal Ty_mutex_unlock cond_signal_coenabled_with d) (\<lambda>d.
     bind_res (register_dd_entry Ty_cond_broadcast Ty_cond_wait cond_broadcast_coenabled_with d) (\<lambda>d.
     bind_res (register_dd_entry Ty_cond_broadcast Ty_mutex_unlock cond_broadcast_coenabled_with d) (\<lambda>d.
     bind_res (register_dd_entry Ty_cond_destroy Ty_cond_wait cond_destroy_coenabled_with d) (\<lambda>d.
       register_dd_entry Ty_cond_destroy Ty_cond_signal cond_destroy_coenabled_with d))))))))"

text \<open>\<^verbatim>\<open>classic_dpor::configuration\<close>.\<close>

record configuration =
  dependency_relation :: dd_table
  coenabled_relation :: dd_table
  maximum_total_execution_depth :: nat
  assumes_linear_program_flow :: bool

definition default_configuration :: "configuration res" where
  "default_configuration =
     bind_res default_dependencies (\<lambda>dr.
     bind_res default_coenabledness (\<lambda>cr.
       Inr \<lparr>dependency_relation = dr, coenabled_relation = cr,
            maximum_total_execution_depth = 1500, assumes_linear_program_flow = False\<rparr>))"

definition are_dependent :: "configuration \<Rightarrow> transition \<Rightarrow> transition \<Rightarrow> bool" where
  "are_dependent config t1 t2 \<longleftrightarrow>
     get_executor t1 = get_executor t2 \<or> call_or True t1 t2 (dependency_relation config)"

definition are_independent :: "configuration \<Rightarrow> transition \<Rightarrow> transition \<Rightarrow> bool" where
  "are_independent config t1 t2 \<longleftrightarrow> \<not> are_dependent config t1 t2"

definition are_coenabled :: "configuration \<Rightarrow> transition \<Rightarrow> transition \<Rightarrow> bool" where
  "are_coenabled config t1 t2 \<longleftrightarrow>
     get_executor t1 \<noteq> get_executor t2 \<and> call_or True t1 t2 (coenabled_relation config)"

section \<open>The default relations in closed form\<close>

lemma default_configuration_ok: "\<exists>config. default_configuration = Inr config"
  by (simp add: default_configuration_def default_dependencies_def default_coenabledness_def
      register_dd_interface_def register_dd_entry_def dd_put_def dd_row_def empty_dd_table_def)

text \<open>
  Which transitions of different runners the default table declares dependent. The rows of the
  five types with entries for pairs end in the fallback; only other types reach the entries of
  \<^verbatim>\<open>thread_create\<close> and \<^verbatim>\<open>thread_join\<close>.
\<close>

definition conflict :: "transition \<Rightarrow> transition \<Rightarrow> bool" where
  "conflict t1 t2 =
     (case t1 of
        Mutex_lock _ m \<Rightarrow>
          (case t2 of Mutex_init _ m' \<Rightarrow> m = m' | Mutex_lock _ m' \<Rightarrow> m = m'
           | Cond_wait _ c m' \<Rightarrow> m' = m | Cond_signal _ c \<Rightarrow> c = m | _ \<Rightarrow> True)
      | Mutex_init _ m \<Rightarrow> (case t2 of Mutex_lock _ m' \<Rightarrow> m' = m | _ \<Rightarrow> True)
      | Cond_wait _ c m \<Rightarrow>
          (case t2 of Cond_init _ c' \<Rightarrow> c = c' | Mutex_lock _ m' \<Rightarrow> m = m'
           | Cond_signal _ c' \<Rightarrow> c' = c | _ \<Rightarrow> True)
      | Cond_init _ c \<Rightarrow> (case t2 of Cond_wait _ c' m \<Rightarrow> c' = c | _ \<Rightarrow> True)
      | Cond_signal _ c \<Rightarrow>
          (case t2 of Cond_wait _ c' m' \<Rightarrow> c = c' | Mutex_lock _ m' \<Rightarrow> c = m' | _ \<Rightarrow> True)
      | Thread_create _ x \<Rightarrow> x = get_executor t2
      | Thread_join _ x \<Rightarrow> x = get_executor t2
      | _ \<Rightarrow>
          (case t2 of Thread_create _ x \<Rightarrow> x = get_executor t1
           | Thread_join _ x \<Rightarrow> x = get_executor t1 | _ \<Rightarrow> True))"

lemma default_dependency_conflict:
  assumes "default_configuration = Inr config"
  shows "call_or True t1 t2 (dependency_relation config) = conflict t1 t2"
proof -
  obtain d where d: "default_dependencies = Inr d" "dependency_relation config = d"
    using assms by (auto simp: default_configuration_def res_simps)
  note regs = default_dependencies_def register_dd_interface_def register_dd_entry_def dd_put_def
    dd_row_def empty_dd_table_def
  have tables:
    "internal_table d =
      [(Ty_mutex_lock, [(Ty_mutex_init, mutex_lock_depends),
          (Ty_mutex_lock, \<lambda>t1 t2. mutex_lock_depends t2 t1),
          (Ty_cond_wait, \<lambda>t1 t2. cond_wait_depends t2 t1),
          (Ty_cond_signal, \<lambda>t1 t2. cond_signal_depends t2 t1)]),
       (Ty_mutex_init, [(Ty_mutex_lock, \<lambda>t1 t2. mutex_lock_depends t2 t1)]),
       (Ty_cond_wait, [(Ty_cond_init, cond_wait_depends), (Ty_mutex_lock, cond_wait_depends),
          (Ty_cond_signal, \<lambda>t1 t2. cond_signal_depends t2 t1)]),
       (Ty_cond_init, [(Ty_cond_wait, \<lambda>t1 t2. cond_wait_depends t2 t1)]),
       (Ty_cond_signal, [(Ty_cond_wait, cond_signal_depends), (Ty_mutex_lock, cond_signal_depends)])]"
    "interface_member_function_table d =
      [(Ty_thread_create, thread_create_depends), (Ty_thread_join, thread_join_depends)]"
    using d(1) by (auto simp: regs)
  note member_defs = thread_create_depends_def thread_join_depends_def mutex_lock_depends_def
    cond_wait_depends_def cond_signal_depends_def
  show ?thesis
    unfolding d(2) member_defs
    by (cases t1; simp add: call_or_def tables conflict_def member_defs; cases t2; simp; blast)
qed

lemma are_dependent_iff:
  "default_configuration = Inr config \<Longrightarrow>
   are_dependent config t1 t2 \<longleftrightarrow> get_executor t1 = get_executor t2 \<or> conflict t1 t2"
  by (simp add: are_dependent_def default_dependency_conflict)

end
