(* ===== verification/Program.thy ===== *)
theory Program
  imports Transitions
begin

text \<open>
  The model of the program under verification: \<^verbatim>\<open>include/mcmini/model/program.hpp\<close>,
  \<^verbatim>\<open>pending_transitions.hpp\<close>, \<^verbatim>\<open>transitions/transition_sequence.hpp\<close> and their sources. A
  program is its state sequence, the trace of transitions executed so far and the transition each
  runner executes next.

  Transitions are owned through raw pointers in the code and are values here. A slot of the trace
  whose transition was moved out holds \<^verbatim>\<open>nullptr\<close>, here \<open>None\<close>. Texts of exceptions leave out
  the parts printed from arguments, and \<^verbatim>\<open>dump_state\<close> is not modelled.
\<close>

section \<open>Transition sequences\<close>

type_synonym transition_sequence = "transition option list"

definition ts_count :: "transition_sequence \<Rightarrow> nat" where
  "ts_count tr = length tr"

definition ts_at :: "transition_sequence \<Rightarrow> nat \<Rightarrow> transition option res" where
  "ts_at tr i = vec_at tr i"

definition ts_back :: "transition_sequence \<Rightarrow> transition option res" where
  "ts_back tr = vec_back tr"

definition ts_push :: "transition option \<Rightarrow> transition_sequence \<Rightarrow> transition_sequence" where
  "ts_push t tr = tr @ [t]"

definition ts_extract_at ::
    "nat \<Rightarrow> transition_sequence \<Rightarrow> (transition option \<times> transition_sequence) res" where
  "ts_extract_at i tr = bind_res (vec_at tr i) (\<lambda>t. Inr (t, tr[i := None]))"

definition ts_consume_into_subsequence :: "nat \<Rightarrow> transition_sequence \<Rightarrow> transition_sequence" where
  "ts_consume_into_subsequence depth tr = (if depth \<le> length tr then take depth tr else tr)"

text \<open>Following a pointer that may be null.\<close>

definition deref :: "'a option \<Rightarrow> 'a res" where
  "deref p = (case p of Some x \<Rightarrow> Inr x | None \<Rightarrow> Inl Null_dereference)"

lemma deref_simps [simp]: "deref (Some x) = Inr x" "deref None = Inl Null_dereference"
  by (simp_all add: deref_def)

lemma deref_eq_Inr [res_simps]: "deref p = Inr x \<longleftrightarrow> p = Some x"
  by (auto simp: deref_def split: option.splits)

section \<open>Pending transitions\<close>

type_synonym pending_transitions = "(runner_id \<times> transition) list"

definition get_transition_for_runner :: "pending_transitions \<Rightarrow> runner_id \<Rightarrow> transition option" where
  "get_transition_for_runner ps r = map_of ps r"

definition replace_unowned ::
    "transition \<Rightarrow> pending_transitions \<Rightarrow> transition option \<times> pending_transitions" where
  "replace_unowned t ps = (map_of ps (get_executor t), omap_put (get_executor t) t ps)"

definition set_transition :: "transition \<Rightarrow> pending_transitions \<Rightarrow> pending_transitions" where
  "set_transition t ps = snd (replace_unowned t ps)"

section \<open>Programs\<close>

record program =
  state_seq :: state_sequence
  trace :: transition_sequence
  next_steps :: pending_transitions

definition new_program :: "state_view \<Rightarrow> pending_transitions \<Rightarrow> program res" where
  "new_program initial_state initial_first_steps =
     bind_res (seq_of_state initial_state)
       (\<lambda>ss. Inr \<lparr>state_seq = ss, trace = [], next_steps = initial_first_steps\<rparr>)"

definition starting_from_main :: "program res" where
  "starting_from_main =
     bind_res (detached_add_runner (Thread_obj Running) new_detached)
       (\<lambda>(main_thread_id, state_of_program_at_main).
          new_program (detached_view state_of_program_at_main)
            (set_transition (Thread_start main_thread_id) []))"

definition get_num_runners :: "program \<Rightarrow> nat" where
  "get_num_runners p = length (next_steps p)"

definition get_pending_transition_for :: "program \<Rightarrow> runner_id \<Rightarrow> transition option" where
  "get_pending_transition_for p r = get_transition_for_runner (next_steps p) r"

definition get_enabled_runners :: "program \<Rightarrow> runner_id list res" where
  "get_enabled_runners p =
     fold_res (\<lambda>(r, t) enabled_runners.
         bind_res (is_enabled_in t (seq_view (state_seq p)))
           (\<lambda>b. Inr (if b then set_insert r enabled_runners else enabled_runners)))
       (next_steps p) []"

text \<open>
  The loop \<^verbatim>\<open>for (i = count - 1; i > bound && !trace.empty(); i--)\<close> on \<^verbatim>\<open>uint32_t\<close>. The
  decrement does not wrap because \<open>i\<close> is larger than another number.
\<close>

fun collect_indices ::
    "transition_sequence \<Rightarrow> nat \<Rightarrow> nat \<Rightarrow> (runner_id \<times> nat) list \<Rightarrow> (runner_id \<times> nat) list res" where
  "collect_indices tr bound i m =
     (if i > bound \<and> tr \<noteq> []
      then bind_res (ts_at tr i) (\<lambda>slot.
           bind_res (deref slot) (\<lambda>t.
             collect_indices tr bound (i - 1) (AList.update (get_executor t) i m)))
      else Inr m)"

declare collect_indices.simps [simp del]

definition restore_next_step :: "runner_id \<times> nat \<Rightarrow> program \<Rightarrow> program res" where
  "restore_next_step e p =
     bind_res (ts_extract_at (snd e) (trace p)) (\<lambda>(slot, tr).
     bind_res (deref slot) (\<lambda>t.
       Inr (p\<lparr>trace := tr, next_steps := set_transition t (next_steps p)\<rparr>)))"

definition restore_model_at_depth :: "nat \<Rightarrow> program \<Rightarrow> program res" where
  "restore_model_at_depth n p =
     bind_res (collect_indices (trace p) (u32_minus n 1) (u32_minus (ts_count (trace p)) 1) [])
       (\<lambda>runner_to_index_from_top.
     bind_res (fold_res restore_next_step runner_to_index_from_top p) (\<lambda>q.
     bind_res (consume_into_subsequence (u32 (n + 1)) (state_seq q)) (\<lambda>ss.
       Inr (q\<lparr>trace := ts_consume_into_subsequence n (trace q), state_seq := ss\<rparr>))))"

definition model_execution_of :: "runner_id \<Rightarrow> transition \<Rightarrow> program \<Rightarrow> program res" where
  "model_execution_of r npo p =
     (if r \<noteq> get_executor npo
      then Inl (Runtime_error ''The next incoming transition replacing `next_s_p` in the model must be run by the same runner'')
      else
        (case get_transition_for_runner (next_steps p) r of
           None \<Rightarrow> Inl (Runtime_error ''Attempting to execute a runner whose next transition is unknown to the model.'')
         | Some next_s_p \<Rightarrow>
             bind_res (follow next_s_p (state_seq p)) (\<lambda>(st, ss).
               if st = Disabled
               then Inl (Runtime_error ''Attempted to model the execution of a disabled transition'')
               else if st = Undefined
               then Inl (Runtime_error ''Attempted to model the execution of a undefined transition'')
               else
                 let (old, ps) = replace_unowned npo (next_steps p)
                 in Inr (p\<lparr>state_seq := ss, trace := ts_push old (trace p), next_steps := ps\<rparr>))))"

definition discover_object :: "vos \<Rightarrow> program \<Rightarrow> objid \<times> program" where
  "discover_object v p =
     (let (oid, ss) = seq_add_object v (state_seq p) in (oid, p\<lparr>state_seq := ss\<rparr>))"

definition discover_runner ::
    "vos \<Rightarrow> (runner_id \<Rightarrow> transition) \<Rightarrow> program \<Rightarrow> (runner_id \<times> program) res" where
  "discover_runner v f p =
     bind_res (seq_add_runner v (state_seq p)) (\<lambda>(r, ss).
       Inr (r, p\<lparr>state_seq := ss, next_steps := set_transition (f r) (next_steps p)\<rparr>))"

definition discover_runner_with ::
    "vos \<Rightarrow> transition \<Rightarrow> program \<Rightarrow> (runner_id \<times> program) res" where
  "discover_runner_with v next_transition p =
     bind_res (seq_add_runner v (state_seq p)) (\<lambda>(r, ss).
       Inr (r, p\<lparr>state_seq := ss, next_steps := set_transition next_transition (next_steps p)\<rparr>))"

section \<open>Deadlocks\<close>

text \<open>The first loop returns as soon as it meets an enabled transition.\<close>

fun any_enabled :: "pending_transitions \<Rightarrow> state_view \<Rightarrow> bool res" where
  "any_enabled [] s = Inr False"
| "any_enabled (p # ps) s =
     bind_res (is_enabled_in (snd p) s) (\<lambda>b. if b then Inr True else any_enabled ps s)"

definition all_exited :: "pending_transitions \<Rightarrow> state_view \<Rightarrow> bool res" where
  "all_exited ps s =
     fold_res (\<lambda>p all_ex.
         bind_res (bind_res (sv_runner s (fst p)) as_thread)
           (\<lambda>t. Inr (if has_exited t then all_ex else False)))
       ps True"

definition is_in_deadlock :: "program \<Rightarrow> bool res" where
  "is_in_deadlock p =
     (if next_steps p = [] then Inr False
      else
        bind_res (any_enabled (next_steps p) (seq_view (state_seq p))) (\<lambda>b.
          if b then Inr False
          else bind_res (all_exited (next_steps p) (seq_view (state_seq p)))
                 (\<lambda>ex. Inr (\<not> ex))))"

end
