(* ===== verification/Coordinator.thy ===== *)
theory Coordinator
  imports Program
begin

text \<open>
  The coordinator, which keeps the model and the target process in step:
  \<^verbatim>\<open>coordinator/coordinator.hpp\<close>, \<^verbatim>\<open>model_to_system_map.hpp\<close>, \<^verbatim>\<open>coordinator.cpp\<close>, the
  registry of callbacks \<^verbatim>\<open>model/transition_registry\<close> and the callbacks themselves,
  \<^verbatim>\<open>src/mcmini/model/transitions/*.cpp\<close>, which turn a mailbox into the next transition of a
  runner and register the objects and runners it names.

  The target process is outside the model: a record of functions on a type \<open>'w\<close> of states of the
  outside world says what the coordinator asks of it. \<open>force_new_process\<close> and
  \<open>process_execute\<close> are \<^verbatim>\<open>process_source::force_new_process\<close> and
  \<^verbatim>\<open>process::execute_runner\<close>; \<open>read_remote\<close> is \<^verbatim>\<open>process_vm_readv\<close> of a number of bytes, which
  may fail. The bytes of \<^verbatim>\<open>PTHREAD_MUTEX_INITIALIZER\<close> and \<^verbatim>\<open>PTHREAD_COND_INITIALIZER\<close>, constants
  of the C library, are fields too. What an exception leaves behind in the coordinator is not
  modelled, only that it escapes; log output is left out, the dereferences in its arguments kept.
\<close>

section \<open>Mailboxes\<close>

type_synonym byte = "8 word"

record runner_mailbox =
  mb_type :: nat
  mb_cnts :: "byte list"

text \<open>\<^verbatim>\<open>memcpy_v\<close> of \<open>n\<close> bytes into an unsigned integer, least significant byte first.\<close>

fun le_value :: "byte list \<Rightarrow> nat" where
  "le_value [] = 0"
| "le_value (b # bs) = unat b + 256 * le_value bs"

definition mb_read :: "nat \<Rightarrow> nat \<Rightarrow> runner_mailbox \<Rightarrow> nat" where
  "mb_read off n mb = le_value (take n (drop off (mb_cnts mb)))"

definition mb_pointer :: "nat \<Rightarrow> runner_mailbox \<Rightarrow> address" where
  "mb_pointer off mb = mb_read off 8 mb"

section \<open>The outside world\<close>

record 'w environment =
  force_new_process :: "'w \<Rightarrow> 'w res"
  process_execute :: "runner_id \<Rightarrow> 'w \<Rightarrow> (runner_mailbox \<times> 'w) res"
  process_pid :: "'w \<Rightarrow> int"
  read_remote :: "'w \<Rightarrow> address \<Rightarrow> nat \<Rightarrow> byte list option"
  mutex_initializer :: "byte list"
  cond_initializer :: "byte list"

section \<open>The registry of callbacks\<close>

datatype rttid_name =
    INVISIBLE_OPERATION_TYPE | MUTEX_INIT_TYPE | MUTEX_LOCK_TYPE | MUTEX_UNLOCK_TYPE
  | THREAD_CREATE_TYPE | THREAD_JOIN_TYPE | THREAD_EXIT_TYPE | PROCESS_EXIT_TYPE
  | PROCESS_ABORT_TYPE | COND_ENQUEUE_TYPE | COND_INIT_TYPE | COND_WAIT_TYPE | COND_SIGNAL_TYPE
  | COND_BROADCAST_TYPE | COND_DESTROY_TYPE | SEM_INIT_TYPE | SEM_WAIT_TYPE | SEM_POST_TYPE
  | SEM_DESTROY_TYPE

fun rttid :: "rttid_name \<Rightarrow> nat" where
  "rttid INVISIBLE_OPERATION_TYPE = 0"
| "rttid MUTEX_INIT_TYPE = 1"
| "rttid MUTEX_LOCK_TYPE = 2"
| "rttid MUTEX_UNLOCK_TYPE = 3"
| "rttid THREAD_CREATE_TYPE = 4"
| "rttid THREAD_JOIN_TYPE = 5"
| "rttid THREAD_EXIT_TYPE = 6"
| "rttid PROCESS_EXIT_TYPE = 7"
| "rttid PROCESS_ABORT_TYPE = 8"
| "rttid COND_ENQUEUE_TYPE = 9"
| "rttid COND_INIT_TYPE = 10"
| "rttid COND_WAIT_TYPE = 11"
| "rttid COND_SIGNAL_TYPE = 12"
| "rttid COND_BROADCAST_TYPE = 13"
| "rttid COND_DESTROY_TYPE = 14"
| "rttid SEM_INIT_TYPE = 15"
| "rttid SEM_WAIT_TYPE = 16"
| "rttid SEM_POST_TYPE = 17"
| "rttid SEM_DESTROY_TYPE = 18"

text \<open>A callback is a function pointer; here the name of the function.\<close>

datatype discovery_callback =
    Mutex_init_callback | Mutex_lock_callback | Mutex_unlock_callback
  | Thread_create_callback | Thread_exit_callback | Thread_join_callback
  | Process_exit_callback | Process_abort_callback
  | Cond_init_callback | Cond_waiting_thread_enqueue_callback | Cond_wait_callback
  | Cond_signal_callback | Cond_broadcast_callback | Cond_destroy_callback
  | Sem_init_callback | Sem_destroy_callback | Sem_post_callback | Sem_wait_callback

type_synonym transition_registry = "(nat \<times> discovery_callback) list"

definition register_transition ::
    "nat \<Rightarrow> discovery_callback \<Rightarrow> transition_registry \<Rightarrow> transition_registry" where
  "register_transition ty cb tr = (if map_of tr ty = None then tr @ [(ty, cb)] else tr)"

definition get_callback_for :: "transition_registry \<Rightarrow> nat \<Rightarrow> discovery_callback option" where
  "get_callback_for tr ty = map_of tr ty"

definition default_registry :: transition_registry where
  "default_registry =
     fold (\<lambda>(ty, cb). register_transition (rttid ty) cb)
       [(MUTEX_INIT_TYPE, Mutex_init_callback),
        (MUTEX_LOCK_TYPE, Mutex_lock_callback),
        (MUTEX_UNLOCK_TYPE, Mutex_unlock_callback),
        (THREAD_CREATE_TYPE, Thread_create_callback),
        (THREAD_EXIT_TYPE, Thread_exit_callback),
        (THREAD_JOIN_TYPE, Thread_join_callback),
        (PROCESS_EXIT_TYPE, Process_exit_callback),
        (PROCESS_ABORT_TYPE, Process_abort_callback),
        (COND_INIT_TYPE, Cond_init_callback),
        (COND_ENQUEUE_TYPE, Cond_waiting_thread_enqueue_callback),
        (COND_WAIT_TYPE, Cond_wait_callback),
        (COND_SIGNAL_TYPE, Cond_signal_callback),
        (COND_BROADCAST_TYPE, Cond_broadcast_callback),
        (COND_DESTROY_TYPE, Cond_destroy_callback),
        (SEM_INIT_TYPE, Sem_init_callback),
        (SEM_DESTROY_TYPE, Sem_destroy_callback),
        (SEM_POST_TYPE, Sem_post_callback),
        (SEM_WAIT_TYPE, Sem_wait_callback)] []"

section \<open>The coordinator and the map from addresses to objects\<close>

text \<open>
  \<open>process_alive\<close> says whether \<^verbatim>\<open>current_process_handle\<close> is set; the process itself is part of
  \<open>world\<close>.
\<close>

record 'w coordinator =
  current_program_model :: program
  runtime_transition_mapping :: transition_registry
  process_alive :: bool
  outside :: 'w
  system_address_mapping :: "(address \<times> objid) list"

definition assign_new_process_handle :: "'w environment \<Rightarrow> 'w coordinator \<Rightarrow> 'w coordinator res" where
  "assign_new_process_handle env c =
     bind_res (force_new_process env (outside c))
       (\<lambda>w. Inr (c\<lparr>outside := w, process_alive := True\<rparr>))"

definition new_coordinator ::
    "'w environment \<Rightarrow> program \<Rightarrow> transition_registry \<Rightarrow> 'w \<Rightarrow> 'w coordinator res" where
  "new_coordinator env initial_state tr w =
     assign_new_process_handle env
       \<lparr>current_program_model = initial_state, runtime_transition_mapping = tr,
        process_alive = False, outside = w, system_address_mapping = []\<rparr>"

definition get_depth_into_program :: "'w coordinator \<Rightarrow> nat" where
  "get_depth_into_program c = ts_count (trace (current_program_model c))"

definition get_target_pid :: "'w environment \<Rightarrow> 'w coordinator \<Rightarrow> int" where
  "get_target_pid env c = (if process_alive c then process_pid env (outside c) else -1)"

definition get_model_of_object :: "'w coordinator \<Rightarrow> address \<Rightarrow> objid" where
  "get_model_of_object c handle =
     (case map_of (system_address_mapping c) handle of Some oid \<Rightarrow> oid | None \<Rightarrow> invalid_objid)"

definition get_model_of_runner :: "'w coordinator \<Rightarrow> address \<Rightarrow> runner_id" where
  "get_model_of_runner c handle =
     (let objid = get_model_of_object c handle
      in if objid \<noteq> invalid_objid
         then sv_runner_for_obj (seq_view (state_seq (current_program_model c))) objid
         else invalid_rid)"

definition contains_addr :: "'w coordinator \<Rightarrow> address \<Rightarrow> bool" where
  "contains_addr c addr \<longleftrightarrow> get_model_of_object c addr \<noteq> invalid_objid"

definition contains_runner :: "'w coordinator \<Rightarrow> address \<Rightarrow> bool" where
  "contains_runner c addr \<longleftrightarrow> get_model_of_runner c addr \<noteq> invalid_rid"

text \<open>\<^verbatim>\<open>std::unordered_map::insert\<close> keeps an entry that is already there.\<close>

definition map_address :: "address \<Rightarrow> objid \<Rightarrow> 'w coordinator \<Rightarrow> 'w coordinator" where
  "map_address addr oid c =
     (if map_of (system_address_mapping c) addr = None
      then c\<lparr>system_address_mapping := system_address_mapping c @ [(addr, oid)]\<rparr> else c)"

abbreviation rebind_error :: error where
  "rebind_error \<equiv> Runtime_error
    ''Attempting to rebind a remote address to an object that already exists in the model. Did you check that the object doesn't already exist?''"

definition observe_object :: "address \<Rightarrow> vos \<Rightarrow> 'w coordinator \<Rightarrow> (objid \<times> 'w coordinator) res" where
  "observe_object addr vobs c =
     (if contains_addr c addr then Inl rebind_error
      else
        let p = current_program_model c;
            (new_objid, ss) = seq_add_object vobs (state_seq p)
        in Inr (new_objid,
             map_address addr new_objid (c\<lparr>current_program_model := p\<lparr>state_seq := ss\<rparr>\<rparr>)))"

definition observe_runner ::
    "address \<Rightarrow> vos \<Rightarrow> (runner_id \<Rightarrow> transition) \<Rightarrow> 'w coordinator
       \<Rightarrow> (runner_id \<times> 'w coordinator) res" where
  "observe_runner addr vobs f c =
     (if contains_addr c addr then Inl rebind_error
      else
        bind_res (discover_runner vobs f (current_program_model c))
          (\<lambda>(new_runner_id, p).
             let new_objid = sv_objid_for_runner (seq_view (state_seq p)) new_runner_id
             in Inr (new_runner_id,
                  map_address addr new_objid (c\<lparr>current_program_model := p\<rparr>))))"

definition observe_runner_with ::
    "address \<Rightarrow> vos \<Rightarrow> transition \<Rightarrow> 'w coordinator \<Rightarrow> (runner_id \<times> 'w coordinator) res" where
  "observe_runner_with addr vobs t c = observe_runner addr vobs (\<lambda>_. t) c"

definition observe_runner_transition :: "transition \<Rightarrow> 'w coordinator \<Rightarrow> 'w coordinator" where
  "observe_runner_transition t c =
     (let p = current_program_model c
      in c\<lparr>current_program_model := p\<lparr>next_steps := set_transition t (next_steps p)\<rparr>\<rparr>)"

text \<open>The overload without a transition does not look for an existing mapping.\<close>

definition observe_bare_runner ::
    "address \<Rightarrow> vos \<Rightarrow> 'w coordinator \<Rightarrow> (runner_id \<times> 'w coordinator) res" where
  "observe_bare_runner addr rs c =
     (let p = current_program_model c
      in bind_res (seq_add_runner rs (state_seq p))
           (\<lambda>(new_runner_id, ss).
              let new_objid = sv_objid_for_runner (seq_view ss) new_runner_id
              in Inr (new_runner_id,
                   map_address addr new_objid (c\<lparr>current_program_model := p\<lparr>state_seq := ss\<rparr>\<rparr>))))"

end
