(* ===== verification/Callbacks.thy ===== *)
theory Callbacks
  imports Coordinator
begin

text \<open>
  The discovery callbacks of \<^verbatim>\<open>src/mcmini/model/transitions/*.cpp\<close> and the two operations of
  the coordinator that need them, \<^verbatim>\<open>execute_runner\<close> and \<^verbatim>\<open>return_to_depth\<close>.

  A callback returns the transition it builds, \<open>None\<close> for a null pointer, and the coordinator
  with what it observed. \<^verbatim>\<open>ensure_cond_initialized\<close> passes the policy where the constructor of
  \<^verbatim>\<open>condition_variable\<close> expects a runner id; it is modelled with the fresh policy in its place.
\<close>

type_synonym 'w discovered = "(transition option \<times> 'w coordinator) res"

abbreviation discovered :: "transition \<Rightarrow> 'w coordinator \<Rightarrow> 'w discovered" where
  "discovered t c \<equiv> Inr (Some t, c)"

section \<open>Mutexes\<close>

definition remote_mutex_is_static_initializer ::
    "'w environment \<Rightarrow> int \<Rightarrow> 'w \<Rightarrow> address \<Rightarrow> bool" where
  "remote_mutex_is_static_initializer env target_pid w remote_mutex =
     (if target_pid \<le> 0 then False
      else read_remote env w remote_mutex (length (mutex_initializer env))
             = Some (mutex_initializer env))"

definition mutex_init_callback ::
    "runner_id \<Rightarrow> runner_mailbox \<Rightarrow> 'w coordinator \<Rightarrow> 'w discovered" where
  "mutex_init_callback p rmb m =
     (let remote_mut = mb_pointer 0 rmb
      in bind_res
           (if \<not> contains_addr m remote_mut
            then bind_res (observe_object remote_mut
                   (Mutex_obj (new_mutex Mutex_uninitialized remote_mut RID_INVALID)) m) (\<lambda>x. Inr (snd x))
            else Inr m)
           (\<lambda>m1. discovered (Mutex_init p (get_model_of_object m1 remote_mut)) m1))"

definition mutex_lock_callback ::
    "'w environment \<Rightarrow> runner_id \<Rightarrow> runner_mailbox \<Rightarrow> 'w coordinator \<Rightarrow> 'w discovered" where
  "mutex_lock_callback env p rmb m =
     (let remote_mut = mb_pointer 0 rmb
      in bind_res
           (if \<not> contains_addr m remote_mut
            then
              if \<not> remote_mutex_is_static_initializer env (get_target_pid env m) (outside m) remote_mut
              then Inl (Undefined_behavior ''Attempting to lock an uninitialized mutex'')
              else bind_res (observe_object remote_mut
                     (Mutex_obj (new_mutex Mutex_unlocked remote_mut RID_INVALID)) m) (\<lambda>x. Inr (snd x))
            else Inr m)
           (\<lambda>m1. discovered (Mutex_lock p (get_model_of_object m1 remote_mut)) m1))"

definition mutex_unlock_callback ::
    "runner_id \<Rightarrow> runner_mailbox \<Rightarrow> 'w coordinator \<Rightarrow> 'w discovered" where
  "mutex_unlock_callback p rmb m =
     (let remote_mut = mb_pointer 0 rmb
      in if \<not> contains_addr m remote_mut
         then Inl (Undefined_behavior ''Attempting to unlock an uninitialized mutex'')
         else discovered (Mutex_unlock p (get_model_of_object m remote_mut)) m)"

section \<open>Condition variables\<close>

abbreviation initialized_cv :: vos where
  "initialized_cv \<equiv> Cv_obj (new_condition_variable Cv_initialized RID_INVALID 0 0 [] None)"

definition remote_cond_is_static_initializer ::
    "'w environment \<Rightarrow> int \<Rightarrow> 'w \<Rightarrow> address \<Rightarrow> bool" where
  "remote_cond_is_static_initializer env target_pid w remote_cond =
     (if target_pid \<le> 0 then False
      else read_remote env w remote_cond (length (cond_initializer env))
             = Some (cond_initializer env))"

definition ensure_cond_initialized ::
    "'w environment \<Rightarrow> address \<Rightarrow> string \<Rightarrow> 'w coordinator \<Rightarrow> 'w coordinator res" where
  "ensure_cond_initialized env remote_cond ub_message m =
     (if contains_addr m remote_cond then Inr m
      else if \<not> remote_cond_is_static_initializer env (get_target_pid env m) (outside m) remote_cond
      then Inl (Undefined_behavior ub_message)
      else bind_res (observe_object remote_cond initialized_cv m) (\<lambda>x. Inr (snd x)))"

definition cond_init_callback ::
    "runner_id \<Rightarrow> runner_mailbox \<Rightarrow> 'w coordinator \<Rightarrow> 'w discovered" where
  "cond_init_callback p rmb m =
     (let remote_cond = mb_pointer 0 rmb
      in bind_res
           (if \<not> contains_addr m remote_cond
            then bind_res (observe_object remote_cond initialized_cv m) (\<lambda>x. Inr (snd x))
            else Inr m)
           (\<lambda>m1. discovered (Cond_init p (get_model_of_object m1 remote_cond)) m1))"

definition cond_waiting_thread_enqueue_callback ::
    "'w environment \<Rightarrow> runner_id \<Rightarrow> runner_mailbox \<Rightarrow> 'w coordinator \<Rightarrow> 'w discovered" where
  "cond_waiting_thread_enqueue_callback env p rmb m =
     (let remote_cond = mb_pointer 0 rmb; remote_mut = mb_pointer 8 rmb
      in bind_res (ensure_cond_initialized env remote_cond
             ''Attempting to wait on an uninitialized condition variable'' m)
           (\<lambda>m1.
              if \<not> contains_addr m1 remote_mut
              then Inl (Undefined_behavior
                ''Attempting to wait on a condition variable with an uninitialized mutex'')
              else discovered (Cond_enqueue p (get_model_of_object m1 remote_cond)
                     (get_model_of_object m1 remote_mut)) m1))"

definition cond_wait_callback ::
    "runner_id \<Rightarrow> runner_mailbox \<Rightarrow> 'w coordinator \<Rightarrow> 'w discovered" where
  "cond_wait_callback p rmb m =
     (let remote_cond = mb_pointer 0 rmb; remote_mut = mb_pointer 8 rmb
      in if \<not> contains_addr m remote_cond
         then Inl (Undefined_behavior ''Attempting to wait on an uninitialized condition variable'')
         else if \<not> contains_addr m remote_mut
         then Inl (Undefined_behavior
           ''Attempting to wait on a condition variable with an uninitialized mutex'')
         else discovered (Cond_wait p (get_model_of_object m remote_cond)
                (get_model_of_object m remote_mut)) m)"

definition cond_signal_callback ::
    "'w environment \<Rightarrow> runner_id \<Rightarrow> runner_mailbox \<Rightarrow> 'w coordinator \<Rightarrow> 'w discovered" where
  "cond_signal_callback env p rmb m =
     (let remote_cond = mb_pointer 0 rmb
      in bind_res (ensure_cond_initialized env remote_cond
             ''Attempting to signal an uninitialized condition variable'' m)
           (\<lambda>m1. discovered (Cond_signal p (get_model_of_object m1 remote_cond)) m1))"

definition cond_broadcast_callback ::
    "'w environment \<Rightarrow> runner_id \<Rightarrow> runner_mailbox \<Rightarrow> 'w coordinator \<Rightarrow> 'w discovered" where
  "cond_broadcast_callback env p rmb m =
     (let remote_cond = mb_pointer 0 rmb
      in bind_res (ensure_cond_initialized env remote_cond
             ''Attempting to broadcast on an uninitialized condition variable'' m)
           (\<lambda>m1. discovered (Cond_broadcast p (get_model_of_object m1 remote_cond)) m1))"

definition cond_destroy_callback ::
    "runner_id \<Rightarrow> runner_mailbox \<Rightarrow> 'w coordinator \<Rightarrow> 'w discovered" where
  "cond_destroy_callback p rmb m =
     (let remote_cond = mb_pointer 0 rmb
      in if \<not> contains_addr m remote_cond
         then Inl (Undefined_behavior
           ''Attempting to destroy an uninitialized condition variable'')
         else discovered (Cond_destroy p (get_model_of_object m remote_cond)) m)"

section \<open>Semaphores\<close>

definition sem_init_callback ::
    "runner_id \<Rightarrow> runner_mailbox \<Rightarrow> 'w coordinator \<Rightarrow> 'w discovered" where
  "sem_init_callback p rmb m =
     (let remote_sem = mb_pointer 0 rmb; count = word_of_nat (mb_read 8 4 rmb)
      in bind_res
           (if \<not> contains_addr m remote_sem
            then bind_res (observe_object remote_sem (Sem_obj (new_semaphore Sem_uninitialized 0)) m)
                   (\<lambda>x. Inr (snd x))
            else Inr m)
           (\<lambda>m1. discovered (Sem_init p (get_model_of_object m1 remote_sem) count) m1))"

definition sem_post_callback ::
    "runner_id \<Rightarrow> runner_mailbox \<Rightarrow> 'w coordinator \<Rightarrow> 'w discovered" where
  "sem_post_callback p rmb m =
     (let remote_sem = mb_pointer 0 rmb
      in if \<not> contains_addr m remote_sem
         then Inl (Undefined_behavior ''Attempting to post to an uninitialized semaphore'')
         else discovered (Sem_post p (get_model_of_object m remote_sem)) m)"

definition sem_wait_callback ::
    "runner_id \<Rightarrow> runner_mailbox \<Rightarrow> 'w coordinator \<Rightarrow> 'w discovered" where
  "sem_wait_callback p rmb m =
     (let remote_sem = mb_pointer 0 rmb
      in if \<not> contains_addr m remote_sem
         then Inl (Undefined_behavior ''Attempting to wait on an uninitialized semaphore'')
         else discovered (Sem_wait p (get_model_of_object m remote_sem)) m)"

definition sem_destroy_callback ::
    "runner_id \<Rightarrow> runner_mailbox \<Rightarrow> 'w coordinator \<Rightarrow> 'w discovered" where
  "sem_destroy_callback p rmb m =
     (let remote_sem = mb_pointer 0 rmb
      in if \<not> contains_addr m remote_sem
         then Inl (Undefined_behavior ''Attempting to wait on an uninitialized semaphore'')
         else Inr (None, m))"

section \<open>Threads and processes\<close>

definition thread_create_callback ::
    "runner_id \<Rightarrow> runner_mailbox \<Rightarrow> 'w coordinator \<Rightarrow> 'w discovered" where
  "thread_create_callback p rmb m =
     (let new_thread = mb_pointer 0 rmb
      in bind_res
           (if \<not> contains_runner m new_thread
            then bind_res (observe_runner new_thread (Thread_obj Embryo) Thread_start m)
                   (\<lambda>x. Inr (snd x))
            else Inr m)
           (\<lambda>m1. discovered (Thread_create p (get_model_of_runner m1 new_thread)) m1))"

definition thread_exit_callback ::
    "runner_id \<Rightarrow> runner_mailbox \<Rightarrow> 'w coordinator \<Rightarrow> 'w discovered" where
  "thread_exit_callback p rmb m = discovered (Thread_exit p) m"

definition thread_join_callback ::
    "runner_id \<Rightarrow> runner_mailbox \<Rightarrow> 'w coordinator \<Rightarrow> 'w discovered" where
  "thread_join_callback p rmb m =
     (let target_id = mb_read 0 2 rmb
      in if target_id = invalid_rid
         then Inl (Runtime_error ''Attemping to join on an unmodeled thread'')
         else discovered (Thread_join p target_id) m)"

definition process_exit_callback ::
    "runner_id \<Rightarrow> runner_mailbox \<Rightarrow> 'w coordinator \<Rightarrow> 'w discovered" where
  "process_exit_callback oid mb m =
     discovered (Process_exit oid (sint (word_of_nat (mb_read 0 4 mb) :: 32 word))) m"

definition process_abort_callback ::
    "runner_id \<Rightarrow> runner_mailbox \<Rightarrow> 'w coordinator \<Rightarrow> 'w discovered" where
  "process_abort_callback oid mb m = discovered (Process_abort oid) m"

section \<open>Calling a callback\<close>

fun call_callback ::
    "'w environment \<Rightarrow> discovery_callback \<Rightarrow> runner_id \<Rightarrow> runner_mailbox \<Rightarrow> 'w coordinator
       \<Rightarrow> 'w discovered" where
  "call_callback env Mutex_init_callback p mb m = mutex_init_callback p mb m"
| "call_callback env Mutex_lock_callback p mb m = mutex_lock_callback env p mb m"
| "call_callback env Mutex_unlock_callback p mb m = mutex_unlock_callback p mb m"
| "call_callback env Thread_create_callback p mb m = thread_create_callback p mb m"
| "call_callback env Thread_exit_callback p mb m = thread_exit_callback p mb m"
| "call_callback env Thread_join_callback p mb m = thread_join_callback p mb m"
| "call_callback env Process_exit_callback p mb m = process_exit_callback p mb m"
| "call_callback env Process_abort_callback p mb m = process_abort_callback p mb m"
| "call_callback env Cond_init_callback p mb m = cond_init_callback p mb m"
| "call_callback env Cond_waiting_thread_enqueue_callback p mb m =
     cond_waiting_thread_enqueue_callback env p mb m"
| "call_callback env Cond_wait_callback p mb m = cond_wait_callback p mb m"
| "call_callback env Cond_signal_callback p mb m = cond_signal_callback env p mb m"
| "call_callback env Cond_broadcast_callback p mb m = cond_broadcast_callback env p mb m"
| "call_callback env Cond_destroy_callback p mb m = cond_destroy_callback p mb m"
| "call_callback env Sem_init_callback p mb m = sem_init_callback p mb m"
| "call_callback env Sem_destroy_callback p mb m = sem_destroy_callback p mb m"
| "call_callback env Sem_post_callback p mb m = sem_post_callback p mb m"
| "call_callback env Sem_wait_callback p mb m = sem_wait_callback p mb m"

section \<open>Coordinated execution\<close>

text \<open>
  The log message before the execution follows the pointer to the runner's pending transition.
\<close>

definition execute_runner ::
    "'w environment \<Rightarrow> runner_id \<Rightarrow> 'w coordinator \<Rightarrow> 'w coordinator res" where
  "execute_runner env r c =
     (if \<not> process_alive c then Inl (Execution_error ''the process is not alive'')
      else
        bind_res (deref (get_pending_transition_for (current_program_model c) r)) (\<lambda>_.
        bind_res (process_execute env r (outside c)) (\<lambda>(mb, w).
          let c1 = c\<lparr>outside := w\<rparr>
          in case get_callback_for (runtime_transition_mapping c1) (mb_type mb) of
               None \<Rightarrow> Inl (Execution_error ''this identifier has not been registered'')
             | Some callback_function \<Rightarrow>
                 bind_res (call_callback env callback_function r mb c1) (\<lambda>(pending_operation, c2).
                   case pending_operation of
                     None \<Rightarrow> Inl (Execution_error ''Failed to translate the data written into the mailbox'')
                   | Some npo \<Rightarrow>
                       bind_res (model_execution_of r npo (current_program_model c2))
                         (\<lambda>p. Inr (c2\<lparr>current_program_model := p\<rparr>))))))"

definition replay_slot ::
    "'w environment \<Rightarrow> transition option \<Rightarrow> 'w \<Rightarrow> 'w res" where
  "replay_slot env slot w =
     bind_res (deref slot) (\<lambda>t.
       bind_res (process_execute env (get_executor t) w) (\<lambda>x. Inr (snd x)))"

definition return_to_depth ::
    "'w environment \<Rightarrow> nat \<Rightarrow> 'w coordinator \<Rightarrow> 'w coordinator res" where
  "return_to_depth env n c =
     bind_res (assign_new_process_handle env c) (\<lambda>c1.
     bind_res (restore_model_at_depth n (current_program_model c1)) (\<lambda>p.
       if ts_count (trace p) \<noteq> n then Inl Assertion_failure
       else bind_res (fold_res (replay_slot env) (trace p) (outside c1))
              (\<lambda>w. Inr (c1\<lparr>current_program_model := p, outside := w\<rparr>))))"

end
