(* ===== verification/Dpor.thy ===== *)
theory Dpor
  imports Stack_Item Dependency Callbacks
begin

text \<open>
  The model-checking algorithm \<^verbatim>\<open>classic_dpor\<close> (\<^verbatim>\<open>classic_dpor.hpp\<close>, \<^verbatim>\<open>classic_dpor.cpp\<close>):
  depth-first search with dynamic partial order reduction after Flanagan and Godefroid.

  \<^verbatim>\<open>verify_using\<close> is two nested loops; one pass through \<open>dpor_iteration\<close> is the body of the inner
  loop when the top of the stack has enabled runners, and otherwise the rest of the outer loop's
  body, so that iterating it visits the same steps. \<open>verify_loop\<close> iterates it with fuel; enough
  fuel is given by \<open>Dpor_Termination\<close>. The callbacks are recorded as events; each is called with
  the statistics of the moment and, for the last three, the exception; the state an exception leaves
  behind is the one before the call that raised it. The dereferenced
  out-transition of a popped branch is still allocated when it is looked at, because the runner it
  belongs to holds it as pending again.
\<close>

section \<open>Context, statistics and events\<close>

record 'w dpor_context =
  ctx_coordinator :: "'w coordinator"
  dpor_stack :: "stack_item list"

abbreviation ctx_program :: "'w dpor_context \<Rightarrow> program" where
  "ctx_program ctx \<equiv> current_program_model (ctx_coordinator ctx)"

record stats =
  trace_id :: nat
  total_transitions :: nat

datatype dpor_event =
    Trace_completed stats
  | Deadlock_found stats
  | Undefined_behavior_found stats error
  | Abnormal_termination_found stats error
  | Nonzero_exit_code_found stats error

text \<open>Which of the callbacks are set.\<close>

record dpor_callbacks =
  cb_trace_completed :: bool
  cb_deadlock :: bool
  cb_undefined_behavior :: bool
  cb_abnormal_termination :: bool
  cb_nonzero_exit_code :: bool

record 'w dpor_state =
  ds_context :: "'w dpor_context"
  ds_stats :: stats
  ds_events :: "dpor_event list"

section \<open>Happens-before\<close>

definition get_transition :: "'w dpor_context \<Rightarrow> nat \<Rightarrow> transition option res" where
  "get_transition ctx i = bind_res (vec_at (dpor_stack ctx) i) (\<lambda>si. Inr (out_transition si))"

definition accumulate_max_clock_vector_against ::
    "configuration \<Rightarrow> transition \<Rightarrow> 'w dpor_context \<Rightarrow> clock_vector" where
  "accumulate_max_clock_vector_against config t ctx =
     fold (\<lambda>s_i result.
         case out_transition s_i of
           Some S_i \<Rightarrow> if are_dependent config S_i t then cv_max result (si_cv s_i) else result
         | None \<Rightarrow> result)
       (dpor_stack ctx) []"

definition happens_before :: "'w dpor_context \<Rightarrow> nat \<Rightarrow> nat \<Rightarrow> bool res" where
  "happens_before ctx i j =
     bind_res (get_transition ctx i) (\<lambda>S_i.
     bind_res (deref S_i) (\<lambda>t.
     bind_res (vec_at (dpor_stack ctx) j) (\<lambda>s_j.
       Inr (i \<le> value_for (si_cv s_j) (get_executor t)))))"

text \<open>\<^verbatim>\<open>std::array::operator[]\<close> does not check its index.\<close>

definition clocks_at :: "runner_item list \<Rightarrow> runner_id \<Rightarrow> runner_item res" where
  "clocks_at clocks p = (if p < length clocks then Inr (clocks ! p) else Inl Array_overrun)"

definition happens_before_thread :: "'w dpor_context \<Rightarrow> nat \<Rightarrow> runner_id \<Rightarrow> bool res" where
  "happens_before_thread ctx i p =
     bind_res (get_transition ctx i) (\<lambda>S_i.
     bind_res (deref S_i) (\<lambda>t.
     bind_res (vec_back (dpor_stack ctx)) (\<lambda>s_top.
     bind_res (clocks_at (per_runner_clocks s_top) p) (\<lambda>ri.
       Inr (i \<le> value_for (ri_cv ri) (get_executor t))))))"

fun race_among :: "'w dpor_context \<Rightarrow> runner_id \<Rightarrow> runner_id \<Rightarrow> nat list \<Rightarrow> bool res" where
  "race_among ctx q p [] = Inr False"
| "race_among ctx q p (j # js) =
     bind_res (get_transition ctx j) (\<lambda>S_j.
     bind_res (deref S_j) (\<lambda>t.
       if q = get_executor t
       then bind_res (happens_before_thread ctx j p)
              (\<lambda>hb. if hb then Inr True else race_among ctx q p js)
       else race_among ctx q p js))"

definition threads_race_after ::
    "'w dpor_context \<Rightarrow> nat \<Rightarrow> runner_id \<Rightarrow> runner_id \<Rightarrow> bool res" where
  "threads_race_after ctx i q p = race_among ctx q p [i + 1..<length (dpor_stack ctx) - 1]"

section \<open>Growing the stack\<close>

definition grow_stack_after_running ::
    "configuration \<Rightarrow> 'w dpor_context \<Rightarrow> 'w dpor_context res" where
  "grow_stack_after_running config ctx =
     (let p = ctx_program ctx; stack = dpor_stack ctx in
      if get_depth_into_program (ctx_coordinator ctx) \<noteq> length stack then Inl Assertion_failure
      else
        bind_res (ts_back (trace p)) (\<lambda>slot.
        bind_res (deref slot) (\<lambda>t_n.
        bind_res (vec_back stack) (\<lambda>s_n.
          let cv = cv_set (get_executor t_n) (get_depth_into_program (ctx_coordinator ctx))
                     (accumulate_max_clock_vector_against config t_n ctx) in
          bind_res (clocks_at (per_runner_clocks s_n) (get_executor t_n)) (\<lambda>ri.
          let clocks = (per_runner_clocks s_n)[get_executor t_n := set_clock_vector cv ri] in
          bind_res (get_enabled_runners p) (\<lambda>enabled.
          bind_res
            (fold_res (\<lambda>rid s.
                bind_res (deref (get_pending_transition_for p rid)) (\<lambda>rid_next.
                  Inr (if are_independent config rid_next t_n
                       then insert_into_sleep_set rid s else s)))
              (sleep_set s_n) (new_stack_item cv clocks (Some t_n) enabled))
            (\<lambda>s_n_plus_1.
               let s_n' = mark_searched (get_executor t_n)
                            (insert_into_sleep_set (get_executor t_n)
                              (set_out_transition (Some t_n) s_n))
               in Inr (ctx\<lparr>dpor_stack := butlast stack @ [s_n', s_n_plus_1]\<rparr>))))))))"

section \<open>Backtrack sets\<close>

text \<open>\<open>e\<close> is a \<^verbatim>\<open>std::set\<close>, in increasing order.\<close>

definition collect_e ::
    "'w dpor_context \<Rightarrow> stack_item \<Rightarrow> nat \<Rightarrow> runner_id \<Rightarrow> runner_id list res" where
  "collect_e ctx pre_si i p =
     fold_res (\<lambda>q e.
         bind_res (if q = p then Inr True else threads_race_after ctx i q p) (\<lambda>in_e.
           Inr (if in_e \<and> \<not> sleep_set_contains pre_si q then List.insort_insert q e else e)))
       (enabled_runners pre_si) []"

definition update_with_e :: "runner_id list \<Rightarrow> stack_item \<Rightarrow> stack_item" where
  "update_with_e e pre_si =
     (if e = []
      then fold (\<lambda>q s. if \<not> sleep_set_contains s q
                       then insert_into_backtrack_set_unless_completed q s else s)
             (enabled_runners pre_si) pre_si
      else if list_ex (backtrack_set_contains pre_si) e then pre_si
      else insert_into_backtrack_set_unless_completed (hd e) pre_si)"

definition has_reversible_race ::
    "configuration \<Rightarrow> 'w dpor_context \<Rightarrow> transition \<Rightarrow> transition \<Rightarrow> nat \<Rightarrow> runner_id \<Rightarrow> bool res" where
  "has_reversible_race config ctx S_i next_sp i p =
     (if are_dependent config next_sp S_i \<and> are_coenabled config next_sp S_i
      then bind_res (happens_before_thread ctx i p) (\<lambda>hb. Inr (\<not> hb)) else Inr False)"

definition dynamically_update_backtrack_sets_at_index ::
    "configuration \<Rightarrow> transition \<Rightarrow> transition \<Rightarrow> nat \<Rightarrow> runner_id \<Rightarrow> 'w dpor_context
       \<Rightarrow> (bool \<times> 'w dpor_context) res" where
  "dynamically_update_backtrack_sets_at_index config S_i next_sp i p ctx =
     bind_res (vec_at (dpor_stack ctx) i) (\<lambda>pre_si.
     bind_res (has_reversible_race config ctx S_i next_sp i p) (\<lambda>race.
       if race
       then bind_res (collect_e ctx pre_si i p) (\<lambda>e.
              Inr (True, ctx\<lparr>dpor_stack := (dpor_stack ctx)[i := update_with_e e pre_si]\<rparr>))
       else Inr (False, ctx)))"

text \<open>The loop downwards for the runner that has just executed stops at the first race.\<close>

fun update_below ::
    "configuration \<Rightarrow> transition \<Rightarrow> runner_id \<Rightarrow> nat list \<Rightarrow> 'w dpor_context \<Rightarrow> 'w dpor_context res" where
  "update_below config next_sp p [] ctx = Inr ctx"
| "update_below config next_sp p (i # is) ctx =
     bind_res (ts_at (trace (ctx_program ctx)) i) (\<lambda>slot.
     bind_res (deref slot) (\<lambda>S_i.
     bind_res (dynamically_update_backtrack_sets_at_index config S_i next_sp i p ctx)
       (\<lambda>(should_stop, ctx1). if should_stop then Inr ctx1 else update_below config next_sp p is ctx1)))"

definition pending_of :: "'w dpor_context \<Rightarrow> runner_id \<Rightarrow> transition res" where
  "pending_of ctx rid = deref (get_pending_transition_for (ctx_program ctx) rid)"

definition dynamically_update_backtrack_sets ::
    "configuration \<Rightarrow> 'w dpor_context \<Rightarrow> 'w dpor_context res" where
  "dynamically_update_backtrack_sets config ctx =
     (let num_threads = get_num_runners (ctx_program ctx);
          t_stack_top = length (dpor_stack ctx) - 2 in
      bind_res (ts_back (trace (ctx_program ctx))) (\<lambda>slot.
      bind_res (deref slot) (\<lambda>S_n.
        let last_runner_to_execute = get_executor S_n;
            thread_ids = filter (\<lambda>r. r \<noteq> last_runner_to_execute) [0..<num_threads] in
        bind_res
          (fold_res (\<lambda>rid ctx1.
              bind_res (pending_of ctx1 rid) (\<lambda>next_sp.
              bind_res (dynamically_update_backtrack_sets_at_index config S_n next_sp t_stack_top rid ctx1)
                (\<lambda>x. Inr (snd x))))
            thread_ids ctx)
          (\<lambda>ctx2.
             bind_res (pending_of ctx2 last_runner_to_execute) (\<lambda>next_s_p.
               update_below config next_s_p last_runner_to_execute (rev [0..<t_stack_top]) ctx2)))))"

section \<open>The search\<close>

definition continue_dpor_by_expanding_trace_with ::
    "configuration \<Rightarrow> 'w environment \<Rightarrow> runner_id \<Rightarrow> 'w dpor_context \<Rightarrow> 'w dpor_context res" where
  "continue_dpor_by_expanding_trace_with config env p ctx =
     bind_res (execute_runner env p (ctx_coordinator ctx)) (\<lambda>c.
     bind_res (grow_stack_after_running config (ctx\<lparr>ctx_coordinator := c\<rparr>))
       (dynamically_update_backtrack_sets config))"

definition initial_dpor_context :: "'w coordinator \<Rightarrow> 'w dpor_context res" where
  "initial_dpor_context c =
     bind_res (get_enabled_runners (current_program_model c)) (\<lambda>enabled.
       Inr \<lparr>ctx_coordinator = c, dpor_stack = [initial_stack_item [] enabled]\<rparr>)"

definition SIGABRT :: int where
  "SIGABRT = 6"

text \<open>
  The question asked after each step of the exploration: does the next operation of the runner end
  the program?
\<close>

definition check_next_operation :: "runner_id \<Rightarrow> 'w dpor_context \<Rightarrow> unit res" where
  "check_next_operation rid ctx =
     bind_res (deref (get_pending_transition_for (ctx_program ctx) rid)) (\<lambda>rtransition.
       if aborts_program_execution rtransition then Inl (Termination_error SIGABRT rid)
       else if program_exit_code rtransition > 0
       then Inl (Nonzero_exit_code_error (program_exit_code rtransition) rid)
       else Inr ())"

text \<open>\<^verbatim>\<open>total_transitions++\<close> and \<^verbatim>\<open>trace_id++\<close> on \<^verbatim>\<open>uint32_t\<close>.\<close>

definition count_transition :: "stats \<Rightarrow> stats" where
  "count_transition s = s\<lparr>total_transitions := u32 (total_transitions s + 1)\<rparr>"

definition next_trace :: "stats \<Rightarrow> stats" where
  "next_trace s = s\<lparr>trace_id := u32 (trace_id s + 1)\<rparr>"

definition pop_exhausted :: "stack_item list \<Rightarrow> stack_item list" where
  "pop_exhausted stack = rev (dropWhile backtrack_set_empty (rev stack))"

definition add_event :: "bool \<Rightarrow> dpor_event \<Rightarrow> 'w dpor_state \<Rightarrow> 'w dpor_state" where
  "add_event is_set e st = (if is_set then st\<lparr>ds_events := ds_events st @ [e]\<rparr> else st)"

text \<open>A pass through the loop ends the search, goes on, or lets an exception escape.\<close>

datatype 'w outcome_of_pass =
    Finished "'w dpor_state"
  | Continue "'w dpor_state"
  | Escaped error

text \<open>
  The \<^verbatim>\<open>catch\<close> clauses: of the exploration, of returning to a depth, and of following a
  backtrack thread.
\<close>

fun catch_exploration :: "dpor_callbacks \<Rightarrow> 'w dpor_state \<Rightarrow> error \<Rightarrow> 'w outcome_of_pass" where
  "catch_exploration cb st (Undefined_behavior msg) =
     Finished (add_event (cb_undefined_behavior cb)
       (Undefined_behavior_found (ds_stats st) (Undefined_behavior msg)) st)"
| "catch_exploration cb st (Termination_error signo r) =
     Finished (add_event (cb_abnormal_termination cb)
       (Abnormal_termination_found (ds_stats st) (Termination_error signo r)) st)"
| "catch_exploration cb st (Nonzero_exit_code_error code r) =
     Finished (add_event (cb_nonzero_exit_code cb)
       (Nonzero_exit_code_found (ds_stats st) (Nonzero_exit_code_error code r)) st)"
| "catch_exploration cb st e = Escaped e"

fun catch_return :: "dpor_callbacks \<Rightarrow> 'w dpor_state \<Rightarrow> error \<Rightarrow> 'w outcome_of_pass" where
  "catch_return cb st (Termination_error signo r) =
     Finished (add_event (cb_abnormal_termination cb)
       (Abnormal_termination_found (ds_stats st) (Termination_error signo r)) st)"
| "catch_return cb st (Nonzero_exit_code_error code r) =
     Finished (add_event (cb_nonzero_exit_code cb)
       (Nonzero_exit_code_found (ds_stats st) (Nonzero_exit_code_error code r)) st)"
| "catch_return cb st e = Escaped e"

fun catch_follow :: "dpor_callbacks \<Rightarrow> 'w dpor_state \<Rightarrow> error \<Rightarrow> 'w outcome_of_pass" where
  "catch_follow cb st (Undefined_behavior msg) =
     Finished (add_event (cb_undefined_behavior cb)
       (Undefined_behavior_found (ds_stats st) (Undefined_behavior msg)) st)"
| "catch_follow cb st e = Escaped e"

definition explore_phase ::
    "configuration \<Rightarrow> dpor_callbacks \<Rightarrow> 'w environment \<Rightarrow> 'w dpor_state \<Rightarrow> 'w outcome_of_pass" where
  "explore_phase config cb env st =
     (let stack = dpor_stack (ds_context st) in
      if length stack \<ge> maximum_total_execution_depth config
      then Escaped (Runtime_error ''*** Execution Limit Reached! ***'')
      else
        let rid = get_first_enabled_runner (last stack) in
        case continue_dpor_by_expanding_trace_with config env rid (ds_context st) of
          Inl e \<Rightarrow> catch_exploration cb st e
        | Inr ctx \<Rightarrow>
            let st1 = st\<lparr>ds_context := ctx, ds_stats := count_transition (ds_stats st)\<rparr>
            in case check_next_operation rid ctx of
                 Inl e \<Rightarrow> catch_exploration cb st1 e
               | Inr _ \<Rightarrow> Continue st1)"

definition set_stack :: "stack_item list \<Rightarrow> 'w dpor_state \<Rightarrow> 'w dpor_state" where
  "set_stack stack st = st\<lparr>ds_context := (ds_context st)\<lparr>dpor_stack := stack\<rparr>\<rparr>"

definition follow_backtrack_point ::
    "configuration \<Rightarrow> dpor_callbacks \<Rightarrow> 'w environment \<Rightarrow> 'w dpor_state \<Rightarrow> 'w outcome_of_pass" where
  "follow_backtrack_point config cb env st =
     (let stack = dpor_stack (ds_context st) in
      case return_to_depth env (length stack - 1) (ctx_coordinator (ds_context st)) of
        Inl e \<Rightarrow> catch_return cb st e
      | Inr c \<Rightarrow>
          let st1 = st\<lparr>ds_context := (ds_context st)\<lparr>ctx_coordinator := c\<rparr>,
                ds_stats := next_trace (ds_stats st)\<rparr>
          in case bind_res (backtrack_set_pop_first (last stack)) (\<lambda>(r, top).
                    continue_dpor_by_expanding_trace_with config env r
                      ((ds_context st1)\<lparr>dpor_stack := butlast stack @ [top]\<rparr>)) of
               Inl e \<Rightarrow> catch_follow cb st1 e
             | Inr ctx \<Rightarrow> Continue (st1\<lparr>ds_context := ctx\<rparr>))"

definition backtrack_phase ::
    "configuration \<Rightarrow> dpor_callbacks \<Rightarrow> 'w environment \<Rightarrow> 'w dpor_state \<Rightarrow> 'w outcome_of_pass" where
  "backtrack_phase config cb env st =
     (let st1 = add_event (cb_trace_completed cb) (Trace_completed (ds_stats st)) st in
      case (if cb_deadlock cb then is_in_deadlock (ctx_program (ds_context st1)) else Inr False) of
        Inl e \<Rightarrow> Escaped e
      | Inr deadlocked \<Rightarrow>
          let st2 = add_event deadlocked (Deadlock_found (ds_stats st1)) st1;
              stack = pop_exhausted (dpor_stack (ds_context st2));
              st3 = set_stack stack st2
          in if stack = [] then Finished st3 else follow_backtrack_point config cb env st3)"

definition dpor_iteration ::
    "configuration \<Rightarrow> dpor_callbacks \<Rightarrow> 'w environment \<Rightarrow> 'w dpor_state \<Rightarrow> 'w outcome_of_pass" where
  "dpor_iteration config cb env st =
     (let stack = dpor_stack (ds_context st) in
      if stack = [] then Finished st
      else if has_enabled_runners (last stack) then explore_phase config cb env st
      else backtrack_phase config cb env st)"

fun verify_loop ::
    "nat \<Rightarrow> configuration \<Rightarrow> dpor_callbacks \<Rightarrow> 'w environment \<Rightarrow> 'w dpor_state \<Rightarrow> 'w dpor_state res option" where
  "verify_loop 0 config cb env st = None"
| "verify_loop (Suc n) config cb env st =
     (case dpor_iteration config cb env st of
        Finished st1 \<Rightarrow> Some (Inr st1)
      | Escaped e \<Rightarrow> Some (Inl e)
      | Continue st1 \<Rightarrow> verify_loop n config cb env st1)"

definition verify_using ::
    "nat \<Rightarrow> configuration \<Rightarrow> dpor_callbacks \<Rightarrow> 'w environment \<Rightarrow> 'w coordinator \<Rightarrow> 'w dpor_state res option" where
  "verify_using fuel config cb env c =
     (case initial_dpor_context c of
        Inl e \<Rightarrow> Some (Inl e)
      | Inr ctx \<Rightarrow> verify_loop fuel config cb env
          \<lparr>ds_context = ctx, ds_stats = \<lparr>trace_id = 1, total_transitions = 0\<rparr>, ds_events = []\<rparr>)"

end
