(* ===== verification/State_Laws.thy ===== *)
theory State_Laws
  imports States
begin

text \<open>
  The contracts of the state interface and the invariants that make the three classes meet
  them. \<open>mutable_state\<close> holds the laws of \<^verbatim>\<open>add_state_for_obj\<close>, \<open>object_store\<close>
  those of \<^verbatim>\<open>add_object\<close>; both are interpreted on the definitions of \<open>States\<close>.

  For state sequences, \<open>seq_wf\<close> is the invariant every operation keeps, and \<open>seq_full\<close> the
  stronger fact, lost by \<^verbatim>\<open>consume_into_subsequence\<close>, that the last element knows the last state
  of every object.
\<close>

section \<open>Interfaces\<close>

locale mutable_state =
  fixes inv :: "'s \<Rightarrow> bool"
    and known :: "'s \<Rightarrow> objid \<Rightarrow> bool"
    and obj_at :: "'s \<Rightarrow> objid \<Rightarrow> vos res"
    and runner_obj :: "'s \<Rightarrow> runner_id \<Rightarrow> objid"
    and add_state :: "objid \<Rightarrow> vos \<Rightarrow> 's \<Rightarrow> 's res"
  assumes add_defined: "inv s \<Longrightarrow> known s oid \<Longrightarrow> \<exists>s'. add_state oid v s = Inr s'"
    and add_inv: "inv s \<Longrightarrow> known s oid \<Longrightarrow> add_state oid v s = Inr s' \<Longrightarrow> inv s'"
    and add_same: "inv s \<Longrightarrow> known s oid \<Longrightarrow> add_state oid v s = Inr s' \<Longrightarrow> obj_at s' oid = Inr v"
    and add_other: "inv s \<Longrightarrow> known s oid \<Longrightarrow> add_state oid v s = Inr s' \<Longrightarrow> j \<noteq> oid \<Longrightarrow>
      obj_at s' j = obj_at s j"
    and add_known: "inv s \<Longrightarrow> known s oid \<Longrightarrow> add_state oid v s = Inr s' \<Longrightarrow> known s' j = known s j"
    and add_runner_obj: "inv s \<Longrightarrow> known s oid \<Longrightarrow> add_state oid v s = Inr s' \<Longrightarrow>
      runner_obj s' r = runner_obj s r"
begin

definition write_all :: "(objid \<times> vos) list \<Rightarrow> 's \<Rightarrow> 's res" where
  "write_all ws s = fold_res (\<lambda>w. add_state (fst w) (snd w)) ws s"

text \<open>A sequence of writes succeeds, and each object shows its last write.\<close>

lemma write_all_reads:
  assumes "inv s" and "\<forall>w \<in> set ws. known s (fst w)"
  shows "\<exists>s'. write_all ws s = Inr s' \<and> inv s' \<and>
    (\<forall>j. obj_at s' j = (case map_of (rev ws) j of Some v \<Rightarrow> Inr v | None \<Rightarrow> obj_at s j)) \<and>
    (\<forall>j. known s' j = known s j) \<and> (\<forall>r. runner_obj s' r = runner_obj s r)"
  using assms
proof (induction ws arbitrary: s)
  case Nil
  then show ?case by (simp add: write_all_def)
next
  case (Cons w ws)
  then have k: "known s (fst w)" by simp
  from add_defined [OF Cons.prems(1) k] obtain u where u: "add_state (fst w) (snd w) s = Inr u"
    by blast
  note laws = add_inv [OF Cons.prems(1) k u] add_same [OF Cons.prems(1) k u]
    add_other [OF Cons.prems(1) k u] add_known [OF Cons.prems(1) k u]
    add_runner_obj [OF Cons.prems(1) k u]
  have "\<forall>w \<in> set ws. known u (fst w)" using Cons.prems(2) laws(4) by simp
  from Cons.IH [OF laws(1) this] obtain s' where s': "write_all ws u = Inr s'" "inv s'"
    "\<forall>j. obj_at s' j = (case map_of (rev ws) j of Some v \<Rightarrow> Inr v | None \<Rightarrow> obj_at u j)"
    "\<forall>j. known s' j = known u j" "\<forall>r. runner_obj s' r = runner_obj u r" by blast
  moreover have "write_all (w # ws) s = Inr s'" using u s'(1) by (simp add: write_all_def)
  moreover have "obj_at s' j
      = (case map_of (rev (w # ws)) j of Some v \<Rightarrow> Inr v | None \<Rightarrow> obj_at s j)" for j
    using s'(3) laws(2,3) by (cases "j = fst w") (auto simp: map_add_def split: option.splits)
  ultimately show ?case using laws(4,5) by auto
qed

text \<open>Writes to different objects may be made in either order.\<close>

lemma writes_commute:
  assumes "inv s" and "known s a" and "known s b" and "a \<noteq> b"
    and "write_all [(a, v), (b, w)] s = Inr s1" and "write_all [(b, w), (a, v)] s = Inr s2"
  shows "obj_at s1 j = obj_at s2 j"
  using write_all_reads [of s "[(a, v), (b, w)]"] write_all_reads [of s "[(b, w), (a, v)]"] assms
  by auto

end

locale object_store = mutable_state inv known obj_at runner_obj add_state
  for inv :: "'s \<Rightarrow> bool"
    and known :: "'s \<Rightarrow> objid \<Rightarrow> bool"
    and obj_at :: "'s \<Rightarrow> objid \<Rightarrow> vos res"
    and runner_obj :: "'s \<Rightarrow> runner_id \<Rightarrow> objid"
    and add_state :: "objid \<Rightarrow> vos \<Rightarrow> 's \<Rightarrow> 's res" +
  fixes size_of :: "'s \<Rightarrow> nat"
    and add_obj :: "vos \<Rightarrow> 's \<Rightarrow> objid \<times> 's"
  assumes known_size: "inv s \<Longrightarrow> known s oid \<longleftrightarrow> oid < size_of s"
    and new_id: "inv s \<Longrightarrow> size_of s < invalid_objid \<Longrightarrow> fst (add_obj v s) = size_of s"
    and new_inv: "inv s \<Longrightarrow> size_of s < invalid_objid \<Longrightarrow> inv (snd (add_obj v s))"
    and new_size: "inv s \<Longrightarrow> size_of s < invalid_objid \<Longrightarrow>
      size_of (snd (add_obj v s)) = Suc (size_of s)"
    and new_same: "inv s \<Longrightarrow> size_of s < invalid_objid \<Longrightarrow>
      obj_at (snd (add_obj v s)) (size_of s) = Inr v"
    and new_other: "inv s \<Longrightarrow> size_of s < invalid_objid \<Longrightarrow> oid < size_of s \<Longrightarrow>
      obj_at (snd (add_obj v s)) oid = obj_at s oid"
begin

definition add_all :: "vos list \<Rightarrow> 's \<Rightarrow> 's" where
  "add_all vs s = fold (\<lambda>v s. snd (add_obj v s)) vs s"

text \<open>New objects take consecutive ids and leave the known objects alone.\<close>

lemma add_all_reads:
  assumes "inv s" and "size_of s + length vs \<le> invalid_objid"
  shows "inv (add_all vs s) \<and> size_of (add_all vs s) = size_of s + length vs \<and>
    (\<forall>i < length vs. obj_at (add_all vs s) (size_of s + i) = Inr (vs ! i)) \<and>
    (\<forall>oid < size_of s. obj_at (add_all vs s) oid = obj_at s oid)"
  using assms
proof (induction vs arbitrary: s)
  case (Cons v vs)
  let ?u = "snd (add_obj v s)"
  have room: "size_of s < invalid_objid" using Cons.prems(2) by simp
  note laws = new_inv [OF Cons.prems(1) room, of v] new_size [OF Cons.prems(1) room, of v]
    new_same [OF Cons.prems(1) room, of v] new_other [OF Cons.prems(1) room, of _ v]
  have ih: "inv (add_all vs ?u) \<and> size_of (add_all vs ?u) = size_of ?u + length vs \<and>
    (\<forall>i < length vs. obj_at (add_all vs ?u) (size_of ?u + i) = Inr (vs ! i)) \<and>
    (\<forall>oid < size_of ?u. obj_at (add_all vs ?u) oid = obj_at ?u oid)"
    using Cons.IH [OF laws(1)] Cons.prems(2) laws(2) by simp
  have "obj_at (add_all vs ?u) (size_of s + i) = Inr ((v # vs) ! i)" if "i < Suc (length vs)" for i
    using that ih laws(2,3) by (cases i) auto
  with ih laws(2,4) show ?case by (auto simp: add_all_def)
qed (simp add: add_all_def)

end

section \<open>Detached states\<close>

definition detached_wf :: "detached_state \<Rightarrow> bool" where
  "detached_wf d \<longleftrightarrow>
     [] \<notin> set (det_visible_objects d) \<and> length (det_visible_objects d) \<le> invalid_objid"

lemma vo_current_push [simp]: "vo_get_current_state (push_state s vo) = Inr s"
  by (simp add: vo_get_current_state_def push_state_def vec_back_def)

lemma push_state_not_Nil [simp]: "push_state s vo \<noteq> []" "[] \<noteq> push_state s vo"
  by (simp_all add: push_state_def)

lemma detached_add_state_eq:
  "detached_wf d \<Longrightarrow> oid < length (det_visible_objects d) \<Longrightarrow>
   detached_add_state_for_obj oid v d = Inr (d\<lparr>det_visible_objects :=
     (det_visible_objects d)[oid := push_state v (det_visible_objects d ! oid)]\<rparr>)"
  by (simp add: detached_add_state_for_obj_def detached_wf_def)

lemma detached_add_object_eq:
  "length (det_visible_objects d) < invalid_objid \<Longrightarrow>
   detached_add_object v d = (length (det_visible_objects d),
     d\<lparr>det_visible_objects := det_visible_objects d @ [[v]]\<rparr>)"
  by (simp add: detached_add_object_def invalid_objid_def Let_def)

interpretation det: object_store detached_wf
  "\<lambda>d oid. oid < length (det_visible_objects d)" detached_get_object detached_objid_for_runner
  detached_add_state_for_obj "\<lambda>d. length (det_visible_objects d)" detached_add_object
proof (unfold_locales, goal_cases)
  case (2 d oid v d')
  then show ?case
    by (auto simp: detached_add_state_eq detached_wf_def dest!: set_update_subset_insert [THEN subsetD])
next
  case (9 d v)
  then show ?case by (auto simp: detached_add_object_eq detached_wf_def)
qed (auto simp: detached_add_state_eq detached_add_object_eq detached_get_object_def
    detached_objid_for_runner_def vec_at_def nth_append vo_get_current_state_def vec_back_def
    push_state_def nth_list_update)

section \<open>Diff states\<close>

definition diff_wf :: "diff_state \<Rightarrow> bool" where
  "diff_wf d \<longleftrightarrow> (\<forall>oid. map_of (new_object_states d) oid \<noteq> Some [])"

lemma diff_wf_new [simp, wf_intros]: "diff_wf (new_diff s)"
  by (simp add: diff_wf_def new_diff_def)

lemma diff_add_state_eq:
  "oid \<noteq> invalid_objid \<Longrightarrow> diff_add_state_for_obj oid v d = Inr (d\<lparr>new_object_states :=
     AList.update oid (push_state v (case map_of (new_object_states d) oid of
        Some vo \<Rightarrow> vo | None \<Rightarrow> [])) (new_object_states d)\<rparr>)"
  by (simp add: diff_add_state_for_obj_def)

interpretation dif: mutable_state diff_wf "\<lambda>d oid. oid \<noteq> invalid_objid" diff_get_object
  diff_objid_for_runner diff_add_state_for_obj
proof (unfold_locales, goal_cases)
  case (2 d oid v d')
  then show ?case by (auto simp: diff_add_state_eq diff_wf_def split: if_splits)
qed (auto simp: diff_add_state_eq diff_get_object_def diff_objid_for_runner_def
    split: option.split)

section \<open>State sequences\<close>

subsection \<open>Invariants\<close>

abbreviation objs :: "state_sequence \<Rightarrow> visible_object list" where
  "objs \<equiv> visible_objects"

abbreviation idx :: "seq_element \<Rightarrow> objid \<Rightarrow> nat option" where
  "idx e \<equiv> map_of (visible_object_indices e)"

text \<open>
  An element points only at states that exist. Ids beyond the number of entries (objects
  observed while the element was the representative again after a backtrack) are at their first
  state.
\<close>

definition elem_wf :: "state_sequence \<Rightarrow> seq_element \<Rightarrow> bool" where
  "elem_wf ss e \<longleftrightarrow>
     distinct (map fst (visible_object_indices e)) \<and>
     (\<forall>oid i. idx e oid = Some i \<longrightarrow> oid < length (objs ss) \<and> i < length (objs ss ! oid)) \<and>
     (\<forall>oid i. idx e oid = Some i \<longrightarrow> length (visible_object_indices e) \<le> oid \<longrightarrow> i = 0) \<and>
     max_visible_runner_id e \<le> inj_size (runner_to_obj_map ss)"

definition elem_le :: "seq_element \<Rightarrow> seq_element \<Rightarrow> bool" where
  "elem_le e f \<longleftrightarrow>
     (\<forall>oid i. idx e oid = Some i \<longrightarrow> (\<exists>j. idx f oid = Some j \<and> i \<le> j)) \<and>
     max_visible_runner_id e \<le> max_visible_runner_id f"

definition runners_wf :: "state_sequence \<Rightarrow> bool" where
  "runners_wf ss \<longleftrightarrow>
     inj_wf (runner_to_obj_map ss) \<and>
     (\<forall>r. count_domain (runner_to_obj_map ss) r \<longleftrightarrow> r < inj_size (runner_to_obj_map ss)) \<and>
     (\<forall>oid. count_range (runner_to_obj_map ss) oid \<longrightarrow> oid < length (objs ss))"

definition seq_wf :: "state_sequence \<Rightarrow> bool" where
  "seq_wf ss \<longleftrightarrow>
     states_in_sequence ss \<noteq> [] \<and> [] \<notin> set (objs ss) \<and> runners_wf ss \<and>
     length (objs ss) \<le> invalid_objid \<and> inj_size (runner_to_obj_map ss) \<le> invalid_rid \<and>
     (\<forall>e \<in> set (states_in_sequence ss). elem_wf ss e) \<and>
     sorted_wrt elem_le (states_in_sequence ss)"

text \<open>The element is an up-to-date snapshot of every object and runner.\<close>

definition elem_full :: "state_sequence \<Rightarrow> seq_element \<Rightarrow> bool" where
  "elem_full ss e \<longleftrightarrow>
     (\<forall>oid. idx e oid = (if oid < length (objs ss) then Some (length (objs ss ! oid) - 1) else None)) \<and>
     length (visible_object_indices e) = length (objs ss) \<and>
     max_visible_runner_id e = inj_size (runner_to_obj_map ss)"

definition seq_full :: "state_sequence \<Rightarrow> bool" where
  "seq_full ss \<longleftrightarrow> elem_full ss (representative_state ss)"

lemma invalid_ids [simp]: "invalid_objid < 4294967296" "invalid_rid < 65536"
  by (simp_all add: invalid_objid_def invalid_rid_def)

lemma elem_get_object:
  "elem_wf ss e \<Longrightarrow> element_get_object ss e oid =
     (case idx e oid of Some i \<Rightarrow> Inr (objs ss ! oid ! i) | None \<Rightarrow> Inl Out_of_range)"
  by (auto simp: elem_wf_def element_get_object_def vec_at_def map_at_def vo_state_at_def
      split: option.splits)

lemma idx_new_element:
  "idx (new_element ss) oid =
     (if oid < length (objs ss) then Some (length (objs ss ! oid) - 1) else None)"
  by (simp add: new_element_def get_last_state_index_def map_of_map_restrict restrict_map_def)

lemma distinct_new_element: "distinct (map fst (visible_object_indices (new_element ss)))"
  by (simp add: new_element_def comp_def)

lemma new_element_full:
  "inj_size (runner_to_obj_map ss) \<le> invalid_rid \<Longrightarrow> elem_full ss (new_element ss)"
  by (simp add: elem_full_def idx_new_element) (simp add: new_element_def invalid_rid_def)

lemma elem_full_wf:
  assumes "elem_full ss e" and "[] \<notin> set (objs ss)"
    and "distinct (map fst (visible_object_indices e))"
  shows "elem_wf ss e"
proof -
  have "length (objs ss ! oid) - 1 < length (objs ss ! oid)" if "oid < length (objs ss)" for oid
    using that assms(2) nth_mem [OF that] by (cases "objs ss ! oid") auto
  with assms show ?thesis by (auto simp: elem_full_def elem_wf_def split: if_splits)
qed

lemma seq_wf_last:
  assumes "seq_wf ss"
  obtains es e where "states_in_sequence ss = es @ [e]" "representative_state ss = e" "elem_wf ss e"
proof -
  from assms have ne: "states_in_sequence ss \<noteq> []" by (simp add: seq_wf_def)
  then obtain es e where "states_in_sequence ss = es @ [e]" by (metis rev_exhaust)
  with assms show ?thesis
    by (intro that [of es e]) (auto simp: representative_state_def seq_wf_def)
qed

end
