(* ===== verification/Sequence_Laws.thy ===== *)
theory Sequence_Laws
  imports State_Laws
begin

text \<open>
  State sequences keep their invariant, and the states they have handed out do not change:
  lemmas on \<^verbatim>\<open>add_object\<close>, \<^verbatim>\<open>add_runner\<close>, the snapshot that ends \<^verbatim>\<open>follow\<close>,
  \<^verbatim>\<open>add_state_for_obj\<close> and \<^verbatim>\<open>consume_into_subsequence\<close>, and the interpretation of the
  state contracts on the sequence.
\<close>

section \<open>Elements under change\<close>

lemma update_representative_append:
  "states_in_sequence ss = es @ [e] \<Longrightarrow>
   update_representative f ss = ss\<lparr>states_in_sequence := es @ [f e]\<rparr>"
  by (simp add: update_representative_def)

lemma idx_point:
  "idx (point_to_next_state_for oid e) j =
     (if j = oid then Some (case idx e oid of Some i \<Rightarrow> Suc i | None \<Rightarrow> 0) else idx e j)"
  by (simp add: point_to_next_state_for_def split: option.split)

lemma max_visible_point [simp]:
  "max_visible_runner_id (point_to_next_state_for oid e) = max_visible_runner_id e"
  by (simp add: point_to_next_state_for_def)

lemma length_update_present: "map_of al k \<noteq> None \<Longrightarrow> length (AList.update k v al) = length al"
  by (induction al) auto

lemma length_update_absent: "map_of al k = None \<Longrightarrow> length (AList.update k v al) = Suc (length al)"
  by (induction al) (auto split: if_splits)

lemma length_point:
  "length (visible_object_indices (point_to_next_state_for oid e)) =
     (if idx e oid = None then Suc (length (visible_object_indices e))
      else length (visible_object_indices e))"
  by (auto simp: point_to_next_state_for_def length_update_present length_update_absent
      split: option.split)

lemma distinct_point:
  "distinct (map fst (visible_object_indices e)) \<Longrightarrow>
   distinct (map fst (visible_object_indices (point_to_next_state_for oid e)))"
  by (simp add: point_to_next_state_for_def split: option.split)

lemma elem_le_trans: "elem_le a b \<Longrightarrow> elem_le b c \<Longrightarrow> elem_le a c"
  by (fastforce simp: elem_le_def)

lemma elem_le_refl: "elem_le a a"
  by (simp add: elem_le_def)

lemma elem_le_point: "elem_le e (point_to_next_state_for oid e)"
  by (auto simp: elem_le_def idx_point split: option.split)

lemma sorted_replace_last:
  "sorted_wrt elem_le (es @ [e]) \<Longrightarrow> elem_le e f \<Longrightarrow> sorted_wrt elem_le (es @ [f])"
  by (auto simp: sorted_wrt_append intro: elem_le_trans)

text \<open>An element has no more entries than there are objects.\<close>

lemma elem_length_le:
  assumes "elem_wf ss e"
  shows "length (visible_object_indices e) \<le> length (objs ss)"
proof -
  have "set (map fst (visible_object_indices e)) \<subseteq> {..<length (objs ss)}"
  proof
    fix oid assume "oid \<in> set (map fst (visible_object_indices e))"
    then have "idx e oid \<noteq> None" by (simp add: map_of_eq_None_iff)
    with assms show "oid \<in> {..<length (objs ss)}" by (auto simp: elem_wf_def)
  qed
  moreover have "card (set (map fst (visible_object_indices e)))
      = length (visible_object_indices e)"
    using assms distinct_card [of "map fst (visible_object_indices e)"] by (simp add: elem_wf_def)
  ultimately show ?thesis
    using card_mono [of "{..<length (objs ss)}" "set (map fst (visible_object_indices e))"]
    by simp
qed

lemma elem_wf_absent:
  assumes "elem_wf ss e" and "length (objs ss) \<le> oid"
  shows "idx e oid = None"
proof (cases "idx e oid")
  case (Some i)
  with assms(1) have "oid < length (objs ss)" unfolding elem_wf_def by blast
  with assms(2) show ?thesis by simp
qed

section \<open>States handed out do not change\<close>

text \<open>The runners of \<open>ss'\<close> are those of \<open>ss\<close> and others with new objects.\<close>

definition runners_extend :: "state_sequence \<Rightarrow> state_sequence \<Rightarrow> bool" where
  "runners_extend ss ss' \<longleftrightarrow>
     (\<exists>xs. forward (runner_to_obj_map ss') = forward (runner_to_obj_map ss) @ xs \<and>
           backward (runner_to_obj_map ss') = backward (runner_to_obj_map ss) @ map prod.swap xs \<and>
           (\<forall>x \<in> set xs. length (objs ss) \<le> snd x))"

lemma runners_extend_refl:
  "runner_to_obj_map ss' = runner_to_obj_map ss \<Longrightarrow> runners_extend ss ss'"
  by (simp add: runners_extend_def)

lemma runners_extend_forward:
  assumes "runners_wf ss" and "runners_extend ss ss'" and "r < inj_size (runner_to_obj_map ss)"
  shows "inj_at (runner_to_obj_map ss') r = inj_at (runner_to_obj_map ss) r"
    and "count_domain (runner_to_obj_map ss') r"
proof -
  from assms(1,3) obtain oid where "map_of (forward (runner_to_obj_map ss)) r = Some oid"
    by (auto simp: runners_wf_def count_domain_def)
  with assms(2) have "map_of (forward (runner_to_obj_map ss')) r = Some oid"
    and "map_of (forward (runner_to_obj_map ss)) r = Some oid"
    by (auto simp: runners_extend_def)
  then show "inj_at (runner_to_obj_map ss') r = inj_at (runner_to_obj_map ss) r"
    and "count_domain (runner_to_obj_map ss') r"
    by (simp_all add: inj_at_def count_domain_def)
qed

lemma runners_extend_backward:
  assumes "runners_wf ss" and "runners_extend ss ss'" and "oid < length (objs ss)"
  shows "map_of (backward (runner_to_obj_map ss')) oid = map_of (backward (runner_to_obj_map ss)) oid"
proof -
  from assms(2) obtain xs where xs:
    "backward (runner_to_obj_map ss') = backward (runner_to_obj_map ss) @ map prod.swap xs"
    "\<forall>x \<in> set xs. length (objs ss) \<le> snd x"
    by (auto simp: runners_extend_def)
  have "map_of (map prod.swap xs) oid = None"
    using xs(2) assms(3) by (force simp: map_of_eq_None_iff)
  with xs(1) show ?thesis by (simp add: map_add_def split: option.split)
qed

lemma element_view_agree:
  assumes wf: "elem_wf ss e" "elem_wf ss' e" and rwf: "runners_wf ss"
    and rext: "runners_extend ss ss'"
    and same: "\<And>oid i. idx e oid = Some i \<Longrightarrow> objs ss' ! oid ! i = objs ss ! oid ! i"
  shows "element_view ss' e = element_view ss e"
proof -
  have get: "element_get_object ss' e = element_get_object ss e"
    using same by (auto simp: fun_eq_iff elem_get_object [OF wf(1)] elem_get_object [OF wf(2)]
        split: option.split)
  have vis: "r < inj_size (runner_to_obj_map ss)" if "r < max_visible_runner_id e" for r
    using wf(1) that by (simp add: elem_wf_def)
  have cr: "element_contains_runner ss' e = element_contains_runner ss e"
    using runners_extend_forward(2) [OF rwf rext] vis rwf
    by (auto simp: fun_eq_iff element_contains_runner_def runners_wf_def)
  have obj: "element_objid_for_runner ss' e = element_objid_for_runner ss e"
    using runners_extend_forward(1) [OF rwf rext] vis cr
    by (auto simp: fun_eq_iff element_objid_for_runner_def guarded_def element_contains_runner_def)
  have bk: "map_of (backward (runner_to_obj_map ss')) oid
      = map_of (backward (runner_to_obj_map ss)) oid" if "element_contains_object e oid" for oid
    using runners_extend_backward [OF rwf rext] elem_length_le [OF wf(1)] that
    by (simp add: element_contains_object_def)
  have ir: "element_is_runner ss' e = element_is_runner ss e"
    using bk by (auto simp: fun_eq_iff element_is_runner_def count_range_def)
  have rid: "(\<lambda>oid. guarded (element_is_runner ss' e oid)
        (inj_range_at (runner_to_obj_map ss') oid) invalid_rid)
      = (\<lambda>oid. guarded (element_is_runner ss e oid)
        (inj_range_at (runner_to_obj_map ss) oid) invalid_rid)"
  proof
    fix oid
    show "guarded (element_is_runner ss' e oid)
        (inj_range_at (runner_to_obj_map ss') oid) invalid_rid
      = guarded (element_is_runner ss e oid)
        (inj_range_at (runner_to_obj_map ss) oid) invalid_rid"
      using bk [of oid]
      by (cases "element_contains_object e oid")
         (simp_all add: guarded_def element_is_runner_def inj_range_at_def map_at_def count_range_def)
  qed
  show ?thesis by (simp add: element_view_def get cr obj rid [unfolded ir] ir)
qed

text \<open>\<open>ss'\<close> extends \<open>ss\<close>: objects have at least the states they had.\<close>

definition seq_extends :: "state_sequence \<Rightarrow> state_sequence \<Rightarrow> bool" where
  "seq_extends ss ss' \<longleftrightarrow>
     length (objs ss) \<le> length (objs ss') \<and>
     (\<forall>oid < length (objs ss). \<exists>t. objs ss' ! oid = objs ss ! oid @ t) \<and>
     runners_extend ss ss' \<and>
     inj_size (runner_to_obj_map ss) \<le> inj_size (runner_to_obj_map ss')"

lemma seq_extends_elem:
  assumes "elem_wf ss e" and "seq_extends ss ss'"
  shows "elem_wf ss' e"
proof -
  have "i < length (objs ss' ! oid) \<and> objs ss' ! oid ! i = objs ss ! oid ! i"
    if "idx e oid = Some i" for oid i
  proof -
    from that assms(1) have b: "oid < length (objs ss)" "i < length (objs ss ! oid)"
      by (auto simp: elem_wf_def)
    with assms(2) obtain t where "objs ss' ! oid = objs ss ! oid @ t"
      by (auto simp: seq_extends_def)
    with b(2) show ?thesis by (simp add: nth_append)
  qed
  with assms show ?thesis by (fastforce simp: elem_wf_def seq_extends_def)
qed

lemma seq_extends_view:
  assumes "elem_wf ss e" and "runners_wf ss" and "seq_extends ss ss'"
  shows "element_view ss' e = element_view ss e"
proof (rule element_view_agree)
  show "runners_extend ss ss'" using assms(3) by (simp add: seq_extends_def)
  fix oid i assume "idx e oid = Some i"
  with assms(1) have "oid < length (objs ss)" "i < length (objs ss ! oid)"
    by (auto simp: elem_wf_def)
  with assms(3) show "objs ss' ! oid ! i = objs ss ! oid ! i"
    by (fastforce simp: seq_extends_def nth_append)
qed (use assms seq_extends_elem in auto)

section \<open>The invariant is kept\<close>

lemma seq_wf_replace_last:
  assumes "seq_wf ss" and "seq_extends ss ss'"
    and "states_in_sequence ss = es @ [e]" and "states_in_sequence ss' = es @ [e']"
    and "elem_le e e'" and "elem_wf ss' e'" and "[] \<notin> set (objs ss')" and "runners_wf ss'"
    and "length (objs ss') \<le> invalid_objid" and "inj_size (runner_to_obj_map ss') \<le> invalid_rid"
  shows "seq_wf ss'"
proof -
  have "\<forall>f \<in> set es. elem_wf ss' f"
    using assms(1-3) seq_extends_elem by (auto simp: seq_wf_def)
  moreover have "sorted_wrt elem_le (es @ [e'])"
    using assms(1,3,5) sorted_replace_last by (auto simp: seq_wf_def)
  ultimately show ?thesis using assms by (simp add: seq_wf_def)
qed

lemma seq_wf_append:
  assumes "seq_wf ss" and "seq_extends ss ss'"
    and "states_in_sequence ss' = states_in_sequence ss @ [e']"
    and "elem_wf ss' e'" and "elem_full ss' e'" and "[] \<notin> set (objs ss')" and "runners_wf ss'"
    and "length (objs ss') \<le> invalid_objid" and "inj_size (runner_to_obj_map ss') \<le> invalid_rid"
  shows "seq_wf ss'"
proof -
  have wf: "\<forall>f \<in> set (states_in_sequence ss). elem_wf ss' f"
    using assms(1,2) seq_extends_elem by (auto simp: seq_wf_def)
  have "elem_le f e'" if "elem_wf ss' f" for f
    using that assms(5) by (fastforce simp: elem_wf_def elem_le_def elem_full_def)
  with wf have "sorted_wrt elem_le (states_in_sequence ss @ [e'])"
    using assms(1) by (auto simp: seq_wf_def sorted_wrt_append)
  with wf assms show ?thesis by (simp add: seq_wf_def)
qed

lemma seq_extends_refl:
  "objs ss' = objs ss \<Longrightarrow> runner_to_obj_map ss' = runner_to_obj_map ss \<Longrightarrow> seq_extends ss ss'"
  by (simp add: seq_extends_def runners_extend_refl)

lemma seq_wf_new [simp, wf_intros]: "seq_wf new_seq"
  by (simp add: seq_wf_def new_seq_def push_state_snapshot_def new_element_def elem_wf_def
      runners_wf_def inj_empty_def inj_wf_def inj_size_def count_domain_def count_range_def
      u16_def)

lemma push_state_snapshot_wf [wf_intros]:
  assumes "seq_wf ss"
  shows "seq_wf (push_state_snapshot ss)" and "seq_full (push_state_snapshot ss)"
proof -
  let ?ss = "push_state_snapshot ss"
  have same: "objs ?ss = objs ss" "runner_to_obj_map ?ss = runner_to_obj_map ss"
    "states_in_sequence ?ss = states_in_sequence ss @ [new_element ss]"
    by (simp_all add: push_state_snapshot_def)
  have f: "elem_full ss (new_element ss)"
    using assms new_element_full by (simp add: seq_wf_def)
  then have full: "elem_full ?ss (new_element ss)" by (simp add: elem_full_def same)
  then have wf: "elem_wf ?ss (new_element ss)"
    using assms distinct_new_element same by (intro elem_full_wf) (auto simp: seq_wf_def)
  have "runners_wf ?ss" using assms by (simp add: seq_wf_def runners_wf_def same)
  then show "seq_wf ?ss"
    using assms wf full seq_extends_refl [OF same(1,2)] same
    by (intro seq_wf_append [OF assms]) (auto simp: seq_wf_def)
  show "seq_full ?ss" using full by (simp add: seq_full_def representative_state_def same)
qed

lemma seq_add_object_shape:
  assumes "states_in_sequence ss = es @ [e]" and "length (objs ss) < invalid_objid"
  shows "seq_add_object v ss = (length (objs ss),
    ss\<lparr>states_in_sequence := es @ [point_to_next_state_for (length (objs ss)) e],
       visible_objects := objs ss @ [[v]]\<rparr>)"
  using assms by (simp add: seq_add_object_def update_representative_append invalid_objid_def Let_def)

lemma seq_add_object_extends:
  "states_in_sequence ss = es @ [e] \<Longrightarrow> length (objs ss) < invalid_objid \<Longrightarrow>
   seq_extends ss (snd (seq_add_object v ss))"
  by (auto simp: seq_add_object_shape seq_extends_def nth_append intro!: runners_extend_refl)

lemma seq_add_object_wf [wf_intros]:
  assumes "seq_wf ss" and "length (objs ss) < invalid_objid"
  shows "seq_wf (snd (seq_add_object v ss))"
proof -
  obtain es e where e: "states_in_sequence ss = es @ [e]" "elem_wf ss e"
    using assms(1) by (rule seq_wf_last)
  let ?n = "length (objs ss)" and ?ss = "snd (seq_add_object v ss)"
  have shape: "states_in_sequence ?ss = es @ [point_to_next_state_for ?n e]"
    "objs ?ss = objs ss @ [[v]]" "runner_to_obj_map ?ss = runner_to_obj_map ss"
    by (simp_all add: seq_add_object_shape [OF e(1) assms(2)])
  have "idx e ?n = None" using e(2) by (rule elem_wf_absent) simp
  then have "elem_wf ?ss (point_to_next_state_for ?n e)"
    using e(2) by (auto simp: elem_wf_def idx_point length_point distinct_point shape nth_append
        less_Suc_eq split: if_splits)
  moreover have "runners_wf ?ss"
    using assms(1) by (auto simp: seq_wf_def runners_wf_def shape less_Suc_eq)
  ultimately show ?thesis
    using assms elem_le_point shape
    by (intro seq_wf_replace_last [OF assms(1) seq_add_object_extends [OF e(1) assms(2)] e(1)])
       (auto simp: seq_wf_def)
qed

lemma runners_wf_fresh:
  assumes "runners_wf ss"
  shows "map_of (forward (runner_to_obj_map ss)) (inj_size (runner_to_obj_map ss)) = None"
    and "length (objs ss) \<le> oid \<Longrightarrow> map_of (backward (runner_to_obj_map ss)) oid = None"
  using assms by (auto simp: runners_wf_def count_domain_def count_range_def not_le [symmetric])

lemma seq_add_runner_shape:
  assumes "seq_wf ss" and "states_in_sequence ss = es @ [e]"
    and "length (objs ss) < invalid_objid" and "inj_size (runner_to_obj_map ss) < invalid_rid"
  defines "n \<equiv> length (objs ss)" and "r \<equiv> inj_size (runner_to_obj_map ss)"
  shows "seq_add_runner v ss = Inr (r,
    ss\<lparr>runner_to_obj_map := (runner_to_obj_map ss)\<lparr>
         forward := forward (runner_to_obj_map ss) @ [(r, n)],
         backward := backward (runner_to_obj_map ss) @ [(n, r)]\<rparr>,
       visible_objects := objs ss @ [[v]],
       states_in_sequence := es @ [record_new_runner (point_to_next_state_for n e)]\<rparr>)"
proof -
  have rw: "runners_wf ss" "inj_wf (runner_to_obj_map ss)"
    using assms(1) by (simp_all add: seq_wf_def runners_wf_def)
  have "u16 r = r" using assms(4) by (simp add: r_def invalid_rid_def)
  moreover have "inj_insert_or_throw (r, n) (runner_to_obj_map ss)
      = Inr ((runner_to_obj_map ss)\<lparr>
         forward := forward (runner_to_obj_map ss) @ [(r, n)],
         backward := backward (runner_to_obj_map ss) @ [(n, r)]\<rparr>)"
    using runners_wf_fresh [OF rw(1)] unfolding r_def n_def
    by (intro inj_insert_fresh rw) simp_all
  ultimately show ?thesis
    by (simp add: seq_add_runner_def seq_add_object_shape [OF assms(2,3)] update_representative_def
        r_def n_def Let_def)
qed

lemma max_visible_record [simp]:
  "max_visible_runner_id (record_new_runner e) = u16 (max_visible_runner_id e + 1)"
  "visible_object_indices (record_new_runner e) = visible_object_indices e"
  by (simp_all add: record_new_runner_def)

lemma seq_add_runner_wf [wf_intros]:
  assumes "seq_wf ss"
    and "length (objs ss) < invalid_objid" and "inj_size (runner_to_obj_map ss) < invalid_rid"
    and "seq_add_runner v ss = Inr (r, ss')"
  shows "seq_wf ss'" and "seq_extends ss ss'"
proof -
  obtain es e where e: "states_in_sequence ss = es @ [e]" "elem_wf ss e"
    using assms(1) by (rule seq_wf_last)
  let ?n = "length (objs ss)" and ?r = "inj_size (runner_to_obj_map ss)"
  let ?e = "record_new_runner (point_to_next_state_for ?n e)"
  have shape: "states_in_sequence ss' = es @ [?e]" "objs ss' = objs ss @ [[v]]"
    "runner_to_obj_map ss' = (runner_to_obj_map ss)\<lparr>
         forward := forward (runner_to_obj_map ss) @ [(?r, ?n)],
         backward := backward (runner_to_obj_map ss) @ [(?n, ?r)]\<rparr>"
    using assms(4) seq_add_runner_shape [OF assms(1) e(1) assms(2,3), of v] by auto
  have rw: "runners_wf ss" "inj_wf (runner_to_obj_map ss)"
    using assms(1) by (simp_all add: seq_wf_def runners_wf_def)
  have size: "inj_size (runner_to_obj_map ss') = Suc ?r"
    unfolding shape by (simp add: inj_size_def)
  show x: "seq_extends ss ss'"
    by (simp add: seq_extends_def runners_extend_def shape nth_append inj_size_def)
  have none: "idx e ?n = None" using e(2) by (rule elem_wf_absent) simp
  have mv: "max_visible_runner_id e \<le> ?r" using e(2) by (simp add: elem_wf_def)
  then have mv': "max_visible_runner_id ?e = Suc (max_visible_runner_id e)"
    using assms(3) by (simp add: invalid_rid_def)
  have "elem_wf ss' ?e"
    using e(2) none mv mv'
    by (auto simp: elem_wf_def idx_point length_point distinct_point shape nth_append less_Suc_eq
        size split: if_splits)
  moreover have "elem_le e ?e"
    using elem_le_point [of e ?n] mv' by (simp add: elem_le_def)
  moreover have "runners_wf ss'"
    unfolding runners_wf_def
  proof (intro conjI allI)
    show "inj_wf (runner_to_obj_map ss')"
      using inj_wf_append [OF rw(2)] runners_wf_fresh [OF rw(1)] by (simp add: shape)
    fix r oid
    have "count_domain (runner_to_obj_map ss') r \<longleftrightarrow>
        r = ?r \<or> count_domain (runner_to_obj_map ss) r"
      by (auto simp: count_domain_def shape map_add_def split: option.splits)
    then show "count_domain (runner_to_obj_map ss') r \<longleftrightarrow> r < inj_size (runner_to_obj_map ss')"
      using rw(1) by (auto simp: runners_wf_def size less_Suc_eq)
    show "count_range (runner_to_obj_map ss') oid \<longrightarrow> oid < length (objs ss')"
      using rw(1) by (auto simp: runners_wf_def count_range_def shape map_add_def less_Suc_eq
          split: option.splits if_splits)
  qed
  ultimately show "seq_wf ss'"
    using assms(1-3) shape size by (intro seq_wf_replace_last [OF assms(1) x e(1)])
      (auto simp: seq_wf_def)
qed

section \<open>Steps\<close>

text \<open>The last element is at the last state of every object it knows.\<close>

definition seq_tip :: "state_sequence \<Rightarrow> bool" where
  "seq_tip ss \<longleftrightarrow>
     (\<forall>oid i. idx (representative_state ss) oid = Some i \<longrightarrow> Suc i = length (objs ss ! oid))"

lemma seq_full_tip:
  assumes "seq_full ss" and "[] \<notin> set (objs ss)"
  shows "seq_tip ss"
proof -
  have "Suc (length (objs ss ! oid) - 1) = length (objs ss ! oid)" if "oid < length (objs ss)" for oid
  proof -
    have "objs ss ! oid \<noteq> []" using nth_mem [OF that] assms(2) by metis
    then show ?thesis by simp
  qed
  with assms(1) show ?thesis by (auto simp: seq_full_def elem_full_def seq_tip_def split: if_splits)
qed

lemma push_new_states:
  assumes "distinct (map fst news)"
    and "\<forall>p \<in> set news. fst p < length (objs ss) \<and> snd p \<noteq> []"
  shows "\<exists>ss1. fold_res seq_push_new_state news ss = Inr ss1 \<and>
    states_in_sequence ss1 = states_in_sequence ss \<and>
    runner_to_obj_map ss1 = runner_to_obj_map ss \<and> length (objs ss1) = length (objs ss) \<and>
    (\<forall>oid < length (objs ss). objs ss1 ! oid = objs ss ! oid @
       (case map_of news oid of Some vo \<Rightarrow> [last vo] | None \<Rightarrow> []))"
  using assms
proof (induction news arbitrary: ss)
  case (Cons p news)
  obtain oid vo where p: "p = (oid, vo)" by (cases p)
  let ?u = "ss\<lparr>visible_objects := (objs ss)[oid := objs ss ! oid @ [last vo]]\<rparr>"
  from Cons.prems(2) have u: "seq_push_new_state p ss = Inr ?u"
    by (simp add: p seq_push_new_state_def consume_into_current_state_def push_state_def)
  from Cons.IH [of ?u] Cons.prems obtain ss1 where ss1:
    "fold_res seq_push_new_state news ?u = Inr ss1"
    "states_in_sequence ss1 = states_in_sequence ss" "runner_to_obj_map ss1 = runner_to_obj_map ss"
    "length (objs ss1) = length (objs ss)"
    "\<forall>j < length (objs ss). objs ss1 ! j = objs ?u ! j @
       (case map_of news j of Some vo \<Rightarrow> [last vo] | None \<Rightarrow> [])" by auto
  have "map_of news oid = None"
    using Cons.prems(1) by (simp add: p map_of_eq_None_iff)
  with ss1(5) have "\<forall>j < length (objs ss). objs ss1 ! j = objs ss ! j @
      (case map_of (p # news) j of Some vo \<Rightarrow> [last vo] | None \<Rightarrow> [])"
    by (auto simp: p nth_list_update)
  with ss1 u show ?case by auto
qed simp

text \<open>What a completed step leaves behind.\<close>

lemma seq_commit_step:
  assumes wf: "seq_wf ss" and "distinct (map fst (new_object_states d))"
    and "\<forall>p \<in> set (new_object_states d). fst p < length (objs ss) \<and> snd p \<noteq> []"
  shows "\<exists>ss'. seq_commit d ss = Inr ss' \<and> seq_wf ss' \<and> seq_full ss' \<and> seq_extends ss ss' \<and>
    (\<exists>e. states_in_sequence ss' = states_in_sequence ss @ [e]) \<and>
    runner_to_obj_map ss' = runner_to_obj_map ss \<and> length (objs ss') = length (objs ss) \<and>
    (\<forall>oid < length (objs ss). objs ss' ! oid = objs ss ! oid @
       (case map_of (new_object_states d) oid of Some vo \<Rightarrow> [last vo] | None \<Rightarrow> []))"
proof -
  obtain ss1 where ss1: "fold_res seq_push_new_state (new_object_states d) ss = Inr ss1"
    "states_in_sequence ss1 = states_in_sequence ss" "runner_to_obj_map ss1 = runner_to_obj_map ss"
    "length (objs ss1) = length (objs ss)"
    "\<forall>oid < length (objs ss). objs ss1 ! oid = objs ss ! oid @
       (case map_of (new_object_states d) oid of Some vo \<Rightarrow> [last vo] | None \<Rightarrow> [])"
    using push_new_states [OF assms(2,3)] by blast
  have x: "seq_extends ss ss1"
    using ss1 by (simp add: seq_extends_def runners_extend_refl)
  have "[] \<notin> set (objs ss1)"
  proof
    assume "[] \<in> set (objs ss1)"
    then obtain oid where "oid < length (objs ss)" "objs ss1 ! oid = []"
      using ss1(4) by (auto simp: in_set_conv_nth)
    with ss1(5) have "objs ss ! oid = []" by simp
    with \<open>oid < length (objs ss)\<close> wf show False by (metis nth_mem seq_wf_def)
  qed
  then have wf1: "seq_wf ss1"
    using wf ss1 seq_extends_elem [OF _ x] by (auto simp: seq_wf_def runners_wf_def)
  let ?ss = "push_state_snapshot ss1"
  have "seq_commit d ss = Inr ?ss" by (simp add: seq_commit_def ss1(1))
  moreover have "objs ?ss = objs ss1" "runner_to_obj_map ?ss = runner_to_obj_map ss1"
    "states_in_sequence ?ss = states_in_sequence ss1 @ [new_element ss1]"
    by (simp_all add: push_state_snapshot_def)
  moreover have "seq_extends ss ?ss"
    using x calculation(2,3) by (simp add: seq_extends_def runners_extend_def)
  ultimately show ?thesis using push_state_snapshot_wf [OF wf1] ss1 by auto
qed

section \<open>Backtracking\<close>

text \<open>The ids an element counts are ids it has entries for.\<close>

definition elem_dense :: "seq_element \<Rightarrow> bool" where
  "elem_dense e \<longleftrightarrow> (\<forall>oid < length (visible_object_indices e). idx e oid \<noteq> None)"

definition kept_index :: "seq_element \<Rightarrow> objid \<Rightarrow> nat" where
  "kept_index e oid = (if element_contains_object e oid
     then (case idx e oid of Some i \<Rightarrow> i | None \<Rightarrow> 0) else 0)"

lemma slice_all:
  assumes "\<forall>oid \<in> set ns. element_contains_object e oid \<longrightarrow> idx e oid \<noteq> None"
    and "distinct ns" and "\<forall>oid \<in> set ns. oid < length (objs ss)"
  shows "\<exists>ss'. fold_res (slice_for_element e) ns ss = Inr ss' \<and>
    states_in_sequence ss' = states_in_sequence ss \<and>
    runner_to_obj_map ss' = runner_to_obj_map ss \<and> length (objs ss') = length (objs ss) \<and>
    (\<forall>oid < length (objs ss). objs ss' ! oid =
       (if oid \<in> set ns then take (kept_index e oid + 1) (objs ss ! oid) else objs ss ! oid))"
  using assms
proof (induction ns arbitrary: ss)
  case (Cons n ns)
  let ?u = "ss\<lparr>visible_objects := (objs ss)[n := take (kept_index e n + 1) (objs ss ! n)]\<rparr>"
  have u: "slice_for_element e n ss = Inr ?u"
    using Cons.prems(1) by (auto simp: slice_for_element_def kept_index_def slice_object_def)
  from Cons.IH [of ?u] Cons.prems obtain ss' where ss':
    "fold_res (slice_for_element e) ns ?u = Inr ss'"
    "states_in_sequence ss' = states_in_sequence ss" "runner_to_obj_map ss' = runner_to_obj_map ss"
    "length (objs ss') = length (objs ss)"
    "\<forall>oid < length (objs ss). objs ss' ! oid =
       (if oid \<in> set ns then take (kept_index e oid + 1) (objs ?u ! oid) else objs ?u ! oid)" by auto
  with u Cons.prems show ?case by (auto simp: nth_list_update)
qed simp

lemma slice_error:
  assumes "\<exists>oid \<in> set ns. element_contains_object e oid \<and> idx e oid = None"
  shows "fold_res (slice_for_element e) ns ss = Inl Out_of_range"
  using assms
  by (induction ns arbitrary: ss) (auto simp: slice_for_element_def map_at_def split: option.split)

lemma kept_index_bound:
  assumes "elem_wf ss e" and "[] \<notin> set (objs ss)" and "oid < length (objs ss)"
  shows "kept_index e oid < length (objs ss ! oid)"
proof -
  have "objs ss ! oid \<noteq> []" using nth_mem [OF assms(3)] assms(2) by metis
  then have "0 < length (objs ss ! oid)" by simp
  moreover have "i < length (objs ss ! oid)" if "idx e oid = Some i" for i
    using assms(1) that by (auto simp: elem_wf_def)
  ultimately show ?thesis by (auto simp: kept_index_def split: option.split)
qed

lemma idx_kept:
  assumes "elem_wf ss e" and "idx e oid = Some i"
  shows "kept_index e oid = i"
  using assms by (auto simp: kept_index_def element_contains_object_def elem_wf_def)

lemma consume_dense:
  assumes wf: "seq_wf ss" and n: "0 < n" "n < length (states_in_sequence ss)"
    and dense: "elem_dense (states_in_sequence ss ! (n - 1))"
  shows "\<exists>ss'. consume_into_subsequence n ss = Inr ss' \<and> seq_wf ss' \<and> seq_tip ss' \<and>
    states_in_sequence ss' = take n (states_in_sequence ss) \<and>
    runner_to_obj_map ss' = runner_to_obj_map ss \<and> length (objs ss') = length (objs ss) \<and>
    (\<forall>f \<in> set (take n (states_in_sequence ss)). element_view ss' f = element_view ss f)"
proof -
  let ?e = "states_in_sequence ss ! (n - 1)" and ?els = "take n (states_in_sequence ss)"
  let ?t = "ss\<lparr>states_in_sequence := ?els\<rparr>"
  have e: "?e \<in> set (states_in_sequence ss)" using n by simp
  then have ewf: "elem_wf ss ?e" using wf by (simp add: seq_wf_def)
  have ne: "?els \<noteq> []" "last ?els = ?e" using last_of_take [OF n] by simp_all
  have "\<exists>ss'. fold_res (slice_for_element ?e) [0..<length (objs ?t)] ?t = Inr ss' \<and>
    states_in_sequence ss' = states_in_sequence ?t \<and>
    runner_to_obj_map ss' = runner_to_obj_map ?t \<and> length (objs ss') = length (objs ?t) \<and>
    (\<forall>oid < length (objs ?t). objs ss' ! oid =
       (if oid \<in> set [0..<length (objs ?t)] then take (kept_index ?e oid + 1) (objs ?t ! oid)
        else objs ?t ! oid))"
    using dense by (intro slice_all) (auto simp: elem_dense_def element_contains_object_def)
  then obtain ss' where ss': "fold_res (slice_for_element ?e) [0..<length (objs ss)] ?t = Inr ss'"
    "states_in_sequence ss' = ?els" "runner_to_obj_map ss' = runner_to_obj_map ss"
    "length (objs ss') = length (objs ss)"
    "\<forall>oid < length (objs ss). objs ss' ! oid = take (kept_index ?e oid + 1) (objs ss ! oid)"
    by auto
  have run: "consume_into_subsequence n ss = Inr ss'"
    using n ne ss'(1) by (simp add: consume_into_subsequence_def vec_back_def Let_def)
  have len: "length (objs ss' ! oid) = Suc (kept_index ?e oid)" if "oid < length (objs ss)" for oid
    using that ss'(5) kept_index_bound [OF ewf _ that] wf by (simp add: seq_wf_def)
  have below: "i \<le> kept_index ?e oid" if "f \<in> set ?els" "idx f oid = Some i" for f oid i
  proof -
    note f = that
    have "f = ?e \<or> elem_le f ?e"
    proof -
      from f(1) obtain k where k: "k < n" "f = states_in_sequence ss ! k"
        using n by (auto simp: in_set_conv_nth)
      then have "k = n - 1 \<or> k < n - 1" by auto
      with k n wf show ?thesis by (auto simp: seq_wf_def sorted_wrt_iff_nth_less)
    qed
    then obtain j where "idx ?e oid = Some j" "i \<le> j"
      using f(2) by (auto simp: elem_le_def)
    with idx_kept [OF ewf] show ?thesis by simp
  qed
  have elems: "elem_wf ss f \<and> elem_wf ss' f \<and> element_view ss' f = element_view ss f"
    if "f \<in> set ?els" for f
  proof -
    have fwf: "elem_wf ss f" using that wf by (auto simp: seq_wf_def dest: in_set_takeD)
    moreover have fwf': "elem_wf ss' f"
      using fwf len below [OF that] by (auto simp: elem_wf_def ss' le_imp_less_Suc)
    moreover have "element_view ss' f = element_view ss f"
    proof (rule element_view_agree [OF fwf fwf'])
      show "runners_wf ss" using wf by (simp add: seq_wf_def)
      show "runners_extend ss ss'" using ss'(3) by (rule runners_extend_refl)
      fix oid i assume "idx f oid = Some i"
      moreover from this fwf have "oid < length (objs ss)" by (auto simp: elem_wf_def)
      ultimately show "objs ss' ! oid ! i = objs ss ! oid ! i"
        using ss'(5) below [OF that] by (simp add: le_imp_less_Suc)
    qed
    ultimately show ?thesis by blast
  qed
  have "[] \<notin> set (objs ss')"
    using len ss'(4) by (metis in_set_conv_nth list.size(3) nat.distinct(1))
  moreover have "sorted_wrt elem_le ?els"
    using wf by (simp add: seq_wf_def sorted_wrt_take)
  ultimately have "seq_wf ss'"
    using wf ne elems by (simp add: seq_wf_def runners_wf_def ss')
  moreover have "seq_tip ss'"
    unfolding seq_tip_def representative_state_def ss'(2) ne(2)
  proof (intro allI impI)
    fix oid i assume i: "idx ?e oid = Some i"
    with ewf have "oid < length (objs ss)" by (auto simp: elem_wf_def)
    with len idx_kept [OF ewf i] show "Suc i = length (objs ss' ! oid)" by simp
  qed
  ultimately show ?thesis using run ss' elems by blast
qed

lemma consume_not_dense:
  assumes wf: "seq_wf ss" and n: "0 < n" "n < length (states_in_sequence ss)"
    and dense: "\<not> elem_dense (states_in_sequence ss ! (n - 1))"
  shows "consume_into_subsequence n ss = Inl Out_of_range"
proof -
  let ?e = "states_in_sequence ss ! (n - 1)"
  have ne: "take n (states_in_sequence ss) \<noteq> []" "last (take n (states_in_sequence ss)) = ?e"
    using last_of_take [OF n] by simp_all
  have "elem_wf ss ?e" using wf n by (simp add: seq_wf_def)
  from elem_length_le [OF this] dense
  have "\<exists>oid \<in> set [0..<length (objs ss)]. element_contains_object ?e oid \<and> idx ?e oid = None"
    by (force simp: elem_dense_def element_contains_object_def)
  from slice_error [OF this] n ne show ?thesis
    by (simp add: consume_into_subsequence_def vec_back_def Let_def)
qed

section \<open>The sequence meets the state contracts\<close>

lemma tip_get_object:
  assumes "seq_wf ss" and "seq_tip ss"
  shows "sv_object (seq_view ss) oid =
    (case idx (representative_state ss) oid of
       Some _ \<Rightarrow> Inr (last (objs ss ! oid)) | None \<Rightarrow> Inl Out_of_range)"
proof -
  obtain es e where e: "representative_state ss = e" "elem_wf ss e"
    using assms(1) by (rule seq_wf_last)
  show ?thesis
  proof (cases "idx e oid")
    case (Some i)
    then have l: "Suc i = length (objs ss ! oid)" using assms(2) e(1) by (auto simp: seq_tip_def)
    then have "last (objs ss ! oid) = objs ss ! oid ! i"
      by (metis diff_Suc_1 last_conv_nth length_0_conv nat.distinct(1))
    with Some e show ?thesis by (simp add: seq_view_def element_view_def elem_get_object)
  qed (simp add: seq_view_def element_view_def elem_get_object e)
qed

lemma full_get_object:
  assumes "seq_wf ss" and "seq_full ss"
  shows "sv_object (seq_view ss) oid =
    (if oid < length (objs ss) then Inr (last (objs ss ! oid)) else Inl Out_of_range)"
proof -
  have "seq_tip ss" using assms by (simp add: seq_full_tip seq_wf_def)
  from tip_get_object [OF assms(1) this] assms(2) show ?thesis
    by (simp add: seq_full_def elem_full_def)
qed

lemma full_objid_for_runner:
  "seq_full ss \<Longrightarrow> sv_objid_for_runner (seq_view ss) r =
     guarded (r < inj_size (runner_to_obj_map ss) \<and> count_domain (runner_to_obj_map ss) r)
       (inj_at (runner_to_obj_map ss) r) invalid_objid"
  by (simp add: seq_view_def element_view_def element_objid_for_runner_def
      element_contains_runner_def seq_full_def elem_full_def)

lemma seq_add_state_shape:
  assumes "states_in_sequence ss = es @ [e]" and "oid < length (objs ss)"
    and "length (objs ss) \<le> invalid_objid"
  shows "seq_add_state_for_obj oid v ss = Inr (ss\<lparr>
    states_in_sequence := es @ [point_to_next_state_for oid e],
    visible_objects := (objs ss)[oid := objs ss ! oid @ [v]]\<rparr>)"
  using assms by (simp add: seq_add_state_for_obj_def update_representative_append push_state_def)

lemma seq_add_state_ok:
  assumes wf: "seq_wf ss" and full: "seq_full ss" and oid: "oid < length (objs ss)"
    and run: "seq_add_state_for_obj oid v ss = Inr ss'"
  shows "seq_wf ss' \<and> seq_full ss' \<and> objs ss' = (objs ss)[oid := objs ss ! oid @ [v]] \<and>
    runner_to_obj_map ss' = runner_to_obj_map ss"
proof -
  obtain es e where e: "states_in_sequence ss = es @ [e]" "representative_state ss = e"
    "elem_wf ss e" using wf by (rule seq_wf_last)
  have len: "length (objs ss) \<le> invalid_objid" using wf by (simp add: seq_wf_def)
  have shape: "states_in_sequence ss' = es @ [point_to_next_state_for oid e]"
    "objs ss' = (objs ss)[oid := objs ss ! oid @ [v]]"
    "runner_to_obj_map ss' = runner_to_obj_map ss"
    using run seq_add_state_shape [OF e(1) oid len, of v] by auto
  have ne: "[] \<notin> set (objs ss)" and rwf: "runners_wf ss" using wf by (auto simp: seq_wf_def)
  have ne': "[] \<notin> set (objs ss')"
    using ne set_update_subset_insert [of "objs ss" oid "objs ss ! oid @ [v]"]
    by (auto simp: shape)
  have "objs ss ! oid \<noteq> []" using ne nth_mem [OF oid] by metis
  then have full': "elem_full ss' (point_to_next_state_for oid e)"
    using full oid by (auto simp: seq_full_def elem_full_def e(2) idx_point length_point shape
        nth_list_update)
  then have "elem_wf ss' (point_to_next_state_for oid e)"
    using e(3) ne' by (intro elem_full_wf) (auto simp: elem_wf_def distinct_point)
  moreover have x: "seq_extends ss ss'"
  proof -
    have "\<exists>t. objs ss' ! j = objs ss ! j @ t" if "j < length (objs ss)" for j
      using that by (cases "j = oid") (auto simp: shape)
    then show ?thesis by (simp add: seq_extends_def shape runners_extend_refl)
  qed
  moreover have "runners_wf ss'" using rwf by (simp add: runners_wf_def shape)
  ultimately have "seq_wf ss'"
    using elem_le_point wf ne' by (intro seq_wf_replace_last [OF wf x e(1) shape(1)])
      (auto simp: shape seq_wf_def)
  then show ?thesis using full' shape by (simp add: seq_full_def representative_state_def)
qed

lemma seq_add_object_full:
  assumes wf: "seq_wf ss" and full: "seq_full ss" and "length (objs ss) < invalid_objid"
  shows "seq_full (snd (seq_add_object v ss))"
proof -
  obtain es e where e: "states_in_sequence ss = es @ [e]" "representative_state ss = e"
    using wf by (rule seq_wf_last)
  show ?thesis
    using full unfolding seq_full_def seq_add_object_shape [OF e(1) assms(3)]
    by (auto simp: representative_state_def elem_full_def e idx_point length_point nth_append
        less_Suc_eq)
qed

interpretation seq: object_store "\<lambda>ss. seq_wf ss \<and> seq_full ss" "\<lambda>ss oid. oid < length (objs ss)"
  "\<lambda>ss. sv_object (seq_view ss)" "\<lambda>ss. sv_objid_for_runner (seq_view ss)"
  seq_add_state_for_obj "\<lambda>ss. length (objs ss)" seq_add_object
proof (unfold_locales, goal_cases)
  case (1 ss oid v)
  then obtain es e where "states_in_sequence ss = es @ [e]" by (auto elim: seq_wf_last)
  with 1 show ?case by (auto simp: seq_add_state_shape seq_wf_def)
next
  case (2 ss oid v ss')
  then show ?case using seq_add_state_ok by blast
next
  case (3 ss oid v ss')
  with seq_add_state_ok [of ss oid v ss'] show ?case by (simp add: full_get_object)
next
  case (4 ss oid v ss' j)
  with seq_add_state_ok [of ss oid v ss'] show ?case by (simp add: full_get_object)
next
  case (5 ss oid v ss' j)
  with seq_add_state_ok [of ss oid v ss'] show ?case by simp
next
  case (6 ss oid v ss' r)
  with seq_add_state_ok [of ss oid v ss'] show ?case by (simp add: full_objid_for_runner)
next
  case (8 ss v)
  then obtain es e where "states_in_sequence ss = es @ [e]" by (auto elim: seq_wf_last)
  with 8 show ?case by (simp add: seq_add_object_shape)
next
  case (9 ss v)
  then show ?case by (simp add: seq_add_object_wf seq_add_object_full)
next
  case (10 ss v)
  then obtain es e where "states_in_sequence ss = es @ [e]" by (auto elim: seq_wf_last)
  with 10 show ?case by (simp add: seq_add_object_shape)
next
  case (11 ss v)
  then obtain es e where "states_in_sequence ss = es @ [e]" by (auto elim: seq_wf_last)
  with 11 show ?case
    by (subst full_get_object)
       (simp_all add: seq_add_object_wf seq_add_object_full, simp add: seq_add_object_shape)
next
  case (12 ss v oid)
  then obtain es e where "states_in_sequence ss = es @ [e]" by (auto elim: seq_wf_last)
  with 12 show ?case
    by (subst (1 2) full_get_object)
       (simp_all add: seq_add_object_wf seq_add_object_full,
        simp add: seq_add_object_shape nth_append)
qed simp

end
