(* ===== verification/State_Properties.thy ===== *)
theory State_Properties
  imports Sequence_Laws
begin

text \<open>
  Properties of the program states: a state sequence never changes a state it has moved past,
  backtracking brings a state back exactly, when it may fail, and how a diff differs from the
  base it modifies.
\<close>

section \<open>Runs of operations\<close>

datatype seq_op = Observe vos | Observe_runner vos | Commit diff_state

fun run_seq_op :: "seq_op \<Rightarrow> state_sequence \<Rightarrow> state_sequence res" where
  "run_seq_op (Observe v) ss = Inr (snd (seq_add_object v ss))"
| "run_seq_op (Observe_runner v) ss = bind_res (seq_add_runner v ss) (\<lambda>p. Inr (snd p))"
| "run_seq_op (Commit d) ss = seq_commit d ss"

lemma seq_extends_trans:
  assumes "seq_extends a b" and "seq_extends b c"
  shows "seq_extends a c"
proof -
  from assms obtain xs ys where xs:
    "forward (runner_to_obj_map b) = forward (runner_to_obj_map a) @ xs"
    "backward (runner_to_obj_map b) = backward (runner_to_obj_map a) @ map prod.swap xs"
    "\<forall>x \<in> set xs. length (objs a) \<le> snd x"
    "forward (runner_to_obj_map c) = forward (runner_to_obj_map b) @ ys"
    "backward (runner_to_obj_map c) = backward (runner_to_obj_map b) @ map prod.swap ys"
    "\<forall>x \<in> set ys. length (objs b) \<le> snd x" and l: "length (objs a) \<le> length (objs b)"
    by (auto simp: seq_extends_def runners_extend_def)
  have ys: "\<forall>x \<in> set ys. length (objs a) \<le> snd x" using xs(6) l le_trans by blast
  have "runners_extend a c"
    unfolding runners_extend_def
    by (rule exI [of _ "xs @ ys"]) (simp add: xs(1,2,4,5) xs(3) ys ball_Un)
  moreover have "\<exists>t. objs c ! oid = objs a ! oid @ t" if "oid < length (objs a)" for oid
  proof -
    from assms(1) that obtain s where s: "objs b ! oid = objs a ! oid @ s"
      unfolding seq_extends_def by blast
    from that l have "oid < length (objs b)" by simp
    with assms(2) obtain t where "objs c ! oid = objs b ! oid @ t"
      unfolding seq_extends_def by blast
    with s show ?thesis by simp
  qed
  moreover have "length (objs a) \<le> length (objs c) \<and>
      inj_size (runner_to_obj_map a) \<le> inj_size (runner_to_obj_map c)"
    using assms unfolding seq_extends_def by linarith
  ultimately show ?thesis unfolding seq_extends_def by blast
qed

lemma push_new_state_ok:
  assumes "seq_wf ss" and "seq_push_new_state p ss = Inr ss1"
  shows "seq_wf ss1 \<and> seq_extends ss ss1 \<and> states_in_sequence ss1 = states_in_sequence ss \<and>
    length (objs ss1) = length (objs ss) \<and> runner_to_obj_map ss1 = runner_to_obj_map ss"
proof -
  from assms(2) obtain v where v: "fst p < length (objs ss)"
    "ss1 = ss\<lparr>visible_objects := (objs ss)[fst p := objs ss ! fst p @ [v]]\<rparr>"
    by (auto simp: seq_push_new_state_def push_state_def split: option.splits if_splits)
  have "\<exists>t. objs ss1 ! j = objs ss ! j @ t" if "j < length (objs ss)" for j
    using that v by (cases "j = fst p") auto
  then have x: "seq_extends ss ss1" by (simp add: v seq_extends_def runners_extend_refl)
  have "[] \<notin> set (objs ss1)"
    using assms(1) set_update_subset_insert [of "objs ss" "fst p" "objs ss ! fst p @ [v]"]
    by (auto simp: v seq_wf_def)
  with assms(1) x seq_extends_elem [OF _ x] show ?thesis
    by (auto simp: seq_wf_def runners_wf_def v)
qed

lemma push_new_states_ok:
  "seq_wf ss \<Longrightarrow> fold_res seq_push_new_state news ss = Inr ss1 \<Longrightarrow>
   seq_wf ss1 \<and> seq_extends ss ss1 \<and> states_in_sequence ss1 = states_in_sequence ss \<and>
   length (objs ss1) = length (objs ss) \<and> runner_to_obj_map ss1 = runner_to_obj_map ss"
proof (induction news arbitrary: ss)
  case Nil
  then show ?case by (simp add: seq_extends_refl)
next
  case (Cons p news)
  then obtain u where u: "seq_push_new_state p ss = Inr u" "fold_res seq_push_new_state news u = Inr ss1"
    by (auto simp: res_simps)
  from push_new_state_ok [OF Cons.prems(1) u(1)] Cons.IH [OF _ u(2)] show ?case
    by (auto intro: seq_extends_trans)
qed

lemma seq_commit_ok:
  assumes "seq_wf ss" and "seq_commit d ss = Inr ss'"
  shows "seq_wf ss' \<and> seq_full ss' \<and> seq_extends ss ss' \<and>
    (\<exists>e. states_in_sequence ss' = states_in_sequence ss @ [e]) \<and>
    length (objs ss') = length (objs ss) \<and> runner_to_obj_map ss' = runner_to_obj_map ss"
proof -
  from assms(2) obtain u where u: "fold_res seq_push_new_state (new_object_states d) ss = Inr u"
    "ss' = push_state_snapshot u"
    by (auto simp: seq_commit_def res_simps)
  note ok = push_new_states_ok [OF assms(1) u(1)]
  have "seq_extends u ss'"
    by (simp add: u push_state_snapshot_def seq_extends_refl)
  with ok push_state_snapshot_wf [of u] seq_extends_trans [of ss u ss'] show ?thesis
    by (auto simp: u(2)) (auto simp: push_state_snapshot_def)
qed

text \<open>One operation keeps the invariant and all states but the last.\<close>

lemma run_seq_op_ok:
  assumes wf: "seq_wf ss" and "length (objs ss) < invalid_objid"
    and "inj_size (runner_to_obj_map ss) < invalid_rid" and run: "run_seq_op a ss = Inr ss'"
  shows "seq_wf ss' \<and> seq_extends ss ss' \<and>
    length (objs ss') \<le> Suc (length (objs ss)) \<and>
    inj_size (runner_to_obj_map ss') \<le> Suc (inj_size (runner_to_obj_map ss)) \<and>
    (\<exists>es. states_in_sequence ss' = butlast (states_in_sequence ss) @ es \<and> es \<noteq> [])"
proof -
  obtain es e where e: "states_in_sequence ss = es @ [e]" using wf by (rule seq_wf_last)
  show ?thesis
  proof (cases a)
    case (Observe v)
    then have ss': "ss' = snd (seq_add_object v ss)" using run by simp
    then have "seq_wf ss'" "seq_extends ss ss'"
      using seq_add_object_wf [OF wf assms(2)] seq_add_object_extends [OF e assms(2)] by simp_all
    then show ?thesis by (simp add: ss' seq_add_object_shape [OF e assms(2)] e)
  next
    case (Observe_runner v)
    then obtain r where r: "seq_add_runner v ss = Inr (r, ss')"
      using run by (auto simp: res_simps)
    with seq_add_runner_wf [OF wf assms(2,3) r] seq_add_runner_shape [OF wf e assms(2,3), of v]
    show ?thesis by (auto simp: e)
  next
    case (Commit d)
    then have "seq_commit d ss = Inr ss'" using run by simp
    from seq_commit_ok [OF wf this] e show ?thesis by (fastforce simp: butlast_append)
  qed
qed

lemma run_seq_ops_ok:
  assumes "seq_wf ss" and "length (objs ss) + length ops \<le> invalid_objid"
    and "inj_size (runner_to_obj_map ss) + length ops \<le> invalid_rid"
    and "fold_res run_seq_op ops ss = Inr ss'"
  shows "seq_wf ss' \<and> seq_extends ss ss' \<and>
    (\<exists>es. states_in_sequence ss' = butlast (states_in_sequence ss) @ es)"
  using assms
proof (induction ops arbitrary: ss)
  case Nil
  then have "seq_wf ss'" "ss' = ss" by simp_all
  then show ?case
    using append_butlast_last_id [of "states_in_sequence ss"]
    by (auto simp: seq_extends_refl seq_wf_def intro!: exI [of _ "[last (states_in_sequence ss)]"])
next
  case (Cons a ops)
  then obtain u where u: "run_seq_op a ss = Inr u" "fold_res run_seq_op ops u = Inr ss'"
    by (auto simp: res_simps)
  have "length (objs ss) < invalid_objid" "inj_size (runner_to_obj_map ss) < invalid_rid"
    using Cons.prems(2,3) by simp_all
  from run_seq_op_ok [OF Cons.prems(1) this u(1)] obtain es where ok:
    "seq_wf u" "seq_extends ss u" "length (objs u) \<le> Suc (length (objs ss))"
    "inj_size (runner_to_obj_map u) \<le> Suc (inj_size (runner_to_obj_map ss))"
    "states_in_sequence u = butlast (states_in_sequence ss) @ es" "es \<noteq> []" by blast
  from Cons.IH [OF ok(1) _ _ u(2)] ok Cons.prems(2,3) obtain fs where
    "seq_wf ss'" "seq_extends u ss'" "states_in_sequence ss' = butlast (states_in_sequence u) @ fs"
    by auto
  with ok show ?case by (auto simp: butlast_append intro: seq_extends_trans)
qed

section \<open>Properties\<close>

text \<open>
  C28. The past is immutable: however many objects and runners a state sequence observes and
  steps it takes, every state before its last one keeps answering every query of the state
  interface as it did, and the sequence stays well-formed.
\<close>

theorem earlier_states_never_change:
  assumes "seq_wf ss" and "length (objs ss) + length ops \<le> invalid_objid"
    and "inj_size (runner_to_obj_map ss) + length ops \<le> invalid_rid"
    and "fold_res run_seq_op ops ss = Inr ss'"
    and "i < get_num_states_in_sequence ss - 1"
  shows "seq_wf ss' \<and> seq_state_at ss' i = seq_state_at ss i"
proof -
  from run_seq_ops_ok [OF assms(1-4)] obtain es where ok: "seq_wf ss'" "seq_extends ss ss'"
    "states_in_sequence ss' = butlast (states_in_sequence ss) @ es" by blast
  let ?e = "states_in_sequence ss ! i"
  have i: "i < length (states_in_sequence ss)" "i < length (butlast (states_in_sequence ss))"
    using assms(5) by (simp_all add: get_num_states_in_sequence_def)
  have "states_in_sequence ss' ! i = ?e" "i < length (states_in_sequence ss')"
    using i ok(3) by (simp_all add: nth_append nth_butlast)
  moreover have "element_view ss' ?e = element_view ss ?e"
    using seq_extends_view [OF _ _ ok(2)] assms(1) i by (simp add: seq_wf_def)
  ultimately show ?thesis using i ok(1) by (simp add: seq_state_at_def)
qed

theorem earlier_states_never_change_witness:
  "\<exists>ss ss'. fold_res run_seq_op [Observe (Thread_obj Embryo), Observe (Sem_obj (semaphore_of_count 1))]
      ss = Inr ss' \<and> get_num_states_in_sequence ss = 2 \<and> seq_state_at ss' 0 = seq_state_at ss 0"
proof -
  let ?ss = "push_state_snapshot new_seq"
  have wf: "seq_wf ?ss" by (intro wf_intros)
  have len: "get_num_states_in_sequence ?ss = 2" "objs ?ss = []"
    "inj_size (runner_to_obj_map ?ss) = 0"
    by (simp_all add: get_num_states_in_sequence_def push_state_snapshot_def new_seq_def
        inj_size_def inj_empty_def)
  let ?ops = "[Observe (Thread_obj Embryo), Observe (Sem_obj (semaphore_of_count 1))]"
  obtain ss' where run: "fold_res run_seq_op ?ops ?ss = Inr ss'" by simp
  have "length (objs ?ss) + length ?ops \<le> invalid_objid"
    "inj_size (runner_to_obj_map ?ss) + length ?ops \<le> invalid_rid"
    using len by (simp_all add: invalid_objid_def invalid_rid_def)
  from earlier_states_never_change [OF wf this run, of 0] len run show ?thesis by auto
qed

text \<open>
  Backtracking is exact. Returning to the first \<open>n\<close> states succeeds exactly when the new
  last state has an entry for each id it counts; then it leaves a well-formed sequence of \<open>n\<close>
  states, each of which answers every query as before. Otherwise an exception escapes.
\<close>

lemma backtrack_restores_states:
  assumes "seq_wf ss" and "0 < n" and "n < get_num_states_in_sequence ss"
  shows "if elem_dense (states_in_sequence ss ! (n - 1))
    then \<exists>ss'. consume_into_subsequence n ss = Inr ss' \<and> seq_wf ss' \<and>
      get_num_states_in_sequence ss' = n \<and>
      (\<forall>i < n. seq_state_at ss' i = seq_state_at ss i)
    else consume_into_subsequence n ss = Inl Out_of_range"
proof -
  let ?els = "states_in_sequence ss"
  have n: "n < length ?els" using assms(3) by (simp add: get_num_states_in_sequence_def)
  show ?thesis
  proof (cases "elem_dense (?els ! (n - 1))")
    case True
    from consume_dense [OF assms(1,2) n True] obtain ss' where ss':
      "consume_into_subsequence n ss = Inr ss'" "seq_wf ss'" "states_in_sequence ss' = take n ?els"
      "\<forall>f \<in> set (take n ?els). element_view ss' f = element_view ss f" by blast
    have "seq_state_at ss' i = seq_state_at ss i" if "i < n" for i
    proof -
      have "?els ! i \<in> set (take n ?els)" using that n by (auto simp: in_set_conv_nth)
      with that n ss'(3,4) show ?thesis by (simp add: seq_state_at_def)
    qed
    with True ss' n show ?thesis by (auto simp: get_num_states_in_sequence_def)
  next
    case False
    with consume_not_dense [OF assms(1,2) n] show ?thesis by simp
  qed
qed

lemma backtrack_restores_states_example:
  "\<exists>ss ss'. get_num_states_in_sequence ss = 2 \<and> consume_into_subsequence 1 ss = Inr ss' \<and>
     get_num_states_in_sequence ss' = 1 \<and> seq_state_at ss' 0 = seq_state_at ss 0"
proof -
  let ?ss = "push_state_snapshot new_seq"
  have wf: "seq_wf ?ss" by (intro wf_intros)
  have len: "get_num_states_in_sequence ?ss = 2"
    by (simp add: get_num_states_in_sequence_def push_state_snapshot_def new_seq_def)
  have "elem_dense (states_in_sequence ?ss ! (1 - 1))"
    by (simp add: elem_dense_def push_state_snapshot_def new_seq_def new_element_def)
  with backtrack_restores_states [OF wf, of 1] len obtain ss' where
    "consume_into_subsequence 1 ?ss = Inr ss'" "get_num_states_in_sequence ss' = 1"
    "seq_state_at ss' 0 = seq_state_at ?ss 0" by auto
  with len show ?thesis by blast
qed

lemma dense_keys:
  assumes "elem_wf ss e" and "elem_dense e"
  shows "idx e oid \<noteq> None \<longleftrightarrow> oid < length (visible_object_indices e)"
proof -
  let ?keys = "set (map fst (visible_object_indices e))"
  have keys: "j \<in> ?keys \<longleftrightarrow> idx e j \<noteq> None" for j by (auto simp: map_of_eq_None_iff)
  have "{..<length (visible_object_indices e)} \<subseteq> ?keys"
    using assms(2) keys by (auto simp: elem_dense_def)
  moreover have "card ?keys = length (visible_object_indices e)"
    using assms(1) distinct_card [of "map fst (visible_object_indices e)"] by (simp add: elem_wf_def)
  ultimately have "{..<length (visible_object_indices e)} = ?keys"
    by (intro card_subset_eq) simp_all
  with keys show ?thesis by blast
qed

text \<open>
  Backtracking twice to a state can throw. After a first backtrack the sequence still holds
  the objects discovered on the abandoned branch, which the restored state does not count. If an
  operation then discovers one more object in the restored state and a step is taken, the next
  attempt to come back to that state ends in \<^verbatim>\<open>std::out_of_range\<close>.
\<close>

lemma late_discovery_breaks_backtracking:
  assumes "seq_wf ss" and "elem_dense (representative_state ss)"
    and "sv_count (seq_view ss) < length (visible_objects ss)"
    and "length (visible_objects ss) < invalid_objid"
    and "seq_commit d (snd (seq_add_object v ss)) = Inr ss'"
  shows "consume_into_subsequence (get_num_states_in_sequence ss) ss' = Inl Out_of_range"
proof -
  obtain es e where e: "states_in_sequence ss = es @ [e]" "representative_state ss = e"
    "elem_wf ss e" using assms(1) by (rule seq_wf_last)
  let ?k = "length (visible_object_indices e)" and ?N = "length (objs ss)"
  let ?e = "point_to_next_state_for ?N e"
  have k: "?k < ?N" using assms(3) by (simp add: seq_view_def element_view_def e(2))
  have gap: "idx e ?k = None" using dense_keys [OF e(3)] assms(2) e(2) by blast
  have "idx e ?N = None" using e(3) by (rule elem_wf_absent) simp
  then have "length (visible_object_indices ?e) = Suc ?k" by (simp add: length_point)
  then have bad: "\<not> elem_dense ?e"
    using gap k by (auto simp: elem_dense_def idx_point intro!: exI [of _ ?k])
  have "states_in_sequence (snd (seq_add_object v ss)) = es @ [?e]"
    by (simp add: seq_add_object_shape [OF e(1) assms(4)])
  with seq_commit_ok [OF seq_add_object_wf [OF assms(1,4)] assms(5)]
  obtain f where "seq_wf ss'" "states_in_sequence ss' = es @ [?e, f]" by auto
  with bad show ?thesis
    by (intro consume_not_dense) (auto simp: get_num_states_in_sequence_def e(1) nth_append)
qed

text \<open>
  The run of the witness: a step, a discovery and a step, back to the first state, another
  discovery and a step, and back again.
\<close>

lemma late_discovery_breaks_backtracking_example:
  "let noop = new_diff (seq_view new_seq); obj = Sem_obj (semaphore_of_count 1) in
   bind_res (seq_commit noop new_seq) (\<lambda>a.
   bind_res (seq_commit noop (snd (seq_add_object obj a))) (\<lambda>b.
   bind_res (consume_into_subsequence 1 b) (\<lambda>c.
   bind_res (seq_commit noop (snd (seq_add_object obj c))) (\<lambda>d.
     consume_into_subsequence 1 d)))) = Inl Out_of_range"
proof -
  let ?noop = "new_diff (seq_view new_seq)" and ?obj = "Sem_obj (semaphore_of_count 1)"
  let ?e0 = "\<lparr>visible_object_indices = [], max_visible_runner_id = 0\<rparr>"
  let ?c = "\<lparr>runner_to_obj_map = inj_empty, visible_objects = [[?obj]],
    states_in_sequence = [?e0]\<rparr>"
  note defs = seq_commit_def new_diff_def push_state_snapshot_def new_element_def
    seq_add_object_def update_representative_def point_to_next_state_for_def Let_def
    consume_into_subsequence_def vec_back_def slice_for_element_def element_contains_object_def
    slice_object_def inj_empty_def inj_size_def get_last_state_index_def
  have first: "bind_res (seq_commit ?noop new_seq) (\<lambda>a.
      bind_res (seq_commit ?noop (snd (seq_add_object ?obj a))) (consume_into_subsequence 1))
    = Inr ?c"
    by (simp add: defs new_seq_def)
  obtain d where d: "seq_commit ?noop (snd (seq_add_object ?obj ?c)) = Inr d"
    by (simp add: seq_commit_def new_diff_def)
  have wf: "seq_wf ?c"
    by (simp add: seq_wf_def elem_wf_def runners_wf_def inj_wf_def inj_empty_def inj_size_def
        count_domain_def count_range_def invalid_objid_def)
  have "consume_into_subsequence (get_num_states_in_sequence ?c) d = Inl Out_of_range"
    by (rule late_discovery_breaks_backtracking [OF wf _ _ _ d])
       (simp_all add: elem_dense_def representative_state_def seq_view_def element_view_def
         invalid_objid_def)
  then have "consume_into_subsequence 1 d = Inl Out_of_range"
    by (simp add: get_num_states_in_sequence_def)
  with d first show ?thesis
    by (simp add: Let_def bind_res_assoc [symmetric])
qed

text \<open>
  A diff hands out ids that leave a gap: once an object of the base has a new state in the
  diff, the id given to a new object is larger than the number of objects, so the diff itself
  does not count that id as the last one.
\<close>

lemma diff_new_id_skips:
  assumes "sv_contains_object s oid" and "oid < sv_count s" and "sv_count s + 1 < invalid_objid"
    and "diff_add_state_for_obj oid v (new_diff s) = Inr d"
  shows "diff_count d = sv_count s \<and> fst (diff_add_object w d) = diff_count d + 1"
proof -
  have "oid \<noteq> invalid_objid" using assms(2,3) by simp
  with assms show ?thesis
    by (auto simp: diff_add_state_eq new_diff_def diff_count_def diff_add_object_def Let_def
        invalid_objid_def)
qed

lemma diff_new_id_skips_example:
  "fst (diff_add_object (Thread_obj Embryo) ((new_diff (seq_view (snd (seq_add_object
      (Thread_obj Embryo) new_seq))))\<lparr>new_object_states := [(0, [Thread_obj Running])]\<rparr>)) = 2"
proof -
  let ?s = "seq_view (snd (seq_add_object (Thread_obj Embryo) new_seq))"
  have s: "sv_contains_object ?s 0" "sv_count ?s = 1"
    by (simp_all add: seq_view_def element_view_def element_contains_object_def
        representative_state_def seq_add_object_def new_seq_def push_state_snapshot_def
        new_element_def update_representative_def point_to_next_state_for_def Let_def)
  have d: "diff_add_state_for_obj 0 (Thread_obj Running) (new_diff ?s)
      = Inr ((new_diff ?s)\<lparr>new_object_states := [(0, [Thread_obj Running])]\<rparr>)"
    by (simp add: diff_add_state_for_obj_def new_diff_def invalid_objid_def push_state_def)
  from diff_new_id_skips [OF s(1) _ _ d, of "Thread_obj Embryo"] s(2) show ?thesis
    by (simp add: invalid_objid_def)
qed

text \<open>
  A diff answers queries by runner from the base: after a runner known to the base was given
  a new state, asking the diff for the object shows the new state, asking it for the runner
  shows the old one.
\<close>

lemma diff_runner_query_is_stale:
  assumes "sv_objid_for_runner s r \<noteq> invalid_objid"
    and "diff_add_state_for_runner r v (new_diff s) = Inr d"
  shows "sv_object (diff_view d) (sv_objid_for_runner (diff_view d) r) = Inr v \<and>
    sv_runner (diff_view d) r = sv_runner s r"
proof -
  have r: "diff_objid_for_runner (new_diff s) r = sv_objid_for_runner s r"
    by (simp add: diff_objid_for_runner_def new_diff_def inj_empty_def count_domain_def)
  with assms have d: "diff_add_state_for_obj (sv_objid_for_runner s r) v (new_diff s) = Inr d"
    by (simp add: diff_add_state_for_runner_def)
  from dif.add_same [OF diff_wf_new assms(1) d] dif.add_runner_obj [OF diff_wf_new assms(1) d, of r]
  show ?thesis
    using d assms(1) r
    by (auto simp: diff_view_def diff_add_state_eq diff_get_runner_def new_diff_def inj_empty_def
        count_domain_def)
qed

lemma diff_runner_query_is_stale_example:
  "let s = detached_view \<lparr>det_visible_objects = [[Thread_obj Running]],
     det_runner_to_obj_map = \<lparr>forward = [(0, 0)], backward = [(0, 0)]\<rparr>\<rparr> in
   \<exists>d. diff_add_state_for_runner 0 (Thread_obj Exited) (new_diff s) = Inr d \<and>
     sv_runner (diff_view d) 0 = Inr (Thread_obj Running) \<and>
     sv_object (diff_view d) 0 = Inr (Thread_obj Exited)"
proof -
  let ?s = "detached_view \<lparr>det_visible_objects = [[Thread_obj Running]],
     det_runner_to_obj_map = \<lparr>forward = [(0, 0)], backward = [(0, 0)]\<rparr>\<rparr>"
  note defs = detached_view_def detached_objid_for_runner_def guarded_def count_domain_def
    inj_at_def
  have r: "sv_objid_for_runner ?s 0 = 0" "sv_runner ?s 0 = Inr (Thread_obj Running)"
    by (simp_all add: defs detached_get_object_def vo_get_current_state_def vec_back_def)
  obtain d where d: "diff_add_state_for_runner 0 (Thread_obj Exited) (new_diff ?s) = Inr d"
    by (simp add: diff_add_state_for_runner_def diff_add_state_for_obj_def diff_objid_for_runner_def
        new_diff_def inj_empty_def count_domain_def r invalid_objid_def)
  have "sv_objid_for_runner (diff_view d) 0 = 0"
    using d by (auto simp: diff_add_state_for_runner_def diff_add_state_for_obj_def
        diff_objid_for_runner_def new_diff_def inj_empty_def count_domain_def r invalid_objid_def
        diff_view_def split: if_splits)
  with diff_runner_query_is_stale [OF _ d] d r show ?thesis
    by (auto simp: Let_def invalid_objid_def)
qed

end
