(* ===== verification/Program_Laws.thy ===== *)
theory Program_Laws
  imports Program State_Properties
begin

text \<open>
  The invariant of programs, that every operation keeps it, and the bookkeeping of
  \<^verbatim>\<open>restore_model_at_depth\<close>: which slot of the trace it moves back for which runner.
\<close>

section \<open>The invariant\<close>

definition pending_wf :: "program \<Rightarrow> bool" where
  "pending_wf p \<longleftrightarrow>
     omap_wf (next_steps p) \<and>
     (\<forall>r t. map_of (next_steps p) r = Some t \<longrightarrow>
        get_executor t = r \<and> r < inj_size (runner_to_obj_map (state_seq p)))"

text \<open>
  The trace has one transition less than there are states, none was moved out, and each was
  executed by a known runner.
\<close>

definition prog_wf :: "program \<Rightarrow> bool" where
  "prog_wf p \<longleftrightarrow>
     seq_wf (state_seq p) \<and> pending_wf p \<and> None \<notin> set (trace p) \<and>
     (\<forall>t. Some t \<in> set (trace p) \<longrightarrow> get_executor t < inj_size (runner_to_obj_map (state_seq p))) \<and>
     get_num_states_in_sequence (state_seq p) = length (trace p) + 1"

definition has_room :: "program \<Rightarrow> bool" where
  "has_room p \<longleftrightarrow> length (objs (state_seq p)) < invalid_objid \<and>
     inj_size (runner_to_obj_map (state_seq p)) < invalid_rid"

lemma follow_ok:
  assumes "seq_wf ss" and "follow t ss = Inr (Exists, ss')"
  shows "seq_wf ss' \<and> seq_full ss' \<and> seq_extends ss ss' \<and>
    (\<exists>e. states_in_sequence ss' = states_in_sequence ss @ [e]) \<and>
    length (objs ss') = length (objs ss) \<and> runner_to_obj_map ss' = runner_to_obj_map ss"
proof -
  from assms(2) obtain d where "seq_commit d ss = Inr ss'"
    by (auto simp: follow_def res_simps split: if_splits)
  from seq_commit_ok [OF assms(1) this] show ?thesis .
qed

lemma follow_status: "follow t ss = Inr (st, ss') \<Longrightarrow> st = Exists \<or> st = Disabled \<and> ss' = ss"
  by (auto simp: follow_def apply_to_def res_simps bind_res_def split: sum.splits if_splits)

text \<open>What a successful \<^verbatim>\<open>model_execution_of\<close> has done.\<close>

lemma model_execution_shape:
  assumes "model_execution_of r npo p = Inr q"
  obtains t ss where "get_executor npo = r" "map_of (next_steps p) r = Some t"
    "follow t (state_seq p) = Inr (Exists, ss)"
    "q = p\<lparr>state_seq := ss, trace := trace p @ [Some t],
      next_steps := omap_put r npo (next_steps p)\<rparr>"
proof -
  from assms have e: "get_executor npo = r"
    by (auto simp: model_execution_of_def split: if_splits)
  with assms obtain t where t: "map_of (next_steps p) r = Some t"
    by (auto simp: model_execution_of_def get_transition_for_runner_def split: option.splits)
  with assms e obtain st ss where f: "follow t (state_seq p) = Inr (st, ss)" "st \<noteq> Disabled"
    "st \<noteq> Undefined"
    "q = p\<lparr>state_seq := ss, trace := trace p @ [Some t],
      next_steps := omap_put r npo (next_steps p)\<rparr>"
    by (auto simp: model_execution_of_def get_transition_for_runner_def res_simps replace_unowned_def
        ts_push_def split: if_splits)
  with e t that show ?thesis by (metis follow_status)
qed

lemma model_execution_wf [wf_intros]:
  assumes "prog_wf p" and "model_execution_of r npo p = Inr q"
  shows "prog_wf q"
proof -
  from assms(2) obtain t ss where s: "get_executor npo = r" "map_of (next_steps p) r = Some t"
    "follow t (state_seq p) = Inr (Exists, ss)"
    "q = p\<lparr>state_seq := ss, trace := trace p @ [Some t],
      next_steps := omap_put r npo (next_steps p)\<rparr>" by (rule model_execution_shape)
  from follow_ok [OF _ s(3)] assms(1) have f: "seq_wf ss"
    "\<exists>e. states_in_sequence ss = states_in_sequence (state_seq p) @ [e]"
    "runner_to_obj_map ss = runner_to_obj_map (state_seq p)" by (auto simp: prog_wf_def)
  with assms(1) s show ?thesis
    by (auto simp: prog_wf_def pending_wf_def get_num_states_in_sequence_def omap_wf_put)
qed

lemma discover_object_wf [wf_intros]:
  assumes "prog_wf p" and "has_room p"
  shows "prog_wf (snd (discover_object v p))"
proof -
  have w: "seq_wf (state_seq p)" and room: "length (objs (state_seq p)) < invalid_objid"
    using assms by (simp_all add: prog_wf_def has_room_def)
  obtain es e where e: "states_in_sequence (state_seq p) = es @ [e]" using w by (rule seq_wf_last)
  from seq_add_object_wf [OF w room, of v] seq_add_object_shape [OF e room, of v] assms(1) e
  show ?thesis
    by (simp add: discover_object_def prog_wf_def pending_wf_def get_num_states_in_sequence_def)
qed

lemma discover_runner_wf [wf_intros]:
  assumes "prog_wf p" and "has_room p" and "\<forall>r. get_executor (f r) = r"
    and "discover_runner v f p = Inr (r, q)"
  shows "prog_wf q" and "r = inj_size (runner_to_obj_map (state_seq p))"
    and "next_steps q = omap_put r (f r) (next_steps p)"
proof -
  have w: "seq_wf (state_seq p)" and room: "length (objs (state_seq p)) < invalid_objid"
    "inj_size (runner_to_obj_map (state_seq p)) < invalid_rid"
    using assms by (simp_all add: prog_wf_def has_room_def)
  obtain es e where e: "states_in_sequence (state_seq p) = es @ [e]" using w by (rule seq_wf_last)
  from assms(4) obtain ss where ss: "seq_add_runner v (state_seq p) = Inr (r, ss)"
    "q = p\<lparr>state_seq := ss, next_steps := omap_put r (f r) (next_steps p)\<rparr>"
    using assms(3) by (auto simp: discover_runner_def res_simps set_transition_def replace_unowned_def)
  note shape = seq_add_runner_shape [OF w e room, of v]
  from seq_add_runner_wf [OF w room ss(1)] ss shape assms(1,3) e
  show "prog_wf q"
    by (auto simp: prog_wf_def pending_wf_def get_num_states_in_sequence_def omap_wf_put
        less_Suc_eq)
  show "r = inj_size (runner_to_obj_map (state_seq p))" "next_steps q = omap_put r (f r) (next_steps p)"
    using ss shape by auto
qed

section \<open>Restoring next steps\<close>

definition exec_at :: "transition_sequence \<Rightarrow> nat \<Rightarrow> runner_id" where
  "exec_at tr j = get_executor (the (tr ! j))"

text \<open>\<open>j\<close> is the first index past \<open>b\<close> at which \<open>r\<close> runs.\<close>

definition first_past :: "transition_sequence \<Rightarrow> nat \<Rightarrow> runner_id \<Rightarrow> nat \<Rightarrow> bool" where
  "first_past tr b r j \<longleftrightarrow> b < j \<and> exec_at tr j = r \<and> (\<forall>k. b < k \<longrightarrow> k < j \<longrightarrow> exec_at tr k \<noteq> r)"

lemma collect_indices_spec:
  assumes "None \<notin> set tr" and "i < length tr"
  shows "\<exists>m'. collect_indices tr b i m = Inr m' \<and>
    (distinct (map fst m) \<longrightarrow> distinct (map fst m')) \<and>
    (\<forall>r j. j \<le> i \<longrightarrow> first_past tr b r j \<longrightarrow> map_of m' r = Some j) \<and>
    (\<forall>r. (\<forall>j. b < j \<longrightarrow> j \<le> i \<longrightarrow> exec_at tr j \<noteq> r) \<longrightarrow> map_of m' r = map_of m r)"
  using assms(2)
proof (induction i arbitrary: m)
  case 0
  then show ?case by (auto simp: collect_indices.simps [of tr b 0] first_past_def)
next
  case (Suc i)
  show ?case
  proof (cases "Suc i > b")
    case False
    then show ?thesis by (auto simp: collect_indices.simps [of tr b "Suc i"] first_past_def)
  next
    case True
    have "tr ! Suc i \<noteq> None" using Suc.prems assms(1) nth_mem by metis
    then obtain t where t: "tr ! Suc i = Some t" by blast
    let ?m = "AList.update (exec_at tr (Suc i)) (Suc i) m"
    have step: "collect_indices tr b (Suc i) m = collect_indices tr b i ?m"
      using True Suc.prems t
      by (auto simp: collect_indices.simps [of tr b "Suc i"] ts_at_def exec_at_def)
    from Suc.IH [of ?m] Suc.prems obtain m' where m': "collect_indices tr b i ?m = Inr m'"
      "distinct (map fst ?m) \<longrightarrow> distinct (map fst m')"
      "\<forall>r j. j \<le> i \<longrightarrow> first_past tr b r j \<longrightarrow> map_of m' r = Some j"
      "\<forall>r. (\<forall>j. b < j \<longrightarrow> j \<le> i \<longrightarrow> exec_at tr j \<noteq> r) \<longrightarrow> map_of m' r = map_of ?m r" by auto
    have "map_of m' r = Some j" if "j \<le> Suc i" "first_past tr b r j" for r j
    proof (cases "j = Suc i")
      case True
      with that m'(4) show ?thesis by (auto simp: first_past_def)
    next
      case False
      with that m'(3) show ?thesis by simp
    qed
    moreover have "map_of m' r = map_of m r" if "\<forall>j. b < j \<longrightarrow> j \<le> Suc i \<longrightarrow> exec_at tr j \<noteq> r" for r
    proof -
      have "r \<noteq> exec_at tr (Suc i)" using that True by blast
      moreover have "map_of m' r = map_of ?m r" using that m'(4) by simp
      ultimately show ?thesis by simp
    qed
    ultimately show ?thesis using step m'(1,2) by (simp add: distinct_keys_update)
  qed
qed

lemma restore_next_steps_spec:
  assumes "distinct (map fst m)" and "omap_wf (next_steps p)"
    and "\<forall>(r, j) \<in> set m. n \<le> j \<and> j < length (trace p) \<and>
      (\<exists>t. trace p ! j = Some t \<and> get_executor t = r)"
  shows "\<exists>q. fold_res restore_next_step m p = Inr q \<and> state_seq q = state_seq p \<and>
    length (trace q) = length (trace p) \<and> take n (trace q) = take n (trace p) \<and>
    omap_wf (next_steps q) \<and>
    (\<forall>r. map_of (next_steps q) r =
      (case map_of m r of Some j \<Rightarrow> trace p ! j | None \<Rightarrow> map_of (next_steps p) r))"
  using assms
proof (induction m arbitrary: p)
  case (Cons x m)
  obtain r j where x: "x = (r, j)" by (cases x)
  with Cons.prems(3) obtain t where t: "n \<le> j" "j < length (trace p)" "trace p ! j = Some t"
    "get_executor t = r" by auto
  let ?p = "p\<lparr>trace := (trace p)[j := None], next_steps := omap_put r t (next_steps p)\<rparr>"
  have step: "restore_next_step x p = Inr ?p"
    using t x by (simp add: restore_next_step_def ts_extract_at_def set_transition_def
        replace_unowned_def)
  have other: "j' \<noteq> j" if "(r', j') \<in> set m" for r' j'
  proof
    assume "j' = j"
    with that Cons.prems(3) t have "r' = r" by auto
    with that Cons.prems(1) x show False by force
  qed
  have "\<forall>(r', j') \<in> set m. n \<le> j' \<and> j' < length (trace ?p) \<and>
      (\<exists>t. trace ?p ! j' = Some t \<and> get_executor t = r')"
    using Cons.prems(3) other by fastforce
  with Cons.IH [of ?p] Cons.prems(1,2) obtain q where q: "fold_res restore_next_step m ?p = Inr q"
    "state_seq q = state_seq p" "length (trace q) = length (trace p)"
    "take n (trace q) = take n (trace ?p)" "omap_wf (next_steps q)"
    "\<forall>r'. map_of (next_steps q) r' = (case map_of m r' of Some j' \<Rightarrow> trace ?p ! j'
       | None \<Rightarrow> map_of (next_steps ?p) r')"
    using omap_wf_put by (fastforce simp: x)
  have "map_of (next_steps q) r' = (case map_of (x # m) r' of Some j' \<Rightarrow> trace p ! j'
       | None \<Rightarrow> map_of (next_steps p) r')" for r'
  proof (cases "r' = r")
    case True
    then have "map_of m r' = None" using Cons.prems(1) x by (auto simp: map_of_eq_None_iff)
    with True q(6) t Cons.prems(2) x show ?thesis by simp
  next
    case False
    moreover have "j' \<noteq> j" if "map_of m r' = Some j'" for j'
      using that other map_of_SomeD by metis
    ultimately show ?thesis using q(6) Cons.prems(2) x by (auto split: option.split)
  qed
  moreover have "take n (trace ?p) = take n (trace p)" using t(1) by simp
  ultimately show ?case using step q by auto
qed simp

text \<open>
  The loop over the trace finds, for each runner, where it first runs from depth \<open>n\<close> on.
\<close>

lemma collected_entries:
  assumes "None \<notin> set tr" and "0 < n" and "n \<le> length tr" and "length tr < 4294967296"
  shows "\<exists>m. collect_indices tr (u32_minus n 1) (u32_minus (ts_count tr) 1) [] = Inr m \<and>
    distinct (map fst m) \<and>
    (\<forall>r j. map_of m r = Some j \<longleftrightarrow> j < length tr \<and> first_past tr (n - 1) r j)"
proof -
  have u: "u32_minus n 1 = n - 1" "u32_minus (ts_count tr) 1 = length tr - 1"
    using assms u32_minus_one_pos [of n] u32_minus_one_pos [of "length tr"] le_trans [of 1 n]
    unfolding ts_count_def by linarith+
  have "length tr - 1 < length tr" using assms by simp
  from collect_indices_spec [OF assms(1) this, of "n - 1" "[]"] obtain m where
    m: "collect_indices tr (n - 1) (length tr - 1) [] = Inr m" "distinct (map fst m)"
    "\<forall>r j. j \<le> length tr - 1 \<longrightarrow> first_past tr (n - 1) r j \<longrightarrow> map_of m r = Some j"
    "\<forall>r. (\<forall>j. n - 1 < j \<longrightarrow> j \<le> length tr - 1 \<longrightarrow> exec_at tr j \<noteq> r) \<longrightarrow> map_of m r = None"
    by auto
  have "j < length tr \<and> first_past tr (n - 1) r j" if j: "map_of m r = Some j" for r j
  proof -
    let ?P = "\<lambda>k. n - 1 < k \<and> k \<le> length tr - 1 \<and> exec_at tr k = r"
    from m(4) j have ex: "\<exists>k. ?P k" by fastforce
    from exists_least_iff [THEN iffD1, OF ex] obtain k where k: "?P k" "\<forall>i < k. \<not> ?P i" by blast
    then have "first_past tr (n - 1) r k" by (auto simp: first_past_def)
    with m(3) k(1) have "map_of m r = Some k" by simp
    with j k \<open>first_past tr (n - 1) r k\<close> assms(2,3) show ?thesis by auto
  qed
  moreover have "map_of m r = Some j" if "j < length tr" "first_past tr (n - 1) r j" for r j
    using m(3) that by simp
  ultimately show ?thesis using m(1,2) u by auto
qed

text \<open>
  \<^verbatim>\<open>restore_model_at_depth\<close> in full, at every depth but \<open>0\<close>: the trace and the states are cut,
  and each runner's next step is the first one it took from depth \<open>n\<close> on, if any.
\<close>

definition next_step_at :: "program \<Rightarrow> nat \<Rightarrow> runner_id \<Rightarrow> transition option" where
  "next_step_at p n r =
     (case find (\<lambda>j. exec_at (trace p) j = r) [n..<length (trace p)] of
        Some j \<Rightarrow> trace p ! j | None \<Rightarrow> map_of (next_steps p) r)"

lemma find_upt_Some:
  "find P [n..<k] = Some j \<longleftrightarrow> n \<le> j \<and> j < k \<and> P j \<and> (\<forall>i. n \<le> i \<longrightarrow> i < j \<longrightarrow> \<not> P i)"
proof
  assume "find P [n..<k] = Some j"
  then obtain i where "i < k - n" "P (n + i)" "j = n + i" "\<forall>l<i. \<not> P (n + l)"
    by (auto simp: find_Some_iff)
  then show "n \<le> j \<and> j < k \<and> P j \<and> (\<forall>i. n \<le> i \<longrightarrow> i < j \<longrightarrow> \<not> P i)"
    by (auto dest!: le_Suc_ex)
next
  assume "n \<le> j \<and> j < k \<and> P j \<and> (\<forall>i. n \<le> i \<longrightarrow> i < j \<longrightarrow> \<not> P i)"
  then show "find P [n..<k] = Some j"
    by (auto simp: find_Some_iff intro!: exI [of _ "j - n"])
qed

lemma discover_runner_trace: "discover_runner v f p = Inr (r, q) \<Longrightarrow> trace q = trace p"
  by (auto simp: discover_runner_def res_simps)

lemma discover_runner_seq:
  "discover_runner v f p = Inr (r, q) \<Longrightarrow> seq_add_runner v (state_seq p) = Inr (r, state_seq q)"
  by (auto simp: discover_runner_def res_simps)

lemma restore_spec:
  assumes wf: "prog_wf p" and n: "0 < n" "n \<le> length (trace p)" and "length (trace p) < 4294967295"
    and dense: "n < length (trace p) \<longrightarrow> elem_dense (states_in_sequence (state_seq p) ! n)"
  shows "\<exists>q. restore_model_at_depth n p = Inr q \<and> prog_wf q \<and> trace q = take n (trace p) \<and>
    states_in_sequence (state_seq q) = take (n + 1) (states_in_sequence (state_seq p)) \<and>
    (\<forall>i \<le> n. seq_state_at (state_seq q) i = seq_state_at (state_seq p) i) \<and>
    (\<forall>r. map_of (next_steps q) r = next_step_at p n r) \<and>
    runner_to_obj_map (state_seq q) = runner_to_obj_map (state_seq p) \<and>
    length (objs (state_seq q)) = length (objs (state_seq p))"
proof -
  let ?els = "states_in_sequence (state_seq p)"
  have swf: "seq_wf (state_seq p)" and full: "None \<notin> set (trace p)" and pend: "omap_wf (next_steps p)"
    and len: "length ?els = length (trace p) + 1"
    using wf by (simp_all add: prog_wf_def pending_wf_def get_num_states_in_sequence_def)
  from collected_entries [OF full n] assms(4) obtain m where m:
    "collect_indices (trace p) (u32_minus n 1) (u32_minus (ts_count (trace p)) 1) [] = Inr m"
    "distinct (map fst m)"
    "\<forall>r j. map_of m r = Some j \<longleftrightarrow> j < length (trace p) \<and> first_past (trace p) (n - 1) r j" by auto
  have slot: "\<exists>t. trace p ! j = Some t" if "j < length (trace p)" for j
    using full nth_mem [OF that] by (cases "trace p ! j") auto
  have "\<forall>(r, j) \<in> set m. n \<le> j \<and> j < length (trace p) \<and>
      (\<exists>t. trace p ! j = Some t \<and> get_executor t = r)"
  proof clarify
    fix r j assume "(r, j) \<in> set m"
    then have "j < length (trace p) \<and> first_past (trace p) (n - 1) r j" using m(2,3) by simp
    with slot [of j] n show "n \<le> j \<and> j < length (trace p) \<and>
      (\<exists>t. trace p ! j = Some t \<and> get_executor t = r)"
      by (auto simp: first_past_def exec_at_def)
  qed
  from restore_next_steps_spec [OF m(2) pend this] obtain q where q:
    "fold_res restore_next_step m p = Inr q" "state_seq q = state_seq p"
    "length (trace q) = length (trace p)" "take n (trace q) = take n (trace p)"
    "omap_wf (next_steps q)"
    "\<forall>r. map_of (next_steps q) r =
      (case map_of m r of Some j \<Rightarrow> trace p ! j | None \<Rightarrow> map_of (next_steps p) r)" by blast
  have entry: "map_of m r = find (\<lambda>j. exec_at (trace p) j = r) [n..<length (trace p)]" for r
  proof -
    have "map_of m r = Some j
        \<longleftrightarrow> find (\<lambda>j. exec_at (trace p) j = r) [n..<length (trace p)] = Some j" for j
    proof -
      have "n - 1 < k \<longleftrightarrow> n \<le> k" for k using n(1) by auto
      then show ?thesis by (auto simp: m(3) find_upt_Some first_past_def)
    qed
    then show ?thesis by (metis not_Some_eq)
  qed
  have steps: "map_of (next_steps q) r = next_step_at p n r" for r
    using q(6) entry by (simp add: next_step_at_def)
  obtain ss where ss: "consume_into_subsequence (n + 1) (state_seq p) = Inr ss" "seq_wf ss"
    "states_in_sequence ss = take (n + 1) ?els" "runner_to_obj_map ss = runner_to_obj_map (state_seq p)"
    "length (objs ss) = length (objs (state_seq p))"
    "\<forall>f \<in> set (take (n + 1) ?els). element_view ss f = element_view (state_seq p) f"
  proof (cases "n < length (trace p)")
    case True
    with consume_dense [OF swf, of "n + 1"] dense len that show ?thesis by auto
  next
    case False
    then have "consume_into_subsequence (n + 1) (state_seq p) = Inr (state_seq p)"
      using len by (simp add: consume_into_subsequence_def)
    with False that [of "state_seq p"] len swf n show ?thesis by simp
  qed
  let ?q = "q\<lparr>trace := take n (trace q), state_seq := ss\<rparr>"
  have run: "restore_model_at_depth n p = Inr ?q"
    using m(1) q ss(1) n assms(4)
    by (simp add: restore_model_at_depth_def ts_consume_into_subsequence_def)
  have "seq_state_at ss i = seq_state_at (state_seq p) i" if "i \<le> n" for i
  proof -
    have "?els ! i \<in> set (take (n + 1) ?els)" using that n len by (auto simp: in_set_conv_nth intro!: exI [of _ i])
    with that n len ss(3,6) show ?thesis by (simp add: seq_state_at_def)
  qed
  moreover have "get_executor t = r \<and> r < inj_size (runner_to_obj_map ss)"
    if "map_of (next_steps q) r = Some t" for r t
  proof (cases "map_of m r")
    case None
    with that q(6) wf ss(4) show ?thesis by (simp add: prog_wf_def pending_wf_def)
  next
    case (Some j)
    with that q(6) have "trace p ! j = Some t" by simp
    moreover from this Some m(3) have "Some t \<in> set (trace p)" by (metis nth_mem)
    moreover have "exec_at (trace p) j = r" using Some m(3) by (simp add: first_past_def)
    ultimately show ?thesis using wf ss(4) by (auto simp: prog_wf_def exec_at_def)
  qed
  moreover have "\<forall>t. Some t \<in> set (trace p) \<longrightarrow> get_executor t < inj_size (runner_to_obj_map ss)"
    using wf ss(4) by (simp add: prog_wf_def)
  ultimately show ?thesis
    using run ss q steps full n len
    by (intro exI [of _ ?q])
      (auto simp: prog_wf_def pending_wf_def get_num_states_in_sequence_def dest: in_set_takeD)
qed

end
