(* ===== verification/Transition_Spec.thy ===== *)
theory Transition_Spec
  imports Transitions State_Laws
begin

text \<open>
  What transitions promise, stated without diffs, casts or exceptions: a \<open>world\<close> is a partial map
  from object ids to states, a transition is a guard and an effect on worlds. The refinement
  theorem \<open>apply_to_refines\<close> says that on well-typed worlds \<^verbatim>\<open>transition::apply_to\<close> never fails,
  reports \<open>Exists\<close> exactly when the guard holds and then produces the effect, and otherwise
  leaves the state alone.
\<close>

section \<open>Worlds\<close>

type_synonym world = "objid \<Rightarrow> vos option"
type_synonym runner_objs = "runner_id \<Rightarrow> objid"

definition obj_map :: "state_view \<Rightarrow> world" where
  "obj_map s oid = (case sv_object s oid of Inr v \<Rightarrow> Some v | Inl _ \<Rightarrow> None)"

text \<open>The objects a transition names, its executor's and its target's included.\<close>

fun names :: "runner_objs \<Rightarrow> transition \<Rightarrow> objid set" where
  "names \<rho> (Thread_create e t) = {\<rho> e, \<rho> t}"
| "names \<rho> (Thread_join e t) = {\<rho> e, \<rho> t}"
| "names \<rho> (Mutex_init e m) = {\<rho> e, m}"
| "names \<rho> (Mutex_lock e m) = {\<rho> e, m}"
| "names \<rho> (Mutex_unlock e m) = {\<rho> e, m}"
| "names \<rho> (Cond_init e c) = {\<rho> e, c}"
| "names \<rho> (Cond_enqueue e c m) = {\<rho> e, c, m}"
| "names \<rho> (Cond_wait e c m) = {\<rho> e, c, m}"
| "names \<rho> (Cond_signal e c) = {\<rho> e, c}"
| "names \<rho> (Cond_broadcast e c) = {\<rho> e, c}"
| "names \<rho> (Cond_destroy e c) = {\<rho> e, c}"
| "names \<rho> (Sem_init e s n) = {\<rho> e, s}"
| "names \<rho> (Sem_post e s) = {\<rho> e, s}"
| "names \<rho> (Sem_wait e s) = {\<rho> e, s}"
| "names \<rho> t = {\<rho> (get_executor t)}"

definition is_thread_at :: "world \<Rightarrow> objid \<Rightarrow> bool" where
  "is_thread_at w oid \<longleftrightarrow> (case w oid of Some (Thread_obj _) \<Rightarrow> True | _ \<Rightarrow> False)"

definition is_mutex_at :: "world \<Rightarrow> objid \<Rightarrow> bool" where
  "is_mutex_at w oid \<longleftrightarrow> (case w oid of Some (Mutex_obj _) \<Rightarrow> True | _ \<Rightarrow> False)"

definition is_sem_at :: "world \<Rightarrow> objid \<Rightarrow> bool" where
  "is_sem_at w oid \<longleftrightarrow> (case w oid of Some (Sem_obj _) \<Rightarrow> True | _ \<Rightarrow> False)"

text \<open>Condition variables of the model allow no spurious wake-ups.\<close>

definition is_cv_at :: "world \<Rightarrow> objid \<Rightarrow> bool" where
  "is_cv_at w oid \<longleftrightarrow>
     (case w oid of Some (Cv_obj c) \<Rightarrow> numRemainingSpuriousWakeups c = 0 | _ \<Rightarrow> False)"

lemma is_thread_at_iff: "is_thread_at w oid \<longleftrightarrow> (\<exists>t. w oid = Some (Thread_obj t))"
  and is_mutex_at_iff: "is_mutex_at w oid \<longleftrightarrow> (\<exists>m. w oid = Some (Mutex_obj m))"
  and is_sem_at_iff: "is_sem_at w oid \<longleftrightarrow> (\<exists>s. w oid = Some (Sem_obj s))"
  and is_cv_at_iff:
    "is_cv_at w oid \<longleftrightarrow> (\<exists>c. w oid = Some (Cv_obj c) \<and> numRemainingSpuriousWakeups c = 0)"
  by (auto simp: is_thread_at_def is_mutex_at_def is_sem_at_def is_cv_at_def
      split: option.splits vos.splits)

fun targets_typed :: "runner_objs \<Rightarrow> transition \<Rightarrow> world \<Rightarrow> bool" where
  "targets_typed \<rho> (Thread_create e t) w = is_thread_at w (\<rho> t)"
| "targets_typed \<rho> (Thread_join e t) w = is_thread_at w (\<rho> t)"
| "targets_typed \<rho> (Mutex_init e m) w = is_mutex_at w m"
| "targets_typed \<rho> (Mutex_lock e m) w = is_mutex_at w m"
| "targets_typed \<rho> (Mutex_unlock e m) w = is_mutex_at w m"
| "targets_typed \<rho> (Cond_init e c) w = is_cv_at w c"
| "targets_typed \<rho> (Cond_enqueue e c m) w = (is_cv_at w c \<and> is_mutex_at w m)"
| "targets_typed \<rho> (Cond_wait e c m) w = (is_cv_at w c \<and> is_mutex_at w m)"
| "targets_typed \<rho> (Cond_signal e c) w = is_cv_at w c"
| "targets_typed \<rho> (Cond_broadcast e c) w = is_cv_at w c"
| "targets_typed \<rho> (Cond_destroy e c) w = is_cv_at w c"
| "targets_typed \<rho> (Sem_init e s n) w = is_sem_at w s"
| "targets_typed \<rho> (Sem_post e s) w = is_sem_at w s"
| "targets_typed \<rho> (Sem_wait e s) w = is_sem_at w s"
| "targets_typed \<rho> _ w = True"

definition well_typed :: "runner_objs \<Rightarrow> transition \<Rightarrow> world \<Rightarrow> bool" where
  "well_typed \<rho> t w \<longleftrightarrow> is_thread_at w (\<rho> (get_executor t)) \<and> targets_typed \<rho> t w"

section \<open>Guards and effects\<close>

definition the_mutex :: "world \<Rightarrow> objid \<Rightarrow> mutex" where
  "the_mutex w oid = (case w oid of Some (Mutex_obj m) \<Rightarrow> m
     | _ \<Rightarrow> new_mutex Mutex_uninitialized 0 RID_INVALID)"

definition the_cv :: "world \<Rightarrow> objid \<Rightarrow> condition_variable" where
  "the_cv w oid = (case w oid of Some (Cv_obj c) \<Rightarrow> c
     | _ \<Rightarrow> new_condition_variable Cv_uninitialized RID_INVALID 0 0 [] None)"

definition the_sem :: "world \<Rightarrow> objid \<Rightarrow> semaphore" where
  "the_sem w oid = (case w oid of Some (Sem_obj s) \<Rightarrow> s | _ \<Rightarrow> new_semaphore Sem_uninitialized 0)"

definition cv_usable :: "condition_variable \<Rightarrow> bool" where
  "cv_usable c \<longleftrightarrow> cv_current_state c \<notin> {Cv_uninitialized, Cv_destroyed}"

fun guard :: "runner_objs \<Rightarrow> transition \<Rightarrow> world \<Rightarrow> bool" where
  "guard \<rho> (Thread_exit e) w = (e \<noteq> RID_MAIN_THREAD)"
| "guard \<rho> (Thread_join e t) w = (w (\<rho> t) = Some (Thread_obj Exited))"
| "guard \<rho> (Mutex_lock e m) w = (mutex_current_state (the_mutex w m) \<noteq> Mutex_locked)"
| "guard \<rho> (Mutex_unlock e m) w =
     (mutex_current_state (the_mutex w m) = Mutex_locked \<and> owner (the_mutex w m) = e)"
| "guard \<rho> (Cond_enqueue e c m) w =
     (mutex_current_state (the_mutex w m) = Mutex_locked \<and> owner (the_mutex w m) = e)"
| "guard \<rho> (Cond_wait e c m) w =
     (cv_usable (the_cv w c) \<and> mutex_current_state (the_mutex w m) = Mutex_unlocked \<and>
      location (the_mutex w m) = associated_mutex (the_cv w c) \<and>
      thread_can_exit (cv_policy (the_cv w c)) e)"
| "guard \<rho> (Cond_signal e c) w = cv_usable (the_cv w c)"
| "guard \<rho> (Cond_broadcast e c) w = cv_usable (the_cv w c)"
| "guard \<rho> (Cond_destroy e c) w =
     (cv_usable (the_cv w c) \<and> wait_queue (cv_policy (the_cv w c)) = [])"
| "guard \<rho> (Sem_wait e s) w = (0 < sint (sem_count (the_sem w s)))"
| "guard \<rho> _ w = True"

definition enabled :: "runner_objs \<Rightarrow> transition \<Rightarrow> world \<Rightarrow> bool" where
  "enabled \<rho> t w \<longleftrightarrow> w (\<rho> (get_executor t)) = Some (Thread_obj Running) \<and> guard \<rho> t w"

definition locked_by :: "mutex \<Rightarrow> runner_id \<Rightarrow> mutex" where
  "locked_by m e = m\<lparr>mutex_current_state := Mutex_locked, owner := e\<rparr>"

definition released :: "mutex \<Rightarrow> mutex" where
  "released m = m\<lparr>mutex_current_state := Mutex_unlocked, owner := RID_INVALID\<rparr>"

text \<open>A condition variable after a thread or a policy change.\<close>

definition cv_with ::
    "cv_state \<Rightarrow> runner_id \<Rightarrow> address \<Rightarrow> policy \<Rightarrow> condition_variable" where
  "cv_with s tid mutex p =
     \<lparr>cv_current_state = s, numRemainingSpuriousWakeups = 0, running_thread = tid,
      associated_mutex = mutex, waiting_count = new_waiting_count p, prev_waiting_count = 0,
      lost_wakeups = 0, cv_policy = p\<rparr>"

definition fresh_cv :: "cv_state \<Rightarrow> runner_id \<Rightarrow> condition_variable" where
  "fresh_cv s tid = new_condition_variable s tid 0 0 [] None"

definition enqueued_policy :: "runner_id \<Rightarrow> policy \<Rightarrow> policy" where
  "enqueued_policy e p = add_waiter_with_state e CV_WAITING
     (if get_thread_cv_state p e = CV_PREWAITING then update_thread_cv_state e CV_WAITING p else p)"

definition signalled_policy :: "condition_variable \<Rightarrow> policy" where
  "signalled_policy c = add_to_wake_groups (waiting_threads c) (cv_policy c)"

definition woken_policy :: "runner_id \<Rightarrow> policy \<Rightarrow> policy" where
  "woken_policy e p = (case wake_thread e p of Inr q \<Rightarrow> q | Inl _ \<Rightarrow> p)"

fun effect :: "runner_objs \<Rightarrow> transition \<Rightarrow> world \<Rightarrow> world" where
  "effect \<rho> (Thread_create e t) w = w(\<rho> t \<mapsto> Thread_obj Running)"
| "effect \<rho> (Thread_exit e) w = w(\<rho> e \<mapsto> Thread_obj Exited)"
| "effect \<rho> (Mutex_init e m) w = w(m \<mapsto> Mutex_obj (released (the_mutex w m)))"
| "effect \<rho> (Mutex_lock e m) w = w(m \<mapsto> Mutex_obj (locked_by (the_mutex w m) e))"
| "effect \<rho> (Mutex_unlock e m) w = w(m \<mapsto> Mutex_obj (released (the_mutex w m)))"
| "effect \<rho> (Cond_init e c) w = w(c \<mapsto> Cv_obj (fresh_cv Cv_initialized RID_INVALID))"
| "effect \<rho> (Cond_enqueue e c m) w =
     w(c \<mapsto> Cv_obj (cv_with Cv_waiting e (location (the_mutex w m))
               (enqueued_policy e (cv_policy (the_cv w c)))),
       m \<mapsto> Mutex_obj (released (the_mutex w m)))"
| "effect \<rho> (Cond_wait e c m) w =
     (let p = woken_policy e (cv_policy (the_cv w c))
      in w(m \<mapsto> Mutex_obj (locked_by (the_mutex w m) e),
           c \<mapsto> Cv_obj (cv_with (state_for_count (new_waiting_count p)) e
                     (location (the_mutex w m)) p)))"
| "effect \<rho> (Cond_signal e c) w =
     (if wait_queue (cv_policy (the_cv w c)) = [] then w
      else
        let p = signalled_policy (the_cv w c)
        in w(c \<mapsto> Cv_obj (cv_with (state_for_count (new_waiting_count p)) RID_INVALID
                     (associated_mutex (the_cv w c)) p)))"
| "effect \<rho> (Cond_broadcast e c) w =
     (if wait_queue (cv_policy (the_cv w c)) = [] then w
      else w(c \<mapsto> Cv_obj (cv_with Cv_signaled e (associated_mutex (the_cv w c))
               (receive_broadcast_message (signalled_policy (the_cv w c))))))"
| "effect \<rho> (Cond_destroy e c) w = w(c \<mapsto> Cv_obj (fresh_cv Cv_destroyed e))"
| "effect \<rho> (Sem_init e s n) w = w(s \<mapsto> Sem_obj (semaphore_of_count n))"
| "effect \<rho> (Sem_post e s) w = w(s \<mapsto> Sem_obj (semaphore_of_count (sem_count (the_sem w s) + 1)))"
| "effect \<rho> (Sem_wait e s) w = w(s \<mapsto> Sem_obj (semaphore_of_count (sem_count (the_sem w s) - 1)))"
| "effect \<rho> (Process_exit e n) w = w(\<rho> e \<mapsto> Thread_obj Exited)"
| "effect \<rho> _ w = w"

section \<open>Refinement\<close>

text \<open>The views transitions are applied to: runner queries go through object ids.\<close>

definition view_ok :: "state_view \<Rightarrow> bool" where
  "view_ok s \<longleftrightarrow> (\<forall>r. sv_runner s r = sv_object s (sv_objid_for_runner s r)) \<and>
     obj_map s invalid_objid = None"

lemma obj_map_Some: "obj_map s oid = Some v \<longleftrightarrow> sv_object s oid = Inr v"
  by (auto simp: obj_map_def split: sum.splits)

text \<open>Diffs with one and two writes.\<close>

lemma new_diff_get [simp]: "diff_get_object (new_diff s) oid = sv_object s oid"
  by (simp add: diff_get_object_def new_diff_def)

lemma new_diff_runner [simp]:
  "diff_get_runner (new_diff s) r = sv_runner s r"
  "diff_objid_for_runner (new_diff s) r = sv_objid_for_runner s r"
  by (simp_all add: diff_get_runner_def diff_objid_for_runner_def new_diff_def inj_empty_def
      count_domain_def)

definition diff_with :: "state_view \<Rightarrow> (objid \<times> vos) list \<Rightarrow> diff_state" where
  "diff_with s ws = (new_diff s)\<lparr>new_object_states := map (\<lambda>(oid, v). (oid, [v])) ws\<rparr>"

lemma write_one:
  "oid \<noteq> invalid_objid \<Longrightarrow> diff_add_state_for_obj oid v (new_diff s) = Inr (diff_with s [(oid, v)])"
  by (simp add: diff_add_state_eq diff_with_def new_diff_def push_state_def)

lemma write_two:
  "oid \<noteq> invalid_objid \<Longrightarrow> oid' \<noteq> oid \<Longrightarrow>
   diff_add_state_for_obj oid v (diff_with s [(oid', v')]) = Inr (diff_with s [(oid', v'), (oid, v)])"
  by (simp add: diff_add_state_eq diff_with_def new_diff_def push_state_def)

lemma write_runner:
  "sv_objid_for_runner s r \<noteq> invalid_objid \<Longrightarrow>
   diff_add_state_for_runner r v (new_diff s) = Inr (diff_with s [(sv_objid_for_runner s r, v)])"
  by (simp add: diff_add_state_for_runner_def write_one)

lemma copy_diff_with [simp]:
  "copy_diff (diff_with s ws) = diff_with s ws" "copy_diff (new_diff s) = new_diff s"
  by (simp_all add: copy_diff_def diff_with_def new_diff_def)

lemma obj_map_diff_with:
  "obj_map (diff_view (diff_with s ws)) = obj_map s ++ map_of ws"
proof
  fix oid
  have "map_of (map (\<lambda>(oid, v). (oid, [v])) ws) oid = map_option (\<lambda>v. [v]) (map_of ws oid)"
    by (induction ws) auto
  then show "obj_map (diff_view (diff_with s ws)) oid = (obj_map s ++ map_of ws) oid"
    by (simp add: obj_map_def diff_view_def diff_get_object_def diff_with_def new_diff_def
        vo_get_current_state_def vec_back_def map_add_def split: option.split)
qed

lemma obj_map_new_diff [simp]: "obj_map (diff_view (new_diff s)) = obj_map s"
  by (rule ext) (simp add: obj_map_def diff_view_def)

lemma diff_with_Nil [simp]: "diff_with s [] = new_diff s"
  by (simp add: diff_with_def new_diff_def)

lemma cv_with_eq:
  "set_policy p (new_condition_variable st e m (new_waiting_count p) [] None) = cv_with st e m p"
  "set_associated_mutex m (cv_with st e m' p) = cv_with st e m p"
  by (simp_all add: set_policy_def set_associated_mutex_def new_condition_variable_def cv_with_def)

lemma cv_with_simps [simp]:
  "cv_policy (cv_with st e m p) = p" "associated_mutex (cv_with st e m p) = m"
  "cv_usable (cv_with (state_for_count n) e m p)" "cv_usable (cv_with Cv_signaled e m p)"
  by (simp_all add: cv_with_def cv_usable_def state_for_count_def)

lemma new_mutex_eq:
  "new_mutex Mutex_locked (location m) e = locked_by m e"
  "new_mutex Mutex_unlocked (location m) RID_INVALID = released m"
  by (simp_all add: new_mutex_def locked_by_def released_def)

lemma exists_after_Inr [simp]: "exists_after (Inr d) = Inr (d, Exists)"
  by (simp add: exists_after_def)

lemma broadcast_empties [simp]:
  "wait_queue (receive_broadcast_message p) = []"
  "new_waiting_count (receive_broadcast_message p) = 0"
  by (simp_all add: receive_broadcast_message_def Let_def new_waiting_count_def
      return_wait_queue_def)

lemma add_to_wake_groups_if [simp]:
  "(if ts \<noteq> [] then add_to_wake_groups ts p else p) = add_to_wake_groups ts p"
  by (simp add: add_to_wake_groups_def)

text \<open>How \<^verbatim>\<open>modify\<close> realises an effect by writes, or declines.\<close>

definition realises :: "state_view \<Rightarrow> transition \<Rightarrow> (objid \<times> vos) list \<Rightarrow> bool" where
  "realises s t ws \<longleftrightarrow>
     (let \<rho> = sv_objid_for_runner s; w = obj_map s in
      (guard \<rho> t w \<longrightarrow> modify t (new_diff s) = Inr (diff_with s ws, Exists) \<and>
         w ++ map_of ws = effect \<rho> t w \<and> distinct (map fst ws) \<and> fst ` set ws \<subseteq> names \<rho> t) \<and>
      (\<not> guard \<rho> t w \<longrightarrow> (\<exists>d st. modify t (new_diff s) = Inr (d, st) \<and> st \<noteq> Exists)))"

lemma typed_not_invalid:
  assumes "view_ok s" and "obj_map s oid = Some v"
  shows "oid \<noteq> invalid_objid"
  using assms by (auto simp: view_ok_def)

lemma get_mutex_new [simp]: "obj_map s oid = Some (Mutex_obj m) \<Longrightarrow> get_mutex (new_diff s) oid = Inr m"
  by (simp add: get_mutex_def obj_map_Some)

lemma get_semaphore_new [simp]:
  "obj_map s oid = Some (Sem_obj m) \<Longrightarrow> get_semaphore (new_diff s) oid = Inr m"
  by (simp add: get_semaphore_def obj_map_Some)

lemma get_cv_new [simp]: "obj_map s oid = Some (Cv_obj c) \<Longrightarrow> get_cv (new_diff s) oid = Inr c"
  by (simp add: get_cv_def obj_map_Some)

lemma get_thread_new [simp]:
  "view_ok s \<Longrightarrow> obj_map s (sv_objid_for_runner s r) = Some (Thread_obj t) \<Longrightarrow>
   get_thread (new_diff s) r = Inr t"
  by (simp add: get_thread_def obj_map_Some view_ok_def)

lemma realises_thread:
  assumes "view_ok s" and "obj_map s (sv_objid_for_runner s e) = Some (Thread_obj Running)"
    and "is_thread_at (obj_map s) (sv_objid_for_runner s x)"
  shows "realises s (Thread_start e) []" and "realises s (Process_abort e) []"
    and "realises s (Thread_join e x) []"
    and "realises s (Thread_create e x) [(sv_objid_for_runner s x, Thread_obj Running)]"
    and "realises s (Thread_exit e) [(sv_objid_for_runner s e, Thread_obj Exited)]"
    and "realises s (Process_exit e n) [(sv_objid_for_runner s e, Thread_obj Exited)]"
  using assms typed_not_invalid [OF assms(1)]
  by (auto simp: realises_def Let_def is_thread_at_iff thread_start_modify_def is_embryo_def
      thread_join_modify_def has_exited_def thread_create_modify_def thread_exit_modify_def
      is_running_def process_exit_modify_def process_abort_modify_def write_runner)

lemma realises_mutex:
  assumes "view_ok s" and m: "obj_map s oid = Some (Mutex_obj m)"
  shows "realises s (Mutex_init e oid) [(oid, Mutex_obj (released m))]"
    and "realises s (Mutex_lock e oid) [(oid, Mutex_obj (locked_by m e))]"
    and "realises s (Mutex_unlock e oid) [(oid, Mutex_obj (released m))]"
  using m typed_not_invalid [OF assms]
  by (auto simp: realises_def Let_def mutex_init_modify_def mutex_lock_modify_def
      mutex_unlock_modify_def is_locked_def is_locked_by_def write_one new_mutex_eq the_mutex_def)

lemma realises_sem:
  assumes "view_ok s" and m: "obj_map s oid = Some (Sem_obj m)"
  shows "realises s (Sem_init e oid n) [(oid, Sem_obj (semaphore_of_count n))]"
    and "realises s (Sem_post e oid) [(oid, Sem_obj (semaphore_of_count (sem_count m + 1)))]"
    and "realises s (Sem_wait e oid) [(oid, Sem_obj (semaphore_of_count (sem_count m - 1)))]"
  using m typed_not_invalid [OF assms]
  by (auto simp: realises_def Let_def sem_init_modify_def sem_post_modify_def sem_wait_modify_def
      will_block_def write_one the_sem_def)

lemma realises_cv:
  assumes "view_ok s" and c: "obj_map s oid = Some (Cv_obj c)"
  shows "\<exists>ws. realises s (Cond_init e oid) ws" and "\<exists>ws. realises s (Cond_signal e oid) ws"
    and "\<exists>ws. realises s (Cond_broadcast e oid) ws" and "\<exists>ws. realises s (Cond_destroy e oid) ws"
proof -
  note ni = typed_not_invalid [OF assms]
  let ?q = "wait_queue (cv_policy c) = []"
  have "realises s (Cond_init e oid) [(oid, Cv_obj (fresh_cv Cv_initialized RID_INVALID))]"
    by (simp add: realises_def Let_def cond_init_modify_def write_one ni fresh_cv_def)
  then show "\<exists>ws. realises s (Cond_init e oid) ws" by blast
  have "realises s (Cond_destroy e oid) [(oid, Cv_obj (fresh_cv Cv_destroyed e))]"
    using c ni by (auto simp: realises_def Let_def cond_destroy_modify_def write_one fresh_cv_def
        cv_usable_def the_cv_def cv_is_uninitialized_def cv_is_destroyed_def cv_has_waiters_def
        has_waiters_def)
  then show "\<exists>ws. realises s (Cond_destroy e oid) ws" by blast
  have "realises s (Cond_signal e oid) (if ?q then [] else [(oid, Cv_obj (cv_with
      (state_for_count (new_waiting_count (signalled_policy c))) RID_INVALID (associated_mutex c)
      (signalled_policy c)))])"
    using c ni by (auto simp: realises_def Let_def cond_signal_modify_def write_one cv_with_eq
        cv_usable_def the_cv_def cv_is_uninitialized_def cv_is_destroyed_def cv_has_waiters_def
        has_waiters_def signalled_policy_def)
  then show "\<exists>ws. realises s (Cond_signal e oid) ws" by blast
  have zero: "state_for_count 0 = Cv_signaled" by (simp add: state_for_count_def)
  have "realises s (Cond_broadcast e oid) (if ?q then [] else [(oid, Cv_obj (cv_with
      Cv_signaled e (associated_mutex c) (receive_broadcast_message (signalled_policy c))))])"
    using c ni cv_with_eq(1) [of "receive_broadcast_message (signalled_policy c)"]
    by (auto simp: realises_def Let_def cond_broadcast_modify_def write_one zero
        cv_usable_def the_cv_def cv_is_uninitialized_def cv_is_destroyed_def cv_has_waiters_def
        has_waiters_def signalled_policy_def)
  then show "\<exists>ws. realises s (Cond_broadcast e oid) ws" by blast
qed

lemma realises_enqueue:
  assumes "view_ok s" and c: "obj_map s cid = Some (Cv_obj c)"
    and m: "obj_map s mid = Some (Mutex_obj m)"
  shows "\<exists>ws. realises s (Cond_enqueue e cid mid) ws"
proof -
  note ni = typed_not_invalid [OF assms(1) c] typed_not_invalid [OF assms(1) m]
  have neq: "cid \<noteq> mid" using c m by auto
  let ?p = "enqueued_policy e (cv_policy c)"
  let ?cv = "cv_with Cv_waiting e (location m) ?p"
  have "realises s (Cond_enqueue e cid mid) [(cid, Cv_obj ?cv), (mid, Mutex_obj (released m))]"
    using c m ni neq cv_with_eq(1) [of ?p Cv_waiting e "location m"]
    by (auto simp: realises_def Let_def cond_enqueue_modify_def enqueued_policy_def write_one
        write_two is_unlocked_def is_locked_by_def the_mutex_def the_cv_def new_mutex_eq
        map_add_upd_left fun_upd_twist)
  then show ?thesis by blast
qed

lemma realises_wait:
  assumes "view_ok s" and c: "obj_map s cid = Some (Cv_obj c)"
    and m: "obj_map s mid = Some (Mutex_obj m)" and sp: "numRemainingSpuriousWakeups c = 0"
  shows "\<exists>ws. realises s (Cond_wait e cid mid) ws"
proof -
  note ni = typed_not_invalid [OF assms(1) c] typed_not_invalid [OF assms(1) m]
  have neq: "cid \<noteq> mid" using c m by auto
  let ?p = "woken_policy e (cv_policy c)"
  let ?cv = "cv_with (state_for_count (new_waiting_count ?p)) e (location m) ?p"
  have wake: "wake_thread e (cv_policy c) = Inr ?p" if "thread_can_exit (cv_policy c) e"
    using that wake_thread_defined [of e "cv_policy c"] by (auto simp: woken_policy_def)
  have nm: "new_mutex Mutex_locked (associated_mutex c) e = locked_by m e"
    if "location m = associated_mutex c"
    using new_mutex_eq(1) [of m e] that by simp
  have "realises s (Cond_wait e cid mid)
      [(mid, Mutex_obj (locked_by m e)), (cid, Cv_obj ?cv)]"
    using c m ni neq sp wake
      cv_with_eq(1) [of ?p "state_for_count (new_waiting_count ?p)" e "location m"]
    by (auto simp: realises_def Let_def cond_wait_modify_def write_one write_two is_unlocked_def
        is_locked_by_def the_mutex_def the_cv_def nm cv_usable_def
        cv_is_uninitialized_def cv_is_destroyed_def waiter_can_exit_def fun_upd_twist)
  then show ?thesis by blast
qed

lemma realises_ex:
  assumes "view_ok s" and "well_typed (sv_objid_for_runner s) t (obj_map s)"
    and "obj_map s (sv_objid_for_runner s (get_executor t)) = Some (Thread_obj Running)"
  shows "\<exists>ws. realises s t ws"
proof -
  note ty = assms(2)
  note at_defs = well_typed_def is_cv_at_iff is_mutex_at_iff is_sem_at_iff
  note th = realises_thread [OF assms(1)]
  have self: "is_thread_at (obj_map s) (sv_objid_for_runner s (get_executor t))"
    using assms(2) by (simp add: well_typed_def)
  show ?thesis
  proof (cases t)
    case (Thread_create e x)
    with th(4) [of e x] assms(3) ty show ?thesis by (auto simp: well_typed_def)
  next
    case (Thread_join e x)
    with th(3) [of e x] assms(3) ty show ?thesis by (auto simp: well_typed_def)
  next
    case (Cond_enqueue e c m)
    with realises_enqueue [OF assms(1)] ty show ?thesis by (auto simp: at_defs)
  next
    case (Cond_wait e c m)
    with realises_wait [OF assms(1)] ty show ?thesis by (auto simp: at_defs)
  next
    case (Mutex_init e m)
    with realises_mutex(1) [OF assms(1)] ty show ?thesis by (auto simp: at_defs)
  next
    case (Mutex_lock e m)
    with realises_mutex(2) [OF assms(1)] ty show ?thesis by (auto simp: at_defs)
  next
    case (Mutex_unlock e m)
    with realises_mutex(3) [OF assms(1)] ty show ?thesis by (auto simp: at_defs)
  next
    case (Sem_init e m n)
    with realises_sem(1) [OF assms(1)] ty show ?thesis by (auto simp: at_defs) blast
  next
    case (Sem_post e m)
    with realises_sem(2) [OF assms(1)] ty show ?thesis by (auto simp: at_defs)
  next
    case (Sem_wait e m)
    with realises_sem(3) [OF assms(1)] ty show ?thesis by (auto simp: at_defs)
  next
    case (Cond_init e c)
    with realises_cv(1) [OF assms(1)] ty show ?thesis by (auto simp: at_defs)
  next
    case (Cond_signal e c)
    with realises_cv(2) [OF assms(1)] ty show ?thesis by (auto simp: at_defs)
  next
    case (Cond_broadcast e c)
    with realises_cv(3) [OF assms(1)] ty show ?thesis by (auto simp: at_defs)
  next
    case (Cond_destroy e c)
    with realises_cv(4) [OF assms(1)] ty show ?thesis by (auto simp: at_defs)
  next
    case (Thread_start e)
    with th(1) [of e e] assms(3) self show ?thesis by auto
  next
    case (Thread_exit e)
    with th(5) [of e e] assms(3) self show ?thesis by auto
  next
    case (Process_exit e n)
    with th(6) [of e e] assms(3) self show ?thesis by auto
  next
    case (Process_abort e)
    with th(2) [of e e] assms(3) self show ?thesis by auto
  qed
qed

lemma apply_to_realised:
  assumes "view_ok s" and "well_typed (sv_objid_for_runner s) t (obj_map s)"
  shows "\<exists>ws. apply_to t s = (if enabled (sv_objid_for_runner s) t (obj_map s)
      then Inr (diff_with s ws, Exists) else Inr (new_diff s, Disabled)) \<and>
    (enabled (sv_objid_for_runner s) t (obj_map s) \<longrightarrow>
      obj_map s ++ map_of ws = effect (sv_objid_for_runner s) t (obj_map s) \<and>
      distinct (map fst ws) \<and> fst ` set ws \<subseteq> names (sv_objid_for_runner s) t)"
proof -
  let ?e = "get_executor t"
  from assms(2) obtain st where st: "obj_map s (sv_objid_for_runner s ?e) = Some (Thread_obj st)"
    by (auto simp: well_typed_def is_thread_at_iff)
  have run: "bind_res (sv_runner s ?e) as_thread = Inr st"
    using st assms(1) by (simp add: view_ok_def obj_map_Some)
  show ?thesis
  proof (cases "st = Running")
    case True
    with st assms realises_ex obtain ws where ws: "realises s t ws" by blast
    have "apply_to t s = (if guard (sv_objid_for_runner s) t (obj_map s)
        then Inr (diff_with s ws, Exists) else Inr (new_diff s, Disabled))"
      using ws by (auto simp: apply_to_def run True is_active_def is_running_def realises_def Let_def)
    with True st ws show ?thesis
      by (intro exI [of _ ws]) (auto simp: enabled_def realises_def Let_def)
  next
    case False
    with st show ?thesis by (simp add: apply_to_def run is_active_def is_running_def enabled_def)
  qed
qed

end
