(* ===== verification/Transition_Properties.thy ===== *)
theory Transition_Properties
  imports Transition_Spec State_Properties
begin

text \<open>
  Properties of transitions: the refinement of the guards and effects by \<^verbatim>\<open>apply_to\<close> and
  \<^verbatim>\<open>follow\<close>, mutual exclusion over runs, the protocol of condition variables, and the corner
  cases of semaphores and statuses.
\<close>

section \<open>Sequences as views\<close>

lemma seq_view_ok:
  assumes "seq_wf ss"
  shows "view_ok (seq_view ss)"
proof -
  obtain es e where e: "representative_state ss = e" "elem_wf ss e"
    using assms by (rule seq_wf_last)
  have "length (objs ss) \<le> invalid_objid" using assms by (simp add: seq_wf_def)
  then have "idx e invalid_objid = None" using e(2) elem_wf_absent by blast
  then show ?thesis
    by (simp add: view_ok_def seq_view_def element_view_def e obj_map_def elem_get_object)
qed

lemma seq_obj_map:
  assumes "seq_wf ss" and "seq_tip ss"
  shows "obj_map (seq_view ss) oid =
    (if idx (representative_state ss) oid = None then None else Some (last (objs ss ! oid)))"
  using tip_get_object [OF assms] by (auto simp: obj_map_def split: option.splits)

lemma known_in_range:
  assumes "seq_wf ss" and "obj_map (seq_view ss) oid \<noteq> None"
  shows "oid < length (objs ss)"
proof (rule ccontr)
  assume "\<not> oid < length (objs ss)"
  moreover obtain es e where e: "representative_state ss = e" "elem_wf ss e"
    using assms(1) by (rule seq_wf_last)
  ultimately have "idx e oid = None" using elem_wf_absent [OF e(2)] by simp
  with assms(2) e show False
    by (simp add: obj_map_def seq_view_def element_view_def elem_get_object)
qed

lemma names_known:
  "well_typed \<rho> t w \<Longrightarrow> names \<rho> t \<subseteq> dom w"
  by (cases t) (auto simp: well_typed_def is_thread_at_iff is_mutex_at_iff is_cv_at_iff is_sem_at_iff)

lemma map_of_singletons:
  "map_of (map (\<lambda>(oid, v). (oid, [v])) ws) oid = map_option (\<lambda>v. [v]) (map_of ws oid)"
  by (induction ws) auto

text \<open>The step of \<^verbatim>\<open>follow\<close> on a sequence whose last element is up to date.\<close>

lemma follow_step:
  assumes wf: "seq_wf ss" and tip: "seq_tip ss"
    and ty: "well_typed (sv_objid_for_runner (seq_view ss)) t (obj_map (seq_view ss))"
    and en: "enabled (sv_objid_for_runner (seq_view ss)) t (obj_map (seq_view ss))"
  shows "\<exists>ss'. follow t ss = Inr (Exists, ss') \<and> seq_wf ss' \<and> seq_full ss' \<and> seq_extends ss ss' \<and>
    (\<exists>e. states_in_sequence ss' = states_in_sequence ss @ [e]) \<and>
    runner_to_obj_map ss' = runner_to_obj_map ss \<and> length (objs ss') = length (objs ss) \<and>
    (\<forall>oid. obj_map (seq_view ss) oid \<noteq> None \<longrightarrow>
       obj_map (seq_view ss') oid
         = effect (sv_objid_for_runner (seq_view ss)) t (obj_map (seq_view ss)) oid)"
proof -
  let ?s = "seq_view ss" and ?\<rho> = "sv_objid_for_runner (seq_view ss)"
  from apply_to_realised [OF seq_view_ok [OF wf] ty] en obtain ws where ws:
    "apply_to t ?s = Inr (diff_with ?s ws, Exists)"
    "obj_map ?s ++ map_of ws = effect ?\<rho> t (obj_map ?s)"
    "distinct (map fst ws)" "fst ` set ws \<subseteq> names ?\<rho> t" by auto
  have news: "new_object_states (diff_with ?s ws) = map (\<lambda>(oid, v). (oid, [v])) ws"
    by (simp add: diff_with_def)
  have keys: "fst p < length (objs ss)" if "p \<in> set ws" for p
    using ws(4) that names_known [OF ty] known_in_range [OF wf, of "fst p"] by blast
  have "distinct (map fst (new_object_states (diff_with ?s ws)))"
    using ws(3) by (simp add: news comp_def case_prod_beta)
  moreover have "\<forall>p \<in> set (new_object_states (diff_with ?s ws)). fst p < length (objs ss) \<and> snd p \<noteq> []"
    using keys by (auto simp: news)
  ultimately obtain ss' where ss': "seq_commit (diff_with ?s ws) ss = Inr ss'" "seq_wf ss'"
    "seq_full ss'" "seq_extends ss ss'" "\<exists>e. states_in_sequence ss' = states_in_sequence ss @ [e]"
    "runner_to_obj_map ss' = runner_to_obj_map ss" "length (objs ss') = length (objs ss)"
    "\<forall>oid < length (objs ss). objs ss' ! oid = objs ss ! oid @
       (case map_of (new_object_states (diff_with ?s ws)) oid of Some vo \<Rightarrow> [last vo] | None \<Rightarrow> [])"
    using seq_commit_step [OF wf] by blast
  have "obj_map (seq_view ss') oid = effect ?\<rho> t (obj_map ?s) oid" if "obj_map ?s oid \<noteq> None" for oid
  proof -
    have r: "oid < length (objs ss)" using known_in_range [OF wf that] .
    have "objs ss' ! oid = objs ss ! oid @ (case map_of ws oid of Some v \<Rightarrow> [v] | None \<Rightarrow> [])"
      using ss'(8) r by (simp add: news map_of_singletons split: option.splits)
    then have "obj_map (seq_view ss') oid =
        (case map_of ws oid of Some v \<Rightarrow> Some v | None \<Rightarrow> Some (last (objs ss ! oid)))"
      using full_get_object [OF ss'(2,3), of oid] r ss'(7)
      by (simp add: obj_map_def split: option.split)
    also have "\<dots> = (obj_map ?s ++ map_of ws) oid"
      using that seq_obj_map [OF wf tip, of oid] by (auto simp: map_add_def split: option.split if_splits)
    finally show ?thesis by (simp add: ws(2))
  qed
  moreover have "follow t ss = Inr (Exists, ss')" by (simp add: follow_def ws(1) ss'(1))
  ultimately show ?thesis using ss' by blast
qed

section \<open>Runs of worlds\<close>

text \<open>A run executes transitions that are well-typed and enabled, one after the other.\<close>

fun world_run :: "runner_objs \<Rightarrow> transition list \<Rightarrow> world \<Rightarrow> world option" where
  "world_run \<rho> [] w = Some w"
| "world_run \<rho> (t # ts) w =
     (if well_typed \<rho> t w \<and> enabled \<rho> t w
      then world_run \<rho> ts (effect \<rho> t w) else None)"

text \<open>A transition by which \<open>a\<close> gives up mutex \<open>m\<close>, or that re-initialises \<open>m\<close>.\<close>

fun releases :: "runner_id \<Rightarrow> objid \<Rightarrow> transition \<Rightarrow> bool" where
  "releases a m (Mutex_unlock e m') = (e = a \<and> m' = m)"
| "releases a m (Cond_enqueue e c m') = (e = a \<and> m' = m)"
| "releases a m (Mutex_init e m') = (m' = m)"
| "releases a m _ = False"

lemma locked_step:
  assumes "w m = Some (Mutex_obj mu)" and "mutex_current_state mu = Mutex_locked" and "owner mu = a"
    and "well_typed \<rho> t w" and "enabled \<rho> t w" and "\<not> releases a m t"
  shows "effect \<rho> t w m = w m"
proof -
  have neq: "\<rho> r \<noteq> m" if "is_thread_at w (\<rho> r)" for r
    using that assms(1) by (auto simp: is_thread_at_iff)
  have ncv: "c \<noteq> m" if "is_cv_at w c" for c
    using that assms(1) by (auto simp: is_cv_at_iff)
  have nsem: "c \<noteq> m" if "is_sem_at w c" for c
    using that assms(1) by (auto simp: is_sem_at_iff)
  show ?thesis
    using assms(2-) neq ncv nsem
    by (cases t) (auto simp: well_typed_def enabled_def the_mutex_def assms(1) Let_def)
qed

lemma locked_run:
  assumes "w m = Some (Mutex_obj mu)" and "mutex_current_state mu = Mutex_locked" and "owner mu = a"
    and "world_run \<rho> ts w = Some w'" and "\<forall>t \<in> set ts. \<not> releases a m t"
  shows "w' m = Some (Mutex_obj mu)"
  using assms
proof (induction ts arbitrary: w)
  case (Cons t ts)
  then have "effect \<rho> t w m = w m"
    using locked_step by (auto split: if_splits)
  with Cons show ?case by (auto split: if_splits)
qed simp

section \<open>Runs of the code\<close>

text \<open>Transitions that \<^verbatim>\<open>follow\<close> executes on the program's state sequence, one after the other.\<close>

fun follow_run :: "transition list \<Rightarrow> state_sequence \<Rightarrow> state_sequence option" where
  "follow_run [] ss = Some ss"
| "follow_run (t # ts) ss =
     (case follow t ss of
        Inl e \<Rightarrow> None
      | Inr (st, ss') \<Rightarrow> if st = Exists then follow_run ts ss' else None)"

abbreviation runner_objects :: "state_sequence \<Rightarrow> runner_objs" where
  "runner_objects ss \<equiv> sv_objid_for_runner (seq_view ss)"

abbreviation current_world :: "state_sequence \<Rightarrow> world" where
  "current_world ss \<equiv> obj_map (seq_view ss)"

lemma effect_elsewhere: "oid \<notin> names \<rho> t \<Longrightarrow> effect \<rho> t w oid = w oid"
  by (cases t) (auto simp: Let_def)

text \<open>Effects keep the kinds of objects, so a list of transitions is well-typed once and for all.\<close>

lemma effect_keeps_kinds:
  assumes "well_typed \<rho> t w"
  shows "is_thread_at w x \<Longrightarrow> is_thread_at (effect \<rho> t w) x"
    and "is_mutex_at w x \<Longrightarrow> is_mutex_at (effect \<rho> t w) x"
    and "is_sem_at w x \<Longrightarrow> is_sem_at (effect \<rho> t w) x"
    and "is_cv_at w x \<Longrightarrow> is_cv_at (effect \<rho> t w) x"
  using assms
  by (cases t; auto simp: well_typed_def is_thread_at_iff is_mutex_at_iff is_sem_at_iff is_cv_at_iff
      Let_def cv_with_def fresh_cv_def new_condition_variable_def)+

lemma effect_keeps_typing:
  assumes "well_typed \<rho> t w" and "well_typed \<rho> u w"
  shows "well_typed \<rho> u (effect \<rho> t w)"
  using assms(2) effect_keeps_kinds [OF assms(1)] by (cases u) (auto simp: well_typed_def)

lemma full_runner_objects:
  assumes "seq_full ss" and "seq_full ss'" and "runner_to_obj_map ss' = runner_to_obj_map ss"
  shows "runner_objects ss' = runner_objects ss"
proof
  have m: "max_visible_runner_id (representative_state ss') = max_visible_runner_id (representative_state ss)"
    using assms by (simp add: seq_full_def elem_full_def)
  show "runner_objects ss' r = runner_objects ss r" for r
    by (simp add: seq_view_def element_view_def element_objid_for_runner_def element_contains_runner_def
        m assms(3))
qed

lemma follow_disabled:
  assumes "seq_wf ss" and "well_typed (runner_objects ss) t (current_world ss)"
    and "\<not> enabled (runner_objects ss) t (current_world ss)"
  shows "follow t ss = Inr (Disabled, ss)"
  using apply_to_realised [OF seq_view_ok [OF assms(1)] assms(2)] assms(3) by (auto simp: follow_def)

lemma follow_exists:
  assumes wf: "seq_wf ss" and full: "seq_full ss"
    and ty: "well_typed (runner_objects ss) t (current_world ss)" and run: "follow t ss = Inr (Exists, ss')"
  shows "enabled (runner_objects ss) t (current_world ss)" and "seq_wf ss'" and "seq_full ss'"
    and "runner_objects ss' = runner_objects ss"
    and "current_world ss' = effect (runner_objects ss) t (current_world ss)"
proof -
  have tip: "seq_tip ss" using wf full by (simp add: seq_full_tip seq_wf_def)
  show en: "enabled (runner_objects ss) t (current_world ss)"
    using follow_disabled [OF wf ty] run by (cases "enabled (runner_objects ss) t (current_world ss)") auto
  from follow_step [OF wf tip ty en] run have s: "seq_wf ss'" "seq_full ss'"
    "runner_to_obj_map ss' = runner_to_obj_map ss" "length (objs ss') = length (objs ss)"
    "\<forall>oid. current_world ss oid \<noteq> None \<longrightarrow>
       current_world ss' oid = effect (runner_objects ss) t (current_world ss) oid" by auto
  show "seq_wf ss'" and "seq_full ss'" using s(1,2) .
  show "runner_objects ss' = runner_objects ss" using full_runner_objects [OF full s(2,3)] .
  show "current_world ss' = effect (runner_objects ss) t (current_world ss)"
  proof
    fix oid
    show "current_world ss' oid = effect (runner_objects ss) t (current_world ss) oid"
    proof (cases "current_world ss oid")
      case None
      then have "oid \<notin> names (runner_objects ss) t" using names_known [OF ty] by auto
      then have "effect (runner_objects ss) t (current_world ss) oid = None"
        using None by (simp add: effect_elsewhere)
      moreover have "\<not> oid < length (objs ss)"
        using None seq_obj_map [OF wf tip, of oid] full
        by (auto simp: seq_full_def elem_full_def split: if_splits)
      then have "current_world ss' oid = None" using known_in_range [OF s(1), of oid] s(4) by fastforce
      ultimately show ?thesis by simp
    qed (use s(5) in simp)
  qed
qed

lemma follow_run_worlds:
  assumes "seq_wf ss" and "seq_full ss"
    and "\<forall>t \<in> set ts. well_typed (runner_objects ss) t (current_world ss)"
    and "follow_run ts ss = Some ss'"
  shows "world_run (runner_objects ss) ts (current_world ss) = Some (current_world ss') \<and>
    seq_wf ss' \<and> seq_full ss' \<and> runner_objects ss' = runner_objects ss"
  using assms
proof (induction ts arbitrary: ss)
  case (Cons t ts)
  then obtain ss1 where f: "follow t ss = Inr (Exists, ss1)" "follow_run ts ss1 = Some ss'"
    by (auto split: sum.splits if_splits)
  have ty: "well_typed (runner_objects ss) t (current_world ss)" using Cons.prems(3) by simp
  note s = follow_exists [OF Cons.prems(1,2) ty f(1)]
  have "\<forall>u \<in> set ts. well_typed (runner_objects ss1) u (current_world ss1)"
    using Cons.prems(3) ty by (simp add: s(4,5) effect_keeps_typing)
  from Cons.IH [OF s(2,3) this f(2)] show ?case by (simp add: s(1,4,5) ty)
qed simp

lemma world_run_append:
  "world_run \<rho> (ts @ us) w = (case world_run \<rho> ts w of None \<Rightarrow> None | Some w' \<Rightarrow> world_run \<rho> us w')"
  by (induction ts arbitrary: w) auto

lemma world_run_typing:
  "world_run \<rho> ts w = Some w' \<Longrightarrow> well_typed \<rho> u w \<Longrightarrow> well_typed \<rho> u w'"
  by (induction ts arbitrary: w) (auto intro: effect_keeps_typing split: if_splits)

section \<open>Waiting on a condition variable\<close>

text \<open>A notification of condition variable \<open>c\<close>, and a return from a wait on it.\<close>

fun notifies :: "objid \<Rightarrow> transition \<Rightarrow> bool" where
  "notifies c (Cond_signal f c') = (c' = c)"
| "notifies c (Cond_broadcast f c') = (c' = c)"
| "notifies c _ = False"

fun returns_from :: "objid \<Rightarrow> transition \<Rightarrow> bool" where
  "returns_from c (Cond_wait f c' m') = (c' = c)"
| "returns_from c _ = False"

text \<open>A transition that resets \<open>c\<close> or uses it with another mutex than \<open>m\<close>.\<close>

fun disturbs :: "objid \<Rightarrow> objid \<Rightarrow> transition \<Rightarrow> bool" where
  "disturbs c m (Cond_init f c') = (c' = c)"
| "disturbs c m (Cond_destroy f c') = (c' = c)"
| "disturbs c m (Cond_enqueue f c' m') = (c' = c \<and> m' \<noteq> m)"
| "disturbs c m _ = False"

text \<open>Runner \<open>e\<close> is at a wait on \<open>c\<close> with \<open>m\<close>, and the policy of \<open>c\<close> satisfies \<open>P\<close>.\<close>

definition waits_on :: "(policy \<Rightarrow> bool) \<Rightarrow> runner_objs \<Rightarrow> runner_id \<Rightarrow> objid \<Rightarrow> objid \<Rightarrow> world \<Rightarrow> bool" where
  "waits_on P \<rho> e c m w \<longleftrightarrow> (\<exists>cv mu. w c = Some (Cv_obj cv) \<and> w m = Some (Mutex_obj mu) \<and>
     w (\<rho> e) = Some (Thread_obj Running) \<and> cv_usable cv \<and> associated_mutex cv = location mu \<and>
     P (cv_policy cv))"

definition asleep :: "runner_id \<Rightarrow> policy \<Rightarrow> bool" where
  "asleep e p \<longleftrightarrow> e \<in> set (wait_queue p) \<and> get_thread_cv_state p e = CV_WAITING"

lemma location_kept [simp]: "location (released mu) = location mu" "location (locked_by mu x) = location mu"
  by (simp_all add: released_def locked_by_def)

lemma thread_elsewhere:
  assumes "w x = Some (Thread_obj Running)" and "well_typed \<rho> t w" and "\<rho> (get_executor t) \<noteq> x"
  shows "effect \<rho> t w x = Some (Thread_obj Running)"
  using assms
  by (cases t) (auto simp: well_typed_def is_mutex_at_iff is_cv_at_iff is_sem_at_iff Let_def)

lemma mutex_location_kept:
  assumes "w m = Some (Mutex_obj mu)" and "well_typed \<rho> t w"
  shows "\<exists>mu'. effect \<rho> t w m = Some (Mutex_obj mu') \<and> location mu' = location mu"
  using assms
  by (cases t) (auto simp: well_typed_def is_thread_at_iff is_cv_at_iff is_sem_at_iff the_mutex_def Let_def)

definition cv_after :: "(policy \<Rightarrow> bool) \<Rightarrow> address \<Rightarrow> vos option \<Rightarrow> bool" where
  "cv_after P l v \<longleftrightarrow>
     (\<exists>cv. v = Some (Cv_obj cv) \<and> cv_usable cv \<and> associated_mutex cv = l \<and> P (cv_policy cv))"

lemma waits_on_step:
  assumes w: "waits_on P \<rho> e c m w" and ty: "well_typed \<rho> t w" and en: "enabled \<rho> t w"
    and other: "\<rho> (get_executor t) \<noteq> \<rho> e" and calm: "\<not> disturbs c m t"
    and enq: "\<And>x p. x \<noteq> e \<Longrightarrow> P p \<Longrightarrow> P (enqueued_policy x p)"
    and woke: "\<And>x p. returns_from c t \<Longrightarrow> x \<noteq> e \<Longrightarrow> P p \<Longrightarrow> P (woken_policy x p)"
    and told: "\<And>cv. notifies c t \<Longrightarrow> P (cv_policy cv) \<Longrightarrow>
      P (signalled_policy cv) \<and> P (receive_broadcast_message (signalled_policy cv))"
  shows "waits_on P \<rho> e c m (effect \<rho> t w)"
proof -
  from w obtain cv mu where o: "w c = Some (Cv_obj cv)" "w m = Some (Mutex_obj mu)"
    "w (\<rho> e) = Some (Thread_obj Running)" "cv_usable cv" "associated_mutex cv = location mu"
    "P (cv_policy cv)" by (auto simp: waits_on_def)
  have ne: "get_executor t \<noteq> e" using other by auto
  have cm: "c \<noteq> m" "m \<noteq> c" using o by auto
  have usable: "cv_usable (cv_with Cv_waiting x l p)" for x l p by (simp add: cv_with_def cv_usable_def)
  have same: "cv_after P (location mu) (w c)" using o by (auto simp: cv_after_def)
  have "cv_after P (location mu) (effect \<rho> t w c)"
  proof (cases t)
    case (Cond_enqueue x c' m')
    have "m' \<noteq> c" using ty Cond_enqueue o by (auto simp: well_typed_def is_mutex_at_iff)
    with Cond_enqueue ne calm same cm o enq [of x "cv_policy cv"] show ?thesis
      by (cases "c' = c") (auto simp: cv_after_def the_cv_def the_mutex_def usable)
  next
    case (Cond_wait x c' m')
    show ?thesis
    proof (cases "c' = c")
      case True
      with Cond_wait ne o woke [of x "cv_policy cv"] have "P (woken_policy x (cv_policy cv))" by simp
      moreover have "location (the_mutex w m') = location mu"
        using en Cond_wait True o by (simp add: enabled_def the_cv_def)
      ultimately show ?thesis
        using Cond_wait True o by (auto simp: cv_after_def the_cv_def Let_def)
    next
      case False
      have "m' \<noteq> c" using ty Cond_wait o by (auto simp: well_typed_def is_mutex_at_iff)
      with False Cond_wait same show ?thesis by (simp add: Let_def)
    qed
  next
    case (Cond_signal x c')
    with same o told [of cv] show ?thesis
      by (cases "c' = c") (auto simp: cv_after_def the_cv_def Let_def)
  next
    case (Cond_broadcast x c')
    with same o told [of cv] show ?thesis
      by (cases "c' = c") (auto simp: cv_after_def the_cv_def Let_def)
  qed (use same calm ty o in \<open>auto simp: well_typed_def is_thread_at_iff is_mutex_at_iff is_sem_at_iff\<close>)
  moreover have "effect \<rho> t w (\<rho> e) = Some (Thread_obj Running)" using thread_elsewhere [OF o(3) ty other] .
  ultimately show ?thesis
    using mutex_location_kept [OF o(2) ty] unfolding waits_on_def cv_after_def by fastforce
qed

lemma waits_on_run:
  assumes "waits_on P \<rho> e c m w" and "world_run \<rho> ts w = Some w'"
    and "\<forall>t \<in> set ts. \<rho> (get_executor t) \<noteq> \<rho> e \<and> \<not> disturbs c m t"
    and "\<And>x p. x \<noteq> e \<Longrightarrow> P p \<Longrightarrow> P (enqueued_policy x p)"
    and "\<And>x p. \<exists>t \<in> set ts. returns_from c t \<Longrightarrow> x \<noteq> e \<Longrightarrow> P p \<Longrightarrow> P (woken_policy x p)"
    and "\<And>cv. \<exists>t \<in> set ts. notifies c t \<Longrightarrow> P (cv_policy cv) \<Longrightarrow>
      P (signalled_policy cv) \<and> P (receive_broadcast_message (signalled_policy cv))"
  shows "waits_on P \<rho> e c m w'"
  using assms
proof (induction ts arbitrary: w)
  case (Cons t ts)
  then have t: "well_typed \<rho> t w" "enabled \<rho> t w" "world_run \<rho> ts (effect \<rho> t w) = Some w'"
    by (auto split: if_splits)
  have "waits_on P \<rho> e c m (effect \<rho> t w)"
    using Cons.prems by (intro waits_on_step [OF _ t(1,2)]) auto
  from Cons.IH [OF this t(3)] Cons.prems(3-6) show ?case by auto
qed simp

text \<open>What the policy operations of other runners keep.\<close>

lemma woken_policy_fields:
  "wait_queue (woken_policy x p) = wait_queue p \<or> wait_queue (woken_policy x p) = remove1 x (wait_queue p)"
  "threads_with_states (woken_policy x p) = threads_with_states p"
  "e \<noteq> x \<Longrightarrow> e \<in> set (broadcast_eligible_threads p) \<Longrightarrow>
     e \<in> set (broadcast_eligible_threads (woken_policy x p))"
  by (auto simp: woken_policy_def wake_thread_def default_wake_thread_def res_simps
      split: sum.splits if_splits option.splits)

lemma asleep_kept:
  "x \<noteq> e \<Longrightarrow> asleep e p \<Longrightarrow> asleep e (enqueued_policy x p)"
  "x \<noteq> e \<Longrightarrow> asleep e p \<Longrightarrow> asleep e (woken_policy x p)"
  using woken_policy_fields(1,2) [of x p]
  by (auto simp: asleep_def enqueued_policy_def add_waiter_with_state_def add_waiter_def Let_def
      update_thread_cv_state_def get_thread_cv_state_def update_conv')

lemma can_exit_kept:
  "thread_can_exit p e \<Longrightarrow> thread_can_exit (enqueued_policy x p) e"
  "thread_can_exit (cv_policy cv) e \<Longrightarrow> thread_can_exit (signalled_policy cv) e"
  "thread_can_exit p e \<Longrightarrow> thread_can_exit (receive_broadcast_message p) e"
proof -
  show "thread_can_exit p e \<Longrightarrow> thread_can_exit (receive_broadcast_message p) e"
    by (simp add: broadcast_releases_all_waiters)
qed (auto simp: enqueued_policy_def add_waiter_with_state_def add_waiter_def Let_def
      update_thread_cv_state_def thread_can_exit_def signalled_policy_def add_to_wake_groups_def)

lemma eligible_kept:
  "e \<in> set (broadcast_eligible_threads p) \<Longrightarrow> e \<in> set (broadcast_eligible_threads (enqueued_policy x p))"
  "e \<in> set (broadcast_eligible_threads (cv_policy cv)) \<Longrightarrow>
     e \<in> set (broadcast_eligible_threads (signalled_policy cv))"
  "e \<in> set (broadcast_eligible_threads (cv_policy cv)) \<Longrightarrow>
     e \<in> set (broadcast_eligible_threads (receive_broadcast_message (signalled_policy cv)))"
  by (auto simp: enqueued_policy_def add_waiter_with_state_def add_waiter_def Let_def
      update_thread_cv_state_def signalled_policy_def add_to_wake_groups_def
      receive_broadcast_message_def default_receive_broadcast_message_def set_fold_groups)

text \<open>A notification lets every sleeper go.\<close>

lemma notified_sleeper:
  assumes w: "waits_on (asleep e) \<rho> e c m w" and ty: "well_typed \<rho> t w" and en: "enabled \<rho> t w"
  shows "t = Cond_signal f c \<Longrightarrow> waits_on (\<lambda>p. thread_can_exit p e) \<rho> e c m (effect \<rho> t w)"
    and "t = Cond_broadcast f c \<Longrightarrow>
      waits_on (\<lambda>p. e \<in> set (broadcast_eligible_threads p)) \<rho> e c m (effect \<rho> t w)"
proof -
  from w obtain cv mu where o: "w c = Some (Cv_obj cv)" "w m = Some (Mutex_obj mu)"
    "w (\<rho> e) = Some (Thread_obj Running)" "cv_usable cv" "associated_mutex cv = location mu"
    "asleep e (cv_policy cv)" by (auto simp: waits_on_def)
  have q: "wait_queue (cv_policy cv) \<noteq> []" using o(6) by (auto simp: asleep_def)
  have neq: "c \<noteq> m" "\<rho> e \<noteq> c" "m \<noteq> c" using o by auto
  have "e \<in> set (waiting_threads cv)"
    using o(6) by (simp add: asleep_def waiting_threads_def return_wait_queue_def)
  then have group: "\<exists>g \<in> set (wake_groups (signalled_policy cv)). e \<in> set g"
    by (auto simp: signalled_policy_def add_to_wake_groups_def)
  then have "thread_can_exit (signalled_policy cv) e"
    by (auto simp: thread_can_exit_def list_ex_set wg_contains_def)
  with o q neq show "t = Cond_signal f c \<Longrightarrow> waits_on (\<lambda>p. thread_can_exit p e) \<rho> e c m (effect \<rho> t w)"
    by (auto simp: waits_on_def the_cv_def Let_def)
  have "e \<in> set (broadcast_eligible_threads (receive_broadcast_message (signalled_policy cv)))"
    using group by (auto simp: receive_broadcast_message_def default_receive_broadcast_message_def
        Let_def set_fold_groups)
  with o q neq show "t = Cond_broadcast f c \<Longrightarrow>
      waits_on (\<lambda>p. e \<in> set (broadcast_eligible_threads p)) \<rho> e c m (effect \<rho> t w)"
    by (auto simp: waits_on_def the_cv_def Let_def)
qed

lemma enqueue_falls_asleep:
  assumes "well_typed \<rho> (Cond_enqueue e c m) w" and "enabled \<rho> (Cond_enqueue e c m) w"
  shows "waits_on (asleep e) \<rho> e c m (effect \<rho> (Cond_enqueue e c m) w)"
proof -
  from assms(1) obtain cv mu where o: "w c = Some (Cv_obj cv)" "w m = Some (Mutex_obj mu)"
    by (auto simp: well_typed_def is_cv_at_iff is_mutex_at_iff)
  moreover have run: "w (\<rho> e) = Some (Thread_obj Running)" using assms(2) by (simp add: enabled_def)
  ultimately have neq: "c \<noteq> m" "\<rho> e \<noteq> c" "\<rho> e \<noteq> m" by auto
  have "asleep e (enqueued_policy e p)" for p
    by (simp add: asleep_def enqueued_policy_def add_waiter_with_state_def add_waiter_def Let_def
        get_thread_cv_state_def update_thread_cv_state_def)
  with o run neq show ?thesis
    by (auto simp: waits_on_def the_cv_def the_mutex_def cv_with_def cv_usable_def)
qed

section \<open>Properties\<close>

text \<open>
  C5. \<^verbatim>\<open>apply_to\<close> refines the specification. On a well-typed state it does not fail: if the
  executor runs and the transition's guard holds, it reports \<open>Exists\<close> and a diff under which
  the objects are those of the transition's effect; otherwise it reports \<open>Disabled\<close> and an empty
  diff.
\<close>

theorem apply_to_refines:
  assumes "view_ok s" and "well_typed (sv_objid_for_runner s) t (obj_map s)"
  shows "if enabled (sv_objid_for_runner s) t (obj_map s)
    then \<exists>d. apply_to t s = Inr (d, Exists) \<and>
      obj_map (diff_view d) = effect (sv_objid_for_runner s) t (obj_map s) \<and>
      fst ` set (new_object_states d) \<subseteq> names (sv_objid_for_runner s) t
    else apply_to t s = Inr (new_diff s, Disabled)"
proof -
  from apply_to_realised [OF assms] obtain ws where ws:
    "apply_to t s = (if enabled (sv_objid_for_runner s) t (obj_map s)
      then Inr (diff_with s ws, Exists) else Inr (new_diff s, Disabled))"
    "enabled (sv_objid_for_runner s) t (obj_map s) \<longrightarrow>
      obj_map s ++ map_of ws = effect (sv_objid_for_runner s) t (obj_map s) \<and>
      fst ` set ws \<subseteq> names (sv_objid_for_runner s) t" by blast
  have "fst ` set (new_object_states (diff_with s ws)) = fst ` set ws"
    by (force simp: diff_with_def)
  with ws show ?thesis by (auto simp: obj_map_diff_with)
qed

theorem apply_to_refines_witness:
  "let s = detached_view \<lparr>det_visible_objects = [[Thread_obj Running],
       [Mutex_obj \<lparr>mutex_current_state = Mutex_unlocked, location = 64, owner = RID_INVALID\<rparr>]],
     det_runner_to_obj_map = \<lparr>forward = [(0, 0)], backward = [(0, 0)]\<rparr>\<rparr> in
   \<exists>d. apply_to (Mutex_lock 0 1) s = Inr (d, Exists) \<and>
     obj_map (diff_view d) 1 = Some (Mutex_obj
       \<lparr>mutex_current_state = Mutex_locked, location = 64, owner = 0\<rparr>)"
proof -
  let ?m = "\<lparr>mutex_current_state = Mutex_unlocked, location = 64, owner = RID_INVALID\<rparr>"
  let ?s = "detached_view \<lparr>det_visible_objects = [[Thread_obj Running], [Mutex_obj ?m]],
     det_runner_to_obj_map = \<lparr>forward = [(0, 0)], backward = [(0, 0)]\<rparr>\<rparr>"
  note defs = detached_view_def detached_get_object_def vec_at_def vo_get_current_state_def
    vec_back_def obj_map_def
  have r: "sv_objid_for_runner ?s 0 = 0"
    by (simp add: detached_view_def detached_objid_for_runner_def guarded_def count_domain_def
        inj_at_def)
  have o: "obj_map ?s 0 = Some (Thread_obj Running)" "obj_map ?s (Suc 0) = Some (Mutex_obj ?m)"
    by (simp_all add: defs)
  have v: "view_ok ?s" by (simp add: view_ok_def defs invalid_objid_def)
  have t: "well_typed (sv_objid_for_runner ?s) (Mutex_lock 0 1) (obj_map ?s)"
    by (simp add: well_typed_def is_thread_at_def is_mutex_at_def r o)
  have e: "enabled (sv_objid_for_runner ?s) (Mutex_lock 0 1) (obj_map ?s)"
    by (simp add: enabled_def the_mutex_def r o)
  from apply_to_refines [OF v t] e show ?thesis
    by (auto simp: Let_def the_mutex_def o locked_by_def)
qed

text \<open>
  \<^verbatim>\<open>follow\<close> refines the specification on the program's state sequence: an enabled transition
  adds one state, in which every object is as the effect says, leaves all earlier states as they
  were and the sequence well-formed and up to date; a transition that is not enabled reports
  \<open>Disabled\<close> and changes nothing.
\<close>

lemma follow_refines:
  assumes "seq_wf ss" and "seq_tip ss"
    and "well_typed (sv_objid_for_runner (seq_view ss)) t (obj_map (seq_view ss))"
  shows "if enabled (sv_objid_for_runner (seq_view ss)) t (obj_map (seq_view ss))
    then \<exists>ss'. follow t ss = Inr (Exists, ss') \<and> seq_wf ss' \<and> seq_full ss' \<and>
      get_num_states_in_sequence ss' = get_num_states_in_sequence ss + 1 \<and>
      (\<forall>i < get_num_states_in_sequence ss. seq_state_at ss' i = seq_state_at ss i) \<and>
      (\<forall>oid. obj_map (seq_view ss) oid \<noteq> None \<longrightarrow> obj_map (seq_view ss') oid
         = effect (sv_objid_for_runner (seq_view ss)) t (obj_map (seq_view ss)) oid)
    else follow t ss = Inr (Disabled, ss)"
proof (cases "enabled (sv_objid_for_runner (seq_view ss)) t (obj_map (seq_view ss))")
  case True
  from follow_step [OF assms True] obtain ss' e where ss': "follow t ss = Inr (Exists, ss')"
    "seq_wf ss'" "seq_full ss'" "seq_extends ss ss'"
    "states_in_sequence ss' = states_in_sequence ss @ [e]"
    "\<forall>oid. obj_map (seq_view ss) oid \<noteq> None \<longrightarrow> obj_map (seq_view ss') oid
       = effect (sv_objid_for_runner (seq_view ss)) t (obj_map (seq_view ss)) oid" by blast
  have "seq_state_at ss' i = seq_state_at ss i" if "i < length (states_in_sequence ss)" for i
    using seq_extends_view [OF _ _ ss'(4), of "states_in_sequence ss ! i"] that assms(1)
    by (simp add: seq_state_at_def ss'(5) nth_append seq_wf_def)
  with True ss' show ?thesis by (auto simp: get_num_states_in_sequence_def)
next
  case False
  with apply_to_realised [OF seq_view_ok [OF assms(1)] assms(3)] show ?thesis
    by (auto simp: follow_def)
qed

lemma follow_refines_example:
  "\<exists>ss ss'. follow (Thread_start 0) ss = Inr (Exists, ss') \<and> get_num_states_in_sequence ss' = 2 \<and>
     obj_map (seq_view ss') 0 = Some (Thread_obj Running)"
proof -
  let ?ss = "\<lparr>runner_to_obj_map = \<lparr>forward = [(0, 0)], backward = [(0, 0)]\<rparr>,
    visible_objects = [[Thread_obj Running]],
    states_in_sequence = [\<lparr>visible_object_indices = [(0, 0)], max_visible_runner_id = Suc 0\<rparr>]\<rparr>"
  have wf: "seq_wf ?ss"
    by (auto simp: seq_wf_def elem_wf_def runners_wf_def inj_wf_def inj_size_def
        count_domain_def count_range_def invalid_objid_def invalid_rid_def)
  have tip: "seq_tip ?ss" by (simp add: seq_tip_def representative_state_def)
  have r: "sv_objid_for_runner (seq_view ?ss) 0 = 0"
    by (simp add: seq_view_def element_view_def element_objid_for_runner_def guarded_def
        element_contains_runner_def count_domain_def inj_at_def representative_state_def)
  have o: "obj_map (seq_view ?ss) 0 = Some (Thread_obj Running)"
    by (simp add: seq_obj_map [OF wf tip] representative_state_def)
  have ty: "well_typed (sv_objid_for_runner (seq_view ?ss)) (Thread_start 0) (obj_map (seq_view ?ss))"
    by (simp add: well_typed_def r o is_thread_at_def)
  have en: "enabled (sv_objid_for_runner (seq_view ?ss)) (Thread_start 0) (obj_map (seq_view ?ss))"
    by (simp add: enabled_def r o)
  from follow_refines [OF wf tip ty] en obtain ss' where "follow (Thread_start 0) ?ss = Inr (Exists, ss')"
    "get_num_states_in_sequence ss' = get_num_states_in_sequence ?ss + 1"
    "obj_map (seq_view ss') 0
       = effect (sv_objid_for_runner (seq_view ?ss)) (Thread_start 0) (obj_map (seq_view ?ss)) 0"
    using o by auto
  moreover have "get_num_states_in_sequence ?ss = 1" by (simp add: get_num_states_in_sequence_def)
  ultimately show ?thesis using o by fastforce
qed

text \<open>
  C29. Mutual exclusion. On a well-formed state sequence whose last state knows every object, while a
  runner holds a mutex: after any transitions on objects of their types that \<^verbatim>\<open>follow\<close> executes, the
  mutex is as it was, and \<^verbatim>\<open>follow\<close> finds every attempt to lock it disabled, also one by its owner,
  until the owner unlocks it or goes to sleep on a condition variable with it, or the program
  initialises the mutex again.
\<close>

theorem mutual_exclusion:
  assumes "seq_wf ss" and "seq_full ss"
    and "sv_object (seq_view ss) m = Inr (Mutex_obj mu)" and "is_locked_by mu a"
    and "follow_run ts ss = Some ss'"
    and "\<forall>t \<in> set (Mutex_lock b m # ts). well_typed (runner_objects ss) t (current_world ss)"
    and "\<forall>t \<in> set ts. \<not> releases a m t"
  shows "sv_object (seq_view ss') m = Inr (Mutex_obj mu) \<and> follow (Mutex_lock b m) ss' = Inr (Disabled, ss')"
proof -
  have ty: "\<forall>t \<in> set ts. well_typed (runner_objects ss) t (current_world ss)"
    and lock: "well_typed (runner_objects ss) (Mutex_lock b m) (current_world ss)" using assms(6) by simp_all
  from follow_run_worlds [OF assms(1,2) ty assms(5)] have
    run: "world_run (runner_objects ss) ts (current_world ss) = Some (current_world ss')"
    and wf: "seq_wf ss'" "seq_full ss'" and \<rho>: "runner_objects ss' = runner_objects ss" by auto
  have mu: "current_world ss' m = Some (Mutex_obj mu)"
    using locked_run [OF _ _ _ run assms(7), of mu] assms(3,4) by (simp add: obj_map_Some is_locked_by_def)
  have "well_typed (runner_objects ss') (Mutex_lock b m) (current_world ss')"
    using world_run_typing [OF run lock] by (simp add: \<rho>)
  moreover have "\<not> enabled (runner_objects ss') (Mutex_lock b m) (current_world ss')"
    using mu assms(4) by (simp add: enabled_def the_mutex_def is_locked_by_def)
  ultimately have "follow (Mutex_lock b m) ss' = Inr (Disabled, ss')" by (rule follow_disabled [OF wf(1)])
  with mu show ?thesis by (simp add: obj_map_Some)
qed

text \<open>Two threads, a mutex that runner \<open>0\<close> holds, a semaphore with one unit and a condition variable.\<close>

abbreviation two_threads_base :: "vos \<Rightarrow> state_sequence" where
  "two_threads_base mutex \<equiv>
     \<lparr>runner_to_obj_map = \<lparr>forward = [(0, 0), (1, 1)], backward = [(0, 0), (1, 1)]\<rparr>,
      visible_objects = [[Thread_obj Running], [Thread_obj Running], [mutex],
        [Sem_obj (semaphore_of_count 1)], [Cv_obj (fresh_cv Cv_initialized RID_INVALID)]],
      states_in_sequence = []\<rparr>"

definition two_threads :: "vos \<Rightarrow> state_sequence" where
  "two_threads mutex = push_state_snapshot (two_threads_base mutex)"

abbreviation held_mutex :: vos where
  "held_mutex \<equiv> Mutex_obj (new_mutex Mutex_locked 64 0)"

lemma two_threads_shape:
  "objs (two_threads mutex) = objs (two_threads_base mutex)"
  "runner_to_obj_map (two_threads mutex) = runner_to_obj_map (two_threads_base mutex)"
  "states_in_sequence (two_threads mutex) = [new_element (two_threads_base mutex)]"
  by (simp_all add: two_threads_def push_state_snapshot_def)

lemma two_threads_ok: "seq_wf (two_threads mutex)" "seq_full (two_threads mutex)"
proof -
  let ?b = "two_threads_base mutex"
  note shape = two_threads_shape [of mutex]
  have "inj_size (runner_to_obj_map ?b) = 2" by (simp add: inj_size_def)
  then have "elem_full ?b (new_element ?b)" by (intro new_element_full) (simp add: invalid_rid_def)
  then have f: "elem_full (two_threads mutex) (new_element ?b)" by (simp add: elem_full_def shape)
  then show "seq_full (two_threads mutex)" by (simp add: seq_full_def representative_state_def shape)
  have "elem_wf (two_threads mutex) (new_element ?b)"
    using f distinct_new_element by (intro elem_full_wf) (simp_all add: shape)
  moreover have "inj_wf (runner_to_obj_map ?b)" by (auto simp: inj_wf_def)
  then have "runners_wf (two_threads mutex)"
    by (auto simp: runners_wf_def shape inj_size_def count_domain_def count_range_def)
  ultimately show "seq_wf (two_threads mutex)"
    by (simp add: seq_wf_def shape inj_size_def invalid_objid_def invalid_rid_def)
qed

lemma two_threads_tip: "seq_tip (two_threads mutex)"
  using two_threads_ok by (simp add: seq_full_tip seq_wf_def)

lemma two_threads_view:
  "runner_objects (two_threads mutex) 0 = 0" "runner_objects (two_threads mutex) (Suc 0) = Suc 0"
  "current_world (two_threads mutex) 0 = Some (Thread_obj Running)"
  "current_world (two_threads mutex) (Suc 0) = Some (Thread_obj Running)"
  "current_world (two_threads mutex) 2 = Some mutex"
  "current_world (two_threads mutex) 3 = Some (Sem_obj (semaphore_of_count 1))"
  "current_world (two_threads mutex) 4 = Some (Cv_obj (fresh_cv Cv_initialized RID_INVALID))"
proof -
  note full = two_threads_ok(2) [of mutex, unfolded seq_full_def elem_full_def]
  have size: "inj_size (runner_to_obj_map (two_threads mutex)) = 2"
    by (simp add: two_threads_shape inj_size_def)
  show "runner_objects (two_threads mutex) 0 = 0" "runner_objects (two_threads mutex) (Suc 0) = Suc 0"
    using full size
    by (simp_all add: seq_view_def element_view_def element_objid_for_runner_def guarded_def
        element_contains_runner_def count_domain_def inj_at_def two_threads_shape)
  have len: "length (objs (two_threads mutex)) = 5" by (simp add: two_threads_shape)
  have "current_world (two_threads mutex) oid = Some (last (objs (two_threads mutex) ! oid))" if "oid < 5" for oid
    using full seq_obj_map [OF two_threads_ok(1) two_threads_tip, of mutex oid] that len by simp
  from this [of 0] this [of "Suc 0"] this [of 2] this [of 3] this [of 4]
  show "current_world (two_threads mutex) 0 = Some (Thread_obj Running)"
    "current_world (two_threads mutex) (Suc 0) = Some (Thread_obj Running)"
    "current_world (two_threads mutex) 2 = Some mutex"
    "current_world (two_threads mutex) 3 = Some (Sem_obj (semaphore_of_count 1))"
    "current_world (two_threads mutex) 4 = Some (Cv_obj (fresh_cv Cv_initialized RID_INVALID))"
    by (simp_all add: two_threads_shape)
qed

lemma two_threads_step:
  assumes "well_typed (runner_objects (two_threads mutex)) t (current_world (two_threads mutex))"
    and "enabled (runner_objects (two_threads mutex)) t (current_world (two_threads mutex))"
  shows "\<exists>ss. follow t (two_threads mutex) = Inr (Exists, ss)"
  using follow_step [OF two_threads_ok(1) two_threads_tip assms] by blast

theorem mutual_exclusion_witness:
  "\<exists>ss. follow (Sem_wait 0 3) (two_threads held_mutex) = Inr (Exists, ss) \<and>
     follow (Mutex_lock 1 2) ss = Inr (Disabled, ss)"
proof -
  let ?ss = "two_threads held_mutex"
  have ty: "well_typed (runner_objects ?ss) (Sem_wait 0 3) (current_world ?ss)"
    "well_typed (runner_objects ?ss) (Mutex_lock 1 2) (current_world ?ss)"
    by (simp_all add: well_typed_def is_thread_at_def is_sem_at_def is_mutex_at_def two_threads_view)
  have "enabled (runner_objects ?ss) (Sem_wait 0 3) (current_world ?ss)"
    by (simp add: enabled_def two_threads_view the_sem_def semaphore_of_count_def new_semaphore_def)
  then obtain ss where ss: "follow (Sem_wait 0 3) ?ss = Inr (Exists, ss)"
    using two_threads_step [OF ty(1)] by blast
  have "follow_run [Sem_wait 0 3] ?ss = Some ss" by (simp add: ss)
  from mutual_exclusion [OF two_threads_ok _ _ this, of 2 "new_mutex Mutex_locked 64 0" 0 1]
  show ?thesis using ss ty two_threads_view(5) [of held_mutex]
    by (auto simp: obj_map_Some is_locked_by_def new_mutex_def)
qed

text \<open>
  C30. No wake-up is lost once a thread is asleep. A runner goes to sleep on a condition variable with a
  mutex; other runners take any steps, and at some point one of them signals or broadcasts for the first
  time since; other runners take any further steps. If the mutex is free then, \<^verbatim>\<open>follow\<close> executes the
  runner's return from the wait. Excluded are steps that initialise or destroy the condition variable or
  use it with another mutex, and, after a signal, returns of other runners from the same condition
  variable, which may consume it; a broadcast is for everyone.
\<close>

theorem sleeper_wakes_after_notification:
  assumes "seq_wf ss" and "seq_full ss"
    and "follow_run (Cond_enqueue e c m # us @ t # vs) ss = Some ss'"
    and "t = Cond_signal f c \<or> t = Cond_broadcast f c"
    and "\<forall>u \<in> set (Cond_enqueue e c m # us @ t # vs). well_typed (runner_objects ss) u (current_world ss)"
    and "\<forall>u \<in> set (us @ t # vs). runner_objects ss (get_executor u) \<noteq> runner_objects ss e"
    and "\<forall>u \<in> set us. \<not> notifies c u" and "\<forall>u \<in> set (us @ vs). \<not> disturbs c m u"
    and "t = Cond_signal f c \<longrightarrow> (\<forall>u \<in> set vs. \<not> returns_from c u)"
    and "sv_object (seq_view ss') m = Inr (Mutex_obj mu)" and "is_unlocked mu"
  shows "\<exists>ss''. follow (Cond_wait e c m) ss' = Inr (Exists, ss'')"
proof -
  let ?\<rho> = "runner_objects ss" and ?w0 = "current_world ss"
  let ?w1 = "effect ?\<rho> (Cond_enqueue e c m) ?w0"
  from follow_run_worlds [OF assms(1,2,5,3)] have
    run: "world_run ?\<rho> (Cond_enqueue e c m # us @ t # vs) ?w0 = Some (current_world ss')"
    and wf: "seq_wf ss'" "seq_full ss'" and \<rho>: "runner_objects ss' = ?\<rho>" by auto
  from run obtain w2 where w1: "well_typed ?\<rho> (Cond_enqueue e c m) ?w0" "enabled ?\<rho> (Cond_enqueue e c m) ?w0"
    and w2: "world_run ?\<rho> us ?w1 = Some w2" "well_typed ?\<rho> t w2" "enabled ?\<rho> t w2"
      "world_run ?\<rho> vs (effect ?\<rho> t w2) = Some (current_world ss')"
    by (auto simp: world_run_append split: if_splits option.splits)
  have "waits_on (asleep e) ?\<rho> e c m w2"
    by (rule waits_on_run [OF enqueue_falls_asleep [OF w1] w2(1)])
      (use assms(6-8) in \<open>auto intro: asleep_kept\<close>)
  note told = notified_sleeper [OF this w2(2,3)]
  have "waits_on (\<lambda>p. thread_can_exit p e) ?\<rho> e c m (current_world ss')"
    using assms(4)
  proof
    assume t: "t = Cond_signal f c"
    show ?thesis
      by (rule waits_on_run [OF told(1) [OF t] w2(4)])
        (use assms(6,8,9) t in \<open>auto intro: can_exit_kept\<close>)
  next
    assume t: "t = Cond_broadcast f c"
    have "waits_on (\<lambda>p. e \<in> set (broadcast_eligible_threads p)) ?\<rho> e c m (current_world ss')"
      by (rule waits_on_run [OF told(2) [OF t] w2(4)])
        (use assms(6,8) in \<open>auto intro: eligible_kept woken_policy_fields(3)\<close>)
    then show ?thesis by (auto simp: waits_on_def thread_can_exit_def)
  qed
  moreover have "current_world ss' m = Some (Mutex_obj mu)" using assms(10) by (simp add: obj_map_Some)
  ultimately have en: "enabled (runner_objects ss') (Cond_wait e c m) (current_world ss')"
    using assms(11) unfolding \<rho> waits_on_def
    by (auto simp: enabled_def the_cv_def the_mutex_def is_unlocked_def)
  have "well_typed ?\<rho> (Cond_wait e c m) ?w0" using w1(1) by (simp add: well_typed_def)
  then have "well_typed (runner_objects ss') (Cond_wait e c m) (current_world ss')"
    using world_run_typing [OF run] by (simp add: \<rho>)
  moreover have "seq_tip ss'" using wf by (simp add: seq_full_tip seq_wf_def)
  ultimately show ?thesis using follow_step [OF wf(1) _ _ en] by blast
qed

lemma follow_run_enabled:
  assumes "seq_wf ss" and "seq_full ss"
    and "\<forall>t \<in> set ts. well_typed (runner_objects ss) t (current_world ss)"
    and "world_run (runner_objects ss) ts (current_world ss) = Some w"
  shows "\<exists>ss'. follow_run ts ss = Some ss' \<and> current_world ss' = w"
  using assms
proof (induction ts arbitrary: ss)
  case (Cons t ts)
  have t: "well_typed (runner_objects ss) t (current_world ss)" "enabled (runner_objects ss) t (current_world ss)"
    "world_run (runner_objects ss) ts (effect (runner_objects ss) t (current_world ss)) = Some w"
    using Cons.prems(4) by (auto split: if_splits)
  have "seq_tip ss" using Cons.prems(1,2) by (simp add: seq_full_tip seq_wf_def)
  from follow_step [OF Cons.prems(1) this t(1,2)] obtain ss1 where ss1: "follow t ss = Inr (Exists, ss1)" by blast
  note s = follow_exists [OF Cons.prems(1,2) t(1) ss1]
  have "\<forall>u \<in> set ts. well_typed (runner_objects ss1) u (current_world ss1)"
    using Cons.prems(3) t(1) by (simp add: s(4,5) effect_keeps_typing)
  from Cons.IH [OF s(2,3) this] t(3) ss1 show ?case by (simp add: s(4,5))
qed simp

text \<open>Thread 0 goes to sleep, thread 1 uses the semaphore, locks the mutex, signals, and unlocks it.\<close>

theorem sleeper_wakes_after_notification_witness:
  "\<exists>ss ss'. follow_run [Cond_enqueue 0 4 2, Sem_wait 1 3, Mutex_lock 1 2, Cond_signal 1 4, Mutex_unlock 1 2]
       (two_threads held_mutex) = Some ss \<and>
     follow (Cond_wait 0 4 2) ss = Inr (Exists, ss')"
proof -
  let ?ts = "[Cond_enqueue 0 4 2, Sem_wait 1 3, Mutex_lock 1 2, Cond_signal 1 4, Mutex_unlock 1 2]"
  let ?ss = "two_threads held_mutex"
  note unfolds = well_typed_def enabled_def is_thread_at_def is_sem_at_def is_mutex_at_def is_cv_at_def
    two_threads_view the_mutex_def the_cv_def the_sem_def semaphore_of_count_def new_semaphore_def
    new_mutex_def fresh_cv_def new_condition_variable_def released_def locked_by_def
  have ty: "\<forall>t \<in> set ?ts. well_typed (runner_objects ?ss) t (current_world ?ss)"
    by (simp add: unfolds)
  have cv: "cv_usable (cv_with Cv_waiting x l p)" "numRemainingSpuriousWakeups (cv_with s x l p) = 0"
    "wait_queue (enqueued_policy x p) \<noteq> []" for s x l p
    by (simp_all add: cv_with_def cv_usable_def enqueued_policy_def add_waiter_with_state_def add_waiter_def
        Let_def)
  obtain w where w: "world_run (runner_objects ?ss) ?ts (current_world ?ss) = Some w"
    "\<exists>mu. w 2 = Some (Mutex_obj mu) \<and> is_unlocked mu"
    using ty by (simp add: unfolds Let_def cv is_unlocked_def)
  from follow_run_enabled [OF two_threads_ok ty w(1)] obtain ss where
    ss: "follow_run ?ts ?ss = Some ss" "current_world ss = w" by blast
  with w(2) obtain mu where mu: "sv_object (seq_view ss) 2 = Inr (Mutex_obj mu)" "is_unlocked mu"
    by (auto simp: obj_map_Some)
  have "follow_run (Cond_enqueue 0 4 2 # [Sem_wait 1 3, Mutex_lock 1 2] @ Cond_signal 1 4 # [Mutex_unlock 1 2])
      ?ss = Some ss" using ss(1) by simp
  from sleeper_wakes_after_notification [OF two_threads_ok this _ _ _ _ _ _ mu, of 1] ty ss(1)
  show ?thesis by (simp add: two_threads_view)
qed

text \<open>
  \<^verbatim>\<open>apply_to\<close> never reports a transition as undefined, in any state: uses of a destroyed
  condition variable, which \<^verbatim>\<open>modify\<close> calls undefined, come out as disabled.
\<close>

lemma apply_to_never_undefined:
  "apply_to t s \<noteq> Inr (d, Undefined)"
  by (auto simp: apply_to_def bind_res_def split: sum.splits if_splits)

text \<open>
  Posting a semaphore lets a waiter through, except at the largest count: there the count
  wraps to a negative number, and a semaphore with more than two thousand million units blocks.
\<close>

lemma post_enables_wait_unless_maximal:
  assumes "w s = Some (Sem_obj sm)" and "0 \<le> sint (sem_count sm)"
    and "w (\<rho> f) = Some (Thread_obj Running)"
  shows "enabled \<rho> (Sem_wait f s) (effect \<rho> (Sem_post e s) w) \<longleftrightarrow> sint (sem_count sm) \<noteq> 2 ^ 31 - 1"
proof -
  have neq: "\<rho> f \<noteq> s" using assms(1,3) by auto
  let ?n = "sem_count sm"
  have b: "sint ?n < 2 ^ 31" using sint_lt [of ?n] by simp
  have inc: "sint (?n + 1) = signed_take_bit 31 (sint ?n + 1)"
    by (simp add: sint_word_ariths)
  have "sint (?n + 1) = (if sint ?n = 2 ^ 31 - 1 then - (2 ^ 31) else sint ?n + 1)"
    using assms(2) b by (auto simp: inc signed_take_bit_int_eq_self_iff)
  with assms b neq show ?thesis
    by (simp add: enabled_def the_sem_def semaphore_of_count_def new_semaphore_def)
qed

lemma post_enables_wait_unless_maximal_example:
  "let w = [0 \<mapsto> Thread_obj Running, 1 \<mapsto> Sem_obj (semaphore_of_count 2147483647)] in
   \<not> enabled id (Sem_wait 0 1) (effect id (Sem_post 0 1) w)"
proof -
  let ?w = "[0 \<mapsto> Thread_obj Running, 1 \<mapsto> Sem_obj (semaphore_of_count 2147483647)] :: world"
  have "\<not> enabled id (Sem_wait 0 1) (effect id (Sem_post 0 1) ?w)"
    by (subst post_enables_wait_unless_maximal [of ?w 1 "semaphore_of_count 2147483647"])
       (simp_all add: semaphore_of_count_def new_semaphore_def)
  then show ?thesis by (simp add: Let_def)
qed

text \<open>
  The lost-wakeup warning of \<^verbatim>\<open>pthread_cond_signal\<close> is printed exactly when the signal does
  reach a sleeping thread: whenever it is printed, some thread may leave the wait because of this
  signal.
\<close>

lemma warning_means_wakeup:
  assumes "cv_usable c"
  shows "(signal_warns c \<longleftrightarrow> waiting_threads c \<noteq> []) \<and>
    (signal_warns c \<longrightarrow> (\<exists>t. thread_can_exit (signalled_policy c) t))"
proof -
  have "waiting_threads c \<noteq> [] \<Longrightarrow> wait_queue (cv_policy c) \<noteq> []"
    by (auto simp: waiting_threads_def return_wait_queue_def)
  then have w: "signal_warns c \<longleftrightarrow> waiting_threads c \<noteq> []"
    using assms
    by (auto simp: signal_warns_def cv_usable_def cv_is_uninitialized_def cv_is_destroyed_def
        cv_has_waiters_def has_waiters_def check_for_lost_wakeup_def Let_def
        new_condition_variable_def init_policy_def new_policy_def return_wait_queue_def)
  have "thread_can_exit (signalled_policy c) (hd (waiting_threads c))" if "waiting_threads c \<noteq> []"
    using that by (auto simp: signalled_policy_def add_to_wake_groups_def thread_can_exit_def
        wg_contains_def)
  with w show ?thesis by blast
qed

lemma warning_means_wakeup_example:
  "signal_warns (cv_with Cv_waiting 0 64 (enqueued_policy 0 new_policy))"
proof -
  let ?c = "cv_with Cv_waiting 0 64 (enqueued_policy 0 new_policy)"
  have "cv_usable ?c" by (simp add: cv_usable_def cv_with_def)
  moreover have "waiting_threads ?c = [0]"
    by (simp add: waiting_threads_def return_wait_queue_def cv_with_def enqueued_policy_def
        new_policy_def add_waiter_with_state_def add_waiter_def Let_def get_thread_cv_state_def)
  ultimately show ?thesis using warning_means_wakeup [of ?c] by simp
qed

end
