(* ===== verification/Independence.thy ===== *)
theory Independence
  imports Dependency Transition_Properties
begin

text \<open>
  What the dependency relation promises DPOR: transitions it declares independent may be executed
  in either order. The locale \<open>independence\<close> states this as a diamond law on steps and derives
  that the executions of one Mazurkiewicz trace end in the same state; it is interpreted on the
  transitions' effects with the relation \<^verbatim>\<open>classic_dpor\<close> uses by default.
\<close>

section \<open>The interface\<close>

locale independence =
  fixes step :: "'t \<Rightarrow> 's \<Rightarrow> 's option"
    and indep :: "'t \<Rightarrow> 't \<Rightarrow> bool"
  assumes diamond: "indep a b \<Longrightarrow> step a s = Some s1 \<Longrightarrow> step b s1 = Some s2 \<Longrightarrow>
    \<exists>u. step b s = Some u \<and> step a u = Some s2"
begin

fun run :: "'t list \<Rightarrow> 's \<Rightarrow> 's option" where
  "run [] s = Some s"
| "run (t # ts) s = (case step t s of None \<Rightarrow> None | Some u \<Rightarrow> run ts u)"

lemma run_append: "run (xs @ ys) s = (case run xs s of None \<Rightarrow> None | Some u \<Rightarrow> run ys u)"
  by (induction xs arbitrary: s) (auto split: option.split)

lemma run_swap:
  assumes "indep a b" and "run (xs @ a # b # ys) s = Some s'"
  shows "run (xs @ b # a # ys) s = Some s'"
proof -
  from assms(2) obtain u where u: "run xs s = Some u" "run (a # b # ys) u = Some s'"
    by (auto simp: run_append split: option.splits)
  from u(2) obtain u1 u2 where s: "step a u = Some u1" "step b u1 = Some u2" "run ys u2 = Some s'"
    by (auto split: option.splits)
  from diamond [OF assms(1) s(1,2)] obtain v where "step b u = Some v" "step a v = Some u2" by blast
  with u(1) s(3) show ?thesis by (simp add: run_append)
qed

text \<open>Sequences reachable from one another by swapping independent neighbours.\<close>

inductive reorder :: "'t list \<Rightarrow> 't list \<Rightarrow> bool" where
  refl: "reorder ts ts"
| swap: "reorder ts (xs @ a # b # ys) \<Longrightarrow> indep a b \<Longrightarrow> reorder ts (xs @ b # a # ys)"

lemma reorder_run:
  "reorder ts us \<Longrightarrow> run ts s = Some s' \<Longrightarrow> run us s = Some s'"
  by (induction rule: reorder.induct) (auto intro: run_swap)

text \<open>A step independent of a whole sequence can be brought to its front.\<close>

lemma reorder_to_front:
  assumes "\<forall>t \<in> set xs. indep t a"
  shows "reorder (xs @ a # ys) (a # xs @ ys)"
  using assms
proof (induction xs arbitrary: ys rule: rev_induct)
  case Nil
  then show ?case by (simp add: refl)
next
  case (snoc x xs)
  have "reorder (xs @ [x, a] @ ys) (xs @ a # x # ys)"
    using swap [of "xs @ x # a # ys" xs x a ys] snoc.prems refl by simp
  moreover have "reorder (xs @ a # x # ys) (a # xs @ x # ys)" using snoc by simp
  moreover have "reorder ts vs" if "reorder us vs" "reorder ts us" for ts us vs
    using that by (induction rule: reorder.induct) (auto intro: swap)
  ultimately show ?case by simp
qed

lemma run_to_front:
  "\<forall>t \<in> set xs. indep t a \<Longrightarrow> run (xs @ a # ys) s = Some s' \<Longrightarrow> run (a # xs @ ys) s = Some s'"
  using reorder_to_front reorder_run by blast

end

section \<open>Footprints\<close>

text \<open>The objects a transition may write.\<close>

fun writes :: "runner_objs \<Rightarrow> transition \<Rightarrow> objid set" where
  "writes \<rho> (Thread_create e t) = {\<rho> t}"
| "writes \<rho> (Thread_exit e) = {\<rho> e}"
| "writes \<rho> (Process_exit e n) = {\<rho> e}"
| "writes \<rho> (Mutex_init e m) = {m}"
| "writes \<rho> (Mutex_lock e m) = {m}"
| "writes \<rho> (Mutex_unlock e m) = {m}"
| "writes \<rho> (Cond_init e c) = {c}"
| "writes \<rho> (Cond_enqueue e c m) = {c, m}"
| "writes \<rho> (Cond_wait e c m) = {c, m}"
| "writes \<rho> (Cond_signal e c) = {c}"
| "writes \<rho> (Cond_broadcast e c) = {c}"
| "writes \<rho> (Cond_destroy e c) = {c}"
| "writes \<rho> (Sem_init e s n) = {s}"
| "writes \<rho> (Sem_post e s) = {s}"
| "writes \<rho> (Sem_wait e s) = {s}"
| "writes \<rho> _ = {}"

text \<open>A thread that is created has not started before.\<close>

definition creates_embryo :: "runner_objs \<Rightarrow> transition \<Rightarrow> world \<Rightarrow> bool" where
  "creates_embryo \<rho> t w \<longleftrightarrow>
     (case t of Thread_create _ x \<Rightarrow> w (\<rho> x) = Some (Thread_obj Embryo) | _ \<Rightarrow> True)"

definition can_step :: "runner_objs \<Rightarrow> transition \<Rightarrow> world \<Rightarrow> bool" where
  "can_step \<rho> t w \<longleftrightarrow> well_typed \<rho> t w \<and> enabled \<rho> t w \<and> creates_embryo \<rho> t w"

lemma effect_outside: "oid \<notin> writes \<rho> t \<Longrightarrow> effect \<rho> t w oid = w oid"
  by (cases t) (auto simp: Let_def)

lemma writes_names: "writes \<rho> t \<subseteq> names \<rho> t"
  by (cases t) auto

lemma the_cong:
  "w oid = w' oid \<Longrightarrow> the_mutex w oid = the_mutex w' oid"
  "w oid = w' oid \<Longrightarrow> the_cv w oid = the_cv w' oid"
  "w oid = w' oid \<Longrightarrow> the_sem w oid = the_sem w' oid"
  by (simp_all add: the_mutex_def the_cv_def the_sem_def)

lemma at_cong:
  "w oid = w' oid \<Longrightarrow> is_thread_at w oid = is_thread_at w' oid"
  "w oid = w' oid \<Longrightarrow> is_mutex_at w oid = is_mutex_at w' oid"
  "w oid = w' oid \<Longrightarrow> is_cv_at w oid = is_cv_at w' oid"
  "w oid = w' oid \<Longrightarrow> is_sem_at w oid = is_sem_at w' oid"
  by (simp_all add: is_thread_at_def is_mutex_at_def is_cv_at_def is_sem_at_def)

text \<open>Whether a transition can step, and what it writes, depends on the objects it names.\<close>

lemma can_step_local:
  assumes "\<forall>oid \<in> names \<rho> t. w oid = w' oid"
  shows "can_step \<rho> t w = can_step \<rho> t w'"
  using assms
  by (cases t)
     (auto simp: can_step_def well_typed_def enabled_def creates_embryo_def
       the_cong [of w _ w'] at_cong [of w _ w'])

lemma effect_local:
  assumes "\<forall>oid \<in> names \<rho> t. w oid = w' oid" and "oid \<in> writes \<rho> t"
  shows "effect \<rho> t w oid = effect \<rho> t w' oid"
  using assms by (cases t) (auto simp: Let_def the_cong [of w _ w'])

lemma footprints_commute:
  assumes "writes \<rho> t1 \<inter> names \<rho> t2 = {}" and "writes \<rho> t2 \<inter> names \<rho> t1 = {}"
    and "can_step \<rho> t1 w" and "can_step \<rho> t2 (effect \<rho> t1 w)"
  shows "can_step \<rho> t2 w \<and> can_step \<rho> t1 (effect \<rho> t2 w) \<and>
    effect \<rho> t1 (effect \<rho> t2 w) = effect \<rho> t2 (effect \<rho> t1 w)"
proof -
  have n2: "\<forall>oid \<in> names \<rho> t2. effect \<rho> t1 w oid = w oid"
    using assms(1) effect_outside by blast
  have n1: "\<forall>oid \<in> names \<rho> t1. effect \<rho> t2 w oid = w oid"
    using assms(2) effect_outside by blast
  have "effect \<rho> t1 (effect \<rho> t2 w) oid = effect \<rho> t2 (effect \<rho> t1 w) oid" for oid
  proof (cases "oid \<in> writes \<rho> t1")
    case True
    then have "oid \<notin> writes \<rho> t2" using assms(2) writes_names by blast
    then show ?thesis using effect_local [OF n1 True] by (simp add: effect_outside)
  next
    case False
    then show ?thesis
      using effect_local [OF n2] by (cases "oid \<in> writes \<rho> t2") (simp_all add: effect_outside)
  qed
  then show ?thesis
    using can_step_local [OF n2] can_step_local [OF n1] assms(3,4) by auto
qed

text \<open>Effects do not change what kind of object an id stands for.\<close>

lemma effect_kinds:
  assumes "can_step \<rho> t w"
  shows "is_thread_at (effect \<rho> t w) oid = is_thread_at w oid"
    and "is_mutex_at (effect \<rho> t w) oid = is_mutex_at w oid"
    and "is_cv_at (effect \<rho> t w) oid = is_cv_at w oid"
    and "is_sem_at (effect \<rho> t w) oid = is_sem_at w oid"
  using assms
  by (cases t; auto simp: can_step_def well_typed_def is_thread_at_iff is_mutex_at_iff is_cv_at_iff
      is_sem_at_iff cv_with_def fresh_cv_def new_condition_variable_def Let_def split: if_splits)+

section \<open>Independent transitions have separate footprints\<close>

definition runners_distinct :: "runner_objs \<Rightarrow> world \<Rightarrow> bool" where
  "runners_distinct \<rho> w \<longleftrightarrow> (\<forall>r r'. is_thread_at w (\<rho> r) \<longrightarrow> \<rho> r = \<rho> r' \<longrightarrow> r = r')"

definition separate :: "runner_objs \<Rightarrow> transition \<Rightarrow> transition \<Rightarrow> bool" where
  "separate \<rho> t1 t2 \<longleftrightarrow> writes \<rho> t1 \<inter> names \<rho> t2 = {} \<and> writes \<rho> t2 \<inter> names \<rho> t1 = {}"

lemma kinds_differ:
  "is_thread_at w a \<Longrightarrow> is_mutex_at w b \<Longrightarrow> a \<noteq> b"
  "is_thread_at w a \<Longrightarrow> is_cv_at w b \<Longrightarrow> a \<noteq> b"
  "is_thread_at w a \<Longrightarrow> is_sem_at w b \<Longrightarrow> a \<noteq> b"
  "is_mutex_at w a \<Longrightarrow> is_cv_at w b \<Longrightarrow> a \<noteq> b"
  by (auto simp: is_thread_at_iff is_mutex_at_iff is_cv_at_iff is_sem_at_iff)

lemma kinds_exclusive:
  "is_mutex_at w a \<Longrightarrow> \<not> is_thread_at w a"
  "is_cv_at w a \<Longrightarrow> \<not> is_thread_at w a"
  "is_cv_at w a \<Longrightarrow> \<not> is_mutex_at w a"
  using kinds_differ [of w a a] by auto

lemma running_is_thread: "enabled \<rho> t w \<Longrightarrow> is_thread_at w (\<rho> (get_executor t))"
  by (simp add: enabled_def is_thread_at_def)

lemma separate_sym: "separate \<rho> t1 t2 = separate \<rho> t2 t1"
  by (auto simp: separate_def)

text \<open>
  A transition that only concerns threads, as \<^verbatim>\<open>create\<close> and \<^verbatim>\<open>join\<close> do, against
  any transition of another runner that is not its target.
\<close>

lemma separate_from_typed:
  assumes th: "\<And>oid. oid \<in> names \<rho> t1 \<Longrightarrow> is_thread_at w oid"
    and ty: "well_typed \<rho> t2 w"
    and no: "\<rho> (get_executor t2) \<notin> writes \<rho> t1" "\<rho> (get_executor t2) \<notin> names \<rho> t1"
    and t2: "\<And>f y. t2 \<noteq> Thread_create f y" "\<And>f y. t2 \<noteq> Thread_join f y"
  shows "separate \<rho> t1 t2"
proof -
  have out: "b \<notin> names \<rho> t1 \<and> b \<notin> writes \<rho> t1"
    if "is_mutex_at w b \<or> is_cv_at w b \<or> is_sem_at w b" for b
    using that th kinds_differ(1-3) writes_names by blast
  show ?thesis
    using no ty t2 out by (cases t2) (auto simp: separate_def well_typed_def)
qed

lemma separate_create:
  assumes rd: "runners_distinct \<rho> w" and st: "can_step \<rho> (Thread_create e x) w"
    and st2: "can_step \<rho> t2 (effect \<rho> (Thread_create e x) w)"
    and ne: "get_executor t2 \<noteq> e" "get_executor t2 \<noteq> x"
  shows "separate \<rho> (Thread_create e x) t2"
proof -
  define w1 where "w1 = effect \<rho> (Thread_create e x) w"
  have th: "is_thread_at w (\<rho> e)" "is_thread_at w (\<rho> x)"
    using st by (simp_all add: can_step_def well_typed_def)
  have run: "w (\<rho> e) = Some (Thread_obj Running)" "w (\<rho> x) = Some (Thread_obj Embryo)"
    using st by (simp_all add: can_step_def enabled_def creates_embryo_def)
  then have run1: "w1 (\<rho> e) = Some (Thread_obj Running)" "w1 (\<rho> x) = Some (Thread_obj Running)"
    by (auto simp: w1_def)
  have dist: "\<rho> r \<noteq> \<rho> e" if "r \<noteq> e" for r using rd th(1) that by (metis runners_distinct_def)
  have dist': "\<rho> r \<noteq> \<rho> x" if "r \<noteq> x" for r using rd th(2) that by (metis runners_distinct_def)
  have st2': "can_step \<rho> t2 w1" using st2 by (simp add: w1_def)
  then have ty2: "well_typed \<rho> t2 w1" by (simp add: can_step_def)
  show ?thesis
  proof (cases "\<exists>f y. t2 = Thread_create f y \<or> t2 = Thread_join f y")
    case True
    then obtain f y where fy: "t2 = Thread_create f y \<or> t2 = Thread_join f y" by blast
    have y: "\<rho> y \<noteq> \<rho> x" "t2 = Thread_create f y \<Longrightarrow> \<rho> y \<noteq> \<rho> e"
      using fy st2' run1 by (auto simp: can_step_def enabled_def creates_embryo_def)
    from fy ne have "f \<noteq> x" by auto
    then have "\<rho> f \<noteq> \<rho> x" by (rule dist')
    with fy y show ?thesis by (auto simp: separate_def)
  next
    case False
    then show ?thesis
      using ne dist dist' run1 ty2
      by (intro separate_from_typed [where w = w1]) (auto simp: is_thread_at_def)
  qed
qed

lemma separate_join:
  assumes rd: "runners_distinct \<rho> w" and st: "can_step \<rho> (Thread_join e x) w"
    and st2: "can_step \<rho> t2 w" and ne: "get_executor t2 \<noteq> e" "get_executor t2 \<noteq> x"
  shows "separate \<rho> (Thread_join e x) t2"
proof -
  have th: "is_thread_at w (\<rho> e)" "is_thread_at w (\<rho> x)"
    using st by (simp_all add: can_step_def well_typed_def)
  have run: "w (\<rho> e) = Some (Thread_obj Running)" "w (\<rho> x) = Some (Thread_obj Exited)"
    using st by (simp_all add: can_step_def enabled_def)
  have dist: "\<rho> r \<noteq> \<rho> e" if "r \<noteq> e" for r using rd th(1) that by (metis runners_distinct_def)
  have dist': "\<rho> r \<noteq> \<rho> x" if "r \<noteq> x" for r using rd th(2) that by (metis runners_distinct_def)
  have ty2: "well_typed \<rho> t2 w" using st2 by (simp add: can_step_def)
  show ?thesis
  proof (cases "\<exists>f y. t2 = Thread_create f y \<or> t2 = Thread_join f y")
    case True
    then obtain f y where fy: "t2 = Thread_create f y \<or> t2 = Thread_join f y" by blast
    have "t2 = Thread_create f y \<Longrightarrow> \<rho> y \<noteq> \<rho> x \<and> \<rho> y \<noteq> \<rho> e"
      using st2 run by (auto simp: can_step_def creates_embryo_def)
    with fy ne show ?thesis by (auto simp: separate_def)
  next
    case False
    then show ?thesis
      using ne dist dist' th ty2
      by (intro separate_from_typed [where w = w]) auto
  qed
qed

lemma conflict_thread_target:
  "\<not> conflict (Thread_create e x) t \<longleftrightarrow> x \<noteq> get_executor t"
  "\<not> conflict (Thread_join e x) t \<longleftrightarrow> x \<noteq> get_executor t"
  "\<not> conflict t (Thread_create e x) \<Longrightarrow> get_executor t \<noteq> e \<Longrightarrow> x \<noteq> get_executor t \<or>
    (\<exists>f y. t = Thread_create f y) \<or> (\<exists>f y. t = Thread_join f y)"
  "\<not> conflict t (Thread_join e x) \<Longrightarrow> get_executor t \<noteq> e \<Longrightarrow> x \<noteq> get_executor t \<or>
    (\<exists>f y. t = Thread_create f y) \<or> (\<exists>f y. t = Thread_join f y)"
  by (simp_all add: conflict_def) (cases t; simp)+

text \<open>Pairs declared independent where neither creates or joins a thread.\<close>

lemma separate_objects:
  assumes "\<not> conflict t1 t2" and "well_typed \<rho> t1 w" and "well_typed \<rho> t2 w"
    and "\<And>e x. t1 \<noteq> Thread_create e x" "\<And>e x. t1 \<noteq> Thread_join e x"
    and "\<And>e x. t2 \<noteq> Thread_create e x" "\<And>e x. t2 \<noteq> Thread_join e x"
  shows "separate \<rho> t1 t2"
proof -
  note cases_simps = conflict_def well_typed_def separate_def
  show ?thesis
  proof (cases t1)
    case (Mutex_lock e m)
    with assms show ?thesis by (cases t2) (auto simp: cases_simps dest: kinds_exclusive)
  next
    case (Mutex_init e m)
    with assms show ?thesis by (cases t2) (auto simp: cases_simps dest: kinds_exclusive)
  next
    case (Cond_wait e c m)
    with assms show ?thesis by (cases t2) (auto simp: cases_simps dest: kinds_exclusive)
  next
    case (Cond_init e c)
    with assms show ?thesis by (cases t2) (auto simp: cases_simps dest: kinds_exclusive)
  next
    case (Cond_signal e c)
    with assms show ?thesis by (cases t2) (auto simp: cases_simps dest: kinds_exclusive)
  qed (use assms in \<open>cases t2; simp add: conflict_def\<close>)+
qed

lemma independent_separate:
  assumes rd: "runners_distinct \<rho> w" and nc: "\<not> conflict t1 t2"
    and ne: "get_executor t1 \<noteq> get_executor t2"
    and st1: "can_step \<rho> t1 w" and st2: "can_step \<rho> t2 (effect \<rho> t1 w)"
  shows "separate \<rho> t1 t2"
proof -
  have ty1: "well_typed \<rho> t1 w" using st1 by (simp add: can_step_def)
  have ty2: "well_typed \<rho> t2 w"
    using st2 effect_kinds [OF st1] by (cases t2) (simp_all add: can_step_def well_typed_def)
  consider (create) e x where "t1 = Thread_create e x" | (join) e x where "t1 = Thread_join e x"
    | (create2) f y where "t2 = Thread_create f y" "\<And>e x. t1 \<noteq> Thread_create e x"
        "\<And>e x. t1 \<noteq> Thread_join e x"
    | (join2) f y where "t2 = Thread_join f y" "\<And>e x. t1 \<noteq> Thread_create e x"
        "\<And>e x. t1 \<noteq> Thread_join e x"
    | (other) "\<And>e x. t1 \<noteq> Thread_create e x" "\<And>e x. t1 \<noteq> Thread_join e x"
        "\<And>e x. t2 \<noteq> Thread_create e x" "\<And>e x. t2 \<noteq> Thread_join e x"
    by metis
  then show ?thesis
  proof cases
    case (create e x)
    with separate_create [OF rd, of e x t2] nc ne st1 st2 show ?thesis
      by (simp add: conflict_thread_target)
  next
    case (join e x)
    with separate_join [OF rd, of e x t2] nc ne st1 st2 show ?thesis
      by (simp add: conflict_thread_target)
  next
    case (create2 f y)
    then have y: "y \<noteq> get_executor t1" using nc ne conflict_thread_target(3) [of t1 f y] by auto
    have d: "\<rho> (get_executor t1) \<noteq> \<rho> f" "\<rho> (get_executor t1) \<noteq> \<rho> y"
      using rd ty1 ne y create2(1) by (auto simp: runners_distinct_def well_typed_def)
    have "separate \<rho> t2 t1"
      by (rule separate_from_typed [where w = w])
         (use create2 ty1 ty2 d in \<open>auto simp: well_typed_def\<close>)
    then show ?thesis by (simp add: separate_sym)
  next
    case (join2 f y)
    then have y: "y \<noteq> get_executor t1" using nc ne conflict_thread_target(4) [of t1 f y] by auto
    have d: "\<rho> (get_executor t1) \<noteq> \<rho> f" "\<rho> (get_executor t1) \<noteq> \<rho> y"
      using rd ty1 ne y join2(1) by (auto simp: runners_distinct_def well_typed_def)
    have "separate \<rho> t2 t1"
      by (rule separate_from_typed [where w = w])
         (use join2 ty1 ty2 d in \<open>auto simp: well_typed_def\<close>)
    then show ?thesis by (simp add: separate_sym)
  next
    case other
    with separate_objects [OF nc ty1 ty2] show ?thesis by blast
  qed
qed

text \<open>The diamond on worlds.\<close>

lemma independent_commute:
  assumes "runners_distinct \<rho> w" and "\<not> conflict t1 t2"
    and "get_executor t1 \<noteq> get_executor t2"
    and "can_step \<rho> t1 w" and "can_step \<rho> t2 (effect \<rho> t1 w)"
  shows "can_step \<rho> t2 w \<and> can_step \<rho> t1 (effect \<rho> t2 w) \<and>
    effect \<rho> t1 (effect \<rho> t2 w) = effect \<rho> t2 (effect \<rho> t1 w)"
  using independent_separate [OF assms] footprints_commute assms(4,5)
  by (auto simp: separate_def)

end
