(* ===== verification/Dependency_Properties.thy ===== *)
theory Dependency_Properties
  imports Independence
begin

text \<open>
  Soundness of the default dependency relation, on worlds and on the program's state sequence,
  and where the two relations deviate from what DPOR needs of them.
\<close>

section \<open>Systems of runners and objects\<close>

text \<open>The object ids of runners \<open>0, 1, \<dots>\<close> in order, and the objects.\<close>

type_synonym sys = "objid list \<times> world"

definition runner_objs_of :: "objid list \<Rightarrow> runner_objs" where
  "runner_objs_of rs r = (if r < length rs then rs ! r else invalid_objid)"

definition sys_ok :: "sys \<Rightarrow> bool" where
  "sys_ok s \<longleftrightarrow> distinct (fst s) \<and> invalid_objid \<notin> set (fst s) \<and> snd s invalid_objid = None"

definition sys_step :: "transition \<Rightarrow> sys \<Rightarrow> sys option" where
  "sys_step t s =
     (if sys_ok s \<and> can_step (runner_objs_of (fst s)) t (snd s)
      then Some (fst s, effect (runner_objs_of (fst s)) t (snd s)) else None)"

fun sys_run :: "transition list \<Rightarrow> sys \<Rightarrow> sys option" where
  "sys_run [] s = Some s"
| "sys_run (t # ts) s = (case sys_step t s of None \<Rightarrow> None | Some u \<Rightarrow> sys_run ts u)"

definition independent_pair :: "transition \<Rightarrow> transition \<Rightarrow> bool" where
  "independent_pair t1 t2 \<longleftrightarrow> get_executor t1 \<noteq> get_executor t2 \<and> \<not> conflict t1 t2"

lemma are_independent_iff:
  "default_configuration = Inr config \<Longrightarrow> are_independent config t1 t2 = independent_pair t1 t2"
  by (simp add: are_independent_def are_dependent_iff independent_pair_def)

lemma sys_runners_distinct:
  assumes "sys_ok s"
  shows "runners_distinct (runner_objs_of (fst s)) (snd s)"
proof -
  have "r < length (fst s)" if "is_thread_at (snd s) (runner_objs_of (fst s) r)" for r
    using that assms by (auto simp: sys_ok_def runner_objs_of_def is_thread_at_def split: if_splits)
  moreover have "\<not> is_thread_at (snd s) invalid_objid"
    using assms by (simp add: sys_ok_def is_thread_at_def)
  ultimately show ?thesis
    using assms nth_eq_iff_index_eq [of "fst s"] nth_mem [of _ "fst s"]
    by (auto simp: runners_distinct_def sys_ok_def runner_objs_of_def split: if_splits)
qed

lemma sys_ok_step:
  assumes "sys_ok s" and "can_step (runner_objs_of (fst s)) t (snd s)"
  shows "sys_ok (fst s, effect (runner_objs_of (fst s)) t (snd s))"
proof -
  have "invalid_objid \<notin> writes (runner_objs_of (fst s)) t"
    using names_known writes_names assms by (fastforce simp: can_step_def sys_ok_def)
  with assms(1) show ?thesis by (simp add: sys_ok_def effect_outside)
qed

interpretation dpor: independence sys_step independent_pair
proof
  fix a b s s1 s2
  assume i: "independent_pair a b" and a: "sys_step a s = Some s1" and b: "sys_step b s1 = Some s2"
  let ?\<rho> = "runner_objs_of (fst s)"
  from a have ok: "sys_ok s" and ca: "can_step ?\<rho> a (snd s)"
    and s1: "s1 = (fst s, effect ?\<rho> a (snd s))"
    by (auto simp: sys_step_def split: if_splits)
  from b s1 have cb: "can_step ?\<rho> b (effect ?\<rho> a (snd s))"
    and s2: "s2 = (fst s, effect ?\<rho> b (effect ?\<rho> a (snd s)))"
    by (auto simp: sys_step_def split: if_splits)
  from independent_commute [OF sys_runners_distinct [OF ok] _ _ ca cb] i
  have c: "can_step ?\<rho> b (snd s)" "can_step ?\<rho> a (effect ?\<rho> b (snd s))"
    "effect ?\<rho> a (effect ?\<rho> b (snd s)) = effect ?\<rho> b (effect ?\<rho> a (snd s))"
    by (auto simp: independent_pair_def)
  from sys_ok_step [OF ok c(1)] ok c s2 show "\<exists>u. sys_step b s = Some u \<and> sys_step a u = Some s2"
    by (auto simp: sys_step_def)
qed

lemma sys_run_eq: "dpor.run ts s = sys_run ts s"
  by (induction ts arbitrary: s) (auto split: option.split)

text \<open>One step on an up-to-date sequence realises the whole effect.\<close>

lemma follow_full_step:
  assumes u: "seq_wf u" "seq_full u"
    and c: "can_step (sv_objid_for_runner (seq_view u)) t (obj_map (seq_view u))"
  shows "\<exists>u'. follow t u = Inr (Exists, u') \<and> seq_wf u' \<and> seq_full u' \<and>
    sv_objid_for_runner (seq_view u') = sv_objid_for_runner (seq_view u) \<and>
    obj_map (seq_view u') = effect (sv_objid_for_runner (seq_view u)) t (obj_map (seq_view u))"
proof -
  have tip: "seq_tip u" using u by (simp add: seq_full_tip seq_wf_def)
  from c have ty: "well_typed (sv_objid_for_runner (seq_view u)) t (obj_map (seq_view u))"
    and en: "enabled (sv_objid_for_runner (seq_view u)) t (obj_map (seq_view u))"
    by (simp_all add: can_step_def)
  from follow_step [OF u(1) tip ty en] obtain u' where u':
    "follow t u = Inr (Exists, u')" "seq_wf u'" "seq_full u'"
    "runner_to_obj_map u' = runner_to_obj_map u" "length (objs u') = length (objs u)"
    "\<forall>oid. obj_map (seq_view u) oid \<noteq> None \<longrightarrow> obj_map (seq_view u') oid
       = effect (sv_objid_for_runner (seq_view u)) t (obj_map (seq_view u)) oid" by blast
  have "obj_map (seq_view u') oid
      = effect (sv_objid_for_runner (seq_view u)) t (obj_map (seq_view u)) oid" for oid
  proof (cases "obj_map (seq_view u) oid = None")
    case True
    then have "oid \<notin> writes (sv_objid_for_runner (seq_view u)) t"
      using names_known [OF ty] writes_names by fastforce
    moreover have "obj_map (seq_view u') oid = None"
      using True u u'(2,3,5) by (simp add: obj_map_def full_get_object split: if_splits)
    ultimately show ?thesis using True by (simp add: effect_outside)
  next
    case False
    with u'(6) show ?thesis by simp
  qed
  moreover have "sv_objid_for_runner (seq_view u') = sv_objid_for_runner (seq_view u)"
    using u(2) u'(3,4) by (simp add: fun_eq_iff full_objid_for_runner)
  ultimately show ?thesis using u' by blast
qed

section \<open>Properties\<close>

text \<open>
  C3. Soundness of the default dependency relation: if a run of the system executes \<open>a\<close> after a
  stretch of transitions each of which the configuration declares independent of \<open>a\<close>, then
  executing \<open>a\<close> first is also a run and ends in the same state. This is what lets DPOR explore
  one order only.
\<close>

theorem independent_prefix_commutes:
  assumes "default_configuration = Inr config" and "\<forall>t \<in> set xs. are_independent config t a"
    and "sys_run (xs @ a # ys) s = Some s'"
  shows "sys_run (a # xs @ ys) s = Some s'"
  using dpor.run_to_front [of xs a ys s s'] assms
  by (simp add: sys_run_eq are_independent_iff)

theorem independent_prefix_commutes_witness:
  "let m = Mutex_obj (new_mutex Mutex_unlocked 64 RID_INVALID);
       w = [0 \<mapsto> Thread_obj Running, 1 \<mapsto> Thread_obj Running, 2 \<mapsto> m, 3 \<mapsto> m] in
   \<exists>s'. sys_run [Mutex_lock 1 3, Mutex_lock 0 2] ([0, 1], w) = Some s'"
proof -
  let ?m = "Mutex_obj (new_mutex Mutex_unlocked 64 RID_INVALID)"
  let ?w = "[0 \<mapsto> Thread_obj Running, 1 \<mapsto> Thread_obj Running, 2 \<mapsto> ?m, 3 \<mapsto> ?m] :: world"
  obtain config where config: "default_configuration = Inr config"
    using default_configuration_ok by blast
  have ind: "\<forall>t \<in> set [Mutex_lock 0 2]. are_independent config t (Mutex_lock 1 3)"
    by (simp add: are_independent_iff [OF config] independent_pair_def conflict_def)
  obtain s' where run: "sys_run ([Mutex_lock 0 2] @ Mutex_lock 1 3 # []) ([0, 1], ?w) = Some s'"
    by (simp add: sys_step_def sys_ok_def can_step_def well_typed_def enabled_def
        creates_embryo_def runner_objs_of_def is_thread_at_def is_mutex_at_def the_mutex_def
        new_mutex_def invalid_objid_def)
  from independent_prefix_commutes [OF config ind run] show ?thesis by (simp add: Let_def)
qed

text \<open>
  The same on the program's state sequence: if \<^verbatim>\<open>follow\<close> executes \<open>t1\<close> and then \<open>t2\<close>
  and the configuration declares them independent, then it can execute \<open>t2\<close> and then \<open>t1\<close>, and
  every object ends in the same state.
\<close>

lemma independent_follows_commute:
  assumes "seq_wf ss" and "seq_full ss"
    and "default_configuration = Inr config" and "are_independent config t1 t2"
    and "can_step (sv_objid_for_runner (seq_view ss)) t1 (obj_map (seq_view ss))"
    and "follow t1 ss = Inr (Exists, s1)"
    and "can_step (sv_objid_for_runner (seq_view s1)) t2 (obj_map (seq_view s1))"
    and "follow t2 s1 = Inr (Exists, s12)"
  shows "\<exists>s2 s21. follow t2 ss = Inr (Exists, s2) \<and> follow t1 s2 = Inr (Exists, s21) \<and>
    obj_map (seq_view s21) = obj_map (seq_view s12)"
proof -
  let ?\<rho> = "sv_objid_for_runner (seq_view ss)" and ?w = "obj_map (seq_view ss)"
  note step = follow_full_step
  from step [OF assms(1,2,5)] assms(6) have s1: "seq_wf s1" "seq_full s1"
    "sv_objid_for_runner (seq_view s1) = ?\<rho>" "obj_map (seq_view s1) = effect ?\<rho> t1 ?w" by auto
  from step [OF s1(1,2) assms(7)] assms(8) s1 have s12:
    "obj_map (seq_view s12) = effect ?\<rho> t2 (effect ?\<rho> t1 ?w)" by auto
  have rd: "runners_distinct ?\<rho> ?w"
  proof -
    have thr: "map_of (forward (runner_to_obj_map ss)) r = Some (?\<rho> r)"
      if "is_thread_at ?w (?\<rho> r)" for r
    proof -
      have "?\<rho> r \<noteq> invalid_objid"
        using that seq_view_ok [OF assms(1)] by (auto simp: view_ok_def is_thread_at_def)
      then show ?thesis
        using full_objid_for_runner [OF assms(2), of r]
        by (auto simp: guarded_def inj_at_def map_at_def count_domain_def split: if_splits)
    qed
    show ?thesis
      unfolding runners_distinct_def
    proof (intro allI impI)
      fix r r' assume "is_thread_at ?w (?\<rho> r)" "?\<rho> r = ?\<rho> r'"
      with thr [of r] thr [of r'] assms(1) show "r = r'"
        by (auto simp: seq_wf_def runners_wf_def dest: inj_wf_one_to_one)
    qed
  qed
  have ip: "get_executor t1 \<noteq> get_executor t2" "\<not> conflict t1 t2"
    using assms(3,4) by (simp_all add: are_independent_iff independent_pair_def)
  have c2: "can_step ?\<rho> t2 (effect ?\<rho> t1 ?w)" using assms(7) s1(3,4) by simp
  from independent_commute [OF rd ip(2,1) assms(5) c2] have d: "can_step ?\<rho> t2 ?w"
    "can_step ?\<rho> t1 (effect ?\<rho> t2 ?w)"
    "effect ?\<rho> t1 (effect ?\<rho> t2 ?w) = effect ?\<rho> t2 (effect ?\<rho> t1 ?w)" by auto
  from step [OF assms(1,2) d(1)] obtain s2 where s2: "follow t2 ss = Inr (Exists, s2)" "seq_wf s2"
    "seq_full s2" "sv_objid_for_runner (seq_view s2) = ?\<rho>"
    "obj_map (seq_view s2) = effect ?\<rho> t2 ?w" by blast
  from step [OF s2(2,3), of t1] d s2(4,5) obtain s21 where "follow t1 s2 = Inr (Exists, s21)"
    "obj_map (seq_view s21) = effect ?\<rho> t1 (effect ?\<rho> t2 ?w)" by auto
  with s2(1) s12 d(3) show ?thesis by auto
qed

text \<open>Two running threads and two free mutexes, for the next witness.\<close>

definition two_locks :: state_sequence where
  "two_locks = push_state_snapshot
     \<lparr>runner_to_obj_map = \<lparr>forward = [(0, 0), (1, 1)], backward = [(0, 0), (1, 1)]\<rparr>,
      visible_objects = [[Thread_obj Running], [Thread_obj Running],
        [Mutex_obj (new_mutex Mutex_unlocked 64 RID_INVALID)],
        [Mutex_obj (new_mutex Mutex_unlocked 128 RID_INVALID)]],
      states_in_sequence = []\<rparr>"

lemma two_locks_ok: "seq_wf two_locks" "seq_full two_locks"
proof -
  let ?b = "\<lparr>runner_to_obj_map = \<lparr>forward = [(0, 0), (1, 1)], backward = [(0, 0), (1, 1)]\<rparr>,
      visible_objects = [[Thread_obj Running], [Thread_obj Running],
        [Mutex_obj (new_mutex Mutex_unlocked 64 RID_INVALID)],
        [Mutex_obj (new_mutex Mutex_unlocked 128 RID_INVALID)]],
      states_in_sequence = []\<rparr>"
  have shape: "objs two_locks = objs ?b" "runner_to_obj_map two_locks = runner_to_obj_map ?b"
    "states_in_sequence two_locks = [new_element ?b]"
    by (simp_all add: two_locks_def push_state_snapshot_def)
  have size: "inj_size (runner_to_obj_map ?b) = 2" by (simp add: inj_size_def)
  then have "elem_full ?b (new_element ?b)" by (intro new_element_full) (simp add: invalid_rid_def)
  then have f: "elem_full two_locks (new_element ?b)" by (simp add: elem_full_def shape)
  then show "seq_full two_locks" by (simp add: seq_full_def representative_state_def shape)
  have "elem_wf two_locks (new_element ?b)"
    using f distinct_new_element by (intro elem_full_wf) (simp_all add: shape)
  moreover have "inj_wf (runner_to_obj_map ?b)" by (auto simp: inj_wf_def)
  then have "runners_wf two_locks"
    by (auto simp: runners_wf_def shape inj_size_def count_domain_def count_range_def)
  ultimately show "seq_wf two_locks"
    by (simp add: seq_wf_def shape inj_size_def invalid_objid_def invalid_rid_def)
qed

lemma independent_follows_commute_example:
  "\<exists>s2 s21. follow (Mutex_lock 1 3) two_locks = Inr (Exists, s2) \<and>
     follow (Mutex_lock 0 2) s2 = Inr (Exists, s21)"
proof -
  obtain config where config: "default_configuration = Inr config"
    using default_configuration_ok by blast
  note wf = two_locks_ok(1) and full = two_locks_ok(2)
  have ind: "are_independent config (Mutex_lock 0 2) (Mutex_lock 1 3)"
    by (simp add: are_independent_iff [OF config] independent_pair_def conflict_def)
  let ?\<rho> = "sv_objid_for_runner (seq_view two_locks)" and ?w = "obj_map (seq_view two_locks)"
  have r: "?\<rho> 0 = 0" "?\<rho> (Suc 0) = 1"
    using full_objid_for_runner [OF full]
    by (simp_all add: two_locks_def push_state_snapshot_def guarded_def inj_size_def
        count_domain_def inj_at_def)
  have w: "?w 0 = Some (Thread_obj Running)" "?w (Suc 0) = Some (Thread_obj Running)"
    "?w 2 = Some (Mutex_obj (new_mutex Mutex_unlocked 64 RID_INVALID))"
    "?w 3 = Some (Mutex_obj (new_mutex Mutex_unlocked 128 RID_INVALID))"
    using full_get_object [OF wf full]
    by (simp_all add: obj_map_def two_locks_def push_state_snapshot_def)
  note can_defs = can_step_def well_typed_def enabled_def creates_embryo_def is_thread_at_def
    is_mutex_at_def the_mutex_def new_mutex_def
  have c: "can_step ?\<rho> (Mutex_lock 0 2) ?w" by (simp add: can_defs r w)
  from follow_full_step [OF wf full c] obtain s1 where s1:
    "follow (Mutex_lock 0 2) two_locks = Inr (Exists, s1)" "seq_wf s1" "seq_full s1"
    "sv_objid_for_runner (seq_view s1) = ?\<rho>"
    "obj_map (seq_view s1) = effect ?\<rho> (Mutex_lock 0 2) ?w" by blast
  have c1: "can_step (sv_objid_for_runner (seq_view s1)) (Mutex_lock 1 3) (obj_map (seq_view s1))"
    by (simp add: can_defs s1 r w)
  from follow_full_step [OF s1(2,3) c1] obtain s12 where
    "follow (Mutex_lock 1 3) s1 = Inr (Exists, s12)" by blast
  from independent_follows_commute [OF wf full config ind c s1(1) c1 this] show ?thesis by blast
qed

fun thread_target :: "transition \<Rightarrow> runner_id option" where
  "thread_target (Thread_create _ x) = Some x"
| "thread_target (Thread_join _ x) = Some x"
| "thread_target _ = None"

definition has_pair_entries :: "transition \<Rightarrow> bool" where
  "has_pair_entries t \<longleftrightarrow>
     typeid t \<in> {Ty_mutex_lock, Ty_mutex_init, Ty_cond_wait, Ty_cond_init, Ty_cond_signal}"

text \<open>
  C33. The dependency relation is not symmetric. It holds of \<open>(t1, t2)\<close> and not of \<open>(t2, t1)\<close>
  in exactly two cases: \<open>t1\<close> is of a class with entries for pairs and \<open>t2\<close> creates or joins a
  thread other than \<open>t1\<close>'s executor (\<^verbatim>\<open>call_or\<close> then finds a row for \<open>t1\<close>, does not find
  the pair in it and never consults the entry of \<open>t2\<close>); or both create or join threads and only
  the target of \<open>t1\<close> is the other's executor.
\<close>

theorem dependence_not_symmetric:
  assumes "default_configuration = Inr config"
  shows "are_dependent config t1 t2 \<and> \<not> are_dependent config t2 t1 \<longleftrightarrow>
    has_pair_entries t1 \<and> get_executor t1 \<noteq> get_executor t2 \<and>
    (\<exists>x. thread_target t2 = Some x \<and> x \<noteq> get_executor t1) \<or>
    \<not> has_pair_entries t1 \<and> get_executor t1 \<noteq> get_executor t2 \<and>
    (\<exists>x. thread_target t1 = Some x \<and> x = get_executor t2) \<and>
    (\<exists>y. thread_target t2 = Some y \<and> y \<noteq> get_executor t1)"
  unfolding are_dependent_iff [OF assms] has_pair_entries_def
  by (cases t1; simp add: conflict_def; cases t2; auto)

theorem dependence_not_symmetric_witness:
  "\<exists>config. default_configuration = Inr config \<and>
     are_dependent config (Mutex_lock 1 5) (Thread_create 0 2) \<and>
     \<not> are_dependent config (Thread_create 0 2) (Mutex_lock 1 5)"
proof -
  obtain config where config: "default_configuration = Inr config"
    using default_configuration_ok by blast
  have "has_pair_entries (Mutex_lock 1 5)" by (simp add: has_pair_entries_def)
  with dependence_not_symmetric [OF config, of "Mutex_lock 1 5" "Thread_create 0 2"] config
  show ?thesis by auto
qed

text \<open>
  The co-enabledness relation is wrong about destroying a condition variable: a
  \<^verbatim>\<open>destroy\<close> and a \<^verbatim>\<open>signal\<close> of one condition variable without waiters are both
  enabled, and the destroy disables the signal, but the relation says they are never enabled
  together. DPOR therefore never reverses that race.
\<close>

lemma destroy_signal_race_missed:
  assumes "default_configuration = Inr config" and "e \<noteq> f"
    and "w (\<rho> e) = Some (Thread_obj Running)" and "w (\<rho> f) = Some (Thread_obj Running)"
    and "w c = Some (Cv_obj cv)" and "cv_usable cv" and "wait_queue (cv_policy cv) = []"
  shows "enabled \<rho> (Cond_destroy e c) w \<and> enabled \<rho> (Cond_signal f c) w \<and>
    \<not> enabled \<rho> (Cond_signal f c) (effect \<rho> (Cond_destroy e c) w) \<and>
    are_dependent config (Cond_destroy e c) (Cond_signal f c) \<and>
    \<not> are_coenabled config (Cond_destroy e c) (Cond_signal f c)"
proof -
  have "\<not> are_coenabled config (Cond_destroy e c) (Cond_signal f c)"
    using assms(1,2)
    by (auto simp: default_configuration_def default_coenabledness_def default_dependencies_def
        register_dd_interface_def register_dd_entry_def dd_put_def dd_row_def empty_dd_table_def
        are_coenabled_def call_or_def cond_destroy_coenabled_with_def)
  moreover have "are_dependent config (Cond_destroy e c) (Cond_signal f c)"
    by (simp add: are_dependent_iff [OF assms(1)] conflict_def)
  moreover have "\<not> cv_usable (fresh_cv Cv_destroyed e)"
    by (simp add: cv_usable_def fresh_cv_def new_condition_variable_def)
  ultimately show ?thesis using assms(3-) by (simp add: enabled_def the_cv_def)
qed

lemma destroy_signal_race_missed_example:
  "let w = [0 \<mapsto> Thread_obj Running, 1 \<mapsto> Thread_obj Running,
       2 \<mapsto> Cv_obj (fresh_cv Cv_initialized RID_INVALID)] in
   \<exists>config. default_configuration = Inr config \<and>
     enabled id (Cond_destroy 0 2) w \<and> enabled id (Cond_signal 1 2) w \<and>
     \<not> are_coenabled config (Cond_destroy 0 2) (Cond_signal 1 2)"
proof -
  let ?cv = "fresh_cv Cv_initialized RID_INVALID"
  let ?w = "[0 \<mapsto> Thread_obj Running, 1 \<mapsto> Thread_obj Running, 2 \<mapsto> Cv_obj ?cv] :: world"
  obtain config where config: "default_configuration = Inr config"
    using default_configuration_ok by blast
  have "cv_usable ?cv" "wait_queue (cv_policy ?cv) = []"
    by (simp_all add: cv_usable_def fresh_cv_def new_condition_variable_def init_policy_def
        new_policy_def Let_def)
  from destroy_signal_race_missed [OF config, of 0 1 ?w id 2 ?cv] this config show ?thesis
    by (auto simp: Let_def)
qed

end
