(* ===== verification/Program_Properties.thy ===== *)
theory Program_Properties
  imports Program_Laws Dependency_Properties
begin

text \<open>
  Properties of programs: backtracking undoes execution, except to the very first state and past
  the creation of a thread; the enabled runners and deadlocks are those of the specification of
  transitions; a program that is not stuck can take a step.
\<close>

section \<open>Executions\<close>

definition run_executions :: "(runner_id \<times> transition) list \<Rightarrow> program \<Rightarrow> program res" where
  "run_executions es p = fold_res (\<lambda>x. model_execution_of (fst x) (snd x)) es p"

lemma run_executions_simps [simp]:
  "run_executions [] p = Inr p"
  "run_executions (x # es) p = bind_res (model_execution_of (fst x) (snd x) p) (run_executions es)"
  by (simp_all add: run_executions_def [abs_def])

text \<open>What one execution keeps of the program it started from.\<close>

lemma next_step_at_execution:
  assumes wf: "prog_wf p" and run: "model_execution_of r npo p = Inr q" and n: "n \<le> length (trace p)"
  shows "next_step_at q n r' = next_step_at p n r'"
proof -
  from run obtain t ss where x: "map_of (next_steps p) r = Some t"
    "q = p\<lparr>state_seq := ss, trace := trace p @ [Some t],
      next_steps := omap_put r npo (next_steps p)\<rparr>" by (rule model_execution_shape)
  have et: "get_executor t = r" and om: "omap_wf (next_steps p)"
    using wf x(1) by (simp_all add: prog_wf_def pending_wf_def)
  let ?k = "length (trace p)"
  have old: "exec_at (trace q) j = exec_at (trace p) j" "trace q ! j = trace p ! j" if "j < ?k" for j
    using that by (simp_all add: exec_at_def x(2) nth_append)
  have new: "exec_at (trace q) ?k = r" "trace q ! ?k = Some t" by (simp_all add: exec_at_def x(2) et)
  have len: "length (trace q) = Suc ?k" by (simp add: x(2))
  show ?thesis
  proof (cases "find (\<lambda>j. exec_at (trace p) j = r') [n..<?k]")
    case (Some j)
    then have "find (\<lambda>j. exec_at (trace q) j = r') [n..<Suc ?k] = Some j"
      using old by (auto simp: find_upt_Some simp del: upt_Suc)
    moreover have "trace q ! j = trace p ! j" using Some old by (simp add: find_upt_Some)
    ultimately show ?thesis using Some by (simp add: next_step_at_def len del: upt_Suc)
  next
    case None
    then have none: "exec_at (trace p) i \<noteq> r'" if "n \<le> i" "i < ?k" for i
      using that by (auto simp: find_None_iff)
    show ?thesis
    proof (cases "r' = r")
      case True
      then have "find (\<lambda>j. exec_at (trace q) j = r') [n..<Suc ?k] = Some ?k"
        using old none new n by (auto simp: find_upt_Some simp del: upt_Suc)
      with True None new x(1) show ?thesis by (simp add: next_step_at_def len del: upt_Suc)
    next
      case False
      then have "find (\<lambda>j. exec_at (trace q) j = r') [n..<Suc ?k] = None"
        unfolding find_None_iff using old none new
        by (metis atLeastLessThan_iff less_Suc_eq set_upt)
      with False None om show ?thesis by (simp add: next_step_at_def len x(2) del: upt_Suc)
    qed
  qed
qed

lemma run_executions_ok:
  assumes "prog_wf p0" and "run_executions es p0 = Inr p" and "n \<le> length (trace p0)"
  shows "prog_wf p \<and> seq_extends (state_seq p0) (state_seq p) \<and>
    (\<exists>tl. trace p = trace p0 @ tl \<and> length tl = length es) \<and>
    (\<exists>fs. states_in_sequence (state_seq p) = states_in_sequence (state_seq p0) @ fs) \<and>
    (\<forall>r. next_step_at p n r = next_step_at p0 n r)"
  using assms
proof (induction es arbitrary: p0)
  case Nil
  then show ?case by (simp add: seq_extends_refl)
next
  case (Cons x es)
  then obtain u where u: "model_execution_of (fst x) (snd x) p0 = Inr u" "run_executions es u = Inr p"
    by (auto simp: res_simps)
  from u(1) obtain t ss where s: "follow t (state_seq p0) = Inr (Exists, ss)"
    "u = p0\<lparr>state_seq := ss, trace := trace p0 @ [Some t],
      next_steps := omap_put (fst x) (snd x) (next_steps p0)\<rparr>" by (rule model_execution_shape)
  have f: "seq_extends (state_seq p0) ss"
    "\<exists>e. states_in_sequence ss = states_in_sequence (state_seq p0) @ [e]"
    using follow_ok [OF _ s(1)] Cons.prems(1) by (auto simp: prog_wf_def)
  have uwf: "prog_wf u" using model_execution_wf [OF Cons.prems(1) u(1)] .
  have "n \<le> length (trace u)" using Cons.prems(3) s(2) by simp
  note ih = Cons.IH [OF uwf u(2) this]
  have "next_step_at p n r = next_step_at p0 n r" for r
    using ih next_step_at_execution [OF Cons.prems(1) u(1) Cons.prems(3)] by simp
  moreover have "seq_extends (state_seq p0) (state_seq p)"
    using ih f(1) seq_extends_trans s(2) by fastforce
  ultimately show ?case using ih s(2) f(2) by auto
qed

lemma omap_eqI:
  assumes "omap_wf a" and "omap_wf b" and "\<And>k. map_of a k = map_of b k"
  shows "a = b"
proof -
  have d: "distinct (map fst a)" "distinct (map fst b)" using assms omap_wf_distinct by blast+
  then have s: "set a = set b" using map_of_inject_set [OF d] assms(3) by (simp add: fun_eq_iff)
  have "inj_on fst (set a \<union> set b)" using d s by (simp add: distinct_map)
  moreover have "sorted (map fst a)" "sorted (map fst b)" using assms by (simp_all add: strict_sorted_iff)
  ultimately show ?thesis using map_sorted_distinct_set_unique d s by blast
qed

section \<open>Backtracking\<close>

text \<open>
  Except to the very first state: restoring depth \<open>0\<close> cuts the trace and the states but
  leaves the pending transitions as they are, because the bound \<open>n - 1\<close> of the loop that
  restores them wraps around. No runner is set back to its first step.
\<close>

lemma restore_at_depth_zero_keeps_next_steps:
  assumes "prog_wf p" and "elem_dense (hd (states_in_sequence (state_seq p)))"
    and "length (trace p) < 4294967295"
  shows "\<exists>q. restore_model_at_depth 0 p = Inr q \<and> prog_wf q \<and> trace q = [] \<and>
    get_num_states_in_sequence (state_seq q) = 1 \<and>
    seq_state_at (state_seq q) 0 = seq_state_at (state_seq p) 0 \<and>
    next_steps q = next_steps p"
proof -
  let ?els = "states_in_sequence (state_seq p)"
  have len: "length ?els = length (trace p) + 1" and swf: "seq_wf (state_seq p)"
    using assms(1) by (simp_all add: prog_wf_def get_num_states_in_sequence_def)
  have "u32_minus (ts_count (trace p)) 1 < 4294967296"
    by (simp add: u32_minus_def)
  then have "\<not> u32_minus 0 1 < u32_minus (ts_count (trace p)) 1"
    unfolding u32_minus_one_zero by linarith
  then have none: "collect_indices (trace p) (u32_minus 0 1) (u32_minus (ts_count (trace p)) 1) []
      = Inr []"
    by (subst collect_indices.simps) simp
  obtain ss where ss: "consume_into_subsequence 1 (state_seq p) = Inr ss"
    "seq_wf ss" "runner_to_obj_map ss = runner_to_obj_map (state_seq p)"
    "states_in_sequence ss = take 1 ?els" "element_view ss (hd ?els) = element_view (state_seq p) (hd ?els)"
  proof (cases "trace p = []")
    case True
    then have "consume_into_subsequence 1 (state_seq p) = Inr (state_seq p)"
      using len by (simp add: consume_into_subsequence_def)
    with True that [of "state_seq p"] len swf show ?thesis by simp
  next
    case False
    then have "elem_dense (?els ! (1 - 1))" using assms(2) len by (cases ?els) simp_all
    moreover have "1 < length ?els" using False len by simp
    ultimately show ?thesis
      using consume_dense [OF swf, of 1] that by (cases ?els) auto
  qed
  have "restore_model_at_depth 0 p = Inr (p\<lparr>trace := [], state_seq := ss\<rparr>)"
    using none ss(1) by (simp add: restore_model_at_depth_def ts_consume_into_subsequence_def)
  moreover have "prog_wf (p\<lparr>trace := [], state_seq := ss\<rparr>)"
    using assms(1) ss(2-4) len
    by (cases ?els) (simp_all add: prog_wf_def pending_wf_def get_num_states_in_sequence_def)
  ultimately show ?thesis using ss len
    by (cases ?els) (auto simp: get_num_states_in_sequence_def seq_state_at_def)
qed

text \<open>What a restoration finds after executions: longer lists that begin with the states of before.\<close>

lemma after_executions:
  assumes "prog_wf p0" and "run_executions es p0 = Inr p"
  obtains tl fs where "prog_wf p" "trace p = trace p0 @ tl" "length tl = length es"
    "states_in_sequence (state_seq p) = states_in_sequence (state_seq p0) @ fs"
    "\<And>r. next_step_at p (length (trace p0)) r = map_of (next_steps p0) r"
    "\<And>i. i \<le> length (trace p0) \<Longrightarrow> seq_state_at (state_seq p) i = seq_state_at (state_seq p0) i"
proof -
  let ?n = "length (trace p0)" and ?els = "states_in_sequence (state_seq p0)"
  from run_executions_ok [OF assms order_refl] obtain tl fs where p: "prog_wf p"
    "seq_extends (state_seq p0) (state_seq p)" "trace p = trace p0 @ tl" "length tl = length es"
    "states_in_sequence (state_seq p) = ?els @ fs"
    "\<forall>r. next_step_at p ?n r = map_of (next_steps p0) r"
    by (auto simp: next_step_at_def)
  have len: "length ?els = Suc ?n" and swf: "seq_wf (state_seq p0)"
    using assms(1) by (simp_all add: prog_wf_def get_num_states_in_sequence_def)
  have "seq_state_at (state_seq p) i = seq_state_at (state_seq p0) i" if "i \<le> ?n" for i
  proof -
    have "states_in_sequence (state_seq p) ! i = ?els ! i" "?els ! i \<in> set ?els"
      using that p(5) len by (simp_all add: nth_append)
    moreover have "element_view (state_seq p) (?els ! i) = element_view (state_seq p0) (?els ! i)"
      using seq_extends_view [OF _ _ p(2)] swf calculation(2) by (simp add: seq_wf_def)
    ultimately show ?thesis using that len p(5) by (simp add: seq_state_at_def)
  qed
  with p that show ?thesis by blast
qed

text \<open>
  C4. Backtracking undoes execution. From a program whose current state knows an index for every object,
  after any executions in the model, restoring the model at the depth the program had before them
  succeeds and gives back its trace, the number of its states and the answer of each of those states
  to every query. At a positive depth it also gives back the pending transition of every runner; at
  depth 0 the pending transitions stay those of after the executions, because the bound
  \<open>n - 1\<close> of the loop that restores them wraps around.
\<close>

theorem backtracking_undoes_executions:
  assumes "prog_wf p0" and "elem_dense (representative_state (state_seq p0))"
    and "run_executions es p0 = Inr p" and "length (trace p0) + length es < 4294967295"
  shows "\<exists>q. restore_model_at_depth (length (trace p0)) p = Inr q \<and> prog_wf q \<and>
    trace q = trace p0 \<and>
    next_steps q = (if trace p0 = [] then next_steps p else next_steps p0) \<and>
    get_num_states_in_sequence (state_seq q) = get_num_states_in_sequence (state_seq p0) \<and>
    (\<forall>i \<le> length (trace p0). seq_state_at (state_seq q) i = seq_state_at (state_seq p0) i)"
proof -
  let ?n = "length (trace p0)" and ?els = "states_in_sequence (state_seq p0)"
  obtain tl fs where p: "prog_wf p" "trace p = trace p0 @ tl" "length tl = length es"
    "states_in_sequence (state_seq p) = ?els @ fs"
    "\<And>r. next_step_at p ?n r = map_of (next_steps p0) r"
    "\<And>i. i \<le> ?n \<Longrightarrow> seq_state_at (state_seq p) i = seq_state_at (state_seq p0) i"
    using after_executions [OF assms(1,3)] by metis
  have len: "length ?els = Suc ?n"
    using assms(1) by (simp add: prog_wf_def get_num_states_in_sequence_def)
  have "?els ! ?n = last ?els" using len by (metis diff_Suc_1 last_conv_nth length_0_conv nat.distinct(1))
  then have dense: "elem_dense (states_in_sequence (state_seq p) ! ?n)"
    using p(4) len assms(2) by (simp add: nth_append representative_state_def)
  show ?thesis
  proof (cases "trace p0 = []")
    case True
    then have "elem_dense (hd (states_in_sequence (state_seq p)))"
      using dense p(4) len by (cases ?els) simp_all
    from restore_at_depth_zero_keeps_next_steps [OF p(1) this] True p(2,3,6) len assms(4)
    show ?thesis by (auto simp: get_num_states_in_sequence_def)
  next
    case False
    with restore_spec [OF p(1), of ?n] p(2,3) dense assms(4) obtain q where
      q: "restore_model_at_depth ?n p = Inr q" "prog_wf q" "trace q = take ?n (trace p)"
        "states_in_sequence (state_seq q) = take (?n + 1) (states_in_sequence (state_seq p))"
        "\<forall>i \<le> ?n. seq_state_at (state_seq q) i = seq_state_at (state_seq p) i"
        "\<forall>r. map_of (next_steps q) r = next_step_at p ?n r"
      by auto
    have "next_steps q = next_steps p0"
      using q(2,6) p(5) assms(1) by (intro omap_eqI) (simp_all add: prog_wf_def pending_wf_def)
    with q p(2,4,6) len False show ?thesis by (simp add: get_num_states_in_sequence_def)
  qed
qed

text \<open>What evaluates the operations of states on concrete ones.\<close>

lemmas state_eval =
  detached_add_runner_def detached_add_object_def new_detached_def inj_size_def inj_empty_def
  inj_insert_or_throw_def inj_insert_def count_domain_def count_range_def inj_at_def inj_range_at_def
  detached_view_def detached_get_object_def detached_objid_for_runner_def guarded_def
  vo_get_current_state_def vec_back_def seq_of_state_def new_seq_def push_state_snapshot_def
  new_element_def get_last_state_index_def seq_add_object_def seq_add_runner_def
  update_representative_def point_to_next_state_for_def record_new_runner_def
  seq_view_def element_view_def representative_state_def element_get_object_def
  element_objid_for_runner_def element_contains_runner_def element_contains_object_def
  element_is_runner_def vo_state_at_def Let_def

text \<open>The program \<^verbatim>\<open>starting_from_main\<close> builds.\<close>

definition main_program :: program where
  "main_program = \<lparr>state_seq =
     \<lparr>runner_to_obj_map = \<lparr>forward = [(0, 0)], backward = [(0, 0)]\<rparr>,
      visible_objects = [[Thread_obj Running]],
      states_in_sequence = [\<lparr>visible_object_indices = [(0, 0)], max_visible_runner_id = Suc 0\<rparr>]\<rparr>,
     trace = [], next_steps = [(0, Thread_start 0)]\<rparr>"

lemma starting_from_main_eq: "starting_from_main = Inr main_program"
  by (simp add: starting_from_main_def new_program_def set_transition_def replace_unowned_def
      main_program_def state_eval)

lemma main_program_wf: "prog_wf main_program"
  by (auto simp: main_program_def prog_wf_def pending_wf_def seq_wf_def elem_wf_def runners_wf_def
      inj_wf_def inj_size_def count_domain_def count_range_def invalid_objid_def invalid_rid_def
      get_num_states_in_sequence_def)

text \<open>The main thread has started and is about to execute \<open>npo\<close>.\<close>

definition started_program :: "transition \<Rightarrow> program" where
  "started_program npo = main_program\<lparr>
     state_seq := push_state_snapshot (state_seq main_program),
     trace := [Some (Thread_start 0)], next_steps := [(0, npo)]\<rparr>"

lemma start_exists:
  "sv_runner v r = Inr (Thread_obj Running) \<Longrightarrow> apply_to (Thread_start r) v = Inr (new_diff v, Exists)"
  by (simp add: apply_to_def thread_start_modify_def get_thread_def diff_get_runner_def new_diff_def
      copy_diff_def is_active_def is_running_def is_embryo_def inj_empty_def count_domain_def)

lemma execute_start:
  assumes "get_executor npo = 0"
  shows "model_execution_of 0 npo main_program = Inr (started_program npo)"
proof -
  let ?ss = "state_seq main_program"
  let ?v = "seq_view ?ss"
  have "sv_runner ?v 0 = Inr (Thread_obj Running)" by (simp add: main_program_def state_eval)
  then have "apply_to (Thread_start 0) ?v = Inr (new_diff ?v, Exists)" by (rule start_exists)
  then have "follow (Thread_start 0) ?ss = Inr (Exists, push_state_snapshot ?ss)"
    by (simp add: follow_def seq_commit_def new_diff_def)
  with assms show ?thesis
    by (simp add: model_execution_of_def get_transition_for_runner_def replace_unowned_def
        started_program_def ts_push_def main_program_def)
qed

lemma started_program_wf: "get_executor npo = 0 \<Longrightarrow> prog_wf (started_program npo)"
  using model_execution_wf [OF main_program_wf execute_start] .

theorem backtracking_undoes_executions_witness:
  "\<exists>p q. model_execution_of 0 (Mutex_lock 0 1) (started_program (Thread_start 0)) = Inr p \<and>
     restore_model_at_depth 1 p = Inr q \<and> next_steps q = [(0, Thread_start 0)] \<and>
     next_steps p = [(0, Mutex_lock 0 1)]"
proof -
  let ?p0 = "started_program (Thread_start 0)"
  let ?v = "seq_view (state_seq ?p0)"
  have "sv_runner ?v 0 = Inr (Thread_obj Running)"
    by (simp add: started_program_def main_program_def state_eval)
  then have "apply_to (Thread_start 0) ?v = Inr (new_diff ?v, Exists)" by (rule start_exists)
  then obtain p where p: "model_execution_of 0 (Mutex_lock 0 1) ?p0 = Inr p"
    "next_steps p = [(0, Mutex_lock 0 1)]"
    by (simp add: model_execution_of_def get_transition_for_runner_def replace_unowned_def
        started_program_def ts_push_def main_program_def follow_def seq_commit_def new_diff_def)
  from p(1) have run: "run_executions [(0, Mutex_lock 0 1)] ?p0 = Inr p" by simp
  have "elem_dense (representative_state (state_seq ?p0))" "length (trace ?p0) = 1" "trace ?p0 \<noteq> []"
    "next_steps ?p0 = [(0, Thread_start 0)]"
    by (simp_all add: started_program_def main_program_def elem_dense_def state_eval)
  with backtracking_undoes_executions [OF started_program_wf _ run] p show ?thesis by auto
qed

lemma restore_at_depth_zero_keeps_next_steps_example:
  "\<exists>p q. model_execution_of 0 (Mutex_lock 0 1) main_program = Inr p \<and>
     restore_model_at_depth 0 p = Inr q \<and>
     next_steps main_program = [(0, Thread_start 0)] \<and> next_steps q = [(0, Mutex_lock 0 1)]"
proof -
  let ?p = "started_program (Mutex_lock 0 1)"
  have "elem_dense (hd (states_in_sequence (state_seq ?p)))" "length (trace ?p) < 4294967295"
    "next_steps ?p = [(0, Mutex_lock 0 1)]" "next_steps main_program = [(0, Thread_start 0)]"
    by (simp_all add: started_program_def main_program_def elem_dense_def state_eval)
  with restore_at_depth_zero_keeps_next_steps [OF started_program_wf, of "Mutex_lock 0 1"]
    execute_start [of "Mutex_lock 0 1"] show ?thesis by auto
qed

lemma fold_res_error:
  assumes "x \<in> set xs" and "\<And>s. \<exists>e. f x s = Inl e"
  shows "\<exists>e. fold_res f xs s = Inl e"
  using assms(1)
proof (induction xs arbitrary: s)
  case (Cons y ys)
  then show ?case
  proof (cases "y = x")
    case True
    with assms(2) [of s] show ?thesis by auto
  next
    case False
    with Cons show ?thesis by (cases "f y s") auto
  qed
qed simp

lemma unknown_runner_throws:
  assumes "seq_wf ss" and "max_visible_runner_id (representative_state ss) \<le> r"
  shows "sv_runner (seq_view ss) r = Inl Out_of_range"
proof -
  have "\<not> invalid_objid < length (objs ss)" using assms(1) by (simp add: seq_wf_def)
  with assms(2) show ?thesis
    by (simp add: seq_view_def element_view_def element_get_object_def element_objid_for_runner_def
        element_contains_runner_def guarded_def)
qed

text \<open>
  Backtracking past the creation of a thread breaks the program: the runner keeps its
  pending transition although the restored state does not know it, so the next question for the
  enabled runners ends in an exception.
\<close>

lemma backtracking_past_creation_throws:
  assumes "prog_wf p" and "0 < n" and "n < length (trace p)" and "length (trace p) < 4294967295"
    and "elem_dense (states_in_sequence (state_seq p) ! n)"
    and "max_visible_runner_id (states_in_sequence (state_seq p) ! n) \<le> r"
    and "get_pending_transition_for p r \<noteq> None"
  shows "\<exists>q e. restore_model_at_depth n p = Inr q \<and> get_enabled_runners q = Inl e"
proof -
  from restore_spec [OF assms(1,2) _ assms(4)] assms(3,5) obtain q where
    q: "restore_model_at_depth n p = Inr q" "prog_wf q"
      "states_in_sequence (state_seq q) = take (n + 1) (states_in_sequence (state_seq p))"
      "\<forall>r. map_of (next_steps q) r = next_step_at p n r" by auto
  have "length (states_in_sequence (state_seq p)) = length (trace p) + 1"
    using assms(1) by (simp add: prog_wf_def get_num_states_in_sequence_def)
  with q(3) assms(3) have rep: "representative_state (state_seq q) = states_in_sequence (state_seq p) ! n"
    using last_of_take [of "n + 1" "states_in_sequence (state_seq p)"]
    by (simp add: representative_state_def)
  have "next_step_at p n r \<noteq> None"
  proof (cases "find (\<lambda>j. exec_at (trace p) j = r) [n..<length (trace p)]")
    case None
    with assms(7) show ?thesis
      by (simp add: next_step_at_def get_pending_transition_for_def get_transition_for_runner_def)
  next
    case (Some j)
    then have "j < length (trace p)" by (simp add: find_upt_Some)
    then have "trace p ! j \<noteq> None" using assms(1) nth_mem by (metis prog_wf_def)
    with Some show ?thesis by (simp add: next_step_at_def)
  qed
  with q(4) obtain t where t: "map_of (next_steps q) r = Some t" by auto
  then have "get_executor t = r" using q(2) by (simp add: prog_wf_def pending_wf_def)
  moreover have "sv_runner (seq_view (state_seq q)) r = Inl Out_of_range"
    using unknown_runner_throws q(2) rep assms(6) by (simp add: prog_wf_def)
  ultimately have "is_enabled_in t (seq_view (state_seq q)) = Inl Out_of_range"
    by (simp add: is_enabled_in_def apply_to_def)
  then have "\<exists>e. get_enabled_runners q = Inl e"
    unfolding get_enabled_runners_def by (intro fold_res_error [OF map_of_SomeD [OF t]]) simp
  with q(1) show ?thesis by blast
qed

text \<open>The main thread has taken two steps, and then a second thread was discovered.\<close>

definition late_runner_program :: program where
  "late_runner_program = \<lparr>state_seq =
     \<lparr>runner_to_obj_map = \<lparr>forward = [(0, 0), (1, 1)], backward = [(0, 0), (1, 1)]\<rparr>,
      visible_objects = [[Thread_obj Running], [Thread_obj Embryo]],
      states_in_sequence =
        [\<lparr>visible_object_indices = [(0, 0)], max_visible_runner_id = Suc 0\<rparr>,
         \<lparr>visible_object_indices = [(0, 0)], max_visible_runner_id = Suc 0\<rparr>,
         \<lparr>visible_object_indices = [(0, 0), (1, 0)], max_visible_runner_id = Suc (Suc 0)\<rparr>]\<rparr>,
     trace = [Some (Thread_start 0), Some (Thread_start 0)],
     next_steps = [(0, Thread_start 0), (1, Thread_start 1)]\<rparr>"

lemma late_runner_steps:
  "\<exists>p. model_execution_of 0 (Thread_start 0) (started_program (Thread_start 0)) = Inr p \<and>
     discover_runner (Thread_obj Embryo) Thread_start p = Inr (1, late_runner_program)"
  and late_runner_wf: "prog_wf late_runner_program"
proof -
  let ?p0 = "started_program (Thread_start 0)"
  have "sv_runner (seq_view (state_seq ?p0)) 0 = Inr (Thread_obj Running)"
    by (simp add: started_program_def main_program_def state_eval)
  then have "apply_to (Thread_start 0) (seq_view (state_seq ?p0))
      = Inr (new_diff (seq_view (state_seq ?p0)), Exists)" by (rule start_exists)
  then have run: "model_execution_of 0 (Thread_start 0) ?p0 = Inr (?p0\<lparr>
      state_seq := push_state_snapshot (state_seq ?p0),
      trace := [Some (Thread_start 0), Some (Thread_start 0)]\<rparr>)" (is "_ = Inr ?p")
    by (simp add: model_execution_of_def get_transition_for_runner_def replace_unowned_def
        started_program_def ts_push_def main_program_def follow_def seq_commit_def new_diff_def)
  have wf: "prog_wf ?p" using model_execution_wf [OF started_program_wf run] by simp
  have room: "has_room ?p"
    by (simp add: has_room_def started_program_def main_program_def push_state_snapshot_def
        inj_size_def invalid_objid_def invalid_rid_def)
  have p': "discover_runner (Thread_obj Embryo) Thread_start ?p = Inr (1, late_runner_program)"
    by (simp add: discover_runner_def started_program_def main_program_def set_transition_def
        replace_unowned_def late_runner_program_def state_eval)
  show "\<exists>p. model_execution_of 0 (Thread_start 0) (started_program (Thread_start 0)) = Inr p \<and>
     discover_runner (Thread_obj Embryo) Thread_start p = Inr (1, late_runner_program)"
    using run p' by blast
  show "prog_wf late_runner_program" using discover_runner_wf(1) [OF wf room _ p'] by simp
qed

lemma late_runner_facts:
  "length (trace late_runner_program) = 2"
  "elem_dense (states_in_sequence (state_seq late_runner_program) ! 1)"
  "max_visible_runner_id (states_in_sequence (state_seq late_runner_program) ! 1) = 1"
  "visible_object_indices (states_in_sequence (state_seq late_runner_program) ! 1) = [(0, 0)]"
  "get_pending_transition_for late_runner_program 1 = Some (Thread_start 1)"
  by (simp_all add: late_runner_program_def elem_dense_def get_pending_transition_for_def
      get_transition_for_runner_def)

lemma backtracking_past_creation_throws_example:
  "\<exists>p p' q e. model_execution_of 0 (Thread_start 0) (started_program (Thread_start 0)) = Inr p \<and>
     discover_runner (Thread_obj Embryo) Thread_start p = Inr (1, p') \<and>
     restore_model_at_depth 1 p' = Inr q \<and> get_enabled_runners q = Inl e"
  using late_runner_steps late_runner_facts
    backtracking_past_creation_throws [OF late_runner_wf, of 1 1] by fastforce

section \<open>Enabled runners and deadlocks\<close>

text \<open>The state's objects, and the pending transitions that name objects of the right kind.\<close>

definition prog_world :: "program \<Rightarrow> world" where
  "prog_world p = obj_map (seq_view (state_seq p))"

definition prog_runners :: "program \<Rightarrow> runner_objs" where
  "prog_runners p = sv_objid_for_runner (seq_view (state_seq p))"

definition prog_typed :: "program \<Rightarrow> bool" where
  "prog_typed p \<longleftrightarrow>
     prog_wf p \<and> seq_tip (state_seq p) \<and>
     (\<forall>(r, t) \<in> set (next_steps p). well_typed (prog_runners p) t (prog_world p))"

lemma pending_enabled:
  assumes "prog_typed p" and "(r, t) \<in> set (next_steps p)"
  shows "is_enabled_in t (seq_view (state_seq p)) = Inr (enabled (prog_runners p) t (prog_world p))"
proof -
  have "view_ok (seq_view (state_seq p))" and "well_typed (prog_runners p) t (prog_world p)"
    using assms seq_view_ok by (auto simp: prog_typed_def prog_wf_def)
  from apply_to_realised [OF this(1)] this(2) show ?thesis
    by (fastforce simp: is_enabled_in_def prog_runners_def prog_world_def split: if_splits)
qed

lemma fold_enabled:
  assumes "\<forall>(r, t) \<in> set ps. is_enabled_in t s = Inr (P t)"
  shows "\<exists>en. fold_res (\<lambda>(r, t) en. bind_res (is_enabled_in t s)
      (\<lambda>b. Inr (if b then set_insert r en else en))) ps en0 = Inr en \<and>
    set en = set en0 \<union> {r. \<exists>t. (r, t) \<in> set ps \<and> P t} \<and> (distinct en0 \<longrightarrow> distinct en)"
  using assms
proof (induction ps arbitrary: en0)
  case (Cons x ps)
  obtain r t where x: "x = (r, t)" by (cases x)
  let ?en = "if P t then set_insert r en0 else en0"
  from Cons.IH [of ?en] Cons.prems obtain en where
    "fold_res (\<lambda>(r, t) en. bind_res (is_enabled_in t s)
      (\<lambda>b. Inr (if b then set_insert r en else en))) ps ?en = Inr en"
    "set en = set ?en \<union> {r. \<exists>t. (r, t) \<in> set ps \<and> P t}" "distinct ?en \<longrightarrow> distinct en" by auto
  with Cons.prems x show ?case
    by (intro exI [of _ en]) (auto simp: distinct_set_insert)
qed simp

text \<open>
  C12. \<^verbatim>\<open>get_enabled_runners\<close> is exact: it names, each once, the runners whose pending
  transition the specification enables, and these are the runners the model can execute; for
  any other an exception says why not.
\<close>

theorem enabled_runners_are_executable:
  assumes "prog_typed p"
  shows "\<exists>en. get_enabled_runners p = Inr en \<and> distinct en \<and>
    (\<forall>r. r \<in> set en \<longleftrightarrow>
       (\<exists>t. get_pending_transition_for p r = Some t \<and> enabled (prog_runners p) t (prog_world p))) \<and>
    (\<forall>npo. if get_executor npo \<in> set en then \<exists>q. model_execution_of (get_executor npo) npo p = Inr q
       else \<exists>msg. model_execution_of (get_executor npo) npo p = Inl (Runtime_error msg))"
proof -
  let ?en = "\<lambda>t. enabled (prog_runners p) t (prog_world p)"
  have wf: "prog_wf p" and om: "omap_wf (next_steps p)" and "seq_wf (state_seq p)"
    and tip: "seq_tip (state_seq p)"
    using assms by (auto simp: prog_typed_def prog_wf_def pending_wf_def)
  from fold_enabled [of "next_steps p" "seq_view (state_seq p)" ?en "[]"] pending_enabled [OF assms]
  obtain en where en: "get_enabled_runners p = Inr en" "distinct en"
    "set en = {r. \<exists>t. (r, t) \<in> set (next_steps p) \<and> ?en t}"
    by (fastforce simp: get_enabled_runners_def)
  have pend: "(r, t) \<in> set (next_steps p) \<longleftrightarrow> map_of (next_steps p) r = Some t" for r t
    using om omap_wf_distinct by (metis map_of_is_SomeI map_of_SomeD)
  have "if get_executor npo \<in> set en then \<exists>q. model_execution_of (get_executor npo) npo p = Inr q
       else \<exists>msg. model_execution_of (get_executor npo) npo p = Inl (Runtime_error msg)" for npo
  proof (cases "map_of (next_steps p) (get_executor npo)")
    case None
    with en(3) pend show ?thesis
      by (auto simp: model_execution_of_def get_transition_for_runner_def)
  next
    case (Some t)
    then have ty: "well_typed (prog_runners p) t (prog_world p)"
      using assms pend by (fastforce simp: prog_typed_def)
    show ?thesis
    proof (cases "?en t")
      case True
      with follow_step [OF \<open>seq_wf (state_seq p)\<close> tip, of t] ty obtain ss where
        "follow t (state_seq p) = Inr (Exists, ss)"
        unfolding prog_runners_def prog_world_def by blast
      with Some True en(3) pend show ?thesis
        by (auto simp: model_execution_of_def get_transition_for_runner_def Let_def split: prod.split)
    next
      case False
      from apply_to_realised [OF seq_view_ok [OF \<open>seq_wf (state_seq p)\<close>]] ty False
      have "follow t (state_seq p) = Inr (Disabled, state_seq p)"
        by (fastforce simp: follow_def prog_runners_def prog_world_def)
      with Some False en(3) pend show ?thesis
        by (auto simp: model_execution_of_def get_transition_for_runner_def)
    qed
  qed
  with en pend show ?thesis
    by (auto simp: get_pending_transition_for_def get_transition_for_runner_def)
qed

theorem enabled_runners_are_executable_witness:
  "get_enabled_runners main_program = Inr [0] \<and>
   (\<exists>q. model_execution_of 0 (Thread_exit 0) main_program = Inr q)"
proof -
  have run: "sv_runner (seq_view (state_seq main_program)) 0 = Inr (Thread_obj Running)"
    by (simp add: main_program_def state_eval)
  have "prog_typed main_program"
    using main_program_wf
    by (auto simp: prog_typed_def seq_tip_def well_typed_def main_program_def prog_world_def
        prog_runners_def is_thread_at_iff obj_map_def state_eval)
  from enabled_runners_are_executable [OF this] obtain en where
    "get_enabled_runners main_program = Inr en"
    "\<forall>npo. if get_executor npo \<in> set en
       then \<exists>q. model_execution_of (get_executor npo) npo main_program = Inr q
       else \<exists>msg. model_execution_of (get_executor npo) npo main_program = Inl (Runtime_error msg)"
    by blast
  moreover have "is_enabled_in (Thread_start 0) (seq_view (state_seq main_program)) = Inr True"
    using start_exists [OF run] by (simp add: is_enabled_in_def)
  then have "get_enabled_runners main_program = Inr [0]"
    by (simp add: get_enabled_runners_def main_program_def set_insert_def)
  ultimately show ?thesis by (metis Inr_inject get_executor.simps(3) list.set_intros(1))
qed

text \<open>
  \<^verbatim>\<open>is_in_deadlock\<close> says yes exactly when no runner is enabled and some runner has not
  exited; the program without runners is not deadlocked.
\<close>

lemma deadlock_iff_stuck:
  assumes "prog_typed p"
  shows "is_in_deadlock p = Inr
    ((\<forall>r t. get_pending_transition_for p r = Some t \<longrightarrow> \<not> enabled (prog_runners p) t (prog_world p)) \<and>
     (\<exists>r. get_pending_transition_for p r \<noteq> None \<and>
        prog_world p (prog_runners p r) \<noteq> Some (Thread_obj Exited)))"
proof -
  let ?en = "\<lambda>t. enabled (prog_runners p) t (prog_world p)" and ?s = "seq_view (state_seq p)"
  have om: "omap_wf (next_steps p)" and ok: "view_ok ?s"
    using assms seq_view_ok by (auto simp: prog_typed_def prog_wf_def pending_wf_def)
  have pend: "(r, t) \<in> set (next_steps p) \<longleftrightarrow> map_of (next_steps p) r = Some t" for r t
    using om omap_wf_distinct by (metis map_of_is_SomeI map_of_SomeD)
  have any: "any_enabled ps ?s = Inr (\<exists>(r, t) \<in> set ps. ?en t)" if "set ps \<subseteq> set (next_steps p)" for ps
    using that pending_enabled [OF assms] by (induction ps) auto
  have state: "\<exists>st. prog_world p (prog_runners p r) = Some (Thread_obj st) \<and>
      bind_res (sv_runner ?s r) as_thread = Inr st" if "(r, t) \<in> set (next_steps p)" for r t
  proof -
    have "get_executor t = r" using assms that pend by (simp add: prog_typed_def prog_wf_def pending_wf_def)
    moreover have "well_typed (prog_runners p) t (prog_world p)" using assms that by (auto simp: prog_typed_def)
    ultimately have "is_thread_at (prog_world p) (prog_runners p r)" by (simp add: well_typed_def)
    with ok show ?thesis
      by (auto simp: is_thread_at_iff prog_world_def prog_runners_def obj_map_Some view_ok_def)
  qed
  have ex: "fold_res (\<lambda>p all_ex. bind_res (bind_res (sv_runner ?s (fst p)) as_thread)
      (\<lambda>t. Inr (if has_exited t then all_ex else False))) ps b =
    Inr (b \<and> (\<forall>(r, t) \<in> set ps. prog_world p (prog_runners p r) = Some (Thread_obj Exited)))"
    if "set ps \<subseteq> set (next_steps p)" for ps b
    using that state by (induction ps arbitrary: b) (fastforce simp: has_exited_def)+
  show ?thesis
    using any [of "next_steps p"] ex [of "next_steps p" True]
    by (auto simp: is_in_deadlock_def all_exited_def get_pending_transition_for_def
        get_transition_for_runner_def pend) blast
qed

text \<open>A main thread about to lock a mutex it holds already.\<close>

definition self_deadlocked :: program where
  "self_deadlocked = \<lparr>state_seq =
     \<lparr>runner_to_obj_map = \<lparr>forward = [(0, 0)], backward = [(0, 0)]\<rparr>,
      visible_objects = [[Thread_obj Running], [Mutex_obj (new_mutex Mutex_locked 64 0)]],
      states_in_sequence =
        [\<lparr>visible_object_indices = [(0, 0), (1, 0)], max_visible_runner_id = Suc 0\<rparr>]\<rparr>,
     trace = [], next_steps = [(0, Mutex_lock 0 1)]\<rparr>"

lemma deadlock_iff_stuck_example: "is_in_deadlock self_deadlocked = Inr True"
proof -
  have w: "prog_world self_deadlocked 0 = Some (Thread_obj Running)"
    "prog_world self_deadlocked 1 = Some (Mutex_obj (new_mutex Mutex_locked 64 0))"
    "prog_runners self_deadlocked 0 = 0"
    by (simp_all add: self_deadlocked_def prog_world_def prog_runners_def obj_map_def state_eval)
  have "prog_wf self_deadlocked"
    by (auto simp: self_deadlocked_def prog_wf_def pending_wf_def seq_wf_def elem_wf_def
        runners_wf_def inj_wf_def inj_size_def count_domain_def count_range_def invalid_objid_def
        invalid_rid_def get_num_states_in_sequence_def split: if_splits)
  moreover have "seq_tip (state_seq self_deadlocked)"
    by (simp add: self_deadlocked_def seq_tip_def representative_state_def)
  moreover have "next_steps self_deadlocked = [(0, Mutex_lock 0 1)]" by (simp add: self_deadlocked_def)
  moreover have "well_typed (prog_runners self_deadlocked) (Mutex_lock 0 1) (prog_world self_deadlocked)"
    using w by (simp add: well_typed_def is_thread_at_iff is_mutex_at_iff)
  ultimately have ty: "prog_typed self_deadlocked" by (simp add: prog_typed_def)
  have "\<not> enabled (prog_runners self_deadlocked) (Mutex_lock 0 1) (prog_world self_deadlocked)"
    using w by (simp add: enabled_def the_mutex_def new_mutex_def)
  with w show ?thesis
    unfolding deadlock_iff_stuck [OF ty]
    by (auto simp: get_pending_transition_for_def get_transition_for_runner_def self_deadlocked_def)
qed

end
