(* ===== verification/Coordinator_Properties.thy ===== *)
theory Coordinator_Properties
  imports Callbacks Program_Properties
begin

text \<open>
  Properties of the coordinator: what a callback may change, that a coordinated execution moves
  the model and the process by one step of the same runner, that returning to a depth replays the
  trace in a fresh process, and how the map from addresses to objects goes stale.
\<close>

section \<open>What a callback may change\<close>

text \<open>A callback discovers at most one object or runner and leaves everything else alone.\<close>

definition discovers :: "'w coordinator \<Rightarrow> 'w coordinator \<Rightarrow> bool" where
  "discovers c c' \<longleftrightarrow>
     outside c' = outside c \<and> process_alive c' = process_alive c \<and>
     runtime_transition_mapping c' = runtime_transition_mapping c \<and>
     (current_program_model c' = current_program_model c \<or>
      (\<exists>v. current_program_model c' = snd (discover_object v (current_program_model c))) \<or>
      (\<exists>v r. discover_runner v Thread_start (current_program_model c)
        = Inr (r, current_program_model c')))"

lemma discovers_refl [simp]: "discovers c c"
  by (simp add: discovers_def)

lemma map_address_simps [simp]:
  "current_program_model (map_address a oid c) = current_program_model c"
  "outside (map_address a oid c) = outside c"
  "process_alive (map_address a oid c) = process_alive c"
  "runtime_transition_mapping (map_address a oid c) = runtime_transition_mapping c"
  by (simp_all add: map_address_def)

lemma observe_object_discovers:
  assumes "observe_object a v c = Inr (oid, c')"
  shows "discovers c c'"
proof -
  from assms have "current_program_model c' = snd (discover_object v (current_program_model c))"
    by (simp add: observe_object_def discover_object_def Let_def split: if_splits prod.splits) auto
  with assms show ?thesis
    by (auto simp: observe_object_def discovers_def Let_def split: if_splits prod.splits)
qed

lemma observe_runner_discovers:
  "observe_runner a v Thread_start c = Inr (r, c') \<Longrightarrow> discovers c c'"
  by (auto simp: observe_runner_def discovers_def Let_def res_simps split: if_splits prod.splits)

lemma ensure_cond_discovers:
  "ensure_cond_initialized env a msg c = Inr c' \<Longrightarrow> discovers c c'"
  by (auto simp: ensure_cond_initialized_def res_simps intro: observe_object_discovers
      split: if_splits)

lemma callback_discovers:
  assumes "call_callback env cb p mb c = Inr (t, c')"
  shows "discovers c c' \<and> (\<forall>x. t = Some x \<longrightarrow> get_executor x = p)"
proof (cases cb)
  case Thread_create_callback
  with assms show ?thesis
    by (auto simp: thread_create_callback_def res_simps Let_def intro: observe_runner_discovers
        split: if_splits)
next
  case Mutex_init_callback
  with assms show ?thesis
    by (auto simp: mutex_init_callback_def res_simps Let_def intro: observe_object_discovers
        split: if_splits)
next
  case Mutex_lock_callback
  with assms show ?thesis
    by (auto simp: mutex_lock_callback_def res_simps Let_def intro: observe_object_discovers
        split: if_splits)
next
  case Cond_init_callback
  with assms show ?thesis
    by (auto simp: cond_init_callback_def res_simps Let_def intro: observe_object_discovers
        split: if_splits)
next
  case Sem_init_callback
  with assms show ?thesis
    by (auto simp: sem_init_callback_def res_simps Let_def intro: observe_object_discovers
        split: if_splits)
next
  case Cond_waiting_thread_enqueue_callback
  with assms show ?thesis
    by (auto simp: cond_waiting_thread_enqueue_callback_def res_simps Let_def
        intro: ensure_cond_discovers split: if_splits)
qed (use assms in \<open>auto simp: mutex_unlock_callback_def thread_exit_callback_def
  thread_join_callback_def process_exit_callback_def process_abort_callback_def
  cond_wait_callback_def cond_signal_callback_def cond_broadcast_callback_def
  cond_destroy_callback_def sem_destroy_callback_def sem_post_callback_def sem_wait_callback_def
  res_simps Let_def intro: ensure_cond_discovers split: if_splits\<close>)

lemma discovers_keeps:
  assumes "discovers c c'" and "prog_wf (current_program_model c)"
    and "has_room (current_program_model c)"
  shows "prog_wf (current_program_model c')"
    and "trace (current_program_model c') = trace (current_program_model c)"
    and "map_of (next_steps (current_program_model c)) r = Some t \<Longrightarrow>
      map_of (next_steps (current_program_model c')) r = Some t"
proof -
  let ?p = "current_program_model c" and ?q = "current_program_model c'"
  have om: "omap_wf (next_steps ?p)" using assms(2) by (simp add: prog_wf_def pending_wf_def)
  consider "?q = ?p" | v where "?q = snd (discover_object v ?p)"
    | v k where "discover_runner v Thread_start ?p = Inr (k, ?q)"
    using assms(1) by (auto simp: discovers_def)
  then have "prog_wf ?q \<and> trace ?q = trace ?p \<and>
    (map_of (next_steps ?p) r = Some t \<longrightarrow> map_of (next_steps ?q) r = Some t)"
  proof cases
    case 1
    with assms(2) show ?thesis by simp
  next
    case 2
    with discover_object_wf [OF assms(2,3)] show ?thesis
      by (simp add: discover_object_def split: prod.splits)
  next
    case 3
    note d = discover_runner_wf [OF assms(2,3) _ 3]
    have "trace ?q = trace ?p" using 3 by (rule discover_runner_trace)
    moreover have "r < inj_size (runner_to_obj_map (state_seq ?p))" if "map_of (next_steps ?p) r = Some t"
      using assms(2) that by (simp add: prog_wf_def pending_wf_def)
    ultimately show ?thesis using d om by auto
  qed
  then show "prog_wf ?q" "trace ?q = trace ?p"
    "map_of (next_steps ?p) r = Some t \<Longrightarrow> map_of (next_steps ?q) r = Some t" by simp_all
qed

section \<open>A coordinated execution\<close>

text \<open>Enough ids for \<open>k\<close> more steps.\<close>

definition room_for :: "nat \<Rightarrow> program \<Rightarrow> bool" where
  "room_for k p \<longleftrightarrow> length (objs (state_seq p)) + k \<le> invalid_objid \<and>
     inj_size (runner_to_obj_map (state_seq p)) + k \<le> invalid_rid \<and>
     length (trace p) + k < 4294967295"

lemma room_for_Suc: "room_for (Suc k) p \<Longrightarrow> has_room p"
  by (simp add: room_for_def has_room_def)

lemma discovers_room:
  assumes "discovers c c'" and "prog_wf (current_program_model c)"
    and "room_for (Suc k) (current_program_model c)"
  shows "length (objs (state_seq (current_program_model c'))) + k \<le> invalid_objid \<and>
    inj_size (runner_to_obj_map (state_seq (current_program_model c'))) + k \<le> invalid_rid \<and>
    get_num_states_in_sequence (state_seq (current_program_model c'))
      = get_num_states_in_sequence (state_seq (current_program_model c))"
proof -
  let ?p = "current_program_model c" and ?q = "current_program_model c'"
  have w: "seq_wf (state_seq ?p)" using assms(2) by (simp add: prog_wf_def)
  have room: "length (objs (state_seq ?p)) < invalid_objid"
    "inj_size (runner_to_obj_map (state_seq ?p)) < invalid_rid"
    using assms(3) by (simp_all add: room_for_def)
  obtain es e where e: "states_in_sequence (state_seq ?p) = es @ [e]" using w by (rule seq_wf_last)
  consider "?q = ?p" | v where "?q = snd (discover_object v ?p)"
    | v k where "discover_runner v Thread_start ?p = Inr (k, ?q)"
    using assms(1) by (auto simp: discovers_def)
  then show ?thesis
  proof cases
    case 1
    with assms(3) show ?thesis by (simp add: room_for_def)
  next
    case 2
    with assms(3) e seq_add_object_shape [OF e room(1), of v] show ?thesis
      by (simp add: room_for_def discover_object_def get_num_states_in_sequence_def)
  next
    case 3
    then have "seq_add_runner v (state_seq ?p) = Inr (k, state_seq ?q)" by (rule discover_runner_seq)
    with assms(3) e seq_add_runner_shape [OF w e room, of v] show ?thesis
      by (auto simp: room_for_def get_num_states_in_sequence_def)
  qed
qed

lemma execute_runner_shape:
  assumes "execute_runner env r c = Inr c'"
  obtains mb w cb npo c2 p where "process_alive c"
    "process_execute env r (outside c) = Inr (mb, w)"
    "call_callback env cb r mb (c\<lparr>outside := w\<rparr>) = Inr (Some npo, c2)"
    "model_execution_of r npo (current_program_model c2) = Inr p"
    "c' = c2\<lparr>current_program_model := p\<rparr>"
  using assms
  by (auto simp: execute_runner_def Let_def res_simps split: if_splits option.splits)

lemma execute_runner_ok:
  assumes wf: "prog_wf (current_program_model c)" and room: "room_for (Suc k) (current_program_model c)"
    and run: "execute_runner env r c = Inr c'"
  shows "\<exists>t npo mb. process_execute env r (outside c) = Inr (mb, outside c') \<and>
    process_alive c \<and> process_alive c' \<and>
    prog_wf (current_program_model c') \<and> room_for k (current_program_model c') \<and>
    map_of (next_steps (current_program_model c)) r = Some t \<and> get_executor t = r \<and>
    trace (current_program_model c') = trace (current_program_model c) @ [Some t] \<and>
    map_of (next_steps (current_program_model c')) r = Some npo \<and> get_executor npo = r \<and>
    (\<forall>j x. j \<noteq> r \<longrightarrow> map_of (next_steps (current_program_model c)) j = Some x \<longrightarrow>
       map_of (next_steps (current_program_model c')) j = Some x)"
proof -
  from run obtain mb w cb npo c2 p where x: "process_alive c"
    "process_execute env r (outside c) = Inr (mb, w)"
    "call_callback env cb r mb (c\<lparr>outside := w\<rparr>) = Inr (Some npo, c2)"
    "model_execution_of r npo (current_program_model c2) = Inr p"
    "c' = c2\<lparr>current_program_model := p\<rparr>" by (rule execute_runner_shape)
  from callback_discovers [OF x(3)] have d: "discovers (c\<lparr>outside := w\<rparr>) c2" and n: "get_executor npo = r"
    by simp_all
  have wf2: "prog_wf (current_program_model c2)"
    "trace (current_program_model c2) = trace (current_program_model c)"
    and old: "\<And>j y. map_of (next_steps (current_program_model c)) j = Some y \<Longrightarrow>
      map_of (next_steps (current_program_model c2)) j = Some y"
    using discovers_keeps [OF d] wf room_for_Suc [OF room] by simp_all
  have room2: "length (objs (state_seq (current_program_model c2))) + k \<le> invalid_objid"
    "inj_size (runner_to_obj_map (state_seq (current_program_model c2))) + k \<le> invalid_rid"
    using discovers_room [OF d] wf room by simp_all
  from x(4) obtain t ss where t: "map_of (next_steps (current_program_model c2)) r = Some t"
    "follow t (state_seq (current_program_model c2)) = Inr (Exists, ss)"
    "p = (current_program_model c2)\<lparr>state_seq := ss,
      trace := trace (current_program_model c2) @ [Some t],
      next_steps := omap_put r npo (next_steps (current_program_model c2))\<rparr>"
    by (rule model_execution_shape)
  have "length (objs ss) = length (objs (state_seq (current_program_model c2)))"
    "runner_to_obj_map ss = runner_to_obj_map (state_seq (current_program_model c2))"
    using follow_ok [OF _ t(2)] wf2 by (simp_all add: prog_wf_def)
  then have rk: "room_for k p" using room2 room wf2(2) t(3) by (simp add: room_for_def)
  have om: "omap_wf (next_steps (current_program_model c2))" and et: "get_executor t = r"
    using wf2(1) t(1) by (simp_all add: prog_wf_def pending_wf_def)
  have "outside c2 = w" "process_alive c2" using d x(1) by (simp_all add: discovers_def)
  moreover have "prog_wf p" using model_execution_wf [OF wf2(1) x(4)] .
  moreover have "map_of (next_steps (current_program_model c)) r = Some t"
  proof -
    have "deref (get_pending_transition_for (current_program_model c) r) \<noteq> Inl Null_dereference"
      using run by (auto simp: execute_runner_def split: if_splits)
    then obtain y where "map_of (next_steps (current_program_model c)) r = Some y"
      by (cases "map_of (next_steps (current_program_model c)) r")
        (simp_all add: get_pending_transition_for_def get_transition_for_runner_def)
    with old t(1) show ?thesis by fastforce
  qed
  ultimately show ?thesis
    using x t rk om et n wf2(2) old by (intro exI [of _ t] exI [of _ npo] exI [of _ mb]) simp
qed

section \<open>The model and the process stay in step\<close>

text \<open>
  The process is one that was created afresh and then executed the runners of the trace, in order.
\<close>

definition in_step :: "'w environment \<Rightarrow> 'w coordinator \<Rightarrow> bool" where
  "in_step env c \<longleftrightarrow> process_alive c \<and>
     (\<exists>w0 w1. force_new_process env w0 = Inr w1 \<and>
        fold_res (replay_slot env) (trace (current_program_model c)) w1 = Inr (outside c))"

datatype coordinator_op = Execute runner_id | Return_to nat

fun run_coordinator_op :: "'w environment \<Rightarrow> coordinator_op \<Rightarrow> 'w coordinator \<Rightarrow> 'w coordinator res" where
  "run_coordinator_op env (Execute r) c = execute_runner env r c"
| "run_coordinator_op env (Return_to n) c = return_to_depth env n c"

lemma return_to_depth_shape:
  assumes "return_to_depth env n c = Inr c'"
  obtains w0 p w where "force_new_process env (outside c) = Inr w0"
    "restore_model_at_depth n (current_program_model c) = Inr p" "ts_count (trace p) = n"
    "fold_res (replay_slot env) (trace p) w0 = Inr w"
    "c' = c\<lparr>outside := w, process_alive := True, current_program_model := p\<rparr>"
  using assms
  by (auto simp: return_to_depth_def assign_new_process_handle_def res_simps split: if_splits)

lemma restore_at_zero:
  assumes "prog_wf p" and "restore_model_at_depth 0 p = Inr q"
  shows "prog_wf q \<and> length (objs (state_seq q)) = length (objs (state_seq p)) \<and>
    runner_to_obj_map (state_seq q) = runner_to_obj_map (state_seq p) \<and> trace q = []"
proof -
  let ?els = "states_in_sequence (state_seq p)"
  have swf: "seq_wf (state_seq p)" and len: "length ?els = length (trace p) + 1"
    using assms(1) by (simp_all add: prog_wf_def get_num_states_in_sequence_def)
  have "u32_minus (ts_count (trace p)) 1 < 4294967296" by (simp add: u32_minus_def)
  then have "\<not> u32_minus 0 1 < u32_minus (ts_count (trace p)) 1"
    unfolding u32_minus_one_zero by linarith
  then have none: "collect_indices (trace p) (u32_minus 0 1) (u32_minus (ts_count (trace p)) 1) []
      = Inr []"
    by (subst collect_indices.simps) simp
  with assms(2) obtain ss where ss: "consume_into_subsequence 1 (state_seq p) = Inr ss"
    "q = p\<lparr>trace := [], state_seq := ss\<rparr>"
    by (auto simp: restore_model_at_depth_def ts_consume_into_subsequence_def res_simps)
  have "seq_wf ss \<and> length (states_in_sequence ss) = 1 \<and>
      runner_to_obj_map ss = runner_to_obj_map (state_seq p) \<and>
      length (objs ss) = length (objs (state_seq p))"
  proof (cases "trace p = []")
    case True
    with ss(1) len swf show ?thesis by (simp add: consume_into_subsequence_def)
  next
    case False
    then have 1: "1 < length ?els" using len by simp
    with consume_not_dense [OF swf, of 1] ss(1) have "elem_dense (?els ! (1 - 1))" by fastforce
    with consume_dense [OF swf, of 1] 1 ss(1) show ?thesis by auto
  qed
  with assms(1) ss(2) show ?thesis
    by (simp add: prog_wf_def pending_wf_def get_num_states_in_sequence_def)
qed

lemma restore_unfold:
  assumes "restore_model_at_depth n p = Inr q"
  obtains q1 ss where "state_seq q1 = state_seq p" "length (trace q1) = length (trace p)"
    "consume_into_subsequence (u32 (n + 1)) (state_seq p) = Inr ss"
    "q = q1\<lparr>trace := ts_consume_into_subsequence n (trace q1), state_seq := ss\<rparr>"
proof -
  from assms obtain m q1 ss where m:
    "fold_res restore_next_step m p = Inr q1"
    "consume_into_subsequence (u32 (n + 1)) (state_seq q1) = Inr ss"
    "q = q1\<lparr>trace := ts_consume_into_subsequence n (trace q1), state_seq := ss\<rparr>"
    by (auto simp: restore_model_at_depth_def res_simps)
  have "state_seq q1 = state_seq p \<and> length (trace q1) = length (trace p)"
    using m(1)
    by (rule fold_res_invariant [where I = "\<lambda>q. state_seq q = state_seq p \<and> length (trace q) = length (trace p)"])
      (auto simp: restore_next_step_def ts_extract_at_def res_simps split: prod.splits)
  with m that show ?thesis by metis
qed

lemma restore_dense:
  assumes "prog_wf p" and "length (trace p) < 4294967295" and "restore_model_at_depth n p = Inr q"
    and "0 < n" and "n \<le> length (trace p)"
  shows "n < length (trace p) \<longrightarrow> elem_dense (states_in_sequence (state_seq p) ! n)"
proof (intro impI, rule ccontr)
  assume n: "n < length (trace p)" "\<not> elem_dense (states_in_sequence (state_seq p) ! n)"
  with consume_not_dense [of "state_seq p" "n + 1"] assms(1)
  have "consume_into_subsequence (n + 1) (state_seq p) = Inl Out_of_range"
    by (simp add: prog_wf_def get_num_states_in_sequence_def)
  moreover obtain q1 ss where "consume_into_subsequence (u32 (n + 1)) (state_seq p) = Inr ss"
    using assms(3) by (rule restore_unfold)
  ultimately show False using n assms(2) by simp
qed

lemma restore_keeps:
  assumes wf: "prog_wf p" and "length (trace p) < 4294967295" and run: "restore_model_at_depth n p = Inr q"
    and cnt: "ts_count (trace q) = n"
  shows "prog_wf q \<and> length (objs (state_seq q)) = length (objs (state_seq p)) \<and>
    runner_to_obj_map (state_seq q) = runner_to_obj_map (state_seq p) \<and> trace q = take n (trace p)"
proof (cases "n = 0")
  case True
  with restore_at_zero [OF wf] run show ?thesis by simp
next
  case False
  from run obtain q1 ss where m: "length (trace q1) = length (trace p)"
    "q = q1\<lparr>trace := ts_consume_into_subsequence n (trace q1), state_seq := ss\<rparr>"
    by (rule restore_unfold)
  have n: "n \<le> length (trace p)"
    using cnt m by (auto simp: ts_consume_into_subsequence_def ts_count_def split: if_splits)
  have "n < length (trace p) \<longrightarrow> elem_dense (states_in_sequence (state_seq p) ! n)"
    using restore_dense [OF wf assms(2) run] False n by simp
  with restore_spec [OF wf _ n assms(2)] False run show ?thesis by auto
qed

lemma coordinator_op_ok:
  assumes wf: "prog_wf (current_program_model c)" and room: "room_for (Suc k) (current_program_model c)"
    and step: "in_step env c" and run: "run_coordinator_op env a c = Inr c'"
  shows "prog_wf (current_program_model c') \<and> room_for k (current_program_model c') \<and> in_step env c'"
proof (cases a)
  case (Execute r)
  with run have "execute_runner env r c = Inr c'" by simp
  from execute_runner_ok [OF wf room this] obtain t mb where x:
    "process_execute env r (outside c) = Inr (mb, outside c')" "process_alive c'"
    "prog_wf (current_program_model c')" "room_for k (current_program_model c')" "get_executor t = r"
    "trace (current_program_model c') = trace (current_program_model c) @ [Some t]" by blast
  from step obtain w0 w1 where "force_new_process env w0 = Inr w1"
    "fold_res (replay_slot env) (trace (current_program_model c)) w1 = Inr (outside c)"
    by (auto simp: in_step_def)
  moreover from this(2) x(1,5,6)
  have "fold_res (replay_slot env) (trace (current_program_model c')) w1 = Inr (outside c')"
    by (simp add: fold_res_append replay_slot_def)
  ultimately have "in_step env c'" using x(2) by (auto simp: in_step_def)
  with x show ?thesis by blast
next
  case (Return_to n)
  with run have "return_to_depth env n c = Inr c'" by simp
  then obtain w0 p w where x: "force_new_process env (outside c) = Inr w0"
    "restore_model_at_depth n (current_program_model c) = Inr p" "ts_count (trace p) = n"
    "fold_res (replay_slot env) (trace p) w0 = Inr w"
    "c' = c\<lparr>outside := w, process_alive := True, current_program_model := p\<rparr>"
    by (rule return_to_depth_shape)
  have "length (trace (current_program_model c)) < 4294967295" using room by (simp add: room_for_def)
  from restore_keeps [OF wf this x(2,3)] x room show ?thesis
    by (auto simp: in_step_def room_for_def)
qed

section \<open>Properties\<close>

text \<open>
  The format of the mailbox: the operation each type stands for, with the ids the coordinator has bound
  to the addresses in the payload. Nothing is named by the type of \<^verbatim>\<open>sem_destroy\<close>, whose callback
  returns a null pointer.
\<close>

definition operation_named :: "'w coordinator \<Rightarrow> runner_id \<Rightarrow> runner_mailbox \<Rightarrow> transition option" where
  "operation_named c r mb =
     (let obj = get_model_of_object c (mb_pointer 0 mb); second = get_model_of_object c (mb_pointer 8 mb)
      in map_of (map (\<lambda>(ty, t). (rttid ty, t))
       [(MUTEX_INIT_TYPE, Mutex_init r obj), (MUTEX_LOCK_TYPE, Mutex_lock r obj),
        (MUTEX_UNLOCK_TYPE, Mutex_unlock r obj),
        (THREAD_CREATE_TYPE, Thread_create r (get_model_of_runner c (mb_pointer 0 mb))),
        (THREAD_EXIT_TYPE, Thread_exit r), (THREAD_JOIN_TYPE, Thread_join r (mb_read 0 2 mb)),
        (PROCESS_EXIT_TYPE, Process_exit r (sint (word_of_nat (mb_read 0 4 mb) :: 32 word))),
        (PROCESS_ABORT_TYPE, Process_abort r),
        (COND_INIT_TYPE, Cond_init r obj), (COND_ENQUEUE_TYPE, Cond_enqueue r obj second),
        (COND_WAIT_TYPE, Cond_wait r obj second), (COND_SIGNAL_TYPE, Cond_signal r obj),
        (COND_BROADCAST_TYPE, Cond_broadcast r obj), (COND_DESTROY_TYPE, Cond_destroy r obj),
        (SEM_INIT_TYPE, Sem_init r obj (word_of_nat (mb_read 8 4 mb))), (SEM_POST_TYPE, Sem_post r obj),
        (SEM_WAIT_TYPE, Sem_wait r obj)]) (mb_type mb))"

lemmas discovery_callback_defs = mutex_init_callback_def mutex_lock_callback_def mutex_unlock_callback_def
  thread_create_callback_def thread_exit_callback_def thread_join_callback_def
  process_exit_callback_def process_abort_callback_def cond_init_callback_def
  cond_waiting_thread_enqueue_callback_def cond_wait_callback_def cond_signal_callback_def
  cond_broadcast_callback_def cond_destroy_callback_def sem_init_callback_def sem_post_callback_def
  sem_wait_callback_def sem_destroy_callback_def

lemma callback_reads_mailbox:
  assumes "get_callback_for default_registry (mb_type mb) = Some cb"
    and "call_callback env cb r mb c = Inr (Some npo, c2)"
  shows "operation_named c2 r mb = Some npo"
proof -
  have ty: "mb_type mb = rttid (case cb of Mutex_init_callback \<Rightarrow> MUTEX_INIT_TYPE
      | Mutex_lock_callback \<Rightarrow> MUTEX_LOCK_TYPE | Mutex_unlock_callback \<Rightarrow> MUTEX_UNLOCK_TYPE
      | Thread_create_callback \<Rightarrow> THREAD_CREATE_TYPE | Thread_exit_callback \<Rightarrow> THREAD_EXIT_TYPE
      | Thread_join_callback \<Rightarrow> THREAD_JOIN_TYPE | Process_exit_callback \<Rightarrow> PROCESS_EXIT_TYPE
      | Process_abort_callback \<Rightarrow> PROCESS_ABORT_TYPE | Cond_init_callback \<Rightarrow> COND_INIT_TYPE
      | Cond_waiting_thread_enqueue_callback \<Rightarrow> COND_ENQUEUE_TYPE | Cond_wait_callback \<Rightarrow> COND_WAIT_TYPE
      | Cond_signal_callback \<Rightarrow> COND_SIGNAL_TYPE | Cond_broadcast_callback \<Rightarrow> COND_BROADCAST_TYPE
      | Cond_destroy_callback \<Rightarrow> COND_DESTROY_TYPE | Sem_init_callback \<Rightarrow> SEM_INIT_TYPE
      | Sem_destroy_callback \<Rightarrow> SEM_DESTROY_TYPE | Sem_post_callback \<Rightarrow> SEM_POST_TYPE
      | Sem_wait_callback \<Rightarrow> SEM_WAIT_TYPE)"
    using assms(1)
    by (auto simp: get_callback_for_def default_registry_def register_transition_def split: if_splits)
  show ?thesis
    using assms(2) unfolding operation_named_def ty
    by (cases cb) (auto simp: discovery_callback_defs Let_def res_simps split: if_splits)
qed

lemma execute_runner_dispatch:
  assumes "execute_runner env r c = Inr c'"
  obtains mb w cb npo c2 p where "process_execute env r (outside c) = Inr (mb, w)"
    "get_callback_for (runtime_transition_mapping c) (mb_type mb) = Some cb"
    "call_callback env cb r mb (c\<lparr>outside := w\<rparr>) = Inr (Some npo, c2)"
    "model_execution_of r npo (current_program_model c2) = Inr p"
    "c' = c2\<lparr>current_program_model := p\<rparr>"
  using assms
  by (auto simp: execute_runner_def Let_def res_simps split: if_splits option.splits)

text \<open>
  C11. A coordinated execution is one step of one runner on both sides: the process executes the
  runner, the transition that was pending for it is appended to the trace, the operation its mailbox
  names becomes pending, no other runner's pending transition changes, and the program stays
  well-formed. The operation is the one that the callback registered for the type in the mailbox returns;
  with the default registry it is the one that the type stands for, on the objects at the addresses in
  the payload.
\<close>

theorem execution_moves_both:
  assumes "prog_wf (current_program_model c)" and "has_room (current_program_model c)"
    and "length (trace (current_program_model c)) < 4294967294"
    and "execute_runner env r c = Inr c'"
  shows "\<exists>t npo mb cb c2. process_execute env r (outside c) = Inr (mb, outside c') \<and>
    get_callback_for (runtime_transition_mapping c) (mb_type mb) = Some cb \<and>
    call_callback env cb r mb (c\<lparr>outside := outside c'\<rparr>) = Inr (Some npo, c2) \<and>
    (runtime_transition_mapping c = default_registry \<longrightarrow> operation_named c2 r mb = Some npo) \<and>
    system_address_mapping c' = system_address_mapping c2 \<and>
    get_pending_transition_for (current_program_model c) r = Some t \<and>
    trace (current_program_model c') = trace (current_program_model c) @ [Some t] \<and>
    get_pending_transition_for (current_program_model c') r = Some npo \<and>
    get_executor t = r \<and> get_executor npo = r \<and>
    (\<forall>j x. j \<noteq> r \<longrightarrow> get_pending_transition_for (current_program_model c) j = Some x \<longrightarrow>
       get_pending_transition_for (current_program_model c') j = Some x) \<and>
    prog_wf (current_program_model c')"
proof -
  obtain mb w cb npo c2 p where x: "process_execute env r (outside c) = Inr (mb, w)"
    "get_callback_for (runtime_transition_mapping c) (mb_type mb) = Some cb"
    "call_callback env cb r mb (c\<lparr>outside := w\<rparr>) = Inr (Some npo, c2)"
    "model_execution_of r npo (current_program_model c2) = Inr p"
    "c' = c2\<lparr>current_program_model := p\<rparr>"
    using assms(4) by (rule execute_runner_dispatch)
  have room: "room_for (Suc 0) (current_program_model c)"
    using assms(2,3) by (simp add: room_for_def has_room_def)
  have "get_executor npo = r" using callback_discovers [OF x(3)] by simp
  moreover have "get_pending_transition_for (current_program_model c') r = Some npo"
  proof -
    have "prog_wf (current_program_model (c\<lparr>outside := w\<rparr>))"
      "has_room (current_program_model (c\<lparr>outside := w\<rparr>))" using assms(1,2) by simp_all
    with callback_discovers [OF x(3)] have "prog_wf (current_program_model c2)"
      using discovers_keeps(1) by blast
    then have om: "omap_wf (next_steps (current_program_model c2))"
      by (simp add: prog_wf_def pending_wf_def)
    obtain t ss where "p = (current_program_model c2)\<lparr>state_seq := ss,
        trace := trace (current_program_model c2) @ [Some t],
        next_steps := omap_put r npo (next_steps (current_program_model c2))\<rparr>"
      using x(4) by (rule model_execution_shape)
    with om show ?thesis
      unfolding x(5) get_pending_transition_for_def get_transition_for_runner_def by simp
  qed
  moreover have "runtime_transition_mapping c = default_registry \<longrightarrow> operation_named c2 r mb = Some npo"
    using callback_reads_mailbox x(2,3) by metis
  ultimately show ?thesis
    using execute_runner_ok [OF assms(1) room assms(4)] x(1-3,5)
    unfolding get_pending_transition_for_def get_transition_for_runner_def
    by (elim exE conjE) simp
qed

text \<open>A process that records whom it ran and whose every runner is about to exit.\<close>

definition exiting_process :: "runner_id list environment" where
  "exiting_process = \<lparr>force_new_process = (\<lambda>_. Inr []),
     process_execute = (\<lambda>r w. Inr (\<lparr>mb_type = rttid THREAD_EXIT_TYPE, mb_cnts = []\<rparr>, w @ [r])),
     process_pid = (\<lambda>_. 1), read_remote = (\<lambda>_ _ _. None),
     mutex_initializer = [], cond_initializer = []\<rparr>"

definition main_coordinator :: "runner_id list coordinator" where
  "main_coordinator = \<lparr>current_program_model = main_program,
     runtime_transition_mapping = default_registry, process_alive = True, outside = [],
     system_address_mapping = []\<rparr>"

lemma default_registry_lookup:
  "get_callback_for default_registry (rttid THREAD_EXIT_TYPE) = Some Thread_exit_callback"
  by (simp add: get_callback_for_def default_registry_def register_transition_def)

lemma main_coordinator_step:
  "execute_runner exiting_process 0 main_coordinator = Inr (main_coordinator\<lparr>outside := [0],
     current_program_model := started_program (Thread_exit 0)\<rparr>)"
proof -
  have "get_pending_transition_for main_program 0 = Some (Thread_start 0)"
    by (simp add: main_program_def get_pending_transition_for_def get_transition_for_runner_def)
  with execute_start [of "Thread_exit 0"] default_registry_lookup show ?thesis
    by (simp add: execute_runner_def main_coordinator_def exiting_process_def thread_exit_callback_def)
qed

lemma started_program_restored: "restore_model_at_depth 1 (started_program npo) = Inr (started_program npo)"
  by (simp add: restore_model_at_depth_def started_program_def main_program_def u32_minus_def u32_def
      ts_count_def collect_indices.simps consume_into_subsequence_def push_state_snapshot_def
      ts_consume_into_subsequence_def)

theorem execution_moves_both_witness:
  "\<exists>c. execute_runner exiting_process 0 main_coordinator = Inr c \<and> outside c = [0] \<and>
     get_pending_transition_for (current_program_model c) 0 = Some (Thread_exit 0) \<and>
     operation_named main_coordinator 0 \<lparr>mb_type = rttid THREAD_EXIT_TYPE, mb_cnts = []\<rparr> = Some (Thread_exit 0) \<and>
     prog_wf (current_program_model c)"
proof -
  have "has_room (current_program_model main_coordinator)"
    "length (trace (current_program_model main_coordinator)) < 4294967294"
    "prog_wf (current_program_model main_coordinator)"
    using main_program_wf
    by (simp_all add: main_coordinator_def main_program_def has_room_def inj_size_def
        invalid_objid_def invalid_rid_def)
  from execution_moves_both [OF this(3,1,2) main_coordinator_step]
  have "prog_wf (started_program (Thread_exit 0))" by auto
  with main_coordinator_step show ?thesis
    by (simp add: started_program_def get_pending_transition_for_def get_transition_for_runner_def
        operation_named_def)
qed

text \<open>
  C7. The model and the process never drift apart: after any sequence of executions and
  returns to earlier depths that raise no exception, the live process is one that was created
  afresh and then ran exactly the runners of the model's trace, in order.
\<close>

theorem coordinator_stays_in_step:
  assumes "prog_wf (current_program_model c)" and "room_for (length ops) (current_program_model c)"
    and "in_step env c" and "fold_res (run_coordinator_op env) ops c = Inr c'"
  shows "in_step env c' \<and> prog_wf (current_program_model c')"
  using assms
proof (induction ops arbitrary: c)
  case (Cons a ops)
  then obtain u where u: "run_coordinator_op env a c = Inr u"
    "fold_res (run_coordinator_op env) ops u = Inr c'"
    by (auto simp: res_simps)
  have "room_for (Suc (length ops)) (current_program_model c)" using Cons.prems(2) by simp
  from coordinator_op_ok [OF Cons.prems(1) this Cons.prems(3) u(1)] Cons.IH [OF _ _ _ u(2)]
  show ?case by blast
qed simp

theorem coordinator_stays_in_step_witness:
  "\<exists>c. fold_res (run_coordinator_op exiting_process) [Execute 0, Return_to 1] main_coordinator = Inr c \<and>
     outside c = [0] \<and> in_step exiting_process c"
proof -
  let ?c1 = "main_coordinator\<lparr>outside := [0], current_program_model := started_program (Thread_exit 0)\<rparr>"
  note restore = started_program_restored [of "Thread_exit 0"]
  have tr: "trace (started_program (Thread_exit 0)) = [Some (Thread_start 0)]"
    by (simp add: started_program_def)
  have "return_to_depth exiting_process 1 ?c1 = Inr ?c1"
    using restore tr
    by (simp add: return_to_depth_def assign_new_process_handle_def ts_count_def replay_slot_def
        exiting_process_def main_coordinator_def)
  then have run: "fold_res (run_coordinator_op exiting_process) [Execute 0, Return_to 1] main_coordinator
      = Inr ?c1"
    using main_coordinator_step by simp
  have "prog_wf (current_program_model main_coordinator)"
    "room_for (length [Execute 0, Return_to 1]) (current_program_model main_coordinator)"
    "in_step exiting_process main_coordinator"
    using main_program_wf
    by (simp_all add: main_coordinator_def main_program_def room_for_def inj_size_def in_step_def
        exiting_process_def invalid_objid_def invalid_rid_def)
  from coordinator_stays_in_step [OF this run] run show ?thesis by simp
qed

text \<open>
  A thread cannot be discovered twice: the map from addresses outlives a backtrack, so when
  the thread's creation comes up again in the restored state, which does not know the thread, the
  callback of \<^verbatim>\<open>pthread_create\<close> tries to observe it anew and the refusal to rebind escapes.
\<close>

lemma rediscovered_thread_throws:
  assumes "prog_wf (current_program_model c)" and "0 < n"
    and "length (trace (current_program_model c)) < 4294967295"
    and "return_to_depth env n c = Inr c'"
    and "map_of (system_address_mapping c) (mb_pointer 0 mb) = Some oid" and "oid \<noteq> invalid_objid"
    and "length (visible_object_indices
      (states_in_sequence (state_seq (current_program_model c)) ! n)) \<le> oid"
  shows "thread_create_callback p mb c' = Inl rebind_error"
proof -
  let ?p = "current_program_model c"
  from assms(4) obtain w0 q w where x: "restore_model_at_depth n ?p = Inr q" "ts_count (trace q) = n"
    "c' = c\<lparr>outside := w, process_alive := True, current_program_model := q\<rparr>"
    by (rule return_to_depth_shape)
  from restore_keeps [OF assms(1,3) x(1,2)] x(2) have n: "n \<le> length (trace ?p)"
    by (simp add: ts_count_def)
  have "n < length (trace ?p) \<longrightarrow> elem_dense (states_in_sequence (state_seq ?p) ! n)"
    using restore_dense [OF assms(1,3) x(1) assms(2) n] .
  with restore_spec [OF assms(1,2) n assms(3)] x(1)
  have st: "states_in_sequence (state_seq q) = take (n + 1) (states_in_sequence (state_seq ?p))" by simp
  have "length (states_in_sequence (state_seq ?p)) = length (trace ?p) + 1"
    using assms(1) by (simp add: prog_wf_def get_num_states_in_sequence_def)
  with st n have "representative_state (state_seq q) = states_in_sequence (state_seq ?p) ! n"
    by (simp add: representative_state_def take_Suc_conv_app_nth)
  with assms(7) have "\<not> element_is_runner (state_seq q) (representative_state (state_seq q)) oid"
    by (simp add: element_is_runner_def element_contains_object_def)
  with assms(5,6) x(3) have "\<not> contains_runner c' (mb_pointer 0 mb)" "contains_addr c' (mb_pointer 0 mb)"
    by (simp_all add: contains_runner_def contains_addr_def get_model_of_runner_def
        get_model_of_object_def seq_view_def element_view_def guarded_def)
  then show ?thesis by (simp add: thread_create_callback_def observe_runner_def Let_def)
qed

text \<open>The mailbox of a thread about to create the thread whose handle is \<open>1\<close>.\<close>

definition create_mailbox :: runner_mailbox where
  "create_mailbox = \<lparr>mb_type = rttid THREAD_CREATE_TYPE, mb_cnts = 1 # replicate 63 0\<rparr>"

lemma create_mailbox_handle [simp]: "mb_pointer 0 create_mailbox = 1"
  by (simp add: mb_pointer_def mb_read_def create_mailbox_def numeral_eq_Suc)

lemma rediscovered_thread_throws_example:
  "\<exists>c c'. current_program_model c = late_runner_program \<and>
     return_to_depth exiting_process 1 c = Inr c' \<and>
     thread_create_callback 0 create_mailbox c' = Inl rebind_error"
proof -
  let ?c = "main_coordinator\<lparr>current_program_model := late_runner_program,
    system_address_mapping := [(1, 1)]\<rparr>"
  have len: "length (trace (current_program_model ?c)) = 2" by (simp add: late_runner_facts)
  from restore_spec [OF late_runner_wf, of 1] late_runner_facts obtain q where q:
    "restore_model_at_depth 1 late_runner_program = Inr q" "trace q = take 1 (trace late_runner_program)"
    by auto
  from q(2) have "trace q = [Some (Thread_start 0)]" by (simp add: late_runner_program_def)
  with q(1) obtain c' where c': "return_to_depth exiting_process 1 ?c = Inr c'"
    by (simp add: return_to_depth_def assign_new_process_handle_def ts_count_def replay_slot_def
        exiting_process_def main_coordinator_def)
  have "thread_create_callback 0 create_mailbox c' = Inl rebind_error"
    using rediscovered_thread_throws [OF _ _ _ c', of create_mailbox 1] late_runner_wf len
      late_runner_facts(4)
    by (simp add: invalid_objid_def)
  with c' show ?thesis by (intro exI [of _ ?c] exI [of _ c']) simp
qed

text \<open>
  A thread created right after a backtrack gets no id: in a state that does not know all
  runners the sequence has recorded, a newly discovered runner's id is beyond what the state
  reports, so the coordinator maps its handle to the invalid object and the transition names the
  invalid runner.
\<close>

lemma late_thread_gets_invalid_id:
  assumes "prog_wf (current_program_model c)" and "has_room (current_program_model c)"
    and "max_visible_runner_id (representative_state (state_seq (current_program_model c)))
      < inj_size (runner_to_obj_map (state_seq (current_program_model c)))"
    and "map_of (system_address_mapping c) (mb_pointer 0 mb) = None"
  shows "\<exists>c'. thread_create_callback p mb c = Inr (Some (Thread_create p invalid_rid), c') \<and>
    get_model_of_object c' (mb_pointer 0 mb) = invalid_objid"
proof -
  let ?p = "current_program_model c"
  let ?ss = "state_seq ?p"
  have w: "seq_wf ?ss" and room: "length (objs ?ss) < invalid_objid"
    "inj_size (runner_to_obj_map ?ss) < invalid_rid"
    using assms(1,2) by (simp_all add: prog_wf_def has_room_def)
  obtain es e where e: "states_in_sequence ?ss = es @ [e]" "representative_state ?ss = e"
    "elem_wf ?ss e" using w by (rule seq_wf_last)
  from seq_add_runner_shape [OF w e(1) room, of "Thread_obj Embryo"] obtain ss where
    ss: "seq_add_runner (Thread_obj Embryo) ?ss = Inr (inj_size (runner_to_obj_map ?ss), ss)"
      "states_in_sequence ss
        = es @ [record_new_runner (point_to_next_state_for (length (objs ?ss)) e)]" by auto
  let ?r = "inj_size (runner_to_obj_map ?ss)"
  have "max_visible_runner_id (representative_state ss) = max_visible_runner_id e + 1"
    using ss(2) assms(3) e(2) room(2)
    by (simp add: representative_state_def record_new_runner_def invalid_rid_def)
  with assms(3) e(2) have "sv_objid_for_runner (seq_view ss) ?r = invalid_objid"
    by (simp add: seq_view_def element_view_def element_objid_for_runner_def
        element_contains_runner_def guarded_def)
  moreover have "\<not> contains_addr c (mb_pointer 0 mb)" "\<not> contains_runner c (mb_pointer 0 mb)"
    using assms(4) by (simp_all add: contains_addr_def contains_runner_def get_model_of_object_def
        get_model_of_runner_def)
  ultimately show ?thesis
    using assms(4) ss(1)
    by (simp add: thread_create_callback_def observe_runner_def discover_runner_def map_address_def
        get_model_of_runner_def get_model_of_object_def map_add_def split: option.split)
qed

lemma late_thread_gets_invalid_id_example:
  "\<exists>q c'. restore_model_at_depth 1 late_runner_program = Inr q \<and>
     thread_create_callback 0 create_mailbox (main_coordinator\<lparr>current_program_model := q\<rparr>)
       = Inr (Some (Thread_create 0 65535), c')"
proof -
  from restore_spec [OF late_runner_wf, of 1] late_runner_facts obtain q where q:
    "restore_model_at_depth 1 late_runner_program = Inr q" "prog_wf q"
    "states_in_sequence (state_seq q) = take (Suc (Suc 0)) (states_in_sequence (state_seq late_runner_program))"
    "runner_to_obj_map (state_seq q) = runner_to_obj_map (state_seq late_runner_program)"
    "length (objs (state_seq q)) = length (objs (state_seq late_runner_program))" by auto
  then have "has_room q" "max_visible_runner_id (representative_state (state_seq q))
      < inj_size (runner_to_obj_map (state_seq q))"
    by (simp_all add: has_room_def late_runner_program_def inj_size_def representative_state_def
        invalid_objid_def invalid_rid_def)
  with q(1,2) late_thread_gets_invalid_id
    [of "main_coordinator\<lparr>current_program_model := q\<rparr>" create_mailbox 0]
  show ?thesis by (auto simp: main_coordinator_def invalid_rid_def)
qed

end
