(* ===== verification/Dpor_Laws.thy ===== *)
theory Dpor_Laws
  imports Dpor Coordinator_Properties
begin

text \<open>
  Laws of the steps of the search that hold whatever the target process does: what an execution
  and a return to a depth make of the trace, what growing the stack and updating backtrack sets
  change, and the invariant of the search, \<open>search_inv\<close>.
\<close>

section \<open>What the coordinator does to the trace\<close>

text \<open>A pending transition is kept under the runner that executes it.\<close>

definition keyed :: "program \<Rightarrow> bool" where
  "keyed p \<longleftrightarrow> (\<forall>(r, t) \<in> set (next_steps p). get_executor t = r)"

lemma set_omap_put: "set (omap_put k v m) \<subseteq> insert (k, v) (set m)"
  by (induction m) auto

lemma keyed_lookup: "keyed p \<Longrightarrow> map_of (next_steps p) r = Some t \<Longrightarrow> get_executor t = r"
  by (auto simp: keyed_def dest: map_of_SomeD)

lemma keyed_put:
  "keyed p \<Longrightarrow> keyed (q\<lparr>next_steps := omap_put (get_executor t) t (next_steps p)\<rparr>)"
  using set_omap_put [of "get_executor t" t "next_steps p"] by (fastforce simp: keyed_def)

lemma keyed_cong: "next_steps p = next_steps q \<Longrightarrow> keyed p \<longleftrightarrow> keyed q"
  by (simp add: keyed_def)

lemma discover_runner_keyed:
  assumes "discover_runner v f p = Inr (r, q)" and "keyed p"
  shows "keyed q \<and> trace q = trace p"
  using assms keyed_put [OF assms(2)]
  by (auto simp: discover_runner_def set_transition_def replace_unowned_def res_simps)

lemma discovers_keyed:
  assumes "discovers c c'" and "keyed (current_program_model c)"
  shows "keyed (current_program_model c') \<and>
    trace (current_program_model c') = trace (current_program_model c)"
proof -
  let ?p = "current_program_model c" and ?q = "current_program_model c'"
  consider "?q = ?p" | v where "?q = snd (discover_object v ?p)"
    | v k where "discover_runner v Thread_start ?p = Inr (k, ?q)"
    using assms(1) by (auto simp: discovers_def)
  then show ?thesis
  proof cases
    case 2
    with assms(2) show ?thesis by (simp add: discover_object_def keyed_def split: prod.splits)
  next
    case 3
    with discover_runner_keyed assms(2) show ?thesis by blast
  qed (use assms(2) in simp)
qed

lemma execute_runner_appends:
  assumes "execute_runner env r c = Inr c'" and "keyed (current_program_model c)"
  shows "keyed (current_program_model c') \<and> (\<exists>t. get_executor t = r \<and>
    trace (current_program_model c') = trace (current_program_model c) @ [Some t])"
proof -
  from assms(1) obtain mb w cb npo c2 p where x:
    "call_callback env cb r mb (c\<lparr>outside := w\<rparr>) = Inr (Some npo, c2)"
    "model_execution_of r npo (current_program_model c2) = Inr p"
    "c' = c2\<lparr>current_program_model := p\<rparr>" by (rule execute_runner_shape)
  from callback_discovers [OF x(1)] have "discovers (c\<lparr>outside := w\<rparr>) c2" by simp
  from discovers_keyed [OF this] assms(2) have k: "keyed (current_program_model c2)"
    "trace (current_program_model c2) = trace (current_program_model c)" by simp_all
  from x(2) obtain t ss where t: "get_executor npo = r"
    "map_of (next_steps (current_program_model c2)) r = Some t"
    "p = (current_program_model c2)\<lparr>state_seq := ss,
      trace := trace (current_program_model c2) @ [Some t],
      next_steps := omap_put r npo (next_steps (current_program_model c2))\<rparr>"
    by (rule model_execution_shape)
  have "keyed p" using keyed_put [OF k(1), where t = npo and q = p] t(1,3) by (simp add: keyed_def)
  with t keyed_lookup [OF k(1) t(2)] k(2) x(3) show ?thesis by simp
qed

lemma collect_indices_above:
  "collect_indices tr b i m = Inr m' \<Longrightarrow> \<forall>e \<in> set m. b < snd e \<Longrightarrow> \<forall>e \<in> set m'. b < snd e"
proof (induction tr b i m arbitrary: m' rule: collect_indices.induct)
  case (1 tr b i m)
  show ?case
  proof (cases "i > b \<and> tr \<noteq> []")
    case False
    with 1(2,3) show ?thesis by (subst (asm) collect_indices.simps) auto
  next
    case True
    with 1(2) obtain slot t where s: "ts_at tr i = Inr slot" "deref slot = Inr t"
      "collect_indices tr b (i - 1) (AList.update (get_executor t) i m) = Inr m'"
      by (subst (asm) collect_indices.simps) (auto simp: res_simps)
    have "\<forall>e \<in> set (AList.update (get_executor t) i m). b < snd e"
      using 1(3) True by (induction m) auto
    with 1(1) [OF True s(3)] show ?thesis by blast
  qed
qed

lemma restore_next_step_keyed:
  "restore_next_step e p = Inr q \<Longrightarrow> keyed p \<Longrightarrow>
   keyed q \<and> (\<exists>x. trace q = (trace p)[snd e := x])"
  using keyed_put [of p]
  by (fastforce simp: restore_next_step_def ts_extract_at_def set_transition_def
      replace_unowned_def res_simps)

lemma restore_trace:
  assumes "restore_model_at_depth n p = Inr q" and "keyed p" and "0 < n" and "n < 4294967296"
    and "ts_count (trace q) = n"
  shows "keyed q \<and> trace q = take n (trace p)"
proof -
  from assms(1) obtain m q1 ss where m:
    "collect_indices (trace p) (u32_minus n 1) (u32_minus (ts_count (trace p)) 1) [] = Inr m"
    "fold_res restore_next_step m p = Inr q1"
    "q = q1\<lparr>trace := ts_consume_into_subsequence n (trace q1), state_seq := ss\<rparr>"
    by (auto simp: restore_model_at_depth_def res_simps)
  have above: "\<forall>e \<in> set m. n \<le> snd e"
    using collect_indices_above [OF m(1)] u32_minus_one_pos [OF assms(3,4)] assms(3)
    by (auto simp: Suc_le_eq)
  let ?I = "\<lambda>q. keyed q \<and> take n (trace q) = take n (trace p)"
  have "?I q1"
    using m(2)
  proof (rule fold_res_invariant [where I = ?I])
    fix e s s'
    assume "e \<in> set m" and "?I s" and "restore_next_step e s = Inr s'"
    with restore_next_step_keyed [of e s s'] above show "?I s'" by fastforce
  qed (use assms(2) in simp)
  moreover have "n \<le> length (trace q1)" "trace q = take n (trace q1)" "next_steps q = next_steps q1"
    using m(3) assms(5) by (auto simp: ts_count_def ts_consume_into_subsequence_def split: if_splits)
  ultimately show ?thesis by (simp add: keyed_def)
qed

lemma return_to_depth_trace:
  assumes "return_to_depth env n c = Inr c'" and "keyed (current_program_model c)"
    and "0 < n" and "n < 4294967296"
  shows "keyed (current_program_model c') \<and> length (trace (current_program_model c')) = n \<and>
    trace (current_program_model c') = take n (trace (current_program_model c))"
proof -
  from assms(1) obtain w0 p w where x:
    "restore_model_at_depth n (current_program_model c) = Inr p" "ts_count (trace p) = n"
    "c' = c\<lparr>outside := w, process_alive := True, current_program_model := p\<rparr>"
    by (rule return_to_depth_shape)
  with restore_trace [OF x(1) assms(2-4) x(2)] show ?thesis by (simp add: ts_count_def)
qed

section \<open>Updating backtrack sets\<close>

text \<open>
  \<open>s'\<close> is \<open>s\<close> with more runners to backtrack on, each of them enabled, awake and not searched.
\<close>

definition schedules :: "stack_item \<Rightarrow> stack_item \<Rightarrow> bool" where
  "schedules s s' \<longleftrightarrow>
     s' = s\<lparr>backtrack_set := backtrack_set s'\<rparr> \<and> set (backtrack_set s) \<subseteq> set (backtrack_set s') \<and>
     set (backtrack_set s') \<subseteq>
       set (backtrack_set s) \<union> (set (enabled_runners s) - set (sleep_set s) - set (done_set s)) \<and>
     (item_wf s \<longrightarrow> item_wf s')"

lemma schedules_refl [simp, intro]: "schedules s s"
  by (simp add: schedules_def)

lemma schedules_fields:
  assumes "schedules s s'"
  shows "si_cv s' = si_cv s" "per_runner_clocks s' = per_runner_clocks s"
    "out_transition s' = out_transition s" "done_set s' = done_set s" "sleep_set s' = sleep_set s"
    "enabled_runners s' = enabled_runners s"
proof -
  from assms obtain b where "s' = s\<lparr>backtrack_set := b\<rparr>" unfolding schedules_def by blast
  then show "si_cv s' = si_cv s" "per_runner_clocks s' = per_runner_clocks s"
    "out_transition s' = out_transition s" "done_set s' = done_set s" "sleep_set s' = sleep_set s"
    "enabled_runners s' = enabled_runners s" by simp_all
qed

lemma schedules_trans:
  assumes "schedules a b" and "schedules b c"
  shows "schedules a c"
proof -
  note f = schedules_fields [OF assms(1)]
  from assms have "c = a\<lparr>backtrack_set := backtrack_set c\<rparr>"
    unfolding schedules_def by (metis stack_item.update_convs(4) stack_item.unfold_congs(4)
      stack_item.fold_congs(4) stack_item.surjective)
  with assms f show ?thesis unfolding schedules_def by auto
qed

lemma insert_schedules:
  "q \<in> set (enabled_runners s) \<Longrightarrow> q \<notin> set (sleep_set s) \<Longrightarrow>
   schedules s (insert_into_backtrack_set_unless_completed q s)"
  using insert_backtrack_wf [of s q]
  by (auto simp: schedules_def insert_into_backtrack_set_unless_completed_def done_set_contains_def)

text \<open>The loop that schedules every awake runner of a list.\<close>

lemma schedule_all:
  fixes f defines "f \<equiv> \<lambda>q s. if \<not> sleep_set_contains s q
    then insert_into_backtrack_set_unless_completed q s else s"
  shows "set qs \<subseteq> set (enabled_runners s) \<Longrightarrow> schedules s (fold f qs s) \<and>
    set (backtrack_set (fold f qs s)) =
      set (backtrack_set s) \<union> (set qs - set (sleep_set s) - set (done_set s))"
proof (induction qs arbitrary: s)
  case (Cons q qs)
  have one: "schedules s (f q s)"
    using Cons.prems by (simp add: f_def sleep_set_contains_def insert_schedules)
  note fs = schedules_fields [OF one]
  have "set (backtrack_set (f q s)) = set (backtrack_set s) \<union> ({q} - set (sleep_set s) - set (done_set s))"
    by (auto simp: f_def sleep_set_contains_def)
  with Cons.IH [of "f q s"] Cons.prems one fs show ?case by (auto intro: schedules_trans)
qed simp

lemma update_with_e_schedules:
  assumes "set e \<subseteq> set (enabled_runners s) - set (sleep_set s)"
  shows "schedules s (update_with_e e s)"
  using assms schedule_all [of "enabled_runners s" s] insert_schedules [of "hd e" s]
  by (cases e) (auto simp: update_with_e_def)

text \<open>Which points are added, given the candidates \<open>e\<close> in order.\<close>

lemma update_with_e_points:
  assumes "sorted e"
  shows "set (backtrack_set (update_with_e e s)) = set (backtrack_set s) \<union>
    ((if e = [] then set (enabled_runners s) - set (sleep_set s)
      else if set e \<inter> set (backtrack_set s) \<noteq> {} then {}
      else {Min (set e)}) - set (done_set s))"
proof (cases e)
  case Nil
  then show ?thesis using schedule_all [of "enabled_runners s" s] by (simp add: update_with_e_def)
next
  case (Cons q qs)
  with assms have "Min (set e) = q" by (simp add: Min_insert2)
  with Cons show ?thesis
    by (auto simp: update_with_e_def backtrack_set_contains_def list_ex_iff)
qed

text \<open>The candidates are the awake enabled runners for which the predicate of the loop holds.\<close>

lemma collect_e_spec:
  assumes "collect_e ctx s i p = Inr e"
  shows "set e = {q \<in> set (enabled_runners s). q \<notin> set (sleep_set s) \<and>
    (q = p \<or> threads_race_after ctx i q p = Inr True)} \<and> sorted e"
proof -
  let ?in_e = "\<lambda>q. q \<notin> set (sleep_set s) \<and> (q = p \<or> threads_race_after ctx i q p = Inr True)"
  let ?f = "\<lambda>q e. bind_res (if q = p then Inr True else threads_race_after ctx i q p) (\<lambda>in_e.
    Inr (if in_e \<and> \<not> sleep_set_contains s q then List.insort_insert q e else e))"
  have "fold_res ?f qs a = Inr e \<Longrightarrow> sorted a \<Longrightarrow>
    set e = set a \<union> {q \<in> set qs. ?in_e q} \<and> sorted e" for qs a
  proof (induction qs arbitrary: a)
    case (Cons q qs)
    from Cons.prems(1) obtain a' where a: "?f q a = Inr a'" "fold_res ?f qs a' = Inr e"
      by (auto simp: res_simps)
    then have "a' = (if ?in_e q then List.insort_insert q a else a)"
      by (auto simp: res_simps sleep_set_contains_def split: if_splits)
    then have "set a' = set a \<union> {x. x = q \<and> ?in_e q} \<and> sorted a'"
      using Cons.prems(2) by (auto simp: set_insort_insert sorted_insort_insert)
    with Cons.IH [OF a(2)] show ?case by auto
  qed simp
  from this [of "enabled_runners s" "[]"] assms show ?thesis by (simp add: collect_e_def)
qed

text \<open>The transition out of the root is always ordered before every thread.\<close>

lemma index_zero_happens_before:
  "happens_before_thread ctx 0 p = Inr b \<Longrightarrow> b"
  by (auto simp: happens_before_thread_def res_simps)

text \<open>One step and any number of steps of an update.\<close>

definition rescheduled :: "'w dpor_context \<Rightarrow> 'w dpor_context \<Rightarrow> bool" where
  "rescheduled ctx ctx' \<longleftrightarrow> ctx_coordinator ctx' = ctx_coordinator ctx \<and>
     length (dpor_stack ctx') = length (dpor_stack ctx) \<and>
     (\<forall>i < length (dpor_stack ctx). schedules (dpor_stack ctx ! i) (dpor_stack ctx' ! i)) \<and>
     (\<forall>i < length (dpor_stack ctx). i = 0 \<or> Suc i = length (dpor_stack ctx) \<longrightarrow>
        dpor_stack ctx' ! i = dpor_stack ctx ! i)"

lemma rescheduled_refl [simp, intro]: "rescheduled ctx ctx"
  by (simp add: rescheduled_def)

lemma rescheduled_trans:
  assumes "rescheduled a b" and "rescheduled b c"
  shows "rescheduled a c"
  using assms unfolding rescheduled_def by (auto intro: schedules_trans)

lemma update_at_index_rescheduled:
  assumes "dynamically_update_backtrack_sets_at_index config S_i t i p ctx = Inr (b, ctx')"
    and "Suc i < length (dpor_stack ctx)"
  shows "rescheduled ctx ctx'"
proof -
  let ?s = "dpor_stack ctx ! i"
  from assms obtain race where r: "has_reversible_race config ctx S_i t i p = Inr race"
    by (auto simp: dynamically_update_backtrack_sets_at_index_def res_simps)
  show ?thesis
  proof (cases race)
    case False
    with assms r show ?thesis by (simp add: dynamically_update_backtrack_sets_at_index_def)
  next
    case True
    with assms r obtain e where e: "collect_e ctx ?s i p = Inr e"
      "ctx' = ctx\<lparr>dpor_stack := (dpor_stack ctx)[i := update_with_e e ?s]\<rparr>"
      by (auto simp: dynamically_update_backtrack_sets_at_index_def res_simps)
    have "i \<noteq> 0"
    proof
      assume "i = 0"
      with r True show False
        using index_zero_happens_before [of ctx p]
        by (auto simp: has_reversible_race_def res_simps split: if_splits)
    qed
    moreover have "schedules ?s (update_with_e e ?s)"
      using collect_e_spec [OF e(1)] by (intro update_with_e_schedules) auto
    ultimately show ?thesis using e(2) assms(2) by (auto simp: rescheduled_def nth_list_update)
  qed
qed

lemma update_below_rescheduled:
  assumes "update_below config t p is ctx = Inr ctx'"
    and "\<forall>i \<in> set is. Suc i < length (dpor_stack ctx)"
  shows "rescheduled ctx ctx'"
  using assms
proof (induction "is" arbitrary: ctx)
  case (Cons i "is")
  from Cons.prems(1) obtain S_i stop ctx1 where s:
    "dynamically_update_backtrack_sets_at_index config S_i t i p ctx = Inr (stop, ctx1)"
    "(if stop then Inr ctx1 else update_below config t p is ctx1) = Inr ctx'"
    by (auto simp: res_simps)
  have r: "rescheduled ctx ctx1" using update_at_index_rescheduled [OF s(1)] Cons.prems(2) by simp
  then have "length (dpor_stack ctx1) = length (dpor_stack ctx)" by (simp add: rescheduled_def)
  with s(2) r Cons.IH [of ctx1] Cons.prems(2) show ?case
    by (cases stop) (auto intro: rescheduled_trans)
qed simp

lemma update_rescheduled:
  assumes "dynamically_update_backtrack_sets config ctx = Inr ctx'"
    and "2 \<le> length (dpor_stack ctx)"
  shows "rescheduled ctx ctx'"
proof -
  let ?top = "length (dpor_stack ctx) - 2"
  let ?step = "\<lambda>S_n rid ctx1. bind_res (pending_of ctx1 rid) (\<lambda>next_sp.
    bind_res (dynamically_update_backtrack_sets_at_index config S_n next_sp ?top rid ctx1)
      (\<lambda>x. Inr (snd x)))"
  from assms(1) obtain S_n rs p t ctx2 where s:
    "fold_res (?step S_n) rs ctx = Inr ctx2"
    "update_below config t p (rev [0..<?top]) ctx2 = Inr ctx'"
    by (auto simp: dynamically_update_backtrack_sets_def Let_def res_simps)
  have "rescheduled ctx ctx2"
    using s(1)
  proof (rule fold_res_invariant [where I = "rescheduled ctx"])
    fix rid c1 c2
    assume c: "rescheduled ctx c1" "?step S_n rid c1 = Inr c2"
    then obtain t b where "dynamically_update_backtrack_sets_at_index config S_n t ?top rid c1 = Inr (b, c2)"
      by (auto simp: res_simps)
    from update_at_index_rescheduled [OF this] c(1) assms(2) have "rescheduled c1 c2"
      by (simp add: rescheduled_def)
    with c(1) show "rescheduled ctx c2" by (rule rescheduled_trans)
  qed simp
  moreover from this have "length (dpor_stack ctx2) = length (dpor_stack ctx)"
    by (simp add: rescheduled_def)
  then have "\<forall>i \<in> set (rev [0..<?top]). Suc i < length (dpor_stack ctx2)" by auto
  with update_below_rescheduled [OF s(2)] have "rescheduled ctx2 ctx'" by simp
  ultimately show ?thesis by (rule rescheduled_trans)
qed

section \<open>Growing the stack\<close>

text \<open>The runners that stay asleep in the new state.\<close>

lemma inherit_sleep_spec:
  assumes "fold_res (\<lambda>rid s. bind_res (deref (f rid)) (\<lambda>t.
      Inr (if P t then insert_into_sleep_set rid s else s))) rs s = Inr s'"
  shows "\<exists>z. s' = s\<lparr>sleep_set := z\<rparr> \<and> (item_wf s \<longrightarrow> item_wf s') \<and>
    set z = set (sleep_set s) \<union> {r \<in> set rs. \<exists>t. f r = Some t \<and> P t}"
  using assms
proof (induction rs arbitrary: s)
  case Nil
  then show ?case by (intro exI [of _ "sleep_set s"]) simp
next
  case (Cons r rs)
  let ?s = "\<lambda>t. if P t then insert_into_sleep_set r s else s"
  from Cons.prems obtain t where t: "f r = Some t" and run: "fold_res (\<lambda>rid s.
      bind_res (deref (f rid)) (\<lambda>t. Inr (if P t then insert_into_sleep_set rid s else s))) rs (?s t)
      = Inr s'"
    by (auto simp: res_simps)
  from Cons.IH [OF run] obtain z where z: "s' = (?s t)\<lparr>sleep_set := z\<rparr>"
    "item_wf (?s t) \<longrightarrow> item_wf s'"
    "set z = set (sleep_set (?s t)) \<union> {r \<in> set rs. \<exists>t. f r = Some t \<and> P t}" by blast
  have "set (sleep_set (?s t)) = set (sleep_set s) \<union> {x. x = r \<and> P t}"
    by (auto simp: insert_into_sleep_set_def)
  then have "set z = set (sleep_set s) \<union> {q \<in> set (r # rs). \<exists>t. f q = Some t \<and> P t}"
    using z(3) t by auto
  moreover have "s' = s\<lparr>sleep_set := z\<rparr>" using z(1) by (simp add: insert_into_sleep_set_def)
  moreover have "item_wf s \<longrightarrow> item_wf s'" using z(2) insert_sleep_wf [of s r] by simp
  ultimately show ?case by blast
qed

text \<open>The clock of the new state: what the items whose transition is dependent know.\<close>

lemma accumulate_join_all:
  "accumulate_max_clock_vector_against config t ctx =
     clk.join_all (map si_cv (filter (\<lambda>s. \<exists>S. out_transition s = Some S \<and> are_dependent config S t)
       (dpor_stack ctx))) []"
proof -
  have "fold (\<lambda>s_i result. case out_transition s_i of
        Some S_i \<Rightarrow> if are_dependent config S_i t then cv_max result (si_cv s_i) else result
      | None \<Rightarrow> result) ss a =
    clk.join_all (map si_cv (filter (\<lambda>s. \<exists>S. out_transition s = Some S \<and> are_dependent config S t) ss)) a"
    for ss a
    by (induction ss arbitrary: a) (auto split: option.splits)
  then show ?thesis by (simp add: accumulate_max_clock_vector_against_def)
qed

lemma accumulate_wf:
  "\<forall>s \<in> set (dpor_stack ctx). item_wf s \<Longrightarrow> cv_wf (accumulate_max_clock_vector_against config t ctx)"
  unfolding accumulate_join_all by (intro clk.join_all_wf) (auto simp: item_wf_def)

lemma grow_shape:
  assumes "grow_stack_after_running config ctx = Inr ctx'"
    and wf: "\<forall>s \<in> set (dpor_stack ctx). item_wf s"
  obtains t_n s_n new cv where
    "length (trace (ctx_program ctx)) = length (dpor_stack ctx)" "dpor_stack ctx \<noteq> []"
    "trace (ctx_program ctx) \<noteq> []" "last (trace (ctx_program ctx)) = Some t_n"
    "s_n = last (dpor_stack ctx)" "get_executor t_n < MAX_TOTAL_THREADS_IN_PROGRAM"
    "cv = cv_set (get_executor t_n) (get_depth_into_program (ctx_coordinator ctx))
       (accumulate_max_clock_vector_against config t_n ctx)"
    "ctx' = ctx\<lparr>dpor_stack := butlast (dpor_stack ctx) @
       [mark_searched (get_executor t_n) (insert_into_sleep_set (get_executor t_n)
          (set_out_transition (Some t_n) s_n)), new]\<rparr>"
    "si_cv new = cv" "out_transition new = Some t_n" "backtrack_set new = []" "done_set new = []"
    "get_enabled_runners (ctx_program ctx) = Inr (enabled_runners new)" "item_wf new"
    "per_runner_clocks new = (per_runner_clocks s_n)[get_executor t_n :=
       set_clock_vector cv (per_runner_clocks s_n ! get_executor t_n)]"
    "set (sleep_set new) = {r \<in> set (sleep_set s_n). \<exists>x.
       get_pending_transition_for (ctx_program ctx) r = Some x \<and> are_independent config x t_n}"
proof -
  let ?stack = "dpor_stack ctx" and ?p = "ctx_program ctx"
  let ?s_n = "last ?stack" and ?depth = "get_depth_into_program (ctx_coordinator ctx)"
  from assms(1) have depth: "?depth = length ?stack"
    by (simp add: grow_stack_after_running_def Let_def split: if_splits)
  from assms(1) obtain t_n ri enabled new where g: "trace ?p \<noteq> []" "last (trace ?p) = Some t_n"
    "?stack \<noteq> []" "clocks_at (per_runner_clocks ?s_n) (get_executor t_n) = Inr ri"
    "get_enabled_runners ?p = Inr enabled"
    and f: "fold_res (\<lambda>rid s. bind_res (deref (get_pending_transition_for ?p rid)) (\<lambda>t.
        Inr (if are_independent config t t_n then insert_into_sleep_set rid s else s)))
      (sleep_set ?s_n)
      (new_stack_item (cv_set (get_executor t_n) ?depth
           (accumulate_max_clock_vector_against config t_n ctx))
         ((per_runner_clocks ?s_n)[get_executor t_n := set_clock_vector (cv_set (get_executor t_n)
            ?depth (accumulate_max_clock_vector_against config t_n ctx)) ri])
         (Some t_n) enabled) = Inr new"
    and c: "ctx' = ctx\<lparr>dpor_stack := butlast ?stack @
       [mark_searched (get_executor t_n) (insert_into_sleep_set (get_executor t_n)
          (set_out_transition (Some t_n) ?s_n)), new]\<rparr>"
    by (auto simp: grow_stack_after_running_def Let_def res_simps ts_back_def split: if_splits)
  let ?cv = "cv_set (get_executor t_n) ?depth (accumulate_max_clock_vector_against config t_n ctx)"
  let ?clocks = "(per_runner_clocks ?s_n)[get_executor t_n := set_clock_vector ?cv ri]"
  have s_n: "item_wf ?s_n" using wf g(3) by simp
  have ri: "get_executor t_n < MAX_TOTAL_THREADS_IN_PROGRAM"
    "ri = per_runner_clocks ?s_n ! get_executor t_n"
    using g(4) s_n by (auto simp: clocks_at_def item_wf_def split: if_splits)
  have cvw: "cv_wf ?cv" using accumulate_wf [OF wf] by (rule cv_set_wf)
  have "\<forall>x \<in> set ?clocks. cv_wf (ri_cv x)"
    using s_n cvw set_update_subset_insert [of "per_runner_clocks ?s_n" "get_executor t_n"]
    by (fastforce simp: item_wf_def set_clock_vector_def)
  then have "item_wf (new_stack_item ?cv ?clocks (Some t_n) enabled)"
    using cvw s_n by (intro new_item_wf) (simp_all add: item_wf_def)
  with inherit_sleep_spec [OF f] obtain z where
    z: "new = (new_stack_item ?cv ?clocks (Some t_n) enabled)\<lparr>sleep_set := z\<rparr>" "item_wf new"
    "set z = {r \<in> set (sleep_set ?s_n). \<exists>x.
       get_pending_transition_for ?p r = Some x \<and> are_independent config x t_n}"
    by (auto simp: new_stack_item_def)
  then have fields: "si_cv new = ?cv" "out_transition new = Some t_n" "backtrack_set new = []"
    "done_set new = []" "enabled_runners new = enabled" "per_runner_clocks new = ?clocks"
    "sleep_set new = z"
    by (simp_all add: new_stack_item_def)
  have "length (trace ?p) = length ?stack"
    using depth by (simp add: get_depth_into_program_def ts_count_def)
  with that [of t_n ?s_n ?cv new] g c ri z(2,3) fields show ?thesis by simp
qed

section \<open>The invariant of the search\<close>

text \<open>
  A runner that was searched sleeps, a runner to backtrack on is enabled and awake.
\<close>

definition item_ok :: "stack_item \<Rightarrow> bool" where
  "item_ok s \<longleftrightarrow> item_wf s \<and> set (done_set s) \<subseteq> set (sleep_set s) \<and>
     set (backtrack_set s) \<subseteq> set (enabled_runners s) - set (sleep_set s)"

text \<open>
  Each transition of the trace is the one out of its item, and its executor was searched there.
\<close>

definition follows_trace :: "transition_sequence \<Rightarrow> stack_item list \<Rightarrow> bool" where
  "follows_trace tr stack \<longleftrightarrow> (\<forall>i < length tr. out_transition (stack ! i) = tr ! i \<and>
     (\<exists>t. tr ! i = Some t \<and> get_executor t \<in> set (done_set (stack ! i))))"

lemma follows_trace_take:
  assumes "follows_trace tr (below @ rest)" and "length below \<le> length tr"
  shows "follows_trace (take (length below) tr) below"
  unfolding follows_trace_def
proof (intro allI impI)
  fix i assume "i < length (take (length below) tr)"
  then have "i < length below" "i < length tr" by simp_all
  with assms(1) show "out_transition (below ! i) = take (length below) tr ! i \<and>
      (\<exists>t. take (length below) tr ! i = Some t \<and> get_executor t \<in> set (done_set (below ! i)))"
    by (auto simp: follows_trace_def nth_append dest: spec [of _ i])
qed

text \<open>
  The stack has an item for each transition of the trace and one on top, which is untouched and
  knows what the model has enabled. The root has no runner to backtrack on.
\<close>

definition search_inv :: "'w dpor_context \<Rightarrow> bool" where
  "search_inv ctx \<longleftrightarrow>
     (let stack = dpor_stack ctx; tr = trace (ctx_program ctx) in
      keyed (ctx_program ctx) \<and> length stack = Suc (length tr) \<and> follows_trace tr stack \<and>
      (\<forall>s \<in> set stack. item_ok s) \<and> backtrack_set (hd stack) = [] \<and>
      backtrack_set (last stack) = [] \<and> done_set (last stack) = [] \<and>
      get_enabled_runners (ctx_program ctx) = Inr (enabled_runners (last stack)))"

lemma schedules_item_ok: "schedules s s' \<Longrightarrow> item_ok s \<Longrightarrow> item_ok s'"
  using schedules_fields [of s s'] unfolding item_ok_def schedules_def by auto

text \<open>The shape of the stack after a step by \<open>r\<close> from the item \<open>s\<close> on top of \<open>below\<close>.\<close>

definition grown :: "stack_item list \<Rightarrow> stack_item \<Rightarrow> runner_id \<Rightarrow> stack_item list \<Rightarrow> bool" where
  "grown below s r stack \<longleftrightarrow>
     length stack = length below + 2 \<and> r < MAX_TOTAL_THREADS_IN_PROGRAM \<and>
     (\<forall>i < length below. done_set (stack ! i) = done_set (below ! i)) \<and>
     done_set (stack ! length below) = set_insert r (done_set s)"

lemma grow_stack_grown:
  assumes grow: "grow_stack_after_running config ctx = Inr ctx'"
    and stack: "dpor_stack ctx = below @ [s]"
    and tr: "trace (ctx_program ctx) = tr @ [Some t]" "get_executor t = r" "length tr = length below"
    and foll: "follows_trace tr below" and ok: "\<forall>s \<in> set below. item_ok s"
    and s: "item_wf s" "set (done_set s) \<subseteq> insert r (set (sleep_set s))"
      "set (backtrack_set s) \<subseteq> set (enabled_runners s) - set (sleep_set s)"
    and root: "below = [] \<Longrightarrow> backtrack_set s = []" "below \<noteq> [] \<Longrightarrow> backtrack_set (hd below) = []"
    and key: "keyed (ctx_program ctx)"
  shows "search_inv ctx' \<and> ctx_coordinator ctx' = ctx_coordinator ctx \<and>
    grown below s r (dpor_stack ctx')"
proof -
  have "\<forall>s \<in> set (dpor_stack ctx). item_wf s" using ok s stack by (auto simp: item_ok_def)
  note shape = grow_shape [OF grow this]
  obtain t_n s_n new where g:
    "last (trace (ctx_program ctx)) = Some t_n" "s_n = last (dpor_stack ctx)"
    "get_executor t_n < MAX_TOTAL_THREADS_IN_PROGRAM"
    "ctx' = ctx\<lparr>dpor_stack := butlast (dpor_stack ctx) @
       [mark_searched (get_executor t_n) (insert_into_sleep_set (get_executor t_n)
          (set_out_transition (Some t_n) s_n)), new]\<rparr>"
    "backtrack_set new = []" "done_set new = []" "item_wf new"
    "get_enabled_runners (ctx_program ctx) = Inr (enabled_runners new)"
    by (rule shape, rule that)
  let ?s = "mark_searched r (insert_into_sleep_set r (set_out_transition (Some t) s))"
  have e: "t_n = t" "s_n = s" using g(1,2) tr(1) stack by simp_all
  have ctx': "ctx' = ctx\<lparr>dpor_stack := below @ [?s, new]\<rparr>" using g(4) e stack tr(2) by simp
  have r: "r < MAX_TOTAL_THREADS_IN_PROGRAM" using g(3) e tr(2) by simp
  have f: "done_set ?s = set_insert r (done_set s)" "out_transition ?s = Some t"
    "backtrack_set ?s = set_erase r (backtrack_set s)" "sleep_set ?s = set_insert r (sleep_set s)"
    "enabled_runners ?s = enabled_runners s"
    by (simp_all add: mark_searched_def insert_into_sleep_set_def set_out_transition_def)
  have wf: "item_wf ?s" using s(1) r by (intro mark_searched_wf insert_sleep_wf set_out_wf)
  have "item_ok ?s" unfolding item_ok_def f(1,3,4,5) using wf s(2,3) by auto
  moreover have "item_ok new" using g(5-7) by (simp add: item_ok_def)
  moreover have "follows_trace (tr @ [Some t]) (below @ [?s, new])"
    using foll tr f(1,2) by (auto simp: follows_trace_def nth_append less_Suc_eq)
  moreover have "backtrack_set (hd (below @ [?s, new])) = []"
    using root f(3) by (cases below) (simp_all add: set_erase_def)
  moreover have "grown below s r (below @ [?s, new])"
    using r f(1) by (simp add: grown_def nth_append)
  ultimately show ?thesis
    using ctx' key tr(1,3) ok g(5,6,8) by (simp add: search_inv_def Let_def)
qed

lemma rescheduled_fields:
  assumes "rescheduled ctx ctx'" and "i < length (dpor_stack ctx)"
  shows "done_set (dpor_stack ctx' ! i) = done_set (dpor_stack ctx ! i)"
    "out_transition (dpor_stack ctx' ! i) = out_transition (dpor_stack ctx ! i)"
  using assms schedules_fields [of "dpor_stack ctx ! i" "dpor_stack ctx' ! i"]
  by (simp_all add: rescheduled_def)

lemma rescheduled_inv:
  assumes r: "rescheduled ctx ctx'" and inv: "search_inv ctx"
  shows "search_inv ctx'"
proof -
  let ?st = "dpor_stack ctx" and ?st' = "dpor_stack ctx'"
  have len: "length ?st' = length ?st" and p: "ctx_program ctx' = ctx_program ctx"
    and same: "\<And>i. i < length ?st \<Longrightarrow> i = 0 \<or> Suc i = length ?st \<Longrightarrow> ?st' ! i = ?st ! i"
    and sch: "\<And>i. i < length ?st \<Longrightarrow> schedules (?st ! i) (?st' ! i)"
    using r unfolding rescheduled_def by auto
  have ne: "?st \<noteq> []" and t: "length ?st = Suc (length (trace (ctx_program ctx)))"
    using inv by (auto simp: search_inv_def Let_def)
  then have ne': "?st' \<noteq> []" using len by (metis length_0_conv)
  have "hd ?st' = hd ?st" "last ?st' = last ?st"
    using same [of 0] same [of "length ?st - 1"] ne ne' len t by (simp_all add: hd_conv_nth last_conv_nth)
  moreover have "\<forall>s \<in> set ?st'. item_ok s"
  proof
    fix s assume "s \<in> set ?st'"
    then obtain i where i: "i < length ?st" "s = ?st' ! i" by (metis in_set_conv_nth len)
    then have "item_ok (?st ! i)" using inv by (simp add: search_inv_def Let_def)
    with sch [OF i(1)] i(2) show "item_ok s" by (simp add: schedules_item_ok)
  qed
  moreover have "follows_trace (trace (ctx_program ctx)) ?st'"
    using inv t rescheduled_fields [OF r] by (simp add: search_inv_def Let_def follows_trace_def)
  ultimately show ?thesis using inv len p by (simp add: search_inv_def Let_def)
qed

lemma grown_rescheduled:
  assumes "grown below s r (dpor_stack ctx)" and "rescheduled ctx ctx'"
  shows "grown below s r (dpor_stack ctx')"
proof -
  have "length (dpor_stack ctx') = length (dpor_stack ctx)" using assms(2) by (simp add: rescheduled_def)
  with assms(1) rescheduled_fields(1) [OF assms(2)] show ?thesis by (simp add: grown_def)
qed

section \<open>Expanding a trace\<close>

lemma expand_grown:
  assumes run: "continue_dpor_by_expanding_trace_with config env r ctx = Inr ctx'"
    and stack: "dpor_stack ctx = below @ [s]"
    and tr: "length (trace (ctx_program ctx)) = length below"
    and foll: "follows_trace (trace (ctx_program ctx)) below" and ok: "\<forall>s \<in> set below. item_ok s"
    and s: "item_wf s" "set (done_set s) \<subseteq> insert r (set (sleep_set s))"
      "set (backtrack_set s) \<subseteq> set (enabled_runners s) - set (sleep_set s)"
    and root: "below = [] \<Longrightarrow> backtrack_set s = []" "below \<noteq> [] \<Longrightarrow> backtrack_set (hd below) = []"
    and key: "keyed (ctx_program ctx)"
  shows "search_inv ctx' \<and> grown below s r (dpor_stack ctx')"
proof -
  from run obtain c ctx1 where c: "execute_runner env r (ctx_coordinator ctx) = Inr c"
    "grow_stack_after_running config (ctx\<lparr>ctx_coordinator := c\<rparr>) = Inr ctx1"
    "dynamically_update_backtrack_sets config ctx1 = Inr ctx'"
    by (auto simp: continue_dpor_by_expanding_trace_with_def res_simps)
  from execute_runner_appends [OF c(1) key] obtain t where t: "keyed (current_program_model c)"
    "get_executor t = r"
    "trace (current_program_model c) = trace (ctx_program ctx) @ [Some t]" by blast
  have g: "search_inv ctx1 \<and> grown below s r (dpor_stack ctx1)"
    using grow_stack_grown [OF c(2) _ _ t(2) tr foll ok s root] stack t(1,3) by simp
  then have "2 \<le> length (dpor_stack ctx1)" by (simp add: grown_def)
  from update_rescheduled [OF c(3) this] g show ?thesis
    by (blast intro: rescheduled_inv grown_rescheduled)
qed

text \<open>A step of the exploration, from the top of the stack.\<close>

lemma explore_grown:
  assumes inv: "search_inv ctx"
    and run: "continue_dpor_by_expanding_trace_with config env r ctx = Inr ctx'"
  shows "search_inv ctx' \<and> grown (butlast (dpor_stack ctx)) (last (dpor_stack ctx)) r (dpor_stack ctx')"
proof -
  let ?st = "dpor_stack ctx"
  have i: "length ?st = Suc (length (trace (ctx_program ctx)))" "follows_trace (trace (ctx_program ctx)) ?st"
    "\<forall>s \<in> set ?st. item_ok s" "backtrack_set (hd ?st) = []" "backtrack_set (last ?st) = []"
    "done_set (last ?st) = []" "keyed (ctx_program ctx)"
    using inv by (simp_all add: search_inv_def Let_def)
  then have ne: "?st \<noteq> []" by auto
  then have "item_ok (last ?st)" using i(3) by simp
  moreover have "follows_trace (trace (ctx_program ctx)) (butlast ?st)"
    using i(1,2) by (simp add: follows_trace_def nth_butlast)
  moreover have "butlast ?st \<noteq> [] \<Longrightarrow> hd (butlast ?st) = hd ?st"
    using ne by (metis append_butlast_last_id hd_append2)
  ultimately show ?thesis
    using i ne by (intro expand_grown [OF run])
      (auto simp: item_ok_def dest: in_set_butlastD)
qed

text \<open>A step that follows a backtrack point, after the coordinator has returned.\<close>

lemma follow_grown:
  assumes ok: "\<forall>s \<in> set (below @ [s]). item_ok s" and foll: "follows_trace (trace (ctx_program ctx)) below"
    and tr: "length (trace (ctx_program ctx)) = length below" and key: "keyed (ctx_program ctx)"
    and ne: "backtrack_set s \<noteq> []" "below \<noteq> []" and root: "backtrack_set (hd below) = []"
    and r: "r \<in> set (backtrack_set s)" "r < MAX_TOTAL_THREADS_IN_PROGRAM"
    and run: "continue_dpor_by_expanding_trace_with config env r
      (ctx\<lparr>dpor_stack := below @ [mark_searched r s]\<rparr>) = Inr ctx'"
  shows "search_inv ctx' \<and> grown below (mark_searched r s) r (dpor_stack ctx')"
proof -
  have "item_ok s" using ok by simp
  then show ?thesis
    using ok foll tr key ne root r(2)
    by (intro expand_grown [OF run]) (auto simp: item_ok_def mark_searched_wf, auto simp: mark_searched_def)
qed

lemma expanded_runner_bound:
  assumes run: "continue_dpor_by_expanding_trace_with config env r ctx = Inr ctx'"
    and key: "keyed (ctx_program ctx)"
    and len: "length (per_runner_clocks (last (dpor_stack ctx))) = MAX_TOTAL_THREADS_IN_PROGRAM"
  shows "r < MAX_TOTAL_THREADS_IN_PROGRAM"
proof -
  from run obtain c ctx1 where c: "execute_runner env r (ctx_coordinator ctx) = Inr c"
    "grow_stack_after_running config (ctx\<lparr>ctx_coordinator := c\<rparr>) = Inr ctx1"
    by (auto simp: continue_dpor_by_expanding_trace_with_def res_simps)
  from execute_runner_appends [OF c(1) key] obtain t where t: "get_executor t = r"
    "trace (current_program_model c) = trace (ctx_program ctx) @ [Some t]" by blast
  then have "ts_back (trace (current_program_model c)) = Inr (Some t)"
    by (simp add: ts_back_def vec_back_def)
  with c(2) t(1) obtain ri where "clocks_at (per_runner_clocks (last (dpor_stack ctx))) r = Inr ri"
    by (auto simp: grow_stack_after_running_def Let_def res_simps split: if_splits)
  with len show ?thesis by (auto simp: clocks_at_def split: if_splits)
qed

section \<open>Backtracking\<close>

lemma pop_exhausted_spec:
  "pop_exhausted stack = [] \<or> (\<exists>below s rest. stack = below @ s # rest \<and>
     backtrack_set s \<noteq> [] \<and> pop_exhausted stack = below @ [s])"
proof (cases "dropWhile backtrack_set_empty (rev stack)")
  case Nil
  then show ?thesis by (simp add: pop_exhausted_def)
next
  case (Cons s rs)
  then have "\<not> backtrack_set_empty s" by (metis dropWhile_eq_Cons_conv)
  moreover have "rev stack = takeWhile backtrack_set_empty (rev stack) @ s # rs"
    using Cons takeWhile_dropWhile_id [of backtrack_set_empty "rev stack"] by simp
  then have "stack = rev rs @ s # rev (takeWhile backtrack_set_empty (rev stack))"
    by (metis rev_append rev_rev_ident rev.simps(2) append_assoc append_Cons append_Nil)
  ultimately show ?thesis using Cons
    by (intro disjI2 exI [of _ "rev rs"] exI [of _ s]
        exI [of _ "rev (takeWhile backtrack_set_empty (rev stack))"]) (auto simp: pop_exhausted_def backtrack_set_empty_def)
qed

lemma grown_mark_searched: "grown below (mark_searched r s) r stack \<Longrightarrow> grown below s r stack"
  by (simp add: grown_def mark_searched_def set_insert_def)

text \<open>What a search that goes on after following a backtrack point has done.\<close>

lemma follow_shape:
  assumes "follow_backtrack_point config cb env st = Continue st'"
    and stack: "dpor_stack (ds_context st) = below @ [s]" and ne: "backtrack_set s \<noteq> []"
  obtains c r ctx where "return_to_depth env (length below) (ctx_coordinator (ds_context st)) = Inr c"
    "r \<in> set (backtrack_set s)"
    "continue_dpor_by_expanding_trace_with config env r
      ((ds_context st)\<lparr>ctx_coordinator := c, dpor_stack := below @ [mark_searched r s]\<rparr>) = Inr ctx"
    "ds_context st' = ctx"
proof -
  let ?r = "Min (set (backtrack_set s))"
  have not_catch: "catch_return cb x e \<noteq> Continue st'" "catch_follow cb x e \<noteq> Continue st'" for x e
    by (cases e; simp)+
  from assms(1) obtain c where c:
    "return_to_depth env (length below) (ctx_coordinator (ds_context st)) = Inr c"
    using not_catch stack by (auto simp: follow_backtrack_point_def Let_def split: sum.splits)
  with assms(1) obtain ctx where "continue_dpor_by_expanding_trace_with config env ?r
      ((ds_context st)\<lparr>ctx_coordinator := c, dpor_stack := below @ [mark_searched ?r s]\<rparr>) = Inr ctx"
    "ds_context st' = ctx"
    using not_catch stack pop_first_spec [OF ne]
    by (auto simp: follow_backtrack_point_def Let_def split: sum.splits)
  with c ne that [of c ?r ctx] show ?thesis by simp
qed

end
