(* ===== verification/Dpor_Termination.thy ===== *)
theory Dpor_Termination
  imports Dpor_Laws
begin

text \<open>
  The search ends, whatever the target process answers: each pass through the loop of
  \<open>verify_using\<close> that goes on keeps \<open>search_inv\<close> and the depth bound of the configuration and
  lowers a potential. The potential counts, for every item on the stack, the threads not yet searched
  from it, weighted by how much of the tree lies above the item.
\<close>

section \<open>The potential\<close>

abbreviation depth_bound :: "configuration \<Rightarrow> nat" where
  "depth_bound config \<equiv> max 1 (maximum_total_execution_depth config)"

definition unsearched :: "stack_item \<Rightarrow> nat" where
  "unsearched s = MAX_TOTAL_THREADS_IN_PROGRAM - length (done_set s)"

definition potential :: "nat \<Rightarrow> stack_item list \<Rightarrow> nat" where
  "potential D stack =
     (\<Sum>i < length stack. unsearched (stack ! i) * (MAX_TOTAL_THREADS_IN_PROGRAM + 1) ^ (D - i))"

lemma potential_snoc:
  "potential D (below @ [s]) =
     potential D below + unsearched s * (MAX_TOTAL_THREADS_IN_PROGRAM + 1) ^ (D - length below)"
  by (simp add: potential_def nth_append)

lemma potential_snoc2:
  "potential D (below @ [s, u]) =
     potential D below + unsearched s * (MAX_TOTAL_THREADS_IN_PROGRAM + 1) ^ (D - length below)
     + unsearched u * (MAX_TOTAL_THREADS_IN_PROGRAM + 1) ^ (D - Suc (length below))"
  using potential_snoc [of D "below @ [s]" u] by (simp add: potential_snoc)

lemma potential_prefix: "potential D below \<le> potential D (below @ rest)"
  by (induction rest rule: rev_induct) (simp_all add: potential_snoc append_assoc [symmetric] del: append_assoc)

lemma potential_cong:
  assumes "length xs = length ys" and "\<And>i. i < length xs \<Longrightarrow> done_set (xs ! i) = done_set (ys ! i)"
  shows "potential D xs = potential D ys"
  using assms by (simp add: potential_def unsearched_def)

lemma searched_bound:
  assumes "item_wf s" and "r < MAX_TOTAL_THREADS_IN_PROGRAM" and "r \<notin> set (done_set s)"
  shows "length (done_set s) < MAX_TOTAL_THREADS_IN_PROGRAM"
proof -
  have "card (insert r (set (done_set s))) \<le> card {..<MAX_TOTAL_THREADS_IN_PROGRAM}"
    using assms by (intro card_mono) (auto simp: item_wf_def)
  with assms show ?thesis by (simp add: item_wf_def distinct_card)
qed

text \<open>Searching one more runner from an item pays for the whole item on top of it.\<close>

lemma grown_lowers_potential:
  assumes g: "grown below s r stack" and wf: "item_wf s" and r: "r \<notin> set (done_set s)"
    and d: "length below < D"
  shows "potential D stack < potential D (below @ [s])"
proof -
  let ?T = MAX_TOTAL_THREADS_IN_PROGRAM and ?n = "length below"
  let ?w = "\<lambda>i. (?T + 1) ^ (D - i)"
  from g have len: "length stack = Suc (Suc ?n)" and rT: "r < ?T"
    and same: "\<And>i. i < ?n \<Longrightarrow> done_set (stack ! i) = done_set (below ! i)"
    and top: "done_set (stack ! ?n) = set_insert r (done_set s)" by (auto simp: grown_def)
  have stack: "stack = take ?n stack @ [stack ! ?n] @ [stack ! Suc ?n]"
    using len by (intro nth_equalityI) (auto simp: nth_append less_Suc_eq)
  have "potential D (take ?n stack) = potential D below"
    using len same by (intro potential_cong) simp_all
  moreover have "potential D stack = potential D (take ?n stack) + unsearched (stack ! ?n) * ?w ?n
      + unsearched (stack ! Suc ?n) * ?w (Suc ?n)"
    using len potential_snoc2 [of D "take ?n stack" "stack ! ?n" "stack ! Suc ?n"] stack by simp
  moreover have "length (done_set s) < ?T" using searched_bound [OF wf rT r] .
  then have "unsearched s = Suc (unsearched (stack ! ?n))"
    using top r by (simp add: unsearched_def set_insert_def)
  moreover have "unsearched (stack ! Suc ?n) * ?w (Suc ?n) < ?w ?n"
  proof -
    have "?w ?n = (?T + 1) * ?w (Suc ?n)" using d by (simp add: Suc_diff_Suc flip: power_Suc)
    moreover have "unsearched (stack ! Suc ?n) * ?w (Suc ?n) < (?T + 1) * ?w (Suc ?n)"
      by (intro mult_strict_right_mono) (simp_all add: unsearched_def)
    ultimately show ?thesis by simp
  qed
  ultimately show ?thesis by (simp add: potential_snoc)
qed

section \<open>A pass through the loop\<close>

definition loop_inv :: "configuration \<Rightarrow> 'w dpor_state \<Rightarrow> bool" where
  "loop_inv config st \<longleftrightarrow> search_inv (ds_context st) \<and>
     length (dpor_stack (ds_context st)) \<le> depth_bound config"

abbreviation state_potential :: "configuration \<Rightarrow> 'w dpor_state \<Rightarrow> nat" where
  "state_potential config st \<equiv> potential (depth_bound config) (dpor_stack (ds_context st))"

lemma explore_phase_inv:
  assumes "loop_inv config st" and "explore_phase config cb env st = Continue st'"
  shows "loop_inv config st' \<and> state_potential config st' < state_potential config st"
proof -
  let ?stack = "dpor_stack (ds_context st)"
  let ?r = "get_first_enabled_runner (last ?stack)"
  have inv: "search_inv (ds_context st)" using assms(1) by (simp add: loop_inv_def)
  have not_catch: "catch_exploration cb x e \<noteq> Continue st'" for x e by (cases e; simp)
  from assms(2) not_catch have d: "length ?stack < maximum_total_execution_depth config"
    and run: "continue_dpor_by_expanding_trace_with config env ?r (ds_context st) = Inr (ds_context st')"
    by (auto simp: explore_phase_def Let_def split: if_splits sum.splits)
  from explore_grown [OF inv run] have g: "search_inv (ds_context st')"
    "grown (butlast ?stack) (last ?stack) ?r (dpor_stack (ds_context st'))" by simp_all
  from inv have ne: "?stack \<noteq> []" and ok: "\<forall>s \<in> set ?stack. item_ok s"
    and empty: "done_set (last ?stack) = []" by (auto simp: search_inv_def Let_def)
  have "item_wf (last ?stack)" using ok ne by (simp add: item_ok_def)
  moreover have "length (butlast ?stack) < depth_bound config" using d by simp
  ultimately have "state_potential config st' < state_potential config st"
    using grown_lowers_potential [OF g(2)] empty ne by simp
  moreover have "length (dpor_stack (ds_context st')) \<le> depth_bound config"
    using g(2) d ne by (simp add: grown_def)
  ultimately show ?thesis using g(1) by (simp add: loop_inv_def)
qed

lemma backtrack_phase_inv:
  assumes "loop_inv config st" and "maximum_total_execution_depth config < 4294967296"
    and "backtrack_phase config cb env st = Continue st'"
  shows "loop_inv config st' \<and> state_potential config st' < state_potential config st"
proof -
  let ?ctx = "ds_context st" and ?stack = "dpor_stack (ds_context st)"
  let ?st2 = "\<lambda>b. add_event b (Deadlock_found (ds_stats st))
    (add_event (cb_trace_completed cb) (Trace_completed (ds_stats st)) st)"
  have ev: "ds_context (add_event b e x) = ds_context x" "ds_stats (add_event b e x) = ds_stats x"
    for b e and x :: "'a dpor_state" by (simp_all add: add_event_def)
  from assms(3) obtain b where ne: "pop_exhausted ?stack \<noteq> []"
    and fol: "follow_backtrack_point config cb env (set_stack (pop_exhausted ?stack) (?st2 b)) = Continue st'"
    by (auto simp: backtrack_phase_def Let_def ev split: sum.splits if_splits)
  from ne pop_exhausted_spec [of ?stack] obtain below s rest where s: "?stack = below @ s # rest"
    "backtrack_set s \<noteq> []" "pop_exhausted ?stack = below @ [s]" by auto
  from assms(1) have inv: "keyed (ctx_program ?ctx)" "length ?stack = Suc (length (trace (ctx_program ?ctx)))"
    "follows_trace (trace (ctx_program ?ctx)) ?stack" "\<forall>s \<in> set ?stack. item_ok s"
    "backtrack_set (hd ?stack) = []" "backtrack_set (last ?stack) = []"
    and len: "length ?stack \<le> depth_bound config"
    by (simp_all add: loop_inv_def search_inv_def Let_def)
  have below: "below \<noteq> []" "backtrack_set (hd below) = []" using inv(5) s(1,2) by (cases below; auto)+
  have "rest \<noteq> []" using inv(6) s(1,2) by auto
  then have short: "Suc (length below) < length ?stack" using s(1) by (cases rest) simp_all
  have ok: "\<forall>x \<in> set (below @ [s]). item_ok x" using inv(4) s(1) by simp
  let ?st3 = "set_stack (pop_exhausted ?stack) (?st2 b)"
  have st3: "dpor_stack (ds_context ?st3) = below @ [s]" "ctx_coordinator (ds_context ?st3) = ctx_coordinator ?ctx"
    "(ds_context ?st3)\<lparr>ctx_coordinator := c, dpor_stack := x\<rparr> = ?ctx\<lparr>ctx_coordinator := c, dpor_stack := x\<rparr>"
    for c x using s(3) by (simp_all add: set_stack_def ev)
  obtain c r ctx where f0:
    "return_to_depth env (length below) (ctx_coordinator (ds_context ?st3)) = Inr c"
    "r \<in> set (backtrack_set s)"
    "continue_dpor_by_expanding_trace_with config env r
      ((ds_context ?st3)\<lparr>ctx_coordinator := c, dpor_stack := below @ [mark_searched r s]\<rparr>) = Inr ctx"
    "ds_context st' = ctx"
    using fol st3(1) s(2) by (rule follow_shape)
  note f = f0(1) [unfolded st3] f0(2) f0(3) [unfolded st3, folded f0(4)]
  let ?ctx1 = "?ctx\<lparr>ctx_coordinator := c\<rparr>"
  have "length below < 4294967296" using short len assms(2) by simp
  with return_to_depth_trace [OF f(1) inv(1)] below(1) have "keyed (current_program_model c) \<and>
    length (trace (current_program_model c)) = length below \<and>
    trace (current_program_model c) = take (length below) (trace (ctx_program ?ctx))" by blast
  moreover have "ctx_program ?ctx1 = current_program_model c" by simp
  ultimately have c: "keyed (ctx_program ?ctx1)" "length (trace (ctx_program ?ctx1)) = length below"
    "trace (ctx_program ?ctx1) = take (length below) (trace (ctx_program ?ctx))" by metis+
  have run: "continue_dpor_by_expanding_trace_with config env r
      (?ctx1\<lparr>dpor_stack := below @ [mark_searched r s]\<rparr>) = Inr (ds_context st')" using f(3) by simp
  have foll: "follows_trace (trace (ctx_program ?ctx1)) below"
    using follows_trace_take [of _ below "s # rest"] inv(2,3) s(1) c(3) short by simp
  have so: "item_ok s" using ok by simp
  have r20: "r < MAX_TOTAL_THREADS_IN_PROGRAM"
    using expanded_runner_bound [OF run] c(1) so
    by (simp add: mark_searched_def item_ok_def item_wf_def)
  from follow_grown [OF ok foll c(2,1) s(2) below f(2) r20 run]
  have g: "search_inv (ds_context st')" "grown below s r (dpor_stack (ds_context st'))"
    by (auto intro: grown_mark_searched)
  have "r \<notin> set (done_set s)" "item_wf s" using so f(2) by (auto simp: item_ok_def)
  moreover have "length below < depth_bound config" using short len by linarith
  ultimately have "state_potential config st' < potential (depth_bound config) (below @ [s])"
    using grown_lowers_potential [OF g(2)] by blast
  also have "\<dots> \<le> state_potential config st"
    using potential_prefix [of _ "below @ [s]" rest] s(1) by simp
  finally have "state_potential config st' < state_potential config st" .
  moreover have "length (dpor_stack (ds_context st')) \<le> depth_bound config"
    using g(2) short len by (simp add: grown_def)
  ultimately show ?thesis using g(1) by (simp add: loop_inv_def)
qed

lemma dpor_iteration_inv:
  assumes "loop_inv config st" and "maximum_total_execution_depth config < 4294967296"
    and "dpor_iteration config cb env st = Continue st'"
  shows "loop_inv config st' \<and> state_potential config st' < state_potential config st"
  using assms explore_phase_inv [OF assms(1)] backtrack_phase_inv [OF assms(1,2)]
  by (auto simp: dpor_iteration_def Let_def split: if_splits)

lemma verify_loop_ends:
  assumes "loop_inv config st" and "maximum_total_execution_depth config < 4294967296"
    and "state_potential config st < fuel"
  shows "verify_loop fuel config cb env st \<noteq> None"
  using assms
proof (induction fuel arbitrary: st)
  case (Suc n)
  show ?case
  proof (cases "dpor_iteration config cb env st")
    case (Continue st')
    from dpor_iteration_inv [OF Suc.prems(1,2) Continue] Suc.prems(3)
    have "verify_loop n config cb env st' \<noteq> None" by (intro Suc.IH Suc.prems(2)) auto
    with Continue show ?thesis by simp
  qed simp_all
qed simp

lemma initial_context_inv:
  assumes "initial_dpor_context c = Inr ctx" and "keyed (current_program_model c)"
    and "trace (current_program_model c) = []"
  shows "search_inv ctx \<and> length (dpor_stack ctx) = 1 \<and>
    done_set (hd (dpor_stack ctx)) = []"
proof -
  from assms(1) obtain enabled where
    "get_enabled_runners (current_program_model c) = Inr enabled"
    "ctx = \<lparr>ctx_coordinator = c, dpor_stack = [initial_stack_item [] enabled]\<rparr>"
    by (auto simp: initial_dpor_context_def res_simps)
  moreover have "item_ok (initial_stack_item [] enabled)"
    using initial_item_wf [of enabled]
    by (simp add: item_ok_def) (simp add: initial_stack_item_def new_stack_item_def)
  ultimately show ?thesis
    using assms(2,3) by (simp add: search_inv_def follows_trace_def initial_stack_item_def new_stack_item_def)
qed

end
