(* ===== verification/Dpor_Properties.thy ===== *)
theory Dpor_Properties
  imports Dpor_Termination
begin

text \<open>
  The properties of the search: it ends; what holds of the stack, the trace and the sets whenever
  the loop is entered; what a race adds to the backtrack sets and how clocks are made; and how
  errors of the target process are reported. The states the loop reaches are given by the
  relation \<open>search_reaches\<close>.
\<close>

section \<open>The states of a search\<close>

inductive search_reaches ::
    "configuration \<Rightarrow> dpor_callbacks \<Rightarrow> 'w environment \<Rightarrow> 'w dpor_state \<Rightarrow> 'w dpor_state \<Rightarrow> bool"
  for config cb env st0 where
  reach_start: "search_reaches config cb env st0 st0"
| reach_pass: "search_reaches config cb env st0 st \<Longrightarrow> dpor_iteration config cb env st = Continue st'
    \<Longrightarrow> search_reaches config cb env st0 st'"

inductive_cases search_reaches_cases: "search_reaches config cb env st0 st"

text \<open>The state in which \<open>verify_using\<close> enters its loop.\<close>

definition search_start :: "'w coordinator \<Rightarrow> 'w dpor_state \<Rightarrow> bool" where
  "search_start c st \<longleftrightarrow> keyed (current_program_model c) \<and> trace (current_program_model c) = [] \<and>
     initial_dpor_context c = Inr (ds_context st)"

lemma search_start_inv: "search_start c st \<Longrightarrow> loop_inv config st"
  using initial_context_inv [of c "ds_context st"] by (simp add: search_start_def loop_inv_def)

lemma reaches_inv:
  assumes "search_reaches config cb env st0 st" and "search_start c st0"
    and "maximum_total_execution_depth config < 4294967296"
  shows "loop_inv config st"
  using assms
proof (induction rule: search_reaches.induct)
  case reach_start
  then show ?case by (intro search_start_inv)
next
  case (reach_pass st st')
  then show ?case using dpor_iteration_inv by blast
qed

section \<open>An example\<close>

text \<open>
  One thread that starts and exits, with relations that leave everything dependent and
  co-enabled.
\<close>

definition wary :: configuration where
  "wary = \<lparr>dependency_relation = empty_dd_table, coenabled_relation = empty_dd_table,
     maximum_total_execution_depth = 5, assumes_linear_program_flow = False\<rparr>"

definition all_callbacks :: dpor_callbacks where
  "all_callbacks = \<lparr>cb_trace_completed = True, cb_deadlock = True, cb_undefined_behavior = True,
     cb_abnormal_termination = True, cb_nonzero_exit_code = True\<rparr>"

definition main_state :: "runner_id list dpor_state" where
  "main_state = \<lparr>ds_context = \<lparr>ctx_coordinator = main_coordinator,
       dpor_stack = [initial_stack_item [] [0]]\<rparr>,
     ds_stats = \<lparr>trace_id = 1, total_transitions = 0\<rparr>, ds_events = []\<rparr>"

lemma main_enabled: "get_enabled_runners main_program = Inr [0]"
proof -
  have "sv_runner (seq_view (state_seq main_program)) 0 = Inr (Thread_obj Running)"
    by (simp add: main_program_def state_eval)
  from start_exists [OF this] show ?thesis
    by (simp add: get_enabled_runners_def is_enabled_in_def main_program_def set_insert_def)
qed

lemma main_search_start: "search_start main_coordinator main_state"
  using main_enabled
  by (simp add: search_start_def main_state_def initial_dpor_context_def main_coordinator_def keyed_def)
    (simp add: main_program_def)

definition exiting_coordinator :: "runner_id list coordinator" where
  "exiting_coordinator = main_coordinator\<lparr>outside := [0],
     current_program_model := started_program (Thread_exit 0)\<rparr>"

text \<open>What the first step makes of the stack, when \<open>en\<close> are enabled after it.\<close>

definition started_context :: "'w coordinator \<Rightarrow> runner_id list \<Rightarrow> 'w dpor_context" where
  "started_context c en =
     (let cv = [(0, 1)] in \<lparr>ctx_coordinator = c,
        dpor_stack = [\<lparr>si_cv = [], per_runner_clocks = no_clocks, out_transition = Some (Thread_start 0),
            backtrack_set = [], done_set = [0], sleep_set = [0], enabled_runners = [0]\<rparr>,
          new_stack_item cv (no_clocks[0 := \<lparr>executionDepth = 0, ri_cv = cv\<rparr>])
            (Some (Thread_start 0)) en]\<rparr>)"

definition exiting_state :: "runner_id list dpor_state" where
  "exiting_state = \<lparr>ds_context = started_context exiting_coordinator [],
     ds_stats = \<lparr>trace_id = 1, total_transitions = 1\<rparr>, ds_events = []\<rparr>"

lemma started_running:
  "sv_runner (seq_view (state_seq (started_program npo))) 0 = Inr (Thread_obj Running)"
  "trace (started_program npo) = [Some (Thread_start 0)]" "next_steps (started_program npo) = [(0, npo)]"
  by (simp_all add: started_program_def main_program_def state_eval)

lemma exiting_enabled: "get_enabled_runners (started_program (Thread_exit 0)) = Inr []"
  using started_running [of "Thread_exit 0"]
  by (simp add: get_enabled_runners_def is_enabled_in_def apply_to_def thread_exit_modify_def
      get_thread_def diff_get_runner_def new_diff_def copy_diff_def is_active_def is_running_def
      is_embryo_def inj_empty_def count_domain_def RID_MAIN_THREAD_def)

lemma abort_enabled: "get_enabled_runners (started_program (Process_abort 0)) = Inr [0]"
  using started_running [of "Process_abort 0"]
  by (simp add: get_enabled_runners_def is_enabled_in_def apply_to_def process_abort_modify_def
      is_active_def is_running_def is_embryo_def set_insert_def)

lemma main_expansion:
  assumes "execute_runner env 0 main_coordinator = Inr c"
    and "current_program_model c = started_program npo"
    and "get_enabled_runners (started_program npo) = Inr en"
  shows "continue_dpor_by_expanding_trace_with config env 0 (ds_context main_state)
    = Inr (started_context c en)"
proof -
  note p = started_running(2,3) [of npo]
  let ?ctx = "\<lparr>ctx_coordinator = c, dpor_stack = [initial_stack_item [] [0]]\<rparr>"
  have "grow_stack_after_running config ?ctx = Inr (started_context c en)"
    using p assms(2,3)
    by (simp add: grow_stack_after_running_def get_depth_into_program_def ts_count_def ts_back_def
        vec_back_def accumulate_max_clock_vector_against_def initial_stack_item_def new_stack_item_def
        clocks_at_def no_clocks_def MAX_TOTAL_THREADS_IN_PROGRAM_def cv_set_def new_runner_item_def
        set_clock_vector_def mark_searched_def insert_into_sleep_set_def set_out_transition_def
        set_insert_def set_erase_def started_context_def Let_def)
  moreover have "dynamically_update_backtrack_sets config (started_context c en)
      = Inr (started_context c en)"
    using p assms(2) by (simp add: dynamically_update_backtrack_sets_def started_context_def Let_def
        get_num_runners_def ts_back_def vec_back_def pending_of_def get_pending_transition_for_def
        get_transition_for_runner_def)
  ultimately show ?thesis
    using assms(1) by (simp add: continue_dpor_by_expanding_trace_with_def main_state_def)
qed

lemma main_pass:
  assumes "1 < maximum_total_execution_depth config"
  shows "dpor_iteration config all_callbacks exiting_process main_state = Continue exiting_state"
proof -
  note p = started_running(2,3) [of "Thread_exit 0"]
  have "continue_dpor_by_expanding_trace_with config exiting_process 0 (ds_context main_state)
      = Inr (ds_context exiting_state)"
    using main_expansion [OF main_coordinator_step, of "Thread_exit 0" "[]"] exiting_enabled
    by (simp add: exiting_state_def exiting_coordinator_def)
  moreover have "get_first_enabled_runner (initial_stack_item [] [0]) = 0"
    by (simp add: get_first_enabled_runner_def initial_stack_item_def new_stack_item_def)
  moreover have "check_next_operation 0 (ds_context exiting_state) = Inr ()"
    using p by (simp add: check_next_operation_def exiting_state_def started_context_def Let_def
        exiting_coordinator_def get_pending_transition_for_def get_transition_for_runner_def)
  ultimately show ?thesis
    using assms
    by (simp add: dpor_iteration_def explore_phase_def main_state_def exiting_state_def
        has_enabled_runners_def initial_stack_item_def new_stack_item_def count_transition_def Let_def)
qed

lemma verify_using_ends:
  assumes "keyed (current_program_model c)" and "trace (current_program_model c) = []"
    and "maximum_total_execution_depth config < 4294967296"
    and "20 * 21 ^ max 1 (maximum_total_execution_depth config) < fuel"
  shows "\<exists>r. verify_using fuel config cb env c = Some r"
proof (cases "initial_dpor_context c")
  case (Inr ctx)
  let ?st = "\<lparr>ds_context = ctx, ds_stats = \<lparr>trace_id = 1, total_transitions = 0\<rparr>, ds_events = []\<rparr>"
  have start: "search_start c ?st" using assms(1,2) Inr by (simp add: search_start_def)
  have "length (dpor_stack ctx) = 1" "done_set (hd (dpor_stack ctx)) = []"
    using initial_context_inv [OF Inr assms(1,2)] by simp_all
  then have "state_potential config ?st = 20 * 21 ^ depth_bound config"
    by (cases "dpor_stack ctx")
      (simp_all add: potential_def unsearched_def MAX_TOTAL_THREADS_IN_PROGRAM_def)
  with verify_loop_ends [OF search_start_inv [OF start] assms(3)] assms(4)
  have "verify_loop fuel config cb env ?st \<noteq> None" by simp
  with Inr show ?thesis by (simp add: verify_using_def not_None_eq)
qed (simp add: verify_using_def)

section \<open>Properties\<close>

text \<open>
  C6. The search ends: whatever the target process answers, with the depth of a trace bounded by
  the configuration and at most 20 threads, \<open>verify_using\<close> returns or lets an exception escape after
  at most \<open>20 * 21 ^ d\<close> passes through its loop, where \<open>d\<close> is that bound.
\<close>

theorem verification_ends:
  assumes "keyed (current_program_model c)" and "trace (current_program_model c) = []"
    and "maximum_total_execution_depth config < 4294967296"
    and "20 * 21 ^ max 1 (maximum_total_execution_depth config) < fuel"
  shows "\<exists>r. verify_using fuel config cb env c = Some r"
  using assms by (rule verify_using_ends)

theorem verification_ends_witness:
  "\<exists>r. verify_using (Suc (20 * 21 ^ 5)) wary all_callbacks exiting_process main_coordinator = Some r"
  using main_search_start
  by (intro verification_ends) (simp_all add: search_start_def wary_def)

text \<open>
  C10. The stack follows the trace: whenever the loop is entered, it has one item for each state
  the trace passes through and never more than the configured depth, and the transition out of
  each item is the one the trace has at that place.
\<close>

theorem stack_follows_trace:
  assumes "search_start c st0" and "maximum_total_execution_depth config < 4294967296"
    and "search_reaches config cb env st0 st"
  shows "length (dpor_stack (ds_context st)) = get_depth_into_program (ctx_coordinator (ds_context st)) + 1 \<and>
    length (dpor_stack (ds_context st)) \<le> max 1 (maximum_total_execution_depth config) \<and>
    (\<forall>i < get_depth_into_program (ctx_coordinator (ds_context st)). \<exists>t.
       ts_at (trace (ctx_program (ds_context st))) i = Inr (Some t) \<and>
       get_transition (ds_context st) i = Inr (Some t))"
proof -
  have "loop_inv config st" using reaches_inv [OF assms(3,1,2)] .
  then show ?thesis
    by (auto simp: loop_inv_def search_inv_def Let_def follows_trace_def get_depth_into_program_def
        ts_count_def get_transition_def ts_at_def)
qed

lemma exiting_state_reached: "search_reaches wary all_callbacks exiting_process main_state exiting_state"
  using main_pass [of wary] by (auto simp: wary_def intro: search_reaches.intros)

lemma wary_depth [simp]: "maximum_total_execution_depth wary = 5"
  by (simp add: wary_def)

theorem stack_follows_trace_witness:
  "length (dpor_stack (ds_context exiting_state)) = 2 \<and>
   get_transition (ds_context exiting_state) 0 = Inr (Some (Thread_start 0)) \<and>
   get_depth_into_program (ctx_coordinator (ds_context exiting_state)) = 1"
  using stack_follows_trace [OF main_search_start _ exiting_state_reached]
  by (simp add: exiting_state_def started_context_def Let_def get_transition_def)

text \<open>
  What the sets of an item mean: a runner that was searched from a state sleeps there, and a
  runner to backtrack on is one that was enabled, neither sleeps nor was searched. So a runner
  that was searched is in two of the three sets, which the comment on the sets rules out.
\<close>

lemma searched_runners_sleep:
  assumes "search_start c st0" and "maximum_total_execution_depth config < 4294967296"
    and "search_reaches config cb env st0 st" and "s \<in> set (dpor_stack (ds_context st))"
  shows "(\<forall>r. done_set_contains s r \<longrightarrow> sleep_set_contains s r) \<and>
    (\<forall>r. backtrack_set_contains s r \<longrightarrow>
       r \<in> set (enabled_runners s) \<and> \<not> sleep_set_contains s r \<and> \<not> done_set_contains s r)"
proof -
  have "loop_inv config st" using reaches_inv [OF assms(3,1,2)] .
  then have "item_ok s" using assms(4) by (simp add: loop_inv_def search_inv_def Let_def)
  then show ?thesis
    by (auto simp: item_ok_def done_set_contains_def sleep_set_contains_def backtrack_set_contains_def)
qed

lemma searched_runners_sleep_example:
  "let s = hd (dpor_stack (ds_context exiting_state))
   in done_set_contains s 0 \<and> sleep_set_contains s 0 \<and> \<not> backtrack_set_contains s 0"
  using searched_runners_sleep [OF main_search_start _ exiting_state_reached,
      of "hd (dpor_stack (ds_context exiting_state))"]
  by (auto simp: exiting_state_def started_context_def Let_def done_set_contains_def)

text \<open>
  C32. The search never backtracks to the initial state: index \<open>0\<close> happens before every thread,
  whatever the clocks say, so no race with the first transition of a trace is ever found and the
  items that are left after dropping the exhausted ones are never the root alone.
\<close>

theorem root_never_backtracked:
  assumes "search_start c st0" and "maximum_total_execution_depth config < 4294967296"
    and "search_reaches config cb env st0 st"
  shows "length (pop_exhausted (dpor_stack (ds_context st))) \<noteq> 1 \<and>
    backtrack_set_empty (hd (dpor_stack (ds_context st))) \<and>
    (\<forall>b. happens_before_thread (ds_context st) 0 p = Inr b \<longrightarrow> b)"
proof -
  have "loop_inv config st" using reaches_inv [OF assms(3,1,2)] .
  then have root: "backtrack_set (hd (dpor_stack (ds_context st))) = []"
    by (simp add: loop_inv_def search_inv_def Let_def)
  from pop_exhausted_spec [of "dpor_stack (ds_context st)"]
  have "length (pop_exhausted (dpor_stack (ds_context st))) \<noteq> 1"
  proof (elim disjE exE conjE)
    fix below s rest
    assume "dpor_stack (ds_context st) = below @ s # rest" "backtrack_set s \<noteq> []"
      "pop_exhausted (dpor_stack (ds_context st)) = below @ [s]"
    with root show ?thesis by (cases below) auto
  qed simp
  with root index_zero_happens_before show ?thesis by (auto simp: backtrack_set_empty_def)
qed

theorem root_never_backtracked_witness:
  "pop_exhausted (dpor_stack (ds_context exiting_state)) = [] \<and>
   happens_before_thread (ds_context exiting_state) 0 1 = Inr True"
proof -
  have "\<exists>b. happens_before_thread (ds_context exiting_state) 0 1 = Inr b"
    by (intro exI [of _ True]) (simp add: happens_before_thread_def exiting_state_def started_context_def Let_def get_transition_def vec_back_def
        clocks_at_def no_clocks_def new_stack_item_def MAX_TOTAL_THREADS_IN_PROGRAM_def)
  moreover have "pop_exhausted (dpor_stack (ds_context exiting_state)) = []"
    by (simp add: exiting_state_def started_context_def Let_def pop_exhausted_def backtrack_set_empty_def new_stack_item_def)
  ultimately show ?thesis
    using root_never_backtracked [OF main_search_start _ exiting_state_reached, of 1] by auto
qed

lemma add_event_context [simp]:
  "ds_context (add_event b e st) = ds_context st" "ds_stats (add_event b e st) = ds_stats st"
  "ds_events (add_event b e st) = ds_events st @ (if b then [e] else [])"
  by (simp_all add: add_event_def)

definition events_after :: "'w outcome_of_pass \<Rightarrow> dpor_event list option" where
  "events_after out = (case out of Finished st \<Rightarrow> Some (ds_events st)
     | Continue st \<Rightarrow> Some (ds_events st) | Escaped e \<Rightarrow> None)"

text \<open>The events that say that the target did something wrong in a step.\<close>

fun is_violation :: "dpor_event \<Rightarrow> bool" where
  "is_violation (Trace_completed s) = False"
| "is_violation (Deadlock_found s) = False"
| "is_violation ev = True"

text \<open>What a step of the search adds to the events \<open>es\<close>: nothing, or one violation, and then it is over.\<close>

fun adds_violation :: "dpor_event list \<Rightarrow> 'w outcome_of_pass \<Rightarrow> bool" where
  "adds_violation es (Continue st) = (ds_events st = es)"
| "adds_violation es (Finished st) =
     (ds_events st = es \<or> (\<exists>ev. is_violation ev \<and> ds_events st = es @ [ev]))"
| "adds_violation es (outcome_of_pass.Escaped e) = True"

lemma catch_adds_violation:
  "ds_events st = es \<Longrightarrow> adds_violation es (catch_exploration cb st e)"
  "ds_events st = es \<Longrightarrow> adds_violation es (catch_return cb st e)"
  "ds_events st = es \<Longrightarrow> adds_violation es (catch_follow cb st e)"
  by (cases e; simp)+

lemma follow_adds_violation: "adds_violation (ds_events st) (follow_backtrack_point config cb env st)"
  unfolding follow_backtrack_point_def Let_def
  by (auto split: sum.split intro: catch_adds_violation)

lemma explore_adds_violation: "adds_violation (ds_events st) (explore_phase config cb env st)"
  unfolding explore_phase_def Let_def
  by (auto split: sum.split intro: catch_adds_violation)

lemma nothing_enabled_in_deadlock:
  assumes "is_in_deadlock p = Inr True"
  shows "get_enabled_runners p = Inr []"
proof -
  let ?s = "seq_view (state_seq p)"
  have "any_enabled ps ?s = Inr False \<Longrightarrow> fold_res (\<lambda>(r, t) ers. bind_res (is_enabled_in t ?s)
      (\<lambda>b. Inr (if b then set_insert r ers else ers))) ps acc = Inr acc" for ps acc
    by (induction ps arbitrary: acc) (auto simp: res_simps split: if_splits)
  moreover have "any_enabled (next_steps p) ?s = Inr False"
    using assms by (auto simp: is_in_deadlock_def res_simps split: if_splits)
  ultimately show ?thesis by (simp add: get_enabled_runners_def)
qed

text \<open>What a pass reports before any violation.\<close>

definition completion_events :: "'w dpor_state \<Rightarrow> dpor_event list" where
  "completion_events st =
     (if get_enabled_runners (ctx_program (ds_context st)) = Inr []
      then Trace_completed (ds_stats st) #
        (if is_in_deadlock (ctx_program (ds_context st)) = Inr True then [Deadlock_found (ds_stats st)] else [])
      else [])"

lemma pass_events:
  assumes "loop_inv config st"
  shows "adds_violation (ds_events st @ completion_events st) (dpor_iteration config all_callbacks env st)"
proof -
  let ?stack = "dpor_stack (ds_context st)" and ?p = "ctx_program (ds_context st)"
  have inv: "?stack \<noteq> []" "get_enabled_runners ?p = Inr (enabled_runners (last ?stack))"
    using assms by (auto simp: loop_inv_def search_inv_def Let_def)
  show ?thesis
  proof (cases "has_enabled_runners (last ?stack)")
    case True
    with inv have "completion_events st = []"
      by (simp add: completion_events_def has_enabled_runners_def)
    with True inv explore_adds_violation [of st config all_callbacks env] show ?thesis
      by (simp add: dpor_iteration_def Let_def)
  next
    case False
    with inv have pass: "dpor_iteration config all_callbacks env st =
        backtrack_phase config all_callbacks env st" and rs: "get_enabled_runners ?p = Inr []"
      by (simp_all add: dpor_iteration_def has_enabled_runners_def Let_def)
    show ?thesis
    proof (cases "is_in_deadlock ?p")
      case (Inl e)
      with pass show ?thesis by (simp add: backtrack_phase_def all_callbacks_def Let_def)
    next
      case (Inr deadlocked)
      let ?st3 = "set_stack (pop_exhausted ?stack) (add_event deadlocked (Deadlock_found (ds_stats st))
        (add_event True (Trace_completed (ds_stats st)) st))"
      have "ds_events ?st3 = ds_events st @ completion_events st"
        using rs Inr by (simp add: set_stack_def completion_events_def)
      moreover have "dpor_iteration config all_callbacks env st = (if pop_exhausted ?stack = []
          then Finished ?st3 else follow_backtrack_point config all_callbacks env ?st3)"
        using pass Inr by (simp add: backtrack_phase_def all_callbacks_def Let_def)
      ultimately show ?thesis
        using follow_adds_violation [of ?st3 config all_callbacks env] by (simp split: if_splits)
    qed
  qed
qed

text \<open>
  C31. What a pass of the loop reports, exactly. If no runner of the model is enabled, the trace is
  reported complete, and then a deadlock if and only if the model is in one; if some runner is enabled,
  neither is reported. After that comes at most one report of undefined behaviour, an abnormal
  termination or an exit code, and then the search is over. What was reported before is kept.
\<close>

theorem complete_traces_are_reported:
  assumes "search_start c st0" and "maximum_total_execution_depth config < 4294967296"
    and "search_reaches config all_callbacks env st0 st"
    and "get_enabled_runners (ctx_program (ds_context st)) = Inr rs"
    and "events_after (dpor_iteration config all_callbacks env st) = Some es"
  shows "\<exists>violations. es = ds_events st @
      (if rs = [] then Trace_completed (ds_stats st) #
         (if is_in_deadlock (ctx_program (ds_context st)) = Inr True
          then [Deadlock_found (ds_stats st)] else [])
       else []) @ violations \<and>
    length violations \<le> 1 \<and> list_all is_violation violations \<and>
    (violations \<noteq> [] \<longrightarrow> (\<exists>st'. dpor_iteration config all_callbacks env st = Finished st'))"
proof -
  have "loop_inv config st" using reaches_inv [OF assms(3,1,2)] .
  from pass_events [OF this, of env] assms(5)
  have "\<exists>violations. es = ds_events st @ completion_events st @ violations \<and>
    length violations \<le> 1 \<and> list_all is_violation violations \<and>
    (violations \<noteq> [] \<longrightarrow> (\<exists>st'. dpor_iteration config all_callbacks env st = Finished st'))"
    by (cases "dpor_iteration config all_callbacks env st") (auto simp: events_after_def)
  with assms(4) show ?thesis by (simp add: completion_events_def)
qed

lemma exiting_deadlock: "is_in_deadlock (started_program (Thread_exit 0)) = Inr True"
proof -
  let ?p = "started_program (Thread_exit 0)"
  have r: "sv_runner (seq_view (state_seq ?p)) 0 = Inr (Thread_obj Running)"
    and n: "next_steps ?p = [(0, Thread_exit 0)]"
    by (simp_all add: started_program_def main_program_def state_eval)
  have "is_enabled_in (Thread_exit 0) (seq_view (state_seq ?p)) = Inr False"
    using exiting_enabled n by (auto simp: get_enabled_runners_def set_insert_def res_simps split: if_splits)
  with r n show ?thesis by (simp add: is_in_deadlock_def all_exited_def has_exited_def)
qed

lemma exiting_finishes:
  "\<exists>st. dpor_iteration config all_callbacks exiting_process exiting_state = Finished st \<and>
     ds_events st = [Trace_completed \<lparr>trace_id = 1, total_transitions = 1\<rparr>,
       Deadlock_found \<lparr>trace_id = 1, total_transitions = 1\<rparr>]"
proof -
  have p: "ctx_program (ds_context exiting_state) = started_program (Thread_exit 0)"
    by (simp add: exiting_state_def started_context_def exiting_coordinator_def Let_def)
  have "dpor_stack (ds_context exiting_state) \<noteq> []"
    "\<not> has_enabled_runners (last (dpor_stack (ds_context exiting_state)))"
    "pop_exhausted (dpor_stack (ds_context exiting_state)) = []"
    "ds_events exiting_state = []" "ds_stats exiting_state = \<lparr>trace_id = 1, total_transitions = 1\<rparr>"
    by (simp_all add: exiting_state_def started_context_def Let_def pop_exhausted_def backtrack_set_empty_def
        new_stack_item_def has_enabled_runners_def)
  with p exiting_deadlock show ?thesis
    by (simp add: dpor_iteration_def backtrack_phase_def Let_def set_stack_def all_callbacks_def)
qed

theorem complete_traces_are_reported_witness:
  "\<exists>st violations. dpor_iteration wary all_callbacks exiting_process exiting_state = Finished st \<and>
     ds_events st = [Trace_completed \<lparr>trace_id = 1, total_transitions = 1\<rparr>,
       Deadlock_found \<lparr>trace_id = 1, total_transitions = 1\<rparr>] @ violations \<and> length violations \<le> 1"
proof -
  have p: "ctx_program (ds_context exiting_state) = started_program (Thread_exit 0)"
    "ds_events exiting_state = []" "ds_stats exiting_state = \<lparr>trace_id = 1, total_transitions = 1\<rparr>"
    by (simp_all add: exiting_state_def started_context_def exiting_coordinator_def Let_def)
  obtain st where st: "dpor_iteration wary all_callbacks exiting_process exiting_state = Finished st"
    using exiting_finishes [of wary] by auto
  then have ev: "events_after (dpor_iteration wary all_callbacks exiting_process exiting_state) =
      Some (ds_events st)" by (simp add: events_after_def)
  from complete_traces_are_reported [OF main_search_start _ exiting_state_reached _ ev] st
    p exiting_deadlock exiting_enabled
  show ?thesis by auto
qed

text \<open>
  C9. A reversible race schedules what the algorithm of Flanagan and Godefroid asks for, and that alone.
  There is a race when the transitions are dependent, may be co-enabled and are not ordered; without one
  the context is unchanged. With one, the item at index \<open>i\<close> gains backtrack points, keeps those it has and
  all its other fields, and no other item and nothing else of the context changes. When some awake runner
  enabled there is the racing thread or is ordered before it, the smallest such runner is gained unless one
  of them is scheduled already; when there is none, every awake runner enabled there is gained. A runner
  already searched from there is never gained.
\<close>

theorem races_schedule_backtracking:
  assumes "dynamically_update_backtrack_sets_at_index config S_i next_sp i p ctx = Inr (race, ctx')"
  shows "(race \<longleftrightarrow> are_dependent config next_sp S_i \<and> are_coenabled config next_sp S_i \<and>
      happens_before_thread ctx i p = Inr False) \<and>
    (\<not> race \<longrightarrow> ctx' = ctx) \<and>
    (race \<longrightarrow> (let s = dpor_stack ctx ! i;
        awake = {q \<in> set (enabled_runners s). \<not> sleep_set_contains s q};
        E = {q \<in> awake. q = p \<or> threads_race_after ctx i q p = Inr True}
      in \<exists>points. ctx' = ctx\<lparr>dpor_stack := (dpor_stack ctx)[i := s\<lparr>backtrack_set := points\<rparr>]\<rparr> \<and>
           set points = set (backtrack_set s) \<union>
             ((if E = {} then awake else if \<exists>q \<in> E. backtrack_set_contains s q then {} else {Min E})
              - set (done_set s))))"
proof -
  let ?s = "dpor_stack ctx ! i"
  have r: "has_reversible_race config ctx S_i next_sp i p = Inr race"
    using assms by (auto simp: dynamically_update_backtrack_sets_at_index_def res_simps split: if_splits)
  have race: "race \<longleftrightarrow> are_dependent config next_sp S_i \<and> are_coenabled config next_sp S_i \<and>
      happens_before_thread ctx i p = Inr False"
    using r by (auto simp: has_reversible_race_def res_simps split: if_splits)
  show ?thesis
  proof (cases race)
    case False
    with assms r have "ctx' = ctx"
      by (auto simp: dynamically_update_backtrack_sets_at_index_def res_simps)
    with False race show ?thesis by blast
  next
    case True
    with assms r obtain e where e: "collect_e ctx ?s i p = Inr e"
      "ctx' = ctx\<lparr>dpor_stack := (dpor_stack ctx)[i := update_with_e e ?s]\<rparr>"
      by (auto simp: dynamically_update_backtrack_sets_at_index_def res_simps)
    note E = collect_e_spec [OF e(1)]
    have awake: "{q \<in> set (enabled_runners ?s). \<not> sleep_set_contains ?s q} =
        set (enabled_runners ?s) - set (sleep_set ?s)"
      by (auto simp: sleep_set_contains_def)
    have cand: "{q \<in> set (enabled_runners ?s) - set (sleep_set ?s).
        q = p \<or> threads_race_after ctx i q p = Inr True} = set e"
      using E by auto
    have "schedules ?s (update_with_e e ?s)" by (rule update_with_e_schedules) (use E in auto)
    then obtain points where up: "update_with_e e ?s = ?s\<lparr>backtrack_set := points\<rparr>"
      unfolding schedules_def by blast
    have "(\<exists>q \<in> set e. backtrack_set_contains ?s q) \<longleftrightarrow> set e \<inter> set (backtrack_set ?s) \<noteq> {}"
      by (auto simp: backtrack_set_contains_def)
    moreover have "set points = set (backtrack_set ?s) \<union>
        ((if e = [] then set (enabled_runners ?s) - set (sleep_set ?s)
          else if set e \<inter> set (backtrack_set ?s) \<noteq> {} then {} else {Min (set e)}) - set (done_set ?s))"
      using update_with_e_points [OF conjunct2 [OF E], of ?s] unfolding up by simp
    ultimately have points: "set points = set (backtrack_set ?s) \<union>
        ((if set e = {} then set (enabled_runners ?s) - set (sleep_set ?s)
          else if \<exists>q \<in> set e. backtrack_set_contains ?s q then {} else {Min (set e)}) - set (done_set ?s))"
      by (simp only: set_empty)
    show ?thesis
      using True race e(2) [unfolded up] points unfolding Let_def awake cand by blast
  qed
qed

text \<open>Runner \<open>0\<close> has locked a mutex runner \<open>1\<close> wants, from a state where both were enabled.\<close>

definition racing_context :: "runner_id list dpor_context" where
  "racing_context = \<lparr>ctx_coordinator = main_coordinator, dpor_stack =
     [(initial_stack_item [] [0, 1])\<lparr>out_transition := Some (Thread_start 0)\<rparr>,
      (initial_stack_item [] [0, 1])\<lparr>out_transition := Some (Mutex_lock 0 7), done_set := [0],
         sleep_set := [0]\<rparr>,
      initial_stack_item [] [1]]\<rparr>"

theorem races_schedule_backtracking_witness:
  "\<exists>ctx points.
     dynamically_update_backtrack_sets_at_index wary (Mutex_lock 0 7) (Mutex_lock 1 7) 1 1 racing_context
       = Inr (True, ctx) \<and>
     ctx = racing_context\<lparr>dpor_stack := (dpor_stack racing_context)
       [1 := (dpor_stack racing_context ! 1)\<lparr>backtrack_set := points\<rparr>]\<rparr> \<and> set points = {1}"
proof -
  let ?s = "dpor_stack racing_context ! 1"
  have s: "enabled_runners ?s = [0, 1]" "sleep_set ?s = [0]" "done_set ?s = [0]" "backtrack_set ?s = []"
    "dpor_stack racing_context \<noteq> []" "Suc 0 < length (dpor_stack racing_context)"
    by (simp_all add: racing_context_def initial_stack_item_def new_stack_item_def)
  have hb: "happens_before_thread racing_context 1 1 = Inr False"
    by (simp add: happens_before_thread_def racing_context_def get_transition_def vec_back_def
        initial_stack_item_def new_stack_item_def clocks_at_def no_clocks_def new_runner_item_def
        MAX_TOTAL_THREADS_IN_PROGRAM_def)
  have dep: "are_dependent wary (Mutex_lock 1 7) (Mutex_lock 0 7)"
    "are_coenabled wary (Mutex_lock 1 7) (Mutex_lock 0 7)"
    by (simp_all add: are_dependent_def are_coenabled_def wary_def call_or_def empty_dd_table_def)
  have noE: "threads_race_after racing_context 1 0 1 = Inr False"
    by (simp add: threads_race_after_def racing_context_def)
  have "\<exists>ctx. dynamically_update_backtrack_sets_at_index wary (Mutex_lock 0 7) (Mutex_lock 1 7) 1 1
      racing_context = Inr (True, ctx)"
    using s hb dep noE
    by (simp add: dynamically_update_backtrack_sets_at_index_def has_reversible_race_def collect_e_def
        sleep_set_contains_def)
  then obtain ctx where ctx: "dynamically_update_backtrack_sets_at_index wary (Mutex_lock 0 7)
      (Mutex_lock 1 7) 1 1 racing_context = Inr (True, ctx)" by blast
  have sets: "{q \<in> set (enabled_runners ?s). \<not> sleep_set_contains ?s q} = {1}"
    using s by (auto simp: sleep_set_contains_def)
  have cand: "{q \<in> {1}. q = 1 \<or> threads_race_after racing_context 1 q 1 = Inr True} = {1}" by auto
  from races_schedule_backtracking [OF ctx]
  have "\<exists>points. ctx = racing_context\<lparr>dpor_stack :=
        (dpor_stack racing_context)[1 := ?s\<lparr>backtrack_set := points\<rparr>]\<rparr> \<and>
      set points = set (backtrack_set ?s) \<union>
        ((if {1 :: nat} = {} then {1} else if \<exists>q \<in> {1}. backtrack_set_contains ?s q then {} else {Min {1}})
         - set (done_set ?s))"
    unfolding Let_def sets cand by blast
  then obtain points where points: "ctx = racing_context\<lparr>dpor_stack :=
        (dpor_stack racing_context)[1 := ?s\<lparr>backtrack_set := points\<rparr>]\<rparr>" "set points = {1}"
    unfolding s(3,4) backtrack_set_contains_def by auto
  show ?thesis using ctx points by (intro exI [of _ ctx] exI [of _ points]) simp
qed

text \<open>
  The clock of a new state: its executor's component is the depth, and any other component is
  the largest in the clock of an item whose recorded transition is dependent. For the item on top that
  is the transition that led to it, which its clock covers; for every item below it is the transition
  that left it, and the clock is that of the state before the transition, not the transition's own. The
  executor's clock becomes the clock of the state, no other thread's clock changes.
\<close>

lemma clock_of_new_state:
  assumes "grow_stack_after_running config ctx = Inr ctx'" and "\<forall>s \<in> set (dpor_stack ctx). item_wf s"
  shows "\<exists>t. ts_back (trace (ctx_program ctx)) = Inr (Some t) \<and>
    (let s = last (dpor_stack ctx'); e = get_executor t in
      value_for (si_cv s) e = get_depth_into_program (ctx_coordinator ctx) \<and>
      (\<forall>q n. q \<noteq> e \<longrightarrow> (value_for (si_cv s) q \<le> n \<longleftrightarrow> (\<forall>u \<in> set (dpor_stack ctx). \<forall>S.
         out_transition u = Some S \<longrightarrow> are_dependent config S t \<longrightarrow> value_for (si_cv u) q \<le> n))) \<and>
      ri_cv (per_runner_clocks s ! e) = si_cv s \<and>
      (\<forall>q. q \<noteq> e \<longrightarrow> per_runner_clocks s ! q = per_runner_clocks (last (dpor_stack ctx)) ! q))"
proof -
  note shape = grow_shape [OF assms]
  obtain t new cv where g: "trace (ctx_program ctx) \<noteq> []" "last (trace (ctx_program ctx)) = Some t"
    "dpor_stack ctx \<noteq> []" "get_executor t < MAX_TOTAL_THREADS_IN_PROGRAM"
    "cv = cv_set (get_executor t) (get_depth_into_program (ctx_coordinator ctx))
       (accumulate_max_clock_vector_against config t ctx)"
    "last (dpor_stack ctx') = new" "si_cv new = cv"
    "per_runner_clocks new = (per_runner_clocks (last (dpor_stack ctx)))[get_executor t :=
       set_clock_vector cv (per_runner_clocks (last (dpor_stack ctx)) ! get_executor t)]"
    by (rule shape, rule that) simp_all
  have len: "length (per_runner_clocks (last (dpor_stack ctx))) = MAX_TOTAL_THREADS_IN_PROGRAM"
    using assms(2) g(3) by (simp add: item_wf_def)
  let ?clocks = "map si_cv (filter (\<lambda>s. \<exists>S. out_transition s = Some S \<and> are_dependent config S t)
    (dpor_stack ctx))"
  have "value_for (clk.join_all ?clocks []) q \<le> n \<longleftrightarrow> (\<forall>c \<in> set ?clocks. value_for c q \<le> n)" for q n
    using clk.join_all_le_iff [of "[]" ?clocks q n] assms(2) by (auto simp: item_wf_def)
  then have "value_for cv q \<le> n \<longleftrightarrow> (\<forall>c \<in> set ?clocks. value_for c q \<le> n)" if "q \<noteq> get_executor t" for q n
    using that g(5) by (simp add: accumulate_join_all)
  moreover have "(\<forall>c \<in> set ?clocks. value_for c q \<le> n) \<longleftrightarrow> (\<forall>u \<in> set (dpor_stack ctx). \<forall>S.
      out_transition u = Some S \<longrightarrow> are_dependent config S t \<longrightarrow> value_for (si_cv u) q \<le> n)" for q n
    by auto
  moreover have "value_for cv (get_executor t) = get_depth_into_program (ctx_coordinator ctx)"
    using g(5) by simp
  moreover have "ts_back (trace (ctx_program ctx)) = Inr (Some t)"
    using g(1,2) by (simp add: ts_back_def vec_back_def)
  ultimately show ?thesis
    using g(4,6,7,8) len by (intro exI [of _ t]) (simp add: Let_def set_clock_vector_def)
qed

text \<open>
  Runner \<open>1\<close> creates thread \<open>4\<close>, runner \<open>2\<close> creates thread \<open>3\<close>, thread \<open>3\<close> starts: its clock counts
  the step of runner \<open>1\<close>, which is independent of both others.
\<close>

definition creating_context :: "runner_id list dpor_context" where
  "creating_context =
     (let item = \<lambda>cv out. (initial_stack_item [] [])\<lparr>si_cv := cv, out_transition := Some out\<rparr> in
      \<lparr>ctx_coordinator = main_coordinator\<lparr>current_program_model := main_program\<lparr>next_steps := [],
          trace := map Some [Thread_start 0, Thread_create 1 4, Thread_create 2 3, Thread_start 3]\<rparr>\<rparr>,
       dpor_stack = [item [] (Thread_start 0), item [(0, 1)] (Thread_create 1 4),
         item [(0, 1), (1, 2)] (Thread_create 2 3), item [(0, 1), (2, 3)] (Thread_create 2 3)]\<rparr>)"

lemma clock_of_new_state_example:
  "\<exists>config ctx. default_configuration = Inr config \<and>
     grow_stack_after_running config creating_context = Inr ctx \<and>
     are_independent config (Thread_create 1 4) (Thread_create 2 3) \<and>
     are_independent config (Thread_create 1 4) (Thread_start 3) \<and>
     2 \<le> value_for (si_cv (last (dpor_stack ctx))) 1"
proof -
  obtain config where config: "default_configuration = Inr config"
    using default_configuration_ok by blast
  note dep = are_dependent_iff [OF config]
  have items: "\<forall>s \<in> set (dpor_stack creating_context). item_wf s"
    using initial_item_wf [of "[]"] by (simp add: creating_context_def Let_def item_wf_def)
  have p: "trace (ctx_program creating_context)
      = map Some [Thread_start 0, Thread_create 1 4, Thread_create 2 3, Thread_start 3]"
    "next_steps (ctx_program creating_context) = []" by (simp_all add: creating_context_def Let_def)
  have l: "length (dpor_stack creating_context) = 4" "last (dpor_stack creating_context) =
      (initial_stack_item [] [])\<lparr>si_cv := [(0, 1), (2, 3)], out_transition := Some (Thread_create 2 3)\<rparr>"
    "dpor_stack creating_context \<noteq> []"
    "\<exists>u \<in> set (dpor_stack creating_context). out_transition u = Some (Thread_create 2 3) \<and>
       value_for (si_cv u) 1 = 2"
    by (simp_all add: creating_context_def Let_def value_for_def)
  have "\<exists>ctx. grow_stack_after_running config creating_context = Inr ctx"
    using p l(1-3)
    by (simp add: grow_stack_after_running_def get_depth_into_program_def ts_count_def ts_back_def
        vec_back_def clocks_at_def get_enabled_runners_def Let_def initial_stack_item_def
        new_stack_item_def no_clocks_def MAX_TOTAL_THREADS_IN_PROGRAM_def)
  then obtain ctx where ctx: "grow_stack_after_running config creating_context = Inr ctx" by blast
  have "are_dependent config (Thread_create 2 3) (Thread_start 3)" by (simp add: dep conflict_def)
  moreover from l(4) obtain u where "u \<in> set (dpor_stack creating_context)"
    "out_transition u = Some (Thread_create 2 3)" "\<not> value_for (si_cv u) 1 \<le> 1" by auto
  moreover from clock_of_new_state [OF ctx items] p(1)
  have "\<forall>q n. q \<noteq> 3 \<longrightarrow> (value_for (si_cv (last (dpor_stack ctx))) q \<le> n \<longleftrightarrow>
      (\<forall>u \<in> set (dpor_stack creating_context). \<forall>S. out_transition u = Some S \<longrightarrow>
         are_dependent config S (Thread_start 3) \<longrightarrow> value_for (si_cv u) q \<le> n))"
    by (simp add: ts_back_def vec_back_def Let_def)
  then have "value_for (si_cv (last (dpor_stack ctx))) 1 \<le> 1 \<longleftrightarrow>
      (\<forall>u \<in> set (dpor_stack creating_context). \<forall>S. out_transition u = Some S \<longrightarrow>
         are_dependent config S (Thread_start 3) \<longrightarrow> value_for (si_cv u) 1 \<le> 1)" by simp
  ultimately have "\<not> value_for (si_cv (last (dpor_stack ctx))) 1 \<le> 1" by blast
  moreover have "are_independent config (Thread_create 1 4) (Thread_create 2 3)"
    "are_independent config (Thread_create 1 4) (Thread_start 3)"
    by (simp_all add: are_independent_def dep conflict_def)
  ultimately show ?thesis using config ctx by (intro exI [of _ config] exI [of _ ctx]) simp
qed

text \<open>
  The exploration stops as soon as the runner it has just run is about to end the program: an
  abort is reported as a termination by \<^verbatim>\<open>SIGABRT\<close> and an exit with a positive code as an abnormal
  exit, with the statistics that count the step, and the search is over.
\<close>

lemma ending_programs_are_reported:
  assumes "dpor_stack (ds_context st) \<noteq> []" and "has_enabled_runners (last (dpor_stack (ds_context st)))"
    and "length (dpor_stack (ds_context st)) < maximum_total_execution_depth config"
    and "rid = get_first_enabled_runner (last (dpor_stack (ds_context st)))"
    and "continue_dpor_by_expanding_trace_with config env rid (ds_context st) = Inr ctx"
    and "get_pending_transition_for (ctx_program ctx) rid = Some t"
    and "ends = (if aborts_program_execution t
      then Some (Abnormal_termination_found (count_transition (ds_stats st)) (Termination_error SIGABRT rid))
      else if program_exit_code t > 0
      then Some (Nonzero_exit_code_found (count_transition (ds_stats st))
             (Nonzero_exit_code_error (program_exit_code t) rid))
      else None)"
  shows "case ends of
      Some ev \<Rightarrow> \<exists>st'. dpor_iteration config all_callbacks env st = Finished st' \<and> ds_context st' = ctx \<and>
        ds_events st' = ds_events st @ [ev]
    | None \<Rightarrow> \<exists>st'. dpor_iteration config all_callbacks env st = Continue st' \<and> ds_context st' = ctx \<and>
        ds_events st' = ds_events st"
proof -
  have "dpor_iteration config all_callbacks env st = explore_phase config all_callbacks env st"
    using assms(1,2) by (simp add: dpor_iteration_def Let_def)
  then show ?thesis
    using assms(3-7)
    by (simp add: explore_phase_def check_next_operation_def Let_def all_callbacks_def)
qed

text \<open>A process whose every runner is about to abort.\<close>

definition aborting_process :: "runner_id list environment" where
  "aborting_process = exiting_process\<lparr>process_execute :=
     (\<lambda>r w. Inr (\<lparr>mb_type = rttid PROCESS_ABORT_TYPE, mb_cnts = []\<rparr>, w @ [r]))\<rparr>"

lemma ending_programs_are_reported_example:
  "\<exists>st. dpor_iteration wary all_callbacks aborting_process main_state = Finished st \<and>
     ds_events st = [Abnormal_termination_found \<lparr>trace_id = 1, total_transitions = 1\<rparr>
       (Termination_error SIGABRT 0)]"
proof -
  let ?p = "started_program (Process_abort 0)"
  let ?c = "main_coordinator\<lparr>outside := [0], current_program_model := ?p\<rparr>"
  have "get_callback_for default_registry (rttid PROCESS_ABORT_TYPE) = Some Process_abort_callback"
    by (simp add: get_callback_for_def default_registry_def register_transition_def)
  moreover have "get_pending_transition_for main_program 0 = Some (Thread_start 0)"
    by (simp add: main_program_def get_pending_transition_for_def get_transition_for_runner_def)
  ultimately have "execute_runner aborting_process 0 main_coordinator = Inr ?c"
    using execute_start [of "Process_abort 0"]
    by (simp add: execute_runner_def main_coordinator_def aborting_process_def exiting_process_def
        process_abort_callback_def)
  from main_expansion [OF this, of "Process_abort 0" "[0]" wary] abort_enabled
  have run: "continue_dpor_by_expanding_trace_with wary aborting_process 0 (ds_context main_state)
      = Inr (started_context ?c [0])" by simp
  have pend: "get_pending_transition_for (ctx_program (started_context ?c [0])) 0 = Some (Process_abort 0)"
    by (simp add: started_context_def Let_def started_program_def get_pending_transition_for_def
        get_transition_for_runner_def)
  have st: "dpor_stack (ds_context main_state) = [initial_stack_item [] [0]]"
    "ds_stats main_state = \<lparr>trace_id = 1, total_transitions = 0\<rparr>" "ds_events main_state = []"
    by (simp_all add: main_state_def)
  have r: "0 = get_first_enabled_runner (last (dpor_stack (ds_context main_state)))"
    "has_enabled_runners (last (dpor_stack (ds_context main_state)))"
    by (simp_all add: st get_first_enabled_runner_def has_enabled_runners_def initial_stack_item_def
        new_stack_item_def)
  from ending_programs_are_reported [OF _ r(2) _ r(1) run pend refl] show ?thesis
    by (auto simp: st count_transition_def)
qed

text \<open>
  A step that follows a backtrack point is not watched in the same way: a process that
  terminates or exits during it lets the exception escape \<open>verify_using\<close>, only undefined behaviour
  is reported, and a runner that is about to end the program afterwards is not noticed.
\<close>

lemma followed_steps_lose_terminations:
  assumes "dpor_stack (ds_context st) = below @ [s]" and "backtrack_set s \<noteq> []"
    and "r = Min (set (backtrack_set s))"
    and "return_to_depth env (length below) (ctx_coordinator (ds_context st)) = Inr c"
    and "result = continue_dpor_by_expanding_trace_with config env r
      ((ds_context st)\<lparr>ctx_coordinator := c, dpor_stack := below @ [mark_searched r s]\<rparr>)"
  shows "case result of
      Inl (Termination_error signo q) \<Rightarrow>
        follow_backtrack_point config all_callbacks env st = Escaped (Termination_error signo q)
    | Inl (Nonzero_exit_code_error code q) \<Rightarrow>
        follow_backtrack_point config all_callbacks env st = Escaped (Nonzero_exit_code_error code q)
    | Inl (Undefined_behavior msg) \<Rightarrow>
        \<exists>st'. follow_backtrack_point config all_callbacks env st = Finished st' \<and> ds_events st' =
          ds_events st @ [Undefined_behavior_found (next_trace (ds_stats st)) (Undefined_behavior msg)]
    | Inl e \<Rightarrow> follow_backtrack_point config all_callbacks env st = Escaped e
    | Inr ctx \<Rightarrow>
        \<exists>st'. follow_backtrack_point config all_callbacks env st = Continue st' \<and>
          ds_context st' = ctx \<and> ds_events st' = ds_events st"
  using assms(1-4) pop_first_spec [OF assms(2)] unfolding assms(5)
  by (simp add: follow_backtrack_point_def Let_def all_callbacks_def split: sum.split error.split)

text \<open>A process that dies of a segmentation fault in its second step.\<close>

definition crashing_process :: "runner_id list environment" where
  "crashing_process = exiting_process\<lparr>process_execute :=
     (\<lambda>r w. if w = [] then Inr (\<lparr>mb_type = rttid THREAD_EXIT_TYPE, mb_cnts = []\<rparr>, w @ [r])
            else Inl (Termination_error 11 r))\<rparr>"

definition scheduled_state :: "runner_id list dpor_state" where
  "scheduled_state = exiting_state\<lparr>ds_context := (ds_context exiting_state)\<lparr>dpor_stack :=
     [hd (dpor_stack (ds_context exiting_state)),
      (last (dpor_stack (ds_context exiting_state)))\<lparr>backtrack_set := [0]\<rparr>]\<rparr>\<rparr>"

lemma followed_steps_lose_terminations_example:
  "follow_backtrack_point wary all_callbacks crashing_process scheduled_state
     = Escaped (Termination_error 11 0)"
proof -
  let ?p = "started_program (Thread_exit 0)"
  have p: "trace ?p = [Some (Thread_start 0)]" "next_steps ?p = [(0, Thread_exit 0)]"
    by (simp_all add: started_program_def)
  have c: "ctx_coordinator (ds_context scheduled_state) = exiting_coordinator"
    by (simp add: scheduled_state_def exiting_state_def started_context_def Let_def)
  obtain root top where st: "dpor_stack (ds_context scheduled_state) = [root] @ [top]"
    "backtrack_set top = [0]"
    by (simp add: scheduled_state_def)
  have ret: "return_to_depth crashing_process (length [root]) (ctx_coordinator (ds_context scheduled_state))
      = Inr exiting_coordinator"
    using started_program_restored [of "Thread_exit 0"] p c
    by (simp add: return_to_depth_def assign_new_process_handle_def ts_count_def replay_slot_def
        crashing_process_def exiting_process_def exiting_coordinator_def main_coordinator_def)
  have "execute_runner crashing_process 0 exiting_coordinator = Inl (Termination_error 11 0)"
    using p by (simp add: execute_runner_def exiting_coordinator_def main_coordinator_def
        get_pending_transition_for_def get_transition_for_runner_def crashing_process_def exiting_process_def)
  then have "continue_dpor_by_expanding_trace_with wary crashing_process 0
      ((ds_context scheduled_state)\<lparr>ctx_coordinator := exiting_coordinator,
         dpor_stack := [root] @ [mark_searched 0 top]\<rparr>) = Inl (Termination_error 11 0)"
    by (simp add: continue_dpor_by_expanding_trace_with_def)
  with followed_steps_lose_terminations [OF st(1) _ _ ret refl, of 0 wary] st(2) show ?thesis by simp
qed

end
