(* ===== verification/Thread_Queue.thy ===== *)
theory Thread_Queue
  imports Cond_Policy
begin

text \<open>
  The queue of waiting threads of \<^verbatim>\<open>src/mcmini/Thread_queue.c\<close>, which the interception library
  keeps for each recorded condition variable: a singly linked list on the C heap, at the level of
  its pointers. The heap is a map from addresses to nodes; \<^verbatim>\<open>malloc\<close> is an argument, the address
  of the new node, and \<^verbatim>\<open>free\<close> removes the node from the map. Reading through an address that
  holds no node is the error \<open>Null_dereference\<close>. A \<^verbatim>\<open>while\<close> loop over the nodes is a partial
  function whose value \<open>None\<close> means that it does not end. A call of \<^verbatim>\<open>exit\<close> in the target is a
  \<open>Runtime_error\<close>.

  The second half gives the abstract queue, a list of waiters, and proves that on a well-formed
  queue every operation ends and implements the one on lists.
\<close>

section \<open>The queue on the heap\<close>

record thread_queue_node =
  node_thread :: runner_id
  node_state :: condition_variable_status
  next_node :: address

type_synonym queue_heap = "address \<Rightarrow> thread_queue_node option"

record thread_queue =
  front :: address
  rear :: address
  queue_size :: "32 word"

type_synonym queue_state = "queue_heap \<times> thread_queue"

definition NULL :: address where
  "NULL = 0"

definition deref_node :: "queue_heap \<Rightarrow> address \<Rightarrow> thread_queue_node res" where
  "deref_node h a = (case h a of None \<Rightarrow> Inl Null_dereference | Some n \<Rightarrow> Inr n)"

text \<open>\<^verbatim>\<open>malloc\<close> leaves the field \<^verbatim>\<open>size\<close> with whatever the memory holds.\<close>

definition create_thread_queue :: "32 word \<Rightarrow> thread_queue" where
  "create_thread_queue garbage = \<lparr>front = NULL, rear = NULL, queue_size = garbage\<rparr>"

definition enqueue_thread ::
    "address \<Rightarrow> runner_id \<Rightarrow> condition_variable_status \<Rightarrow> queue_state \<Rightarrow> queue_state res" where
  "enqueue_thread node thread cv_state s =
     (let (h, q) = s;
          h1 = h(node \<mapsto> \<lparr>node_thread = thread, node_state = cv_state, next_node = NULL\<rparr>)
      in bind_res
           (if rear q = NULL then Inr (h1, q\<lparr>front := node, rear := node\<rparr>)
            else bind_res (deref_node h1 (rear q))
                   (\<lambda>n. Inr (h1(rear q \<mapsto> n\<lparr>next_node := node\<rparr>), q\<lparr>rear := node\<rparr>)))
           (\<lambda>(h2, q2). Inr (h2, q2\<lparr>queue_size := queue_size q2 + 1\<rparr>)))"

text \<open>A thread that is skipped is neither freed nor counted, and \<open>rear\<close> keeps pointing to it.\<close>

partial_function (option) dequeue_loop ::
    "queue_heap \<Rightarrow> thread_queue \<Rightarrow> (runner_id \<times> queue_state) res option" where
  "dequeue_loop h q =
     (if front q = NULL then Some (Inr (RID_INVALID, (h, q)))
      else case h (front q) of
          None \<Rightarrow> Some (Inl Null_dereference)
        | Some temp \<Rightarrow>
            if node_state temp = CV_WAITING
            then let q1 = q\<lparr>front := next_node temp\<rparr>;
                     q2 = (if front q1 = NULL then q1\<lparr>rear := NULL\<rparr> else q1)
                 in Some (Inr (node_thread temp,
                      (h(front q := None), q2\<lparr>queue_size := queue_size q2 - 1\<rparr>)))
            else dequeue_loop h (q\<lparr>front := next_node temp\<rparr>))"

definition dequeue_thread :: "queue_state \<Rightarrow> (runner_id \<times> queue_state) res option" where
  "dequeue_thread s =
     (let (h, q) = s
      in if front q = NULL then Some (Inl (Runtime_error ''Attempt to dequeue from an empty queue''))
         else dequeue_loop h q)"

definition peek_thread :: "queue_state \<Rightarrow> runner_id res" where
  "peek_thread s =
     (let (h, q) = s
      in if front q = NULL then Inl (Runtime_error ''Attempt to peek at an empty queue'')
         else bind_res (deref_node h (front q)) (\<lambda>n. Inr (node_thread n)))"

partial_function (option) is_in_from ::
    "queue_heap \<Rightarrow> runner_id \<Rightarrow> address \<Rightarrow> bool res option" where
  "is_in_from h thread current =
     (if current = NULL then Some (Inr False)
      else case h current of
          None \<Rightarrow> Some (Inl Null_dereference)
        | Some n \<Rightarrow> if node_thread n = thread then Some (Inr True)
                    else is_in_from h thread (next_node n))"

definition is_in_thread_queue :: "queue_state \<Rightarrow> runner_id \<Rightarrow> bool res option" where
  "is_in_thread_queue s thread = is_in_from (fst s) thread (front (snd s))"

definition is_queue_empty :: "queue_state \<Rightarrow> bool" where
  "is_queue_empty s \<longleftrightarrow> front (snd s) = NULL"

partial_function (option) get_state_from ::
    "queue_heap \<Rightarrow> runner_id \<Rightarrow> address \<Rightarrow> condition_variable_status res option" where
  "get_state_from h thread current =
     (if current = NULL then Some (Inl (Runtime_error ''get_thread_cv: Thread not found in the queue''))
      else case h current of
          None \<Rightarrow> Some (Inl Null_dereference)
        | Some n \<Rightarrow> if node_thread n = thread then Some (Inr (node_state n))
                    else get_state_from h thread (next_node n))"

definition queue_get_thread_cv_state ::
    "queue_state \<Rightarrow> runner_id \<Rightarrow> condition_variable_status res option" where
  "queue_get_thread_cv_state s thread = get_state_from (fst s) thread (front (snd s))"

partial_function (option) update_from ::
    "queue_heap \<Rightarrow> runner_id \<Rightarrow> condition_variable_status \<Rightarrow> address \<Rightarrow> queue_heap res option" where
  "update_from h thread new_state current =
     (if current = NULL
      then Some (Inl (Runtime_error ''update_thread_cv_state: Thread not found in the queue''))
      else case h current of
          None \<Rightarrow> Some (Inl Null_dereference)
        | Some n \<Rightarrow> if node_thread n = thread
                    then Some (Inr (h(current \<mapsto> n\<lparr>node_state := new_state\<rparr>)))
                    else update_from h thread new_state (next_node n))"

definition queue_update_thread_cv_state ::
    "runner_id \<Rightarrow> condition_variable_status \<Rightarrow> queue_state \<Rightarrow> queue_state res option" where
  "queue_update_thread_cv_state thread new_state s =
     (case update_from (fst s) thread new_state (front (snd s)) of
        None \<Rightarrow> None
      | Some r \<Rightarrow> Some (bind_res r (\<lambda>h. Inr (h, snd s))))"

partial_function (option) waiting_from :: "queue_heap \<Rightarrow> address \<Rightarrow> runner_id res option" where
  "waiting_from h current =
     (if current = NULL then Some (Inr RID_INVALID)
      else case h current of
          None \<Rightarrow> Some (Inl Null_dereference)
        | Some n \<Rightarrow> if node_state n = CV_WAITING then Some (Inr (node_thread n))
                    else waiting_from h (next_node n))"

definition get_waiting_thread_node :: "queue_state \<Rightarrow> runner_id res option" where
  "get_waiting_thread_node s = waiting_from (fst s) (front (snd s))"

text \<open>The loop of \<^verbatim>\<open>remove_thread_from_queue\<close>, with \<open>current\<close> in front of the node looked at.\<close>

partial_function (option) remove_after ::
    "runner_id \<Rightarrow> queue_heap \<Rightarrow> thread_queue \<Rightarrow> address \<Rightarrow> (int \<times> queue_state) res option" where
  "remove_after tid h q current =
     (case h current of
        None \<Rightarrow> Some (Inl Null_dereference)
      | Some n \<Rightarrow>
          if next_node n = NULL then Some (Inr (-1, (h, q)))
          else case h (next_node n) of
              None \<Rightarrow> Some (Inl Null_dereference)
            | Some to_remove \<Rightarrow>
                if node_thread to_remove = tid
                then let h1 = h(current \<mapsto> n\<lparr>next_node := next_node to_remove\<rparr>);
                         q1 = (if next_node n = rear q then q\<lparr>rear := current\<rparr> else q)
                     in Some (Inr (0, (h1(next_node n := None),
                                       q1\<lparr>queue_size := queue_size q1 - 1\<rparr>)))
                else remove_after tid h q (next_node n))"

definition remove_thread_from_queue ::
    "runner_id \<Rightarrow> queue_state \<Rightarrow> (int \<times> queue_state) res option" where
  "remove_thread_from_queue tid s =
     (let (h, q) = s
      in if front q = NULL then Some (Inr (-1, s))
         else case h (front q) of
             None \<Rightarrow> Some (Inl Null_dereference)
           | Some to_remove \<Rightarrow>
               if node_thread to_remove = tid
               then let q1 = q\<lparr>front := next_node to_remove\<rparr>;
                        q2 = (if front q1 = NULL then q1\<lparr>rear := NULL\<rparr> else q1)
                    in Some (Inr (0, (h(front q := None), q2\<lparr>queue_size := queue_size q2 - 1\<rparr>)))
               else remove_after tid h q (front q))"

section \<open>The abstract queue\<close>

type_synonym waiters = "(runner_id \<times> condition_variable_status) list"

definition waiters_enqueue :: "runner_id \<Rightarrow> condition_variable_status \<Rightarrow> waiters \<Rightarrow> waiters" where
  "waiters_enqueue t st ws = ws @ [(t, st)]"

definition waiters_contain :: "waiters \<Rightarrow> runner_id \<Rightarrow> bool" where
  "waiters_contain ws t \<longleftrightarrow> t \<in> fst ` set ws"

definition waiters_state :: "waiters \<Rightarrow> runner_id \<Rightarrow> condition_variable_status option" where
  "waiters_state ws t = map_of ws t"

fun waiters_update :: "runner_id \<Rightarrow> condition_variable_status \<Rightarrow> waiters \<Rightarrow> waiters" where
  "waiters_update t st [] = []"
| "waiters_update t st (w # ws) =
     (if fst w = t then (t, st) # ws else w # waiters_update t st ws)"

fun waiters_first_waiting :: "waiters \<Rightarrow> runner_id" where
  "waiters_first_waiting [] = RID_INVALID"
| "waiters_first_waiting (w # ws) =
     (if snd w = CV_WAITING then fst w else waiters_first_waiting ws)"

fun waiters_remove :: "runner_id \<Rightarrow> waiters \<Rightarrow> waiters" where
  "waiters_remove t [] = []"
| "waiters_remove t (w # ws) = (if fst w = t then ws else w # waiters_remove t ws)"

lemma waiters_update_absent [simp]: "t \<notin> fst ` set ws \<Longrightarrow> waiters_update t st ws = ws"
  by (induction ws) auto

lemma waiters_remove_absent [simp]: "t \<notin> fst ` set ws \<Longrightarrow> waiters_remove t ws = ws"
  by (induction ws) auto

lemma waiters_update_append:
  "waiters_update t st (us @ vs) =
     (if t \<in> fst ` set us then waiters_update t st us @ vs else us @ waiters_update t st vs)"
  by (induction us) auto

lemma waiters_remove_append:
  "waiters_remove t (us @ vs) =
     (if t \<in> fst ` set us then waiters_remove t us @ vs else us @ waiters_remove t vs)"
  by (induction us) auto

lemma keys_waiters_update [simp]: "map fst (waiters_update t st ws) = map fst ws"
  by (induction ws) auto

lemma length_waiters_update [simp]: "length (waiters_update t st ws) = length ws"
  by (induction ws) auto

lemma entries_of_others [simp]:
  "u \<noteq> t \<Longrightarrow> filter (\<lambda>w. fst w = t) (waiters_update u st ws) = filter (\<lambda>w. fst w = t) ws"
  "u \<noteq> t \<Longrightarrow> filter (\<lambda>w. fst w = t) (waiters_remove u ws) = filter (\<lambda>w. fst w = t) ws"
  by (induction ws) auto

lemma waiters_state_update:
  "t \<in> fst ` set ws \<Longrightarrow>
     waiters_state (waiters_update t st ws) u = (if u = t then Some st else waiters_state ws u)"
proof (induction ws)
  case (Cons w ws)
  then show ?case by (cases "fst w = t") (auto simp: waiters_state_def)
qed simp

section \<open>Paths on the heap\<close>

fun path :: "queue_heap \<Rightarrow> address \<Rightarrow> address list \<Rightarrow> address \<Rightarrow> bool" where
  "path h a [] b \<longleftrightarrow> a = b"
| "path h a (x # xs) b \<longleftrightarrow> a = x \<and> x \<noteq> NULL \<and> (\<exists>n. h x = Some n \<and> path h (next_node n) xs b)"

definition contents :: "queue_heap \<Rightarrow> address list \<Rightarrow> waiters" where
  "contents h xs = map (\<lambda>a. (node_thread (the (h a)), node_state (the (h a)))) xs"

lemma contents_simps [simp]:
  "contents h [] = []"
  "contents h (x # xs) = (node_thread (the (h x)), node_state (the (h x))) # contents h xs"
  "contents h (xs @ ys) = contents h xs @ contents h ys"
  by (simp_all add: contents_def)

lemma path_append [simp]: "path h a (xs @ ys) b \<longleftrightarrow> (\<exists>c. path h a xs c \<and> path h c ys b)"
  by (induction xs arbitrary: a) auto

lemma path_frame: "\<forall>x \<in> set xs. h' x = h x \<Longrightarrow> path h' a xs b = path h a xs b"
  by (induction xs arbitrary: a) auto

lemma contents_frame: "\<forall>x \<in> set xs. h' x = h x \<Longrightarrow> contents h' xs = contents h xs"
  by (simp add: contents_def)

lemma path_upd [simp]: "a \<notin> set xs \<Longrightarrow> path (h(a := v)) c xs b = path h c xs b"
  by (rule path_frame) auto

lemma contents_upd [simp]: "a \<notin> set xs \<Longrightarrow> contents (h(a := v)) xs = contents h xs"
  by (rule contents_frame) auto

lemma path_start: "path h a xs NULL \<Longrightarrow> a = (if xs = [] then NULL else hd xs)"
  by (cases xs) auto

lemma path_nonnull: "path h a xs b \<Longrightarrow> x \<in> set xs \<Longrightarrow> x \<noteq> NULL \<and> h x \<noteq> None"
  by (induction xs arbitrary: a) auto

text \<open>A path that ends at the null pointer has no cycle: a node determines all that follow it.\<close>

lemma path_functional: "path h a xs NULL \<Longrightarrow> path h a ys NULL \<Longrightarrow> xs = ys"
proof (induction xs arbitrary: a ys)
  case Nil
  then show ?case using path_start by (cases ys) auto
next
  case (Cons x xs)
  then show ?case by (cases ys) (auto simp: NULL_def)
qed

lemma path_distinct: "path h a xs NULL \<Longrightarrow> distinct xs"
proof (induction xs arbitrary: a)
  case (Cons x xs)
  then obtain n where n: "h x = Some n" "path h (next_node n) xs NULL" and x: "x \<noteq> NULL" by auto
  have "x \<notin> set xs"
  proof
    assume "x \<in> set xs"
    then obtain us vs where "xs = us @ x # vs" by (meson split_list)
    with n have "path h x (x # vs) NULL" by auto
    moreover have "path h x (x # xs) NULL" using Cons.prems by simp
    ultimately have "vs = xs" using path_functional by blast
    with \<open>xs = us @ x # vs\<close> show False by simp
  qed
  with Cons.IH n(2) show ?case by auto
qed simp

definition queue_repr :: "queue_state \<Rightarrow> address list \<Rightarrow> bool" where
  "queue_repr s xs \<longleftrightarrow>
     path (fst s) (front (snd s)) xs NULL \<and> rear (snd s) = (if xs = [] then NULL else last xs)"

definition represents :: "queue_state \<Rightarrow> waiters \<Rightarrow> bool" where
  "represents s ws \<longleftrightarrow> (\<exists>xs. queue_repr s xs \<and> contents (fst s) xs = ws)"

section \<open>Each operation implements the one on lists\<close>

lemma queue_reprI:
  "path h f xs NULL \<Longrightarrow> r = (if xs = [] then NULL else last xs) \<Longrightarrow>
     queue_repr (h, \<lparr>front = f, rear = r, queue_size = n\<rparr>) xs"
  by (simp add: queue_repr_def)

lemma represents_empty [simp]: "represents (h, create_thread_queue g) []"
  by (auto simp: represents_def queue_repr_def create_thread_queue_def intro: exI [of _ "[]"])

lemma is_in_from_path:
  "path h a xs NULL \<Longrightarrow> is_in_from h t a = Some (Inr (t \<in> fst ` set (contents h xs)))"
  by (induction xs arbitrary: a) (auto simp: is_in_from.simps)

lemma get_state_from_path:
  "path h a xs NULL \<Longrightarrow>
     get_state_from h t a =
       Some (case waiters_state (contents h xs) t of
               None \<Rightarrow> Inl (Runtime_error ''get_thread_cv: Thread not found in the queue'')
             | Some st \<Rightarrow> Inr st)"
  by (induction xs arbitrary: a) (auto simp: get_state_from.simps waiters_state_def)

lemma waiting_from_path:
  "path h a xs NULL \<Longrightarrow> waiting_from h a = Some (Inr (waiters_first_waiting (contents h xs)))"
  by (induction xs arbitrary: a) (auto simp: waiting_from.simps)

lemma update_from_path:
  assumes "path h a xs NULL" and "t \<in> fst ` set (contents h xs)"
  shows "\<exists>h'. update_from h t st a = Some (Inr h') \<and> path h' a xs NULL \<and>
           contents h' xs = waiters_update t st (contents h xs) \<and> (\<forall>x. x \<notin> set xs \<longrightarrow> h' x = h x)"
  using assms
proof (induction xs arbitrary: a)
  case (Cons x xs)
  from path_distinct [OF Cons.prems(1)] Cons.prems(1) obtain n where
    n: "h x = Some n" "path h (next_node n) xs NULL" and x: "x \<noteq> NULL" "a = x" "x \<notin> set xs" by auto
  show ?case
  proof (cases "node_thread n = t")
    case True
    let ?h = "h(x \<mapsto> n\<lparr>node_state := st\<rparr>)"
    have "path ?h (next_node n) xs NULL" "contents ?h xs = contents h xs"
      using n(2) x(3) by auto
    with True n x show ?thesis by (simp add: update_from.simps [of h t st x])
  next
    case False
    with Cons.prems n have "t \<in> fst ` set (contents h xs)" by auto
    with Cons.IH n(2) obtain h' where h': "update_from h t st (next_node n) = Some (Inr h')"
      "path h' (next_node n) xs NULL" "contents h' xs = waiters_update t st (contents h xs)"
      "\<forall>y. y \<notin> set xs \<longrightarrow> h' y = h y" by blast
    then have "h' x = Some n" using x n by simp
    with False n x h' show ?thesis by (subst update_from.simps) simp
  qed
qed simp

lemma update_from_absent:
  "path h a xs NULL \<Longrightarrow> t \<notin> fst ` set (contents h xs) \<Longrightarrow>
     update_from h t st a =
       Some (Inl (Runtime_error ''update_thread_cv_state: Thread not found in the queue''))"
  by (induction xs arbitrary: a) (auto simp: update_from.simps)

lemma enqueue_represents:
  assumes "represents s ws" and fresh: "fst s a = None" and a: "a \<noteq> NULL"
  shows "\<exists>s'. enqueue_thread a t st s = Inr s' \<and> represents s' (waiters_enqueue t st ws) \<and>
           queue_size (snd s') = queue_size (snd s) + 1"
proof -
  obtain h q where s: "s = (h, q)" by (cases s)
  from assms(1) obtain xs where xs: "queue_repr s xs" "contents h xs = ws"
    by (auto simp: represents_def s)
  let ?n = "\<lparr>node_thread = t, node_state = st, next_node = NULL\<rparr>"
  let ?h1 = "h(a \<mapsto> ?n)"
  have notin: "a \<notin> set xs" using xs(1) fresh s path_nonnull by (fastforce simp: queue_repr_def)
  show ?thesis
  proof (cases "xs = []")
    case True
    with xs have "rear q = NULL" "ws = []" by (auto simp: queue_repr_def s)
    with a show ?thesis
      by (auto simp: enqueue_thread_def s represents_def queue_repr_def waiters_enqueue_def
          intro!: exI [of _ "[a]"])
  next
    case False
    then obtain us y where us: "xs = us @ [y]" by (metis append_butlast_last_id)
    with xs(1) have y: "rear q = y" and p: "path h (front q) us y" and "y \<noteq> NULL"
      by (auto simp: queue_repr_def s)
    from xs(1) us obtain m where m: "h y = Some m" by (auto simp: queue_repr_def s)
    let ?h2 = "?h1(y \<mapsto> m\<lparr>next_node := a\<rparr>)"
    have ya: "y \<noteq> a" "y \<notin> set us" "a \<notin> set us"
      using notin us path_distinct [of h "front q" xs] xs(1) by (auto simp: queue_repr_def s)
    have "path ?h2 (front q) us y" "contents ?h2 us = contents h us"
      using p ya by auto
    then have "queue_repr (?h2, q\<lparr>rear := a, queue_size := queue_size q + 1\<rparr>) (xs @ [a])"
      and "contents ?h2 (xs @ [a]) = ws @ [(t, st)]"
      using us m ya a \<open>y \<noteq> NULL\<close> xs(2) by (auto simp: queue_repr_def)
    moreover have "enqueue_thread a t st s = Inr (?h2, q\<lparr>rear := a, queue_size := queue_size q + 1\<rparr>)"
      using y \<open>y \<noteq> NULL\<close> ya m by (simp add: enqueue_thread_def s deref_node_def)
    ultimately show ?thesis by (auto simp: represents_def waiters_enqueue_def s)
  qed
qed

text \<open>The heap and queue after the node \<open>y\<close> behind \<open>p\<close> has been taken out.\<close>

definition unlink :: "queue_heap \<Rightarrow> thread_queue \<Rightarrow> address \<Rightarrow> address \<Rightarrow> queue_state" where
  "unlink h q p y =
     ((h(p \<mapsto> (the (h p))\<lparr>next_node := next_node (the (h y))\<rparr>))(y := None),
      q\<lparr>rear := (if y = rear q then p else rear q), queue_size := queue_size q - 1\<rparr>)"

lemma remove_after_absent:
  "path h c (c # xs) NULL \<Longrightarrow> tid \<notin> fst ` set (contents h xs) \<Longrightarrow>
     remove_after tid h q c = Some (Inr (-1, (h, q)))"
proof (induction xs arbitrary: c)
  case Nil
  then show ?case by (auto simp: remove_after.simps)
next
  case (Cons x xs)
  then obtain n m where n: "h c = Some n" "next_node n = x" "x \<noteq> NULL" "h x = Some m"
    and p: "path h x (x # xs) NULL" by auto
  from Cons.prems n have "node_thread m \<noteq> tid" "tid \<notin> fst ` set (contents h xs)" by auto
  with Cons.IH [OF p] n show ?case by (simp add: remove_after.simps [of tid h q c])
qed

lemma remove_after_present:
  assumes "path h c (c # xs) NULL" and "tid \<in> fst ` set (contents h xs)"
  shows "\<exists>us y vs. xs = us @ y # vs \<and> tid \<notin> fst ` set (contents h us) \<and>
           node_thread (the (h y)) = tid \<and>
           remove_after tid h q c = Some (Inr (0, unlink h q (last (c # us)) y))"
  using assms
proof (induction xs arbitrary: c)
  case (Cons x xs)
  then obtain n m where n: "h c = Some n" "next_node n = x" "x \<noteq> NULL" "h x = Some m"
    and p: "path h x (x # xs) NULL" by auto
  show ?case
  proof (cases "node_thread m = tid")
    case True
    with n show ?thesis
      by (intro exI [of _ "[]"]) (simp add: remove_after.simps [of tid h q c] unlink_def Let_def)
  next
    case False
    with n have "remove_after tid h q c = remove_after tid h q x"
      by (subst remove_after.simps) simp
    moreover from False Cons.prems(2) n have "tid \<in> fst ` set (contents h xs)" by auto
    from Cons.IH [OF p this] obtain us y vs where "xs = us @ y # vs"
      "tid \<notin> fst ` set (contents h us)" "node_thread (the (h y)) = tid"
      "remove_after tid h q x = Some (Inr (0, unlink h q (last (x # us)) y))" by blast
    ultimately show ?thesis using False n by (intro exI [of _ "x # us"] exI [of _ y] exI [of _ vs]) simp
  qed
qed simp

lemma unlink_represents:
  assumes p: "path h (front q) (ps @ y # vs) NULL" and ps: "ps \<noteq> []"
    and r: "rear q = last (ps @ y # vs)"
  shows "represents (unlink h q (last ps) y) (contents h (ps @ vs))"
proof -
  obtain us x where us: "ps = us @ [x]" using ps by (metis append_butlast_last_id)
  have d: "distinct (us @ [x] @ y # vs)" using path_distinct [OF p] us by simp
  let ?h = "(h(x \<mapsto> (the (h x))\<lparr>next_node := next_node (the (h y))\<rparr>))(y := None)"
  have "path ?h (front q) (us @ [x] @ vs) NULL"
    and "contents ?h (us @ [x] @ vs) = contents h (us @ [x] @ vs)"
    using p us d by auto
  then show ?thesis
    using r us d by (auto simp: represents_def queue_repr_def unlink_def
        intro!: exI [of _ "us @ [x] @ vs"])
qed

text \<open>\<^verbatim>\<open>remove_thread_from_queue\<close> returns 0 when the thread was queued and \<open>-1\<close> otherwise.\<close>

lemma remove_represents:
  assumes "represents s ws"
  shows "\<exists>rc s'. remove_thread_from_queue tid s = Some (Inr (rc, s')) \<and>
           represents s' (waiters_remove tid ws) \<and> rc = (if waiters_contain ws tid then 0 else -1)"
proof -
  obtain h q where s: "s = (h, q)" by (cases s)
  from assms obtain xs where xs: "queue_repr s xs" "contents h xs = ws"
    by (auto simp: represents_def s)
  show ?thesis
  proof (cases xs)
    case Nil
    with xs assms show ?thesis
      by (auto simp: remove_thread_from_queue_def queue_repr_def s waiters_contain_def)
  next
    case (Cons x rest)
    with xs have x: "front q = x" "x \<noteq> NULL" and p: "path h x (x # rest) NULL"
      by (auto simp: queue_repr_def s)
    from p obtain n where n: "h x = Some n" "path h (next_node n) rest NULL" by auto
    have d: "x \<notin> set rest" using path_distinct [OF p] by simp
    show ?thesis
    proof (cases "node_thread n = tid")
      case True
      let ?q = "if next_node n = NULL then q\<lparr>front := next_node n, rear := NULL\<rparr>
                else q\<lparr>front := next_node n\<rparr>"
      have "represents (h(x := None), ?q\<lparr>queue_size := queue_size ?q - 1\<rparr>) (contents h rest)"
        using n xs(1) Cons d path_start [OF n(2)] path_nonnull [OF n(2), of "hd rest"]
        by (auto simp: represents_def queue_repr_def s intro!: exI [of _ rest])
      with True Cons n x xs(2) show ?thesis
        by (auto simp: remove_thread_from_queue_def s waiters_contain_def Let_def)
    next
      case False
      with n x have step: "remove_thread_from_queue tid s = remove_after tid h q x"
        by (simp add: remove_thread_from_queue_def s)
      have key: "waiters_contain ws tid \<longleftrightarrow> tid \<in> fst ` set (contents h rest)"
        using False n xs(2) Cons by (auto simp: waiters_contain_def)
      show ?thesis
      proof (cases "tid \<in> fst ` set (contents h rest)")
        case absent: False
        then show ?thesis
          using step key remove_after_absent [OF p absent] assms s by (auto simp: waiters_contain_def)
      next
        case True
        from remove_after_present [OF p this, of q] obtain us y vs where
          r: "rest = us @ y # vs" "tid \<notin> fst ` set (contents h us)" "node_thread (the (h y)) = tid"
          "remove_after tid h q x = Some (Inr (0, unlink h q (last (x # us)) y))" by blast
        have "represents (unlink h q (last (x # us)) y) (contents h ((x # us) @ vs))"
          by (rule unlink_represents) (use p r(1) x(1) xs(1) Cons in \<open>simp_all add: queue_repr_def s\<close>)
        moreover have "contents h ((x # us) @ vs) = waiters_remove tid ws"
          using xs(2) Cons r False n by (auto simp: waiters_remove_append)
        ultimately show ?thesis using step r(4) key True by auto
      qed
    qed
  qed
qed

lemma update_represents:
  assumes "represents s ws" and "waiters_contain ws t"
  shows "\<exists>s'. queue_update_thread_cv_state t st s = Some (Inr s') \<and>
           represents s' (waiters_update t st ws)"
proof -
  obtain h q where s: "s = (h, q)" by (cases s)
  from assms(1) obtain xs where xs: "queue_repr s xs" "contents h xs = ws"
    by (auto simp: represents_def s)
  then have p: "path h (front q) xs NULL" by (simp add: queue_repr_def s)
  from assms(2) xs(2) have t: "t \<in> fst ` set (contents h xs)" by (simp add: waiters_contain_def)
  from update_from_path [OF p t, of st] obtain h' where
    "update_from h t st (front q) = Some (Inr h')" "path h' (front q) xs NULL"
    "contents h' xs = waiters_update t st (contents h xs)" by blast
  moreover from this have "represents (h', q) (waiters_update t st ws)"
    using xs unfolding represents_def queue_repr_def s by (intro exI [of _ xs]) simp
  ultimately show ?thesis by (simp add: queue_update_thread_cv_state_def s)
qed

lemma update_absent:
  "represents s ws \<Longrightarrow> \<not> waiters_contain ws t \<Longrightarrow>
     queue_update_thread_cv_state t st s =
       Some (Inl (Runtime_error ''update_thread_cv_state: Thread not found in the queue''))"
  by (auto simp: represents_def queue_repr_def queue_update_thread_cv_state_def waiters_contain_def
      update_from_absent)

lemma queries_represent:
  assumes "represents s ws"
  shows "is_in_thread_queue s t = Some (Inr (waiters_contain ws t))"
    and "get_waiting_thread_node s = Some (Inr (waiters_first_waiting ws))"
    and "is_queue_empty s \<longleftrightarrow> ws = []"
    and "queue_get_thread_cv_state s t =
           Some (case waiters_state ws t of
                   None \<Rightarrow> Inl (Runtime_error ''get_thread_cv: Thread not found in the queue'')
                 | Some st \<Rightarrow> Inr st)"
proof -
  obtain h q where s: "s = (h, q)" by (cases s)
  from assms obtain xs where p: "path h (front q) xs NULL" and ws: "ws = contents h xs"
    by (auto simp: represents_def queue_repr_def s)
  show "is_in_thread_queue s t = Some (Inr (waiters_contain ws t))"
    using is_in_from_path [OF p] ws by (simp add: is_in_thread_queue_def waiters_contain_def s)
  show "get_waiting_thread_node s = Some (Inr (waiters_first_waiting ws))"
    using waiting_from_path [OF p] ws by (simp add: get_waiting_thread_node_def s)
  show "is_queue_empty s \<longleftrightarrow> ws = []"
    using p ws by (cases xs) (auto simp: is_queue_empty_def s)
  show "queue_get_thread_cv_state s t = Some (case waiters_state ws t of
      None \<Rightarrow> Inl (Runtime_error ''get_thread_cv: Thread not found in the queue'') | Some st \<Rightarrow> Inr st)"
    using get_state_from_path [OF p] ws by (simp add: queue_get_thread_cv_state_def s)
qed

section \<open>Properties\<close>

text \<open>
  C26. The operations of the pointer queue end on every well-formed queue, never read through a
  dangling pointer, keep the queue well-formed, and implement the operations on a list of waiters:
  enqueueing appends, removing deletes the first entry of the thread and says whether there was
  one, updating changes the state of the first entry, and the queries answer from the list.
\<close>

theorem queue_implements_waiters:
  assumes "represents s ws"
  shows "(fst s node = None \<longrightarrow> node \<noteq> NULL \<longrightarrow>
           (\<exists>s'. enqueue_thread node t st s = Inr s' \<and> represents s' (waiters_enqueue t st ws))) \<and>
         (\<exists>s'. remove_thread_from_queue t s =
                 Some (Inr (if waiters_contain ws t then 0 else -1, s')) \<and>
               represents s' (waiters_remove t ws)) \<and>
         (waiters_contain ws t \<longrightarrow>
           (\<exists>s'. queue_update_thread_cv_state t st s = Some (Inr s') \<and>
                 represents s' (waiters_update t st ws))) \<and>
         is_in_thread_queue s t = Some (Inr (waiters_contain ws t)) \<and>
         get_waiting_thread_node s = Some (Inr (waiters_first_waiting ws)) \<and>
         (is_queue_empty s \<longleftrightarrow> ws = [])"
proof (intro conjI impI)
  show "\<exists>s'. enqueue_thread node t st s = Inr s' \<and> represents s' (waiters_enqueue t st ws)"
    if "fst s node = None" "node \<noteq> NULL"
    using enqueue_represents [OF assms that] by blast
  show "\<exists>s'. remove_thread_from_queue t s = Some (Inr (if waiters_contain ws t then 0 else -1, s')) \<and>
      represents s' (waiters_remove t ws)"
    using remove_represents [OF assms, of t] by (elim exE conjE) simp
  show "\<exists>s'. queue_update_thread_cv_state t st s = Some (Inr s') \<and>
      represents s' (waiters_update t st ws)" if "waiters_contain ws t"
    using update_represents [OF assms that] .
qed (rule queries_represent [OF assms])+

definition two_waiters :: queue_state where
  "two_waiters =
     ((\<lambda>_. None)(1 \<mapsto> \<lparr>node_thread = 7, node_state = CV_PREWAITING, next_node = 2\<rparr>,
                  2 \<mapsto> \<lparr>node_thread = 8, node_state = CV_WAITING, next_node = NULL\<rparr>),
      \<lparr>front = 1, rear = 2, queue_size = 2\<rparr>)"

lemma two_waiters_repr: "represents two_waiters [(7, CV_PREWAITING), (8, CV_WAITING)]"
  by (auto simp: represents_def queue_repr_def two_waiters_def NULL_def intro!: exI [of _ "[1, 2]"])

theorem queue_implements_waiters_witness:
  "(\<exists>s'. remove_thread_from_queue 8 two_waiters = Some (Inr (0, s')) \<and>
         represents s' [(7, CV_PREWAITING)]) \<and>
   get_waiting_thread_node two_waiters = Some (Inr 8)"
  using queue_implements_waiters [OF two_waiters_repr, of 3 8 CV_SIGNALED]
  by (simp add: waiters_contain_def)

text \<open>
  \<^verbatim>\<open>dequeue_thread\<close> on a queue with no thread in state \<^verbatim>\<open>CV_WAITING\<close> drops every node from the front
  and leaves \<open>rear\<close> at the last of them, so a thread enqueued next is lost.
\<close>

lemma dequeue_loop_none_waiting:
  "path h a xs NULL \<Longrightarrow> CV_WAITING \<notin> snd ` set (contents h xs) \<Longrightarrow> front q = a \<Longrightarrow>
     dequeue_loop h q = Some (Inr (RID_INVALID, (h, q\<lparr>front := NULL\<rparr>)))"
proof (induction xs arbitrary: a q)
  case Nil
  then show ?case by (subst dequeue_loop.simps) simp
next
  case (Cons x xs)
  then obtain n where n: "h x = Some n" "path h (next_node n) xs NULL" "x \<noteq> NULL" "a = x"
    "node_state n \<noteq> CV_WAITING" "CV_WAITING \<notin> snd ` set (contents h xs)" by auto
  have "dequeue_loop h q = dequeue_loop h (q\<lparr>front := next_node n\<rparr>)"
    using n Cons.prems(3) by (subst dequeue_loop.simps) simp
  also have "\<dots> = Some (Inr (RID_INVALID, (h, (q\<lparr>front := next_node n\<rparr>)\<lparr>front := NULL\<rparr>)))"
    by (rule Cons.IH [OF n(2) n(6)]) simp
  finally show ?case by simp
qed

lemma dequeue_then_enqueue_loses_thread:
  assumes "represents (h, q) ws" and "ws \<noteq> []" and "CV_WAITING \<notin> snd ` set ws"
    and "h node = None"
  shows "\<exists>s' s''. dequeue_thread (h, q) = Some (Inr (RID_INVALID, s')) \<and>
           enqueue_thread node t st s' = Inr s'' \<and> is_queue_empty s''"
proof -
  from assms(1) obtain xs where xs: "queue_repr (h, q) xs" "contents h xs = ws"
    by (auto simp: represents_def)
  with assms(2) have ne: "xs \<noteq> []" by auto
  with xs have p: "path h (front q) xs NULL" and r: "rear q = last xs" by (auto simp: queue_repr_def)
  have d: "dequeue_loop h q = Some (Inr (RID_INVALID, (h, q\<lparr>front := NULL\<rparr>)))"
    using dequeue_loop_none_waiting [OF p] xs(2) assms(3) by simp
  have f: "front q \<noteq> NULL" using p ne path_start [OF p] path_nonnull [OF p, of "hd xs"] by simp
  obtain n where n: "h (rear q) = Some n" "rear q \<noteq> NULL"
    using path_nonnull [OF p, of "last xs"] ne r by auto
  then have "rear q \<noteq> node" using assms(4) by auto
  with d f n show ?thesis
    by (simp add: dequeue_thread_def enqueue_thread_def deref_node_def is_queue_empty_def)
qed

end
