(* ===== verification/Recording.thy ===== *)
theory Recording
  imports Thread_Queue Objects
begin

text \<open>
  Recording: what the interception library \<^verbatim>\<open>libmcmini.so\<close> keeps of the target's objects while
  the target runs freely, until a checkpoint is taken. The list of recorded objects and its
  searches are \<^verbatim>\<open>src/lib/record.c\<close> and \<^verbatim>\<open>include/mcmini/spy/checkpointing/\<close>; the rest are the
  branches for the modes \<^verbatim>\<open>RECORD\<close> and \<^verbatim>\<open>PRE_CHECKPOINT\<close> of the wrappers in \<^verbatim>\<open>wrappers.c\<close> and
  \<^verbatim>\<open>sem-wrappers.c\<close>.

  The list only grows, so a node is named by its position. A wrapper holds \<^verbatim>\<open>rec_list_lock\<close> twice:
  before it calls the C library, to find or add the record, and after the call returned, to note
  its effect. The two critical sections are two definitions, \<open>\<dots>_enter\<close> and \<open>\<dots>_leave\<close>: other
  threads run in between, and \<open>Recording_Steps\<close> interleaves them. The state of an object is a value
  of \<open>recorded_state\<close>, a constructor per member of the C union; using one member where another was
  stored is \<open>Bad_cast\<close>. A queue of waiters is the list that \<open>Thread_Queue\<close> shows its pointer
  structure to implement. \<^verbatim>\<open>libc_abort()\<close> is a \<open>Runtime_error\<close>. The counters declared
  \<^verbatim>\<open>int\<close> are integers.
\<close>

section \<open>Recorded objects\<close>

datatype mutex_status = UNINITIALIZED | UNLOCKED | LOCKED | DESTROYED

datatype semaphore_status = SEM_UNINITIALIZED | SEM_INITIALIZED | SEM_DESTROYED

record condition_variable_state =
  cond_status :: condition_variable_status
  interacting_thread :: runner_id
  cond_mutex :: address
  cond_count :: int
  waiting_threads :: "waiters option"
  cond_prev_waiting_count :: int
  cond_lost_wakeups :: int

datatype recorded_state =
    Mut_state mutex_status runner_id
  | Sem_state "32 word" semaphore_status
  | Cond_state condition_variable_state
  | Thrd_state address runner_id thread_status
  | Waiting_queue_state address runner_id condition_variable_status
  | Unknown_state

record recorded_object =
  rec_location :: address
  rec_state :: recorded_state

type_synonym rec_list = "recorded_object list"

definition empty_visible_obj :: recorded_object where
  "empty_visible_obj = \<lparr>rec_location = NULL, rec_state = Unknown_state\<rparr>"

definition new_cond_state ::
    "condition_variable_status \<Rightarrow> runner_id \<Rightarrow> address \<Rightarrow> waiters option \<Rightarrow> condition_variable_state" where
  "new_cond_state st tid mutex q =
     \<lparr>cond_status = st, interacting_thread = tid, cond_mutex = mutex, cond_count = 0,
      waiting_threads = q, cond_prev_waiting_count = 0, cond_lost_wakeups = 0\<rparr>"

text \<open>The position of the first element that satisfies a predicate.\<close>

fun find_index :: "('a \<Rightarrow> bool) \<Rightarrow> 'a list \<Rightarrow> nat option" where
  "find_index P [] = None"
| "find_index P (x # xs) = (if P x then Some 0 else map_option Suc (find_index P xs))"

definition find_object :: "address \<Rightarrow> rec_list \<Rightarrow> nat option" where
  "find_object addr recs = find_index (\<lambda>vo. rec_location vo = addr) recs"

definition is_thread_record :: "address \<Rightarrow> recorded_object \<Rightarrow> bool" where
  "is_thread_record thrd vo \<longleftrightarrow> (case rec_state vo of Thrd_state d rid st \<Rightarrow> d = thrd | _ \<Rightarrow> False)"

definition find_thread_record_mode :: "address \<Rightarrow> rec_list \<Rightarrow> nat option" where
  "find_thread_record_mode thrd recs = find_index (is_thread_record thrd) recs"

definition add_rec_entry_record_mode :: "recorded_object \<Rightarrow> rec_list \<Rightarrow> nat \<times> rec_list" where
  "add_rec_entry_record_mode vo recs = (length recs, recs @ [vo])"

text \<open>How most wrappers enter: find the record of an address or add one.\<close>

definition find_or_add :: "address \<Rightarrow> recorded_state \<Rightarrow> rec_list \<Rightarrow> nat \<times> rec_list" where
  "find_or_add addr st recs =
     (case find_object addr recs of
        Some i \<Rightarrow> (i, recs)
      | None \<Rightarrow> add_rec_entry_record_mode \<lparr>rec_location = addr, rec_state = st\<rparr> recs)"

definition set_rec_state :: "nat \<Rightarrow> recorded_state \<Rightarrow> rec_list \<Rightarrow> rec_list" where
  "set_rec_state i st recs = recs[i := (recs ! i)\<lparr>rec_state := st\<rparr>]"

definition with_mutex ::
    "nat \<Rightarrow> (mutex_status \<Rightarrow> runner_id \<Rightarrow> recorded_state) \<Rightarrow> rec_list \<Rightarrow> rec_list res" where
  "with_mutex i f recs =
     (case rec_state (recs ! i) of
        Mut_state s ow \<Rightarrow> Inr (set_rec_state i (f s ow) recs) | _ \<Rightarrow> Inl Bad_cast)"

definition with_sem :: "nat \<Rightarrow> (32 word \<Rightarrow> 32 word) \<Rightarrow> rec_list \<Rightarrow> rec_list res" where
  "with_sem i f recs =
     (case rec_state (recs ! i) of
        Sem_state n s \<Rightarrow> Inr (set_rec_state i (Sem_state (f n) s) recs) | _ \<Rightarrow> Inl Bad_cast)"

definition with_cond ::
    "nat \<Rightarrow> (condition_variable_state \<Rightarrow> condition_variable_state res) \<Rightarrow> rec_list \<Rightarrow> rec_list res" where
  "with_cond i f recs =
     (case rec_state (recs ! i) of
        Cond_state c \<Rightarrow> bind_res (f c) (\<lambda>c'. Inr (set_rec_state i (Cond_state c') recs))
      | _ \<Rightarrow> Inl Bad_cast)"

text \<open>Reading through the pointer \<^verbatim>\<open>waiting_threads\<close>.\<close>

definition waiters_of :: "condition_variable_state \<Rightarrow> waiters res" where
  "waiters_of c = (case waiting_threads c of None \<Rightarrow> Inl Null_dereference | Some ws \<Rightarrow> Inr ws)"

section \<open>Timed attempts\<close>

text \<open>
  A wrapper that may block retries a timed call until it succeeds, fails for good, or times out
  after a restart, in which case it leaves the loop and falls through to the code that hands the
  thread to the model checker. An attempt is the return code of the C library and what
  \<^verbatim>\<open>is_in_restart_mode()\<close> answers after it. \<open>None\<close> means that the loop is still going.
\<close>

definition ETIMEDOUT :: int where
  "ETIMEDOUT = 110"

datatype attempt_result = Succeeded | Escaped | Failed int

fun timed_loop :: "(int \<times> bool) list \<Rightarrow> attempt_result option" where
  "timed_loop [] = None"
| "timed_loop ((rc, in_restart_mode) # attempts) =
     (if rc = 0 then Some Succeeded
      else if rc = ETIMEDOUT
      then (if in_restart_mode then Some Escaped else timed_loop attempts)
      else Some (Failed rc))"

text \<open>
  The wrapper around the loop: what it returns to the caller, \<open>None\<close> when it falls through, and the
  recorded objects.
\<close>

definition after_attempts ::
    "(rec_list \<Rightarrow> rec_list res) \<Rightarrow> (int \<times> bool) list \<Rightarrow> rec_list \<Rightarrow> (int option \<times> rec_list) res option" where
  "after_attempts leave attempts recs =
     (case timed_loop attempts of
        None \<Rightarrow> None
      | Some Succeeded \<Rightarrow> Some (bind_res (leave recs) (\<lambda>r. Inr (Some 0, r)))
      | Some Escaped \<Rightarrow> Some (Inr (None, recs))
      | Some (Failed rc) \<Rightarrow> Some (Inr (Some rc, recs)))"

section \<open>Mutexes\<close>

definition mutex_enter :: "address \<Rightarrow> rec_list \<Rightarrow> nat \<times> rec_list" where
  "mutex_enter mutex recs = find_or_add mutex (Mut_state UNINITIALIZED RID_INVALID) recs"

definition mutex_init_leave :: "nat \<Rightarrow> int \<Rightarrow> rec_list \<Rightarrow> rec_list res" where
  "mutex_init_leave i rc recs =
     (if rc = 0 then with_mutex i (\<lambda>s ow. Mut_state UNLOCKED ow) recs else Inr recs)"

definition mutex_lock_leave :: "nat \<Rightarrow> runner_id \<Rightarrow> rec_list \<Rightarrow> rec_list res" where
  "mutex_lock_leave i tid_self recs = with_mutex i (\<lambda>s ow. Mut_state LOCKED tid_self) recs"

definition mutex_unlock_enter :: "address \<Rightarrow> rec_list \<Rightarrow> nat res" where
  "mutex_unlock_enter mutex recs =
     (case find_object mutex recs of
        None \<Rightarrow> Inl (Runtime_error ''Undefined behavior: attempting to unlock an uninitialized mutex'')
      | Some i \<Rightarrow> Inr i)"

definition mutex_unlock_leave :: "nat \<Rightarrow> int \<Rightarrow> rec_list \<Rightarrow> rec_list res" where
  "mutex_unlock_leave i rc recs =
     (if rc = 0 then with_mutex i (\<lambda>s ow. Mut_state UNLOCKED RID_INVALID) recs else Inr recs)"

definition record_mutex_init :: "address \<Rightarrow> int \<Rightarrow> rec_list \<Rightarrow> (int \<times> rec_list) res" where
  "record_mutex_init mutex rc recs =
     (let (i, r) = mutex_enter mutex recs
      in bind_res (mutex_init_leave i rc r) (\<lambda>r'. Inr (rc, r')))"

definition record_mutex_lock ::
    "runner_id \<Rightarrow> address \<Rightarrow> (int \<times> bool) list \<Rightarrow> rec_list \<Rightarrow> (int option \<times> rec_list) res option" where
  "record_mutex_lock tid_self mutex attempts recs =
     (let (i, r) = mutex_enter mutex recs
      in after_attempts (mutex_lock_leave i tid_self) attempts r)"

definition record_mutex_unlock :: "address \<Rightarrow> int \<Rightarrow> rec_list \<Rightarrow> (int \<times> rec_list) res" where
  "record_mutex_unlock mutex rc recs =
     bind_res (mutex_unlock_enter mutex recs) (\<lambda>i.
       bind_res (mutex_unlock_leave i rc recs) (\<lambda>r. Inr (rc, r)))"

section \<open>Semaphores\<close>

text \<open>The leaving sections of \<^verbatim>\<open>sem_init\<close> and \<^verbatim>\<open>sem_destroy\<close> search again and replace the record.\<close>

definition sem_enter :: "address \<Rightarrow> rec_list \<Rightarrow> nat \<times> rec_list" where
  "sem_enter sem recs = find_or_add sem (Sem_state 0 SEM_UNINITIALIZED) recs"

definition replace_sem :: "address \<Rightarrow> recorded_state \<Rightarrow> rec_list \<Rightarrow> rec_list res" where
  "replace_sem sem st recs =
     (case find_object sem recs of
        None \<Rightarrow> Inl Assertion_failure
      | Some i \<Rightarrow> Inr (recs[i := \<lparr>rec_location = sem, rec_state = st\<rparr>]))"

definition sem_init_leave :: "address \<Rightarrow> 32 word \<Rightarrow> int \<Rightarrow> rec_list \<Rightarrow> rec_list res" where
  "sem_init_leave sem count rc recs =
     (if rc = 0 then replace_sem sem (Sem_state count SEM_INITIALIZED) recs else Inr recs)"

definition sem_destroy_leave :: "address \<Rightarrow> int \<Rightarrow> rec_list \<Rightarrow> rec_list res" where
  "sem_destroy_leave sem rc recs =
     (if rc = 0 then replace_sem sem (Sem_state 0 SEM_DESTROYED) recs else Inr recs)"

text \<open>\<open>value\<close> is what \<^verbatim>\<open>sem_getvalue\<close> stores when the semaphore is met for the first time.\<close>

definition sem_use_enter :: "address \<Rightarrow> 32 word \<Rightarrow> rec_list \<Rightarrow> nat \<times> rec_list" where
  "sem_use_enter sem value recs = find_or_add sem (Sem_state value SEM_INITIALIZED) recs"

definition sem_post_leave :: "nat \<Rightarrow> int \<Rightarrow> rec_list \<Rightarrow> rec_list res" where
  "sem_post_leave i rc recs = (if rc = 0 then with_sem i (\<lambda>n. n + 1) recs else Inr recs)"

definition sem_wait_leave :: "nat \<Rightarrow> rec_list \<Rightarrow> rec_list res" where
  "sem_wait_leave i recs = with_sem i (\<lambda>n. n - 1) recs"

definition record_sem_init :: "address \<Rightarrow> 32 word \<Rightarrow> int \<Rightarrow> rec_list \<Rightarrow> (int \<times> rec_list) res" where
  "record_sem_init sem count rc recs =
     bind_res (sem_init_leave sem count rc (snd (sem_enter sem recs))) (\<lambda>r. Inr (rc, r))"

definition record_sem_destroy :: "address \<Rightarrow> int \<Rightarrow> rec_list \<Rightarrow> (int \<times> rec_list) res" where
  "record_sem_destroy sem rc recs =
     bind_res (sem_destroy_leave sem rc (snd (sem_enter sem recs))) (\<lambda>r. Inr (rc, r))"

definition record_sem_post :: "address \<Rightarrow> 32 word \<Rightarrow> int \<Rightarrow> rec_list \<Rightarrow> (int \<times> rec_list) res" where
  "record_sem_post sem value rc recs =
     (let (i, r) = sem_use_enter sem value recs
      in bind_res (sem_post_leave i rc r) (\<lambda>r'. Inr (rc, r')))"

definition record_sem_wait ::
    "address \<Rightarrow> 32 word \<Rightarrow> (int \<times> bool) list \<Rightarrow> rec_list \<Rightarrow> (int option \<times> rec_list) res option" where
  "record_sem_wait sem value attempts recs =
     (let (i, r) = sem_use_enter sem value recs
      in after_attempts (sem_wait_leave i) attempts r)"

section \<open>Condition variables\<close>

definition thread_id_of :: "address \<Rightarrow> rec_list \<Rightarrow> runner_id res" where
  "thread_id_of thrd recs =
     (case find_thread_record_mode thrd recs of
        None \<Rightarrow> Inl Null_dereference
      | Some i \<Rightarrow> (case rec_state (recs ! i) of Thrd_state d rid st \<Rightarrow> Inr rid | _ \<Rightarrow> Inl Bad_cast))"

definition cond_init_enter :: "address \<Rightarrow> rec_list \<Rightarrow> nat \<times> rec_list" where
  "cond_init_enter cond recs =
     find_or_add cond (Cond_state (new_cond_state CV_UNINITIALIZED 0 NULL None)) recs"

definition cond_init_leave :: "nat \<Rightarrow> int \<Rightarrow> rec_list \<Rightarrow> rec_list res" where
  "cond_init_leave i rc recs =
     (if rc = 0
      then with_cond i
             (\<lambda>c. Inr (c\<lparr>cond_status := CV_INITIALIZED, interacting_thread := 0, cond_mutex := NULL,
                         waiting_threads := Some [], cond_count := 0\<rparr>)) recs
      else Inr recs)"

definition enter_waiting_room ::
    "runner_id \<Rightarrow> address \<Rightarrow> condition_variable_state \<Rightarrow> condition_variable_state res" where
  "enter_waiting_room tid mutex c =
     bind_res (waiters_of c) (\<lambda>ws.
       Inr (c\<lparr>interacting_thread := tid,
              waiting_threads := Some (if waiters_contain ws tid then ws
                                       else waiters_enqueue tid CV_PREWAITING ws),
              cond_mutex := mutex, cond_count := cond_count c + 1\<rparr>))"

definition cond_wait_enter ::
    "address \<Rightarrow> address \<Rightarrow> address \<Rightarrow> rec_list \<Rightarrow> (nat \<times> rec_list) res" where
  "cond_wait_enter this_thread cond mutex recs =
     bind_res (thread_id_of this_thread recs) (\<lambda>tmp.
       let (i, r) = find_or_add cond (Cond_state (new_cond_state CV_INITIALIZED tmp mutex (Some []))) recs
       in bind_res (with_cond i (enter_waiting_room tmp mutex) r) (\<lambda>r'. Inr (i, r')))"

definition leave_waiting_room ::
    "runner_id \<Rightarrow> condition_variable_state \<Rightarrow> condition_variable_state res" where
  "leave_waiting_room tid c =
     bind_res (waiters_of c) (\<lambda>ws.
       case waiters_state ws tid of
         None \<Rightarrow> Inl (Runtime_error ''get_thread_cv: Thread not found in the queue'')
       | Some st \<Rightarrow>
           if st = CV_SIGNALED
           then Inr (c\<lparr>waiting_threads := Some (waiters_remove tid ws), cond_count := cond_count c - 1\<rparr>)
           else Inr (c\<lparr>waiting_threads := Some (waiters_update tid CV_WAITING ws)\<rparr>))"

definition cond_wait_leave :: "address \<Rightarrow> nat \<Rightarrow> rec_list \<Rightarrow> rec_list res" where
  "cond_wait_leave this_thread i recs =
     bind_res (thread_id_of this_thread recs) (\<lambda>tid. with_cond i (leave_waiting_room tid) recs)"

definition record_cond_wait ::
    "address \<Rightarrow> address \<Rightarrow> address \<Rightarrow> (int \<times> bool) list \<Rightarrow> rec_list
       \<Rightarrow> (int option \<times> rec_list) res option" where
  "record_cond_wait this_thread cond mutex attempts recs =
     (case cond_wait_enter this_thread cond mutex recs of
        Inl e \<Rightarrow> Some (Inl e)
      | Inr (i, r) \<Rightarrow> after_attempts (cond_wait_leave this_thread i) attempts r)"

text \<open>A signal or broadcast of a condition variable that is not recorded adds it.\<close>

definition cond_wake_enter :: "address \<Rightarrow> address \<Rightarrow> rec_list \<Rightarrow> (nat \<times> rec_list) res" where
  "cond_wake_enter this_thread cond recs =
     (case find_object cond recs of
        Some i \<Rightarrow> Inr (i, recs)
      | None \<Rightarrow>
          bind_res (thread_id_of this_thread recs) (\<lambda>tid.
            Inr (add_rec_entry_record_mode
                   \<lparr>rec_location = cond,
                    rec_state = Cond_state (new_cond_state CV_INITIALIZED tid NULL (Some []))\<rparr> recs)))"

definition count_waiting :: "condition_variable_state \<Rightarrow> condition_variable_state res" where
  "count_waiting c =
     bind_res (waiters_of c) (\<lambda>ws.
       Inr (c\<lparr>cond_prev_waiting_count := int (length (filter (\<lambda>w. snd w = CV_WAITING) ws))\<rparr>))"

definition cond_signal_enter :: "address \<Rightarrow> address \<Rightarrow> rec_list \<Rightarrow> (nat \<times> rec_list) res" where
  "cond_signal_enter this_thread cond recs =
     bind_res (cond_wake_enter this_thread cond recs) (\<lambda>(i, r).
       bind_res (with_cond i count_waiting r) (\<lambda>r'. Inr (i, r')))"

definition note_signal :: "condition_variable_state \<Rightarrow> condition_variable_state res" where
  "note_signal c =
     bind_res (waiters_of c) (\<lambda>ws.
       let waiting_thread = waiters_first_waiting ws;
           ws' = (if ws \<noteq> [] \<and> waiting_thread \<noteq> RID_INVALID
                  then waiters_update waiting_thread CV_SIGNALED ws else ws);
           any_thread_signaled = list_ex (\<lambda>w. snd w = CV_SIGNALED) ws'
       in Inr (c\<lparr>waiting_threads := Some ws',
                 cond_lost_wakeups :=
                   (if \<not> any_thread_signaled \<and> cond_prev_waiting_count c > 0
                    then cond_lost_wakeups c + 1 else cond_lost_wakeups c)\<rparr>))"

definition cond_signal_leave :: "nat \<Rightarrow> int \<Rightarrow> rec_list \<Rightarrow> rec_list res" where
  "cond_signal_leave i rc recs = (if rc = 0 then with_cond i note_signal recs else Inr recs)"

text \<open>The loop visits the nodes in order while it changes their states.\<close>

definition broadcast_waiters :: "waiters \<Rightarrow> waiters" where
  "broadcast_waiters ws =
     fold (\<lambda>k r. if snd (r ! k) = CV_WAITING then waiters_update (fst (r ! k)) CV_SIGNALED r else r)
       [0..<length ws] ws"

definition note_broadcast :: "condition_variable_state \<Rightarrow> condition_variable_state res" where
  "note_broadcast c =
     bind_res (waiters_of c) (\<lambda>ws. Inr (c\<lparr>waiting_threads := Some (broadcast_waiters ws)\<rparr>))"

definition cond_broadcast_leave :: "nat \<Rightarrow> int \<Rightarrow> rec_list \<Rightarrow> rec_list res" where
  "cond_broadcast_leave i rc recs = (if rc = 0 then with_cond i note_broadcast recs else Inr recs)"

definition cond_destroy_enter :: "address \<Rightarrow> rec_list \<Rightarrow> nat res" where
  "cond_destroy_enter cond recs =
     (case find_object cond recs of
        None \<Rightarrow> Inl (Runtime_error
          ''Undefined behavior: attempting to destroy an uninitialized condition variable'')
      | Some i \<Rightarrow>
          (case rec_state (recs ! i) of
             Cond_state c \<Rightarrow>
               bind_res (waiters_of c) (\<lambda>ws.
                 if ws \<noteq> []
                 then Inl (Runtime_error ''Undefined behavior: attempting to destroy a condition variable that has threads waiting on it'')
                 else Inr i)
           | _ \<Rightarrow> Inl Bad_cast))"

definition cond_destroy_leave :: "nat \<Rightarrow> int \<Rightarrow> rec_list \<Rightarrow> rec_list res" where
  "cond_destroy_leave i rc recs =
     (if rc = 0 then with_cond i (\<lambda>c. Inr (c\<lparr>cond_status := CV_DESTROYED\<rparr>)) recs else Inr recs)"

section \<open>Threads\<close>

definition thread_start :: "address \<Rightarrow> runner_id \<Rightarrow> rec_list \<Rightarrow> rec_list res" where
  "thread_start this_thread rid recs =
     (case find_thread_record_mode this_thread recs of
        Some i \<Rightarrow> Inl Assertion_failure
      | None \<Rightarrow> Inr (snd (add_rec_entry_record_mode
                  \<lparr>rec_location = NULL, rec_state = Thrd_state this_thread rid ALIVE\<rparr> recs)))"

definition record_main_thread :: "address \<Rightarrow> runner_id \<Rightarrow> rec_list \<Rightarrow> rec_list res" where
  "record_main_thread main_thread main_tid recs =
     (if main_tid \<noteq> 0 then Inl Assertion_failure else thread_start main_thread main_tid recs)"

definition set_exited :: "nat \<Rightarrow> rec_list \<Rightarrow> rec_list res" where
  "set_exited i recs =
     (case rec_state (recs ! i) of
        Thrd_state d rid st \<Rightarrow> Inr (set_rec_state i (Thrd_state d rid EXITED) recs)
      | _ \<Rightarrow> Inl Bad_cast)"

definition thread_record :: "address \<Rightarrow> rec_list \<Rightarrow> nat res" where
  "thread_record thrd recs =
     (case find_thread_record_mode thrd recs of None \<Rightarrow> Inl Assertion_failure | Some i \<Rightarrow> Inr i)"

definition record_thread_exit :: "address \<Rightarrow> rec_list \<Rightarrow> rec_list res" where
  "record_thread_exit this_thread recs =
     bind_res (thread_record this_thread recs) (\<lambda>i. set_exited i recs)"

definition record_thread_join ::
    "address \<Rightarrow> (int \<times> bool) list \<Rightarrow> rec_list \<Rightarrow> (int option \<times> rec_list) res option" where
  "record_thread_join thrd attempts recs =
     (case thread_record thrd recs of
        Inl e \<Rightarrow> Some (Inl e)
      | Inr i \<Rightarrow> after_attempts (set_exited i) attempts recs)"

end
