(* ===== verification/Wrappers.thy ===== *)
theory Wrappers
  imports Callbacks
begin

text \<open>
  The wrappers of \<^verbatim>\<open>src/lib/wrappers.c\<close> and \<^verbatim>\<open>src/lib/sem-wrappers.c\<close>, which replace the thread
  operations of the target, in the modes where a model checker is in control: what a thread writes
  into its mailbox, when it wakes the scheduler and waits for it, and which call of the C library it
  then makes. (The branches for the recording modes are in \<open>Recording\<close>.)

  A wrapper is a function of the mode of the library; its value says what the calling thread does:
  forward the call, record it, abort, or perform a list of actions. Calls of the thread sanitizer's
  annotations and log output are left out. \<^verbatim>\<open>pthread_t\<close> and pointers are 8 bytes wide, runner ids
  2 bytes, \<^verbatim>\<open>int\<close> and \<^verbatim>\<open>unsigned\<close> 4 bytes, least significant byte first.
\<close>

section \<open>Modes\<close>

datatype libmcmini_mode =
    PRE_DMTCP_INIT | PRE_CHECKPOINT_THREAD | EXTERNAL_THREAD | RECORD | PRE_CHECKPOINT
  | DMTCP_RESTART_INTO_BRANCH | DMTCP_RESTART_INTO_TEMPLATE
  | TARGET_TEMPLATE_AFTER_RESTART | TARGET_BRANCH_AFTER_RESTART | TARGET_TEMPLATE | TARGET_BRANCH

text \<open>
  The mode the calling thread observes: \<open>recorded_ckpt\<close> says whether the checkpoint thread has been
  recorded, the two other flags whether this thread is the checkpoint thread or internal to the
  thread sanitizer.
\<close>

definition get_current_mode :: "bool \<Rightarrow> bool \<Rightarrow> bool \<Rightarrow> libmcmini_mode \<Rightarrow> libmcmini_mode" where
  "get_current_mode recorded_ckpt is_checkpoint_thread is_tsan_internal raw_mode =
     (if recorded_ckpt \<and> is_checkpoint_thread then EXTERNAL_THREAD
      else if raw_mode \<notin> {TARGET_BRANCH, TARGET_BRANCH_AFTER_RESTART, DMTCP_RESTART_INTO_BRANCH,
                          DMTCP_RESTART_INTO_TEMPLATE}
      then raw_mode
      else if is_tsan_internal then EXTERNAL_THREAD
      else raw_mode)"

definition is_in_restart_mode :: "libmcmini_mode \<Rightarrow> bool" where
  "is_in_restart_mode mode \<longleftrightarrow>
     mode = DMTCP_RESTART_INTO_BRANCH \<or> mode = DMTCP_RESTART_INTO_TEMPLATE"

section \<open>What a thread does\<close>

datatype lib_call =
    Lib_mutex_init address | Lib_mutex_lock address | Lib_mutex_unlock address
  | Lib_sem_init address nat | Lib_sem_destroy address | Lib_sem_post address | Lib_sem_wait address
  | Lib_cond_init address | Lib_cond_wait address address | Lib_cond_signal address
  | Lib_cond_broadcast address | Lib_cond_destroy address
  | Lib_pthread_create address | Lib_pthread_join address | Lib_pthread_exit
  | Lib_exit int | Lib_abort | Lib_sleep nat

datatype action =
    Set_type rttid_name
  | Copy_to nat "byte list"
  | Wake_scheduler
  | Wait_for_scheduler
  | Notify_template
  | Call lib_call
  | Grant_exit address
  | Await_exit_permission
  | Announce_exited
  | Wait_really_exited address
  | Raw_exit
  | Block_indefinitely
  | Return_zero

datatype behaviour =
    Forward lib_call
  | Record_main_then_forward lib_call
  | Record_only
  | Record_then "action list"
  | Perform "action list"
  | Abort_process

fun by_mode ::
    "behaviour \<Rightarrow> behaviour \<Rightarrow> behaviour \<Rightarrow> behaviour \<Rightarrow> behaviour \<Rightarrow> libmcmini_mode \<Rightarrow> behaviour" where
  "by_mode fwd external recording restart branch PRE_DMTCP_INIT = fwd"
| "by_mode fwd external recording restart branch PRE_CHECKPOINT_THREAD = fwd"
| "by_mode fwd external recording restart branch EXTERNAL_THREAD = external"
| "by_mode fwd external recording restart branch RECORD = recording"
| "by_mode fwd external recording restart branch PRE_CHECKPOINT = recording"
| "by_mode fwd external recording restart branch DMTCP_RESTART_INTO_BRANCH = restart"
| "by_mode fwd external recording restart branch DMTCP_RESTART_INTO_TEMPLATE = restart"
| "by_mode fwd external recording restart branch TARGET_BRANCH = branch"
| "by_mode fwd external recording restart branch TARGET_BRANCH_AFTER_RESTART = branch"
| "by_mode fwd external recording restart branch TARGET_TEMPLATE_AFTER_RESTART = Abort_process"
| "by_mode fwd external recording restart branch TARGET_TEMPLATE = Abort_process"

section \<open>Talking to the scheduler\<close>

fun le_bytes :: "nat \<Rightarrow> nat \<Rightarrow> byte list" where
  "le_bytes 0 v = []"
| "le_bytes (Suc n) v = word_of_nat v # le_bytes n (v div 256)"

definition thread_wake_scheduler_and_wait :: "action list" where
  "thread_wake_scheduler_and_wait = [Wake_scheduler, Wait_for_scheduler]"

definition thread_await_scheduler :: "action list" where
  "thread_await_scheduler = [Wait_for_scheduler]"

definition thread_awake_scheduler_for_thread_finish_transition :: "action list" where
  "thread_awake_scheduler_for_thread_finish_transition = [Wake_scheduler]"

text \<open>
  The check-in of a thread after a restart: it tells the template thread that it has reached its next
  operation and waits for the scheduler, in a template process only once the process is a branch.
\<close>

definition thread_handle_after_dmtcp_restart :: "action list" where
  "thread_handle_after_dmtcp_restart = Notify_template # thread_await_scheduler"

definition tell :: "rttid_name \<Rightarrow> byte list \<Rightarrow> action list" where
  "tell ty bytes = [Set_type ty, Copy_to 0 bytes]"

section \<open>Mutexes\<close>

definition mc_pthread_mutex_init :: "address \<Rightarrow> libmcmini_mode \<Rightarrow> behaviour" where
  "mc_pthread_mutex_init mutex =
     by_mode (Forward (Lib_mutex_init mutex)) (Forward (Lib_mutex_init mutex)) Record_only
       (Perform (tell MUTEX_INIT_TYPE (le_bytes 8 mutex) @ thread_handle_after_dmtcp_restart
          @ [Call (Lib_mutex_init mutex)]))
       (Perform (tell MUTEX_INIT_TYPE (le_bytes 8 mutex) @ thread_wake_scheduler_and_wait
          @ [Call (Lib_mutex_init mutex)]))"

definition mc_pthread_mutex_lock :: "address \<Rightarrow> libmcmini_mode \<Rightarrow> behaviour" where
  "mc_pthread_mutex_lock mutex =
     (let restart = tell MUTEX_LOCK_TYPE (le_bytes 8 mutex) @ thread_handle_after_dmtcp_restart
                      @ [Call (Lib_mutex_lock mutex)]
      in by_mode (Forward (Lib_mutex_lock mutex)) (Forward (Lib_mutex_lock mutex)) (Record_then restart)
           (Perform restart)
           (Perform (tell MUTEX_LOCK_TYPE (le_bytes 8 mutex) @ thread_wake_scheduler_and_wait
              @ [Call (Lib_mutex_lock mutex)])))"

definition mc_pthread_mutex_unlock :: "address \<Rightarrow> libmcmini_mode \<Rightarrow> behaviour" where
  "mc_pthread_mutex_unlock mutex =
     by_mode (Forward (Lib_mutex_unlock mutex)) (Forward (Lib_mutex_unlock mutex)) Record_only
       (Perform (tell MUTEX_UNLOCK_TYPE (le_bytes 8 mutex) @ thread_handle_after_dmtcp_restart
          @ [Call (Lib_mutex_unlock mutex)]))
       (Perform (tell MUTEX_UNLOCK_TYPE (le_bytes 8 mutex) @ thread_wake_scheduler_and_wait
          @ [Call (Lib_mutex_unlock mutex)]))"

section \<open>Semaphores\<close>

text \<open>The four modes under control share their code and ask which of the two waits applies.\<close>

definition check_in :: "libmcmini_mode \<Rightarrow> action list" where
  "check_in mode =
     (if is_in_restart_mode mode then thread_handle_after_dmtcp_restart
      else thread_wake_scheduler_and_wait)"

definition mc_sem_init :: "address \<Rightarrow> nat \<Rightarrow> libmcmini_mode \<Rightarrow> behaviour" where
  "mc_sem_init sem count mode =
     (let p = Perform (tell SEM_INIT_TYPE (le_bytes 8 sem) @ [Copy_to 8 (le_bytes 4 count)]
                @ check_in mode @ [Call (Lib_sem_init sem count)])
      in by_mode (Forward (Lib_sem_init sem count)) (Forward (Lib_sem_init sem count)) Record_only
           p p mode)"

definition mc_sem_destroy :: "address \<Rightarrow> libmcmini_mode \<Rightarrow> behaviour" where
  "mc_sem_destroy sem mode =
     (let p = Perform (tell SEM_DESTROY_TYPE (le_bytes 8 sem) @ check_in mode
                @ [Call (Lib_sem_destroy sem)])
      in by_mode (Forward (Lib_sem_destroy sem)) (Forward (Lib_sem_destroy sem)) Record_only p p mode)"

definition mc_sem_post :: "address \<Rightarrow> libmcmini_mode \<Rightarrow> behaviour" where
  "mc_sem_post sem mode =
     (let p = Perform (tell SEM_POST_TYPE (le_bytes 8 sem) @ check_in mode
                @ [Call (Lib_sem_post sem)])
      in by_mode (Forward (Lib_sem_post sem)) (Forward (Lib_sem_post sem)) Record_only p p mode)"

text \<open>
  Under control, the wait ends with a call of \<^verbatim>\<open>sem_post\<close>. \<open>mode'\<close> is the mode when a recorded wait
  falls through.
\<close>

definition sem_wait_actions :: "address \<Rightarrow> libmcmini_mode \<Rightarrow> action list" where
  "sem_wait_actions sem mode =
     tell SEM_WAIT_TYPE (le_bytes 8 sem) @ check_in mode @ [Call (Lib_sem_post sem)]"

definition mc_sem_wait :: "address \<Rightarrow> libmcmini_mode \<Rightarrow> libmcmini_mode \<Rightarrow> behaviour" where
  "mc_sem_wait sem mode' mode =
     by_mode (Forward (Lib_sem_wait sem)) (Forward (Lib_sem_wait sem))
       (Record_then (sem_wait_actions sem mode'))
       (Perform (sem_wait_actions sem mode)) (Perform (sem_wait_actions sem mode)) mode"

section \<open>Condition variables\<close>

text \<open>
  None of these wrappers has a case for \<^verbatim>\<open>EXTERNAL_THREAD\<close>. Under control no call is made on the real
  condition variable; a wait is announced twice, first to enter the queue and then to leave it, and
  the real mutex is unlocked in between and locked again at the end.
\<close>

definition mc_pthread_cond_init :: "address \<Rightarrow> libmcmini_mode \<Rightarrow> behaviour" where
  "mc_pthread_cond_init cond =
     by_mode (Forward (Lib_cond_init cond)) Abort_process Record_only
       (Perform (tell COND_INIT_TYPE (le_bytes 8 cond) @ thread_handle_after_dmtcp_restart
          @ [Return_zero]))
       (Perform (tell COND_INIT_TYPE (le_bytes 8 cond) @ thread_wake_scheduler_and_wait
          @ [Return_zero]))"

definition cond_wait_actions :: "address \<Rightarrow> address \<Rightarrow> action list \<Rightarrow> action list" where
  "cond_wait_actions cond mutex first_wait =
     tell COND_ENQUEUE_TYPE (le_bytes 8 cond) @ [Copy_to 8 (le_bytes 8 mutex)] @ first_wait
     @ [Call (Lib_mutex_unlock mutex)]
     @ tell COND_WAIT_TYPE (le_bytes 8 cond) @ [Copy_to 8 (le_bytes 8 mutex)]
     @ thread_wake_scheduler_and_wait @ [Call (Lib_mutex_lock mutex), Return_zero]"

definition mc_pthread_cond_wait :: "address \<Rightarrow> address \<Rightarrow> libmcmini_mode \<Rightarrow> behaviour" where
  "mc_pthread_cond_wait cond mutex =
     (let restart = cond_wait_actions cond mutex thread_handle_after_dmtcp_restart
      in by_mode (Forward (Lib_cond_wait cond mutex)) Abort_process (Record_then restart)
           (Perform restart) (Perform (cond_wait_actions cond mutex thread_wake_scheduler_and_wait)))"

definition mc_pthread_cond_signal :: "address \<Rightarrow> libmcmini_mode \<Rightarrow> behaviour" where
  "mc_pthread_cond_signal cond =
     by_mode (Forward (Lib_cond_signal cond)) Abort_process Record_only
       (Perform (tell COND_SIGNAL_TYPE (le_bytes 8 cond) @ thread_handle_after_dmtcp_restart
          @ [Return_zero]))
       (Perform (tell COND_SIGNAL_TYPE (le_bytes 8 cond) @ thread_wake_scheduler_and_wait
          @ [Return_zero]))"

definition mc_pthread_cond_broadcast :: "address \<Rightarrow> libmcmini_mode \<Rightarrow> behaviour" where
  "mc_pthread_cond_broadcast cond =
     by_mode (Forward (Lib_cond_broadcast cond)) Abort_process Record_only
       (Perform (tell COND_BROADCAST_TYPE (le_bytes 8 cond) @ thread_handle_after_dmtcp_restart
          @ [Return_zero]))
       (Perform (tell COND_BROADCAST_TYPE (le_bytes 8 cond) @ thread_wake_scheduler_and_wait
          @ [Return_zero]))"

definition mc_pthread_cond_destroy :: "address \<Rightarrow> libmcmini_mode \<Rightarrow> behaviour" where
  "mc_pthread_cond_destroy cond =
     by_mode (Forward (Lib_cond_destroy cond)) Abort_process Record_only
       (Perform (tell COND_DESTROY_TYPE (le_bytes 8 cond) @ thread_handle_after_dmtcp_restart
          @ [Return_zero]))
       (Perform (tell COND_DESTROY_TYPE (le_bytes 8 cond) @ thread_wake_scheduler_and_wait
          @ [Return_zero]))"

section \<open>The map from threads to runner ids\<close>

text \<open>An entry keeps whether it was made by a thread created after a restart.\<close>

record pthread_map_entry =
  map_thread :: address
  map_value :: runner_id
  registered_post_restart :: bool

definition insert_pthread_map ::
    "libmcmini_mode \<Rightarrow> address \<Rightarrow> runner_id \<Rightarrow> pthread_map_entry list \<Rightarrow> pthread_map_entry list" where
  "insert_pthread_map mode t v head =
     \<lparr>map_thread = t, map_value = v,
      registered_post_restart = (mode = TARGET_BRANCH_AFTER_RESTART)\<rparr> # head"

definition find_pthread_map_entry ::
    "address \<Rightarrow> pthread_map_entry list \<Rightarrow> pthread_map_entry option" where
  "find_pthread_map_entry t head = List.find (\<lambda>e. map_thread e = t) head"

definition search_pthread_map :: "address \<Rightarrow> pthread_map_entry list \<Rightarrow> runner_id" where
  "search_pthread_map t head =
     (case find_pthread_map_entry t head of None \<Rightarrow> RID_INVALID | Some e \<Rightarrow> map_value e)"

record registry =
  tid_next :: runner_id
  pthread_map :: "pthread_map_entry list"

definition mc_register_this_thread ::
    "libmcmini_mode \<Rightarrow> address \<Rightarrow> registry \<Rightarrow> runner_id \<times> registry" where
  "mc_register_this_thread mode this_thread r =
     (tid_next r,
      \<lparr>tid_next = u16 (tid_next r + 1),
       pthread_map = insert_pthread_map mode this_thread (tid_next r) (pthread_map r)\<rparr>)"

section \<open>Threads\<close>

text \<open>
  Creating a thread. The new thread registers before its creator is woken; only then, and only in a
  branch, is the creation announced, by the value of the new \<^verbatim>\<open>pthread_t\<close>.
\<close>

definition mc_pthread_create :: "address \<Rightarrow> libmcmini_mode \<Rightarrow> behaviour" where
  "mc_pthread_create new_thread mode =
     (if mode = PRE_DMTCP_INIT then Abort_process
      else by_mode (Record_main_then_forward (Lib_pthread_create new_thread)) (Forward (Lib_pthread_create new_thread))
             Record_only (Perform [Call (Lib_pthread_create new_thread)])
             (Perform ([Call (Lib_pthread_create new_thread), Copy_to 0 (le_bytes 8 new_thread),
                        Set_type THREAD_CREATE_TYPE] @ thread_wake_scheduler_and_wait)) mode)"

text \<open>The start of a thread's routine and, after it returned, its end.\<close>

definition thread_routine_entry :: "libmcmini_mode \<Rightarrow> behaviour" where
  "thread_routine_entry =
     by_mode Abort_process Abort_process Record_only Record_only (Perform thread_await_scheduler)"

definition mc_exit_thread_in_child :: "action list" where
  "mc_exit_thread_in_child =
     [Set_type THREAD_EXIT_TYPE] @ thread_wake_scheduler_and_wait
     @ thread_awake_scheduler_for_thread_finish_transition @ [Await_exit_permission, Announce_exited]"

definition mc_exit_main_thread_in_child :: "action list" where
  "mc_exit_main_thread_in_child =
     [Set_type THREAD_EXIT_TYPE] @ thread_wake_scheduler_and_wait @ [Set_type THREAD_EXIT_TYPE]
     @ thread_awake_scheduler_for_thread_finish_transition @ [Block_indefinitely]"

definition thread_routine_return :: "libmcmini_mode \<Rightarrow> behaviour" where
  "thread_routine_return =
     by_mode Abort_process Abort_process Record_only
       (Perform ([Set_type THREAD_EXIT_TYPE] @ thread_handle_after_dmtcp_restart
          @ [Set_type THREAD_EXIT_TYPE] @ thread_await_scheduler))
       (Perform mc_exit_thread_in_child)"

definition mc_pthread_exit :: "runner_id \<Rightarrow> bool \<Rightarrow> libmcmini_mode \<Rightarrow> behaviour" where
  "mc_pthread_exit tid_self is_recreated_thread =
     (let leave =
        (if tid_self = RID_MAIN_THREAD then mc_exit_main_thread_in_child
         else mc_exit_thread_in_child @ [if is_recreated_thread then Raw_exit else Call Lib_pthread_exit])
      in by_mode (Forward Lib_pthread_exit) (Forward Lib_pthread_exit) (Forward Lib_pthread_exit)
           (Perform ([Set_type THREAD_EXIT_TYPE] @ thread_handle_after_dmtcp_restart @ leave))
           (Perform leave))"

text \<open>
  A join. After a restart the real join is replaced for threads that the restart recreated, and left
  out for threads that exited before the checkpoint. A missing entry of the map violates an assertion.
\<close>

definition real_join ::
    "libmcmini_mode \<Rightarrow> bool \<Rightarrow> address \<Rightarrow> pthread_map_entry \<Rightarrow> action list" where
  "real_join mode is_recreated_thread t target =
     (if mode = TARGET_BRANCH \<or> registered_post_restart target then [Call (Lib_pthread_join t)]
      else if \<not> is_recreated_thread then [Return_zero]
      else [Wait_really_exited t, Return_zero])"

definition mc_pthread_join ::
    "address \<Rightarrow> bool \<Rightarrow> pthread_map_entry list \<Rightarrow> libmcmini_mode \<Rightarrow> behaviour" where
  "mc_pthread_join t is_recreated_thread head mode =
     (let announce = [Copy_to 0 (le_bytes 2 (search_pthread_map t head)), Set_type THREAD_JOIN_TYPE];
          restart = announce @ thread_handle_after_dmtcp_restart @ [Return_zero]
      in if mode = PRE_DMTCP_INIT then Abort_process
         else by_mode (Forward (Lib_pthread_join t)) (Forward (Lib_pthread_join t))
             (Record_then restart) (Perform restart)
             (Perform (announce @ thread_wake_scheduler_and_wait @
                (case find_pthread_map_entry t head of
                   None \<Rightarrow> [Call Lib_abort]
                 | Some target \<Rightarrow> Grant_exit t # real_join mode is_recreated_thread t target))) mode)"

definition mc_sleep :: "nat \<Rightarrow> libmcmini_mode \<Rightarrow> behaviour" where
  "mc_sleep duration mode =
     (if mode \<in> {TARGET_BRANCH, DMTCP_RESTART_INTO_BRANCH, DMTCP_RESTART_INTO_TEMPLATE,
                  TARGET_BRANCH_AFTER_RESTART}
      then Perform [Return_zero] else Forward (Lib_sleep duration))"

section \<open>The end of the process\<close>

text \<open>
  The exit of the process is announced twice; the second wait is never answered. \<^verbatim>\<open>exit\<close> in a mode that
  its switch does not list exits.
\<close>

definition mc_transparent_exit :: "int \<Rightarrow> libmcmini_mode \<Rightarrow> behaviour" where
  "mc_transparent_exit status mode =
     (let bytes = le_bytes 4 (unat (word_of_int status :: 32 word));
          branch = tell PROCESS_EXIT_TYPE bytes @ thread_wake_scheduler_and_wait
                   @ tell PROCESS_EXIT_TYPE bytes @ thread_wake_scheduler_and_wait @ [Call (Lib_exit status)]
      in if mode \<in> {TARGET_TEMPLATE, TARGET_TEMPLATE_AFTER_RESTART} then Forward (Lib_exit status)
         else by_mode (Forward (Lib_exit status)) (Forward (Lib_exit status)) (Forward (Lib_exit status))
             (Perform (tell PROCESS_EXIT_TYPE bytes @ thread_handle_after_dmtcp_restart @ branch))
             (Perform branch) mode)"

definition mc_transparent_abort :: "libmcmini_mode \<Rightarrow> behaviour" where
  "mc_transparent_abort =
     (let branch = [Set_type PROCESS_ABORT_TYPE] @ thread_wake_scheduler_and_wait
                   @ [Set_type PROCESS_ABORT_TYPE] @ thread_wake_scheduler_and_wait @ [Call Lib_abort]
      in by_mode (Forward Lib_abort) (Forward Lib_abort) (Forward Lib_abort)
           (Perform ([Set_type PROCESS_ABORT_TYPE] @ thread_handle_after_dmtcp_restart @ branch))
           (Perform branch))"

end
