(* ===== verification/Wrapper_Properties.thy ===== *)
theory Wrapper_Properties
  imports Wrappers Program_Properties
begin

text \<open>
  The two sides of the mailbox fit together: what a wrapper writes before it wakes the scheduler is
  what the callbacks of the model checker read.
\<close>

section \<open>Mailboxes as bytes\<close>

definition mb_copy :: "nat \<Rightarrow> byte list \<Rightarrow> runner_mailbox \<Rightarrow> runner_mailbox" where
  "mb_copy off bytes mb =
     mb\<lparr>mb_cnts := take off (mb_cnts mb) @ bytes @ drop (off + length bytes) (mb_cnts mb)\<rparr>"

text \<open>The mailbox each time the actions hand it over.\<close>

fun announcements :: "action list \<Rightarrow> runner_mailbox \<Rightarrow> runner_mailbox list" where
  "announcements [] mb = []"
| "announcements (Set_type ty # acts) mb = announcements acts (mb\<lparr>mb_type := rttid ty\<rparr>)"
| "announcements (Copy_to off bytes # acts) mb = announcements acts (mb_copy off bytes mb)"
| "announcements (Wake_scheduler # acts) mb = mb # announcements acts mb"
| "announcements (Notify_template # acts) mb = mb # announcements acts mb"
| "announcements (_ # acts) mb = announcements acts mb"

lemma length_le_bytes [simp]: "length (le_bytes n v) = n"
  by (induction n arbitrary: v) auto

lemma le_value_le_bytes: "v < 256 ^ n \<Longrightarrow> le_value (le_bytes n v) = v"
proof (induction n arbitrary: v)
  case (Suc n)
  then have "v div 256 < 256 ^ n" by (simp add: less_mult_imp_div_less)
  with Suc.IH show ?case by (simp add: unat_of_nat)
qed simp

lemma mb_copy_simps [simp]:
  "mb_type (mb_copy off bytes mb) = mb_type mb"
  "off + length bytes \<le> length (mb_cnts mb) \<Longrightarrow>
     length (mb_cnts (mb_copy off bytes mb)) = length (mb_cnts mb)"
  by (simp_all add: mb_copy_def)

lemma mb_copy_type [simp]: "mb_copy off bytes (mb\<lparr>mb_type := ty\<rparr>) = mb_copy off bytes mb\<lparr>mb_type := ty\<rparr>"
  by (simp add: mb_copy_def)

lemma mb_read_type [simp]: "mb_read off n (mb\<lparr>mb_type := ty\<rparr>) = mb_read off n mb"
  by (simp add: mb_read_def)

lemma mb_pointer_type [simp]: "mb_pointer off (mb\<lparr>mb_type := ty\<rparr>) = mb_pointer off mb"
  by (simp add: mb_pointer_def)

lemma mb_read_copied:
  assumes "off + n \<le> length (mb_cnts mb)" and "v < 256 ^ n"
  shows "mb_read off n (mb_copy off (le_bytes n v) mb) = v"
  using assms by (simp add: mb_read_def mb_copy_def le_value_le_bytes)

lemma mb_read_copied_elsewhere:
  assumes "off + n \<le> off'" and "off' + length bytes \<le> length (mb_cnts mb)"
  shows "mb_read off n (mb_copy off' bytes mb) = mb_read off n mb"
  using assms by (auto simp: mb_read_def mb_copy_def drop_take min_def)

section \<open>Operations and the transitions they announce\<close>

text \<open>
  Left out are \<^verbatim>\<open>sem_destroy\<close>, whose callback returns no transition, \<^verbatim>\<open>pthread_create\<close>, which adds the new
  thread to the model, and \<^verbatim>\<open>pthread_exit\<close>.
\<close>

datatype visible_op =
    Op_mutex_init address | Op_mutex_lock address | Op_mutex_unlock address
  | Op_sem_init address nat | Op_sem_post address | Op_sem_wait address
  | Op_cond_init address | Op_cond_wait address address | Op_cond_signal address
  | Op_cond_broadcast address | Op_cond_destroy address
  | Op_join address | Op_return | Op_exit int | Op_abort

fun wrapper_of :: "pthread_map_entry list \<Rightarrow> visible_op \<Rightarrow> libmcmini_mode \<Rightarrow> behaviour" where
  "wrapper_of head (Op_mutex_init a) mode = mc_pthread_mutex_init a mode"
| "wrapper_of head (Op_mutex_lock a) mode = mc_pthread_mutex_lock a mode"
| "wrapper_of head (Op_mutex_unlock a) mode = mc_pthread_mutex_unlock a mode"
| "wrapper_of head (Op_sem_init a n) mode = mc_sem_init a n mode"
| "wrapper_of head (Op_sem_post a) mode = mc_sem_post a mode"
| "wrapper_of head (Op_sem_wait a) mode = mc_sem_wait a mode mode"
| "wrapper_of head (Op_cond_init a) mode = mc_pthread_cond_init a mode"
| "wrapper_of head (Op_cond_wait a m) mode = mc_pthread_cond_wait a m mode"
| "wrapper_of head (Op_cond_signal a) mode = mc_pthread_cond_signal a mode"
| "wrapper_of head (Op_cond_broadcast a) mode = mc_pthread_cond_broadcast a mode"
| "wrapper_of head (Op_cond_destroy a) mode = mc_pthread_cond_destroy a mode"
| "wrapper_of head (Op_join t) mode = mc_pthread_join t False head mode"
| "wrapper_of head Op_return mode = thread_routine_return mode"
| "wrapper_of head (Op_exit status) mode = mc_transparent_exit status mode"
| "wrapper_of head Op_abort mode = mc_transparent_abort mode"

text \<open>
  The transitions of runner \<open>p\<close> an operation stands for, in the order they are announced. The end of a
  process is announced once more after a restart; the end of a thread once less.
\<close>

fun announced ::
    "'w coordinator \<Rightarrow> runner_id \<Rightarrow> pthread_map_entry list \<Rightarrow> bool \<Rightarrow> visible_op \<Rightarrow> transition list" where
  "announced c p head restart (Op_mutex_init a) = [Mutex_init p (get_model_of_object c a)]"
| "announced c p head restart (Op_mutex_lock a) = [Mutex_lock p (get_model_of_object c a)]"
| "announced c p head restart (Op_mutex_unlock a) = [Mutex_unlock p (get_model_of_object c a)]"
| "announced c p head restart (Op_sem_init a n) =
     [Sem_init p (get_model_of_object c a) (word_of_nat n)]"
| "announced c p head restart (Op_sem_post a) = [Sem_post p (get_model_of_object c a)]"
| "announced c p head restart (Op_sem_wait a) = [Sem_wait p (get_model_of_object c a)]"
| "announced c p head restart (Op_cond_init a) = [Cond_init p (get_model_of_object c a)]"
| "announced c p head restart (Op_cond_wait a m) =
     [Cond_enqueue p (get_model_of_object c a) (get_model_of_object c m),
      Cond_wait p (get_model_of_object c a) (get_model_of_object c m)]"
| "announced c p head restart (Op_cond_signal a) = [Cond_signal p (get_model_of_object c a)]"
| "announced c p head restart (Op_cond_broadcast a) = [Cond_broadcast p (get_model_of_object c a)]"
| "announced c p head restart (Op_cond_destroy a) = [Cond_destroy p (get_model_of_object c a)]"
| "announced c p head restart (Op_join t) = [Thread_join p (search_pthread_map t head)]"
| "announced c p head restart Op_return =
     (if restart then [Thread_exit p] else [Thread_exit p, Thread_exit p])"
| "announced c p head restart (Op_exit status) =
     (let t = Process_exit p (sint (word_of_int status :: 32 word))
      in if restart then [t, t, t] else [t, t])"
| "announced c p head restart Op_abort =
     (let t = Process_abort p in if restart then [t, t, t] else [t, t])"

text \<open>The objects an operation names are known to the model and its values fit their types.\<close>

fun op_ok :: "'w coordinator \<Rightarrow> pthread_map_entry list \<Rightarrow> visible_op \<Rightarrow> bool" where
  "op_ok c head (Op_sem_init a n) \<longleftrightarrow> contains_addr c a \<and> a < 2 ^ 64 \<and> n < 2 ^ 32"
| "op_ok c head (Op_cond_wait a m) \<longleftrightarrow>
     contains_addr c a \<and> a < 2 ^ 64 \<and> contains_addr c m \<and> m < 2 ^ 64"
| "op_ok c head (Op_join t) \<longleftrightarrow> search_pthread_map t head < invalid_rid"
| "op_ok c head (Op_mutex_init a) \<longleftrightarrow> contains_addr c a \<and> a < 2 ^ 64"
| "op_ok c head (Op_mutex_lock a) \<longleftrightarrow> contains_addr c a \<and> a < 2 ^ 64"
| "op_ok c head (Op_mutex_unlock a) \<longleftrightarrow> contains_addr c a \<and> a < 2 ^ 64"
| "op_ok c head (Op_sem_post a) \<longleftrightarrow> contains_addr c a \<and> a < 2 ^ 64"
| "op_ok c head (Op_sem_wait a) \<longleftrightarrow> contains_addr c a \<and> a < 2 ^ 64"
| "op_ok c head (Op_cond_init a) \<longleftrightarrow> contains_addr c a \<and> a < 2 ^ 64"
| "op_ok c head (Op_cond_signal a) \<longleftrightarrow> contains_addr c a \<and> a < 2 ^ 64"
| "op_ok c head (Op_cond_broadcast a) \<longleftrightarrow> contains_addr c a \<and> a < 2 ^ 64"
| "op_ok c head (Op_cond_destroy a) \<longleftrightarrow> contains_addr c a \<and> a < 2 ^ 64"
| "op_ok c head _ \<longleftrightarrow> True"

definition discover ::
    "'w environment \<Rightarrow> runner_id \<Rightarrow> 'w coordinator \<Rightarrow> runner_mailbox \<Rightarrow> 'w discovered option" where
  "discover env p c mb =
     map_option (\<lambda>callback. call_callback env callback p mb c)
       (get_callback_for default_registry (mb_type mb))"

definition controlled :: "libmcmini_mode \<Rightarrow> bool" where
  "controlled mode \<longleftrightarrow>
     mode \<in> {TARGET_BRANCH, TARGET_BRANCH_AFTER_RESTART, DMTCP_RESTART_INTO_BRANCH,
             DMTCP_RESTART_INTO_TEMPLATE}"

lemma by_mode_controlled:
  "controlled mode \<Longrightarrow>
     by_mode fwd external recording restart branch mode =
       (if is_in_restart_mode mode then restart else branch)"
  by (auto simp: controlled_def is_in_restart_mode_def)

lemma controlled_not:
  "controlled mode \<Longrightarrow> mode \<noteq> PRE_DMTCP_INIT \<and> mode \<noteq> TARGET_TEMPLATE \<and>
     mode \<noteq> TARGET_TEMPLATE_AFTER_RESTART"
  by (auto simp: controlled_def)

lemma registered [simp]:
  "get_callback_for default_registry 1 = Some Mutex_init_callback"
  "get_callback_for default_registry (Suc 0) = Some Mutex_init_callback"
  "get_callback_for default_registry 2 = Some Mutex_lock_callback"
  "get_callback_for default_registry 3 = Some Mutex_unlock_callback"
  "get_callback_for default_registry 4 = Some Thread_create_callback"
  "get_callback_for default_registry 5 = Some Thread_join_callback"
  "get_callback_for default_registry 6 = Some Thread_exit_callback"
  "get_callback_for default_registry 7 = Some Process_exit_callback"
  "get_callback_for default_registry 8 = Some Process_abort_callback"
  "get_callback_for default_registry 9 = Some Cond_waiting_thread_enqueue_callback"
  "get_callback_for default_registry 10 = Some Cond_init_callback"
  "get_callback_for default_registry 11 = Some Cond_wait_callback"
  "get_callback_for default_registry 12 = Some Cond_signal_callback"
  "get_callback_for default_registry 13 = Some Cond_broadcast_callback"
  "get_callback_for default_registry 14 = Some Cond_destroy_callback"
  "get_callback_for default_registry 15 = Some Sem_init_callback"
  "get_callback_for default_registry 16 = Some Sem_wait_callback"
  "get_callback_for default_registry 17 = Some Sem_post_callback"
  by (simp_all add: default_registry_def register_transition_def get_callback_for_def)

lemma mb_copies:
  assumes "length (mb_cnts mb) = 64"
  shows "a < 2 ^ 64 \<Longrightarrow> mb_pointer 0 (mb_copy 0 (le_bytes 8 a) mb) = a"
    and "m < 2 ^ 64 \<Longrightarrow> mb_pointer 8 (mb_copy 8 (le_bytes 8 m) (mb_copy 0 (le_bytes 8 a) mb)) = m"
    and "a < 2 ^ 64 \<Longrightarrow> length bytes \<le> 8 \<Longrightarrow>
           mb_pointer 0 (mb_copy 8 bytes (mb_copy 0 (le_bytes 8 a) mb)) = a"
    and "n < 2 ^ 32 \<Longrightarrow> mb_read 8 4 (mb_copy 8 (le_bytes 4 n) (mb_copy 0 (le_bytes 8 a) mb)) = n"
    and "r < 2 ^ 16 \<Longrightarrow> mb_read 0 2 (mb_copy 0 (le_bytes 2 r) mb) = r"
    and "n < 2 ^ 32 \<Longrightarrow> mb_read 0 4 (mb_copy 0 (le_bytes 4 n) mb) = n"
  using assms by (simp_all add: mb_pointer_def mb_read_copied mb_read_copied_elsewhere)

lemmas wrapper_defs =
  mc_pthread_mutex_init_def mc_pthread_mutex_lock_def mc_pthread_mutex_unlock_def
  mc_sem_init_def mc_sem_post_def mc_sem_wait_def sem_wait_actions_def check_in_def
  mc_pthread_cond_init_def mc_pthread_cond_wait_def cond_wait_actions_def mc_pthread_cond_signal_def
  mc_pthread_cond_broadcast_def mc_pthread_cond_destroy_def mc_pthread_join_def
  thread_routine_return_def mc_transparent_exit_def mc_transparent_abort_def
  mc_exit_thread_in_child_def tell_def thread_wake_scheduler_and_wait_def thread_await_scheduler_def
  thread_awake_scheduler_for_thread_finish_transition_def thread_handle_after_dmtcp_restart_def

lemmas callback_defs =
  mutex_init_callback_def mutex_lock_callback_def mutex_unlock_callback_def sem_init_callback_def
  sem_post_callback_def sem_wait_callback_def cond_init_callback_def
  cond_waiting_thread_enqueue_callback_def cond_wait_callback_def cond_signal_callback_def
  cond_broadcast_callback_def cond_destroy_callback_def ensure_cond_initialized_def
  thread_join_callback_def thread_exit_callback_def process_exit_callback_def
  process_abort_callback_def

lemma operation_understood:
  assumes "controlled mode" and "op_ok c head opn" and "length (mb_cnts mb) = 64"
  shows "\<exists>acts. wrapper_of head opn mode = Perform acts \<and>
     map (discover env p c) (announcements acts mb) =
       map (\<lambda>t. Some (discovered t c)) (announced c p head (is_in_restart_mode mode) opn)"
proof (cases opn)
  case (Op_join t)
  have "search_pthread_map t head \<noteq> invalid_rid" "search_pthread_map t head < 2 ^ 16"
    using assms(2) Op_join by (simp_all add: invalid_rid_def)
  moreover have "announcements (case e of None \<Rightarrow> [Call Lib_abort]
      | Some x \<Rightarrow> Grant_exit t # real_join mode False t x) m = []" for e m
    by (simp add: real_join_def split: option.split)
  ultimately show ?thesis
    using assms controlled_not [OF assms(1)] Op_join
    by (simp add: by_mode_controlled wrapper_defs callback_defs discover_def mb_copies Let_def)
next
  case (Op_exit status)
  have "unat (word_of_int status :: 32 word) < 2 ^ 32" by (rule order_less_le_trans [OF unsigned_less]) simp
  then show ?thesis
    using assms controlled_not [OF assms(1)] Op_exit
    by (simp add: by_mode_controlled wrapper_defs callback_defs discover_def mb_copies Let_def)
qed (use assms in \<open>simp_all add: by_mode_controlled wrapper_defs callback_defs discover_def
      mb_copies Let_def\<close>)

text \<open>
  C16. In every mode under control and for every operation of \<open>visible_op\<close> (not \<^verbatim>\<open>sem_destroy\<close>,
  \<^verbatim>\<open>pthread_create\<close> and \<^verbatim>\<open>pthread_exit\<close>) on objects the model knows, the mailboxes
  that the wrapper hands over are turned, by the callbacks that the default registry has for their
  types, into the transitions the operation stands for, in order, and nothing is added to the model.
\<close>

theorem announcements_are_understood:
  assumes "controlled mode" and "op_ok c head opn" and "length (mb_cnts mb) = 64"
  shows "\<exists>acts. wrapper_of head opn mode = Perform acts \<and>
     map (discover env p c) (announcements acts mb) =
       map (\<lambda>t. Some (discovered t c)) (announced c p head (is_in_restart_mode mode) opn)"
  using operation_understood [OF assms] .

definition one_mutex_world :: "unit coordinator" where
  "one_mutex_world =
     \<lparr>current_program_model = main_program, runtime_transition_mapping = default_registry,
      process_alive = True, outside = (), system_address_mapping = [(4096, 1), (8192, 2)]\<rparr>"

text \<open>A world in which no process gets anywhere.\<close>

definition still_world :: "unit environment" where
  "still_world =
     \<lparr>force_new_process = \<lambda>w. Inr w, process_execute = \<lambda>r w. Inl (Execution_error []), process_pid = \<lambda>w. 1,
      read_remote = \<lambda>w a n. None, mutex_initializer = [], cond_initializer = []\<rparr>"

theorem announcements_are_understood_witness:
  "\<exists>acts. mc_pthread_cond_wait 8192 4096 TARGET_BRANCH = Perform acts \<and>
     map (discover still_world 3 one_mutex_world) (announcements acts \<lparr>mb_type = 0, mb_cnts = replicate 64 0\<rparr>) =
       [Some (discovered (Cond_enqueue 3 2 1) one_mutex_world),
        Some (discovered (Cond_wait 3 2 1) one_mutex_world)]"
  using announcements_are_understood [of TARGET_BRANCH one_mutex_world "[]" "Op_cond_wait 8192 4096"
      "\<lparr>mb_type = 0, mb_cnts = replicate 64 0\<rparr>" still_world 3]
  by (simp add: controlled_def contains_addr_def get_model_of_object_def one_mutex_world_def
      invalid_objid_def)

text \<open>
  The documentation of the modes says that a wrapper called by a thread that does not belong to the
  target forwards the call. Those of condition variables abort the process.
\<close>

lemma external_thread_forwards_or_aborts:
  "mc_pthread_mutex_lock m EXTERNAL_THREAD = Forward (Lib_mutex_lock m) \<and>
   mc_pthread_cond_init c EXTERNAL_THREAD = Abort_process \<and>
   mc_pthread_cond_wait c m EXTERNAL_THREAD = Abort_process \<and>
   mc_pthread_cond_signal c EXTERNAL_THREAD = Abort_process \<and>
   mc_pthread_cond_broadcast c EXTERNAL_THREAD = Abort_process \<and>
   mc_pthread_cond_destroy c EXTERNAL_THREAD = Abort_process"
  by (simp add: mc_pthread_mutex_lock_def mc_pthread_cond_init_def mc_pthread_cond_wait_def
      mc_pthread_cond_signal_def mc_pthread_cond_broadcast_def mc_pthread_cond_destroy_def Let_def)

end
