(* ===== verification/Restore.thy ===== *)
theory Restore
  imports Recording Wrapper_Properties
begin

text \<open>
  Starting model checking from a checkpoint. The template thread of the restarted target
  (\<^verbatim>\<open>src/lib/dmtcp-callback.c\<close>) writes the recorded objects into a pipe;
  \<^verbatim>\<open>do_model_checking_from_dmtcp_ckpt_file\<close> (\<^verbatim>\<open>src/mcmini/mcmini.cpp\<close>) reads them, builds the
  objects and runners of an empty model from them and takes each runner's next transition from its
  mailbox.

  The pipe is the list of messages; its end stands for a failing read. The messages for the waiters of
  a condition variable carry the address of a queue node, which the reader ignores; here it is
  \<open>NULL\<close>. The enumerations are converted by their numeric values.
\<close>

section \<open>Sending\<close>

definition waiter_messages :: "address \<Rightarrow> waiters \<Rightarrow> rec_list" where
  "waiter_messages cv_location ws =
     map (\<lambda>(tid, st). \<lparr>rec_location = NULL, rec_state = Waiting_queue_state cv_location tid st\<rparr>) ws"

definition messages_of :: "recorded_object \<Rightarrow> rec_list res" where
  "messages_of vo =
     (case rec_state vo of
        Cond_state c \<Rightarrow>
          bind_res (waiters_of c) (\<lambda>ws. Inr (waiter_messages (rec_location vo) ws @ [vo]))
      | Mut_state s ow \<Rightarrow> Inr [vo]
      | Sem_state n s \<Rightarrow> Inr [vo]
      | Thrd_state d rid st \<Rightarrow> Inr [vo]
      | _ \<Rightarrow> Inl (Runtime_error ''libc_abort''))"

definition transfer :: "rec_list \<Rightarrow> rec_list res" where
  "transfer recs =
     bind_res (fold_res (\<lambda>vo sent. bind_res (messages_of vo) (\<lambda>ms. Inr (sent @ ms))) recs [])
       (\<lambda>sent. Inr (sent @ [empty_visible_obj]))"

section \<open>Translating recorded objects\<close>

fun mutex_state_of_status :: "mutex_status \<Rightarrow> mutex_state" where
  "mutex_state_of_status UNINITIALIZED = Mutex_uninitialized"
| "mutex_state_of_status UNLOCKED = Mutex_unlocked"
| "mutex_state_of_status LOCKED = Mutex_locked"
| "mutex_state_of_status DESTROYED = Mutex_destroyed"

fun semaphore_state_of_status :: "semaphore_status \<Rightarrow> semaphore_state" where
  "semaphore_state_of_status SEM_UNINITIALIZED = Sem_uninitialized"
| "semaphore_state_of_status SEM_INITIALIZED = Sem_initialized"
| "semaphore_state_of_status SEM_DESTROYED = Sem_destroyed"

fun cv_state_of_status :: "condition_variable_status \<Rightarrow> cv_state" where
  "cv_state_of_status CV_UNINITIALIZED = Cv_uninitialized"
| "cv_state_of_status CV_INITIALIZED = Cv_initialized"
| "cv_state_of_status CV_WAITING = Cv_waiting"
| "cv_state_of_status CV_SIGNALED = Cv_signaled"
| "cv_state_of_status CV_PREWAITING = Cv_transitional"
| "cv_state_of_status CV_DESTROYED = Cv_destroyed"

type_synonym waiter_table = "(address \<times> waiters) list"

definition translate_recorded_object_to_model :: "recorded_object \<Rightarrow> waiter_table \<Rightarrow> vos res" where
  "translate_recorded_object_to_model vo cv_waiting_threads =
     (case rec_state vo of
        Mut_state s ow \<Rightarrow> Inr (Mutex_obj (new_mutex (mutex_state_of_status s) (rec_location vo) ow))
      | Cond_state c \<Rightarrow>
          let waiters_with_state =
                (case map_of cv_waiting_threads (rec_location vo) of Some ws \<Rightarrow> ws | None \<Rightarrow> [])
          in Inr (Cv_obj (new_condition_variable (cv_state_of_status (cond_status c))
                   (interacting_thread c) (cond_mutex c) (cond_count c) waiters_with_state None))
      | Sem_state n s \<Rightarrow> Inr (Sem_obj (new_semaphore (semaphore_state_of_status s) n))
      | _ \<Rightarrow> Inl (Runtime_error ''abort''))"

definition translate_recorded_runner_to_model :: "recorded_object \<Rightarrow> vos res" where
  "translate_recorded_runner_to_model vo =
     (case rec_state vo of
        Thrd_state d rid st \<Rightarrow> Inr (Thread_obj (thread_of_status st))
      | _ \<Rightarrow> Inl (Runtime_error ''abort''))"

section \<open>Receiving\<close>

record 'w reader =
  recorder :: "'w coordinator"
  recorded_threads :: rec_list
  cv_waiting_threads :: waiter_table

definition push_waiter ::
    "address \<Rightarrow> runner_id \<Rightarrow> condition_variable_status \<Rightarrow> waiter_table \<Rightarrow> waiter_table" where
  "push_waiter cv_location tid st tab =
     AList.update cv_location
       ((case map_of tab cv_location of Some ws \<Rightarrow> ws | None \<Rightarrow> []) @ [(tid, st)]) tab"

fun receive_objects :: "rec_list \<Rightarrow> 'w reader \<Rightarrow> 'w reader res" where
  "receive_objects [] s = Inr s"
| "receive_objects (vo # vos) s =
     (case rec_state vo of
        Unknown_state \<Rightarrow> Inr s
      | Thrd_state d rid st \<Rightarrow>
          receive_objects vos (s\<lparr>recorded_threads := recorded_threads s @ [vo]\<rparr>)
      | Waiting_queue_state cv tid st \<Rightarrow>
          receive_objects vos (s\<lparr>cv_waiting_threads := push_waiter cv tid st (cv_waiting_threads s)\<rparr>)
      | _ \<Rightarrow>
          bind_res (translate_recorded_object_to_model vo (cv_waiting_threads s)) (\<lambda>v.
            bind_res (observe_object (rec_location vo) v (recorder s)) (\<lambda>(oid, c).
              receive_objects vos (s\<lparr>recorder := c\<rparr>))))"

text \<open>
  The fields of a recorded thread; threads are the only objects that reach the list of recorded
  threads.
\<close>

definition thrd_id :: "recorded_object \<Rightarrow> runner_id" where
  "thrd_id vo = (case rec_state vo of Thrd_state d rid st \<Rightarrow> rid | _ \<Rightarrow> 0)"

definition thrd_desc :: "recorded_object \<Rightarrow> address" where
  "thrd_desc vo = (case rec_state vo of Thrd_state d rid st \<Rightarrow> d | _ \<Rightarrow> NULL)"

definition thrd_status :: "recorded_object \<Rightarrow> thread_status" where
  "thrd_status vo = (case rec_state vo of Thrd_state d rid st \<Rightarrow> st | _ \<Rightarrow> ALIVE)"

definition observe_recorded_thread ::
    "recorded_object \<Rightarrow> 'w coordinator \<Rightarrow> 'w coordinator res" where
  "observe_recorded_thread vo c =
     bind_res (translate_recorded_runner_to_model vo) (\<lambda>v.
       bind_res (observe_bare_runner (thrd_desc vo) v c) (\<lambda>x. Inr (snd x)))"

text \<open>\<^verbatim>\<open>std::sort\<close> by id; no two recorded threads have the same.\<close>

definition restore_objects ::
    "rec_list \<Rightarrow> 'w coordinator \<Rightarrow> ('w coordinator \<times> rec_list) res" where
  "restore_objects messages c =
     bind_res (receive_objects messages
         \<lparr>recorder = c, recorded_threads = [], cv_waiting_threads = []\<rparr>) (\<lambda>s.
       let threads = sort_key thrd_id (recorded_threads s)
       in bind_res (fold_res observe_recorded_thread threads (recorder s)) (\<lambda>d. Inr (d, threads)))"

section \<open>The next transitions\<close>

text \<open>\<open>mailboxes\<close> is the array of mailboxes in shared memory.\<close>

definition next_transition_of ::
    "'w environment \<Rightarrow> transition_registry \<Rightarrow> runner_mailbox list \<Rightarrow> recorded_object
       \<Rightarrow> 'w coordinator \<Rightarrow> 'w discovered" where
  "next_transition_of env tr mailboxes vo c =
     (case thrd_status vo of
        ALIVE \<Rightarrow>
          if thrd_id vo < length mailboxes
          then (let mb = mailboxes ! thrd_id vo
                in case get_callback_for tr (mb_type mb) of
                     None \<Rightarrow> Inl (Runtime_error ''Expected a callback'')
                   | Some callback \<Rightarrow> call_callback env callback (thrd_id vo) mb c)
          else Inl Array_overrun
      | EXITED \<Rightarrow> Inr (Some (Thread_exit (thrd_id vo)), c))"

definition num_objects :: "'w coordinator \<Rightarrow> nat" where
  "num_objects c = sv_count (seq_view (state_seq (current_program_model c)))"

definition restore_transition ::
    "'w environment \<Rightarrow> transition_registry \<Rightarrow> runner_mailbox list \<Rightarrow> recorded_object
       \<Rightarrow> 'w coordinator \<Rightarrow> 'w coordinator res" where
  "restore_transition env tr mailboxes vo c =
     bind_res (next_transition_of env tr mailboxes vo c) (\<lambda>(next_transition, c1).
       let num_objects_before = num_objects c1
       in bind_res (deref next_transition) (\<lambda>t.
            let c2 = observe_runner_transition t c1;
                num_objects_after = num_objects c2
            in if num_objects_before \<noteq> num_objects_after
               then Inl (Runtime_error ''A callback inserted an object into the model, but all objects should have been available to it during record.'')
               else Inr c2))"

definition do_model_checking_from_dmtcp_ckpt_file ::
    "'w environment \<Rightarrow> runner_mailbox list \<Rightarrow> rec_list \<Rightarrow> 'w \<Rightarrow> 'w coordinator res" where
  "do_model_checking_from_dmtcp_ckpt_file env mailboxes messages w =
     bind_res (new_program (detached_view new_detached) []) (\<lambda>p.
     bind_res (new_coordinator env p default_registry w) (\<lambda>c.
     bind_res (restore_objects messages c) (\<lambda>(d, threads).
       fold_res (restore_transition env default_registry mailboxes) threads d)))"

end
