(* ===== verification/Model_Checking.thy ===== *)
theory Model_Checking
  imports Dpor_Properties Restore
begin

text \<open>
  The two runs of the model checker, from the first process to the last report:
  \<^verbatim>\<open>do_model_checking\<close>, which starts the target at its \<^verbatim>\<open>main\<close>, and \<^verbatim>\<open>deep_debugging\<close>, the
  whole of \<^verbatim>\<open>do_model_checking_from_dmtcp_ckpt_file\<close>, which continues from a checkpoint
  (\<^verbatim>\<open>src/mcmini/mcmini.cpp\<close>). Both end, and whatever they report is backed by a state of the model
  that the target process has reached by the same steps.
\<close>

section \<open>The runs\<close>

definition mcmini_callbacks :: dpor_callbacks where
  "mcmini_callbacks = \<lparr>cb_trace_completed = True, cb_deadlock = True, cb_undefined_behavior = True,
     cb_abnormal_termination = True, cb_nonzero_exit_code = True\<rparr>"

text \<open>\<^verbatim>\<open>classic_dpor::verify_using\<close> with the configuration \<^verbatim>\<open>classic_dpor()\<close> is made with.\<close>

definition check_with_default_dpor ::
    "nat \<Rightarrow> 'w environment \<Rightarrow> 'w coordinator \<Rightarrow> 'w dpor_state res option" where
  "check_with_default_dpor fuel env c =
     (case default_configuration of
        Inl e \<Rightarrow> Some (Inl e)
      | Inr config \<Rightarrow> verify_using fuel config mcmini_callbacks env c)"

definition main_start :: "'w environment \<Rightarrow> 'w \<Rightarrow> 'w coordinator res" where
  "main_start env w = bind_res starting_from_main (\<lambda>p. new_coordinator env p default_registry w)"

definition do_model_checking :: "nat \<Rightarrow> 'w environment \<Rightarrow> 'w \<Rightarrow> 'w dpor_state res option" where
  "do_model_checking fuel env w =
     (case main_start env w of
        Inl e \<Rightarrow> Some (Inl e)
      | Inr c \<Rightarrow> check_with_default_dpor fuel env c)"

definition deep_debugging ::
    "nat \<Rightarrow> 'w environment \<Rightarrow> runner_mailbox list \<Rightarrow> rec_list \<Rightarrow> 'w \<Rightarrow> 'w dpor_state res option" where
  "deep_debugging fuel env mailboxes messages w =
     (case do_model_checking_from_dmtcp_ckpt_file env mailboxes messages w of
        Inl e \<Rightarrow> Some (Inl e)
      | Inr c \<Rightarrow> check_with_default_dpor fuel env c)"

section \<open>Where reported errors come from\<close>

text \<open>
  Undefined behaviour, a terminated process and an exit code are errors of the target; all others
  are raised by the model checker's own code. \<open>own_errors\<close> holds of a computation that can only raise the
  latter.
\<close>

fun target_error :: "error \<Rightarrow> bool" where
  "target_error (Undefined_behavior msg) = True"
| "target_error (Termination_error signo r) = True"
| "target_error (Nonzero_exit_code_error code r) = True"
| "target_error e = False"

definition own_errors :: "'a res \<Rightarrow> bool" where
  "own_errors m \<longleftrightarrow> (\<forall>e. m = Inl e \<longrightarrow> \<not> target_error e)"

named_theorems own_errors_intros \<open>computations that raise no error of the target\<close>

lemma own_errors_Inr [own_errors_intros, simp]: "own_errors (Inr x)"
  by (simp add: own_errors_def)

lemma own_errors_Inl [simp]: "own_errors (Inl e) \<longleftrightarrow> \<not> target_error e"
  by (simp add: own_errors_def)

lemma own_errors_bind [own_errors_intros]:
  "own_errors m \<Longrightarrow> (\<And>x. m = Inr x \<Longrightarrow> own_errors (f x)) \<Longrightarrow> own_errors (bind_res m f)"
  by (cases m) (auto simp: own_errors_def)

lemma own_errors_fold [own_errors_intros]:
  "(\<And>e s. e \<in> set es \<Longrightarrow> own_errors (f e s)) \<Longrightarrow> own_errors (fold_res f es s)"
proof (induction es arbitrary: s)
  case (Cons e es)
  then have "own_errors (f e s)" "\<And>t. own_errors (fold_res f es t)" by simp_all
  then show ?case by (auto intro: own_errors_bind)
qed simp

lemma own_errors_if [own_errors_intros]:
  "(b \<Longrightarrow> own_errors x) \<Longrightarrow> (\<not> b \<Longrightarrow> own_errors y) \<Longrightarrow> own_errors (if b then x else y)"
  by simp

lemma own_errors_prod [own_errors_intros]:
  "(\<And>a b. p = (a, b) \<Longrightarrow> own_errors (f a b)) \<Longrightarrow> own_errors (case p of (a, b) \<Rightarrow> f a b)"
  by (cases p) simp

lemma own_errors_option [own_errors_intros]:
  "own_errors x \<Longrightarrow> (\<And>a. own_errors (f a)) \<Longrightarrow> own_errors (case p of None \<Rightarrow> x | Some a \<Rightarrow> f a)"
  by (cases p) simp_all

lemma own_errors_containers [own_errors_intros]:
  "own_errors (vec_at xs i)" "own_errors (vec_back xs)" "own_errors (map_at m k)" "own_errors (deref p)"
  "own_errors (ts_at tr i)" "own_errors (ts_back tr)" "own_errors (clocks_at cs r)"
  "own_errors (inj_insert_or_throw e f)"
  by (auto simp: own_errors_def vec_at_def vec_back_def map_at_def deref_def ts_at_def ts_back_def
      clocks_at_def inj_insert_or_throw_def inj_insert_def Let_def split: option.splits if_splits)

lemma own_errors_casts [own_errors_intros]:
  "own_errors (as_mutex v)" "own_errors (as_semaphore v)" "own_errors (as_cv v)" "own_errors (as_thread v)"
  by (cases v; simp add: as_mutex_def as_semaphore_def as_cv_def as_thread_def)+

lemma own_errors_states [own_errors_intros]:
  "own_errors (vo_state_at vo i)" "own_errors (vo_get_current_state vo)"
  by (auto simp: own_errors_def vo_state_at_def vo_get_current_state_def vec_at_def vec_back_def)

lemma own_errors_seq_view [own_errors_intros]:
  "own_errors (sv_object (seq_view ss) oid)" "own_errors (sv_runner (seq_view ss) r)"
  by (auto simp: seq_view_def element_view_def element_get_object_def intro!: own_errors_intros)

lemma own_errors_base [own_errors_intros]:
  "own_errors (diff_get_object (new_diff (seq_view ss)) oid)"
  "own_errors (diff_get_runner (new_diff (seq_view ss)) r)"
  by (auto simp: diff_get_object_def diff_get_runner_def new_diff_def inj_at_def intro!: own_errors_intros)

lemma own_errors_diff [own_errors_intros]:
  "own_errors (diff_add_state_for_obj oid v d)" "own_errors (diff_add_state_for_runner r v d)"
  by (auto simp: diff_add_state_for_obj_def diff_add_state_for_runner_def Let_def)

lemma own_errors_wake [own_errors_intros]: "own_errors (wake_thread r p)"
  by (auto simp: wake_thread_def default_wake_thread_def intro!: own_errors_intros split: option.split)

lemma own_errors_modify [own_errors_intros]: "own_errors (modify t (new_diff (seq_view ss)))"
  by (cases t) (auto simp: thread_start_modify_def thread_create_modify_def thread_exit_modify_def
      thread_join_modify_def mutex_init_modify_def mutex_lock_modify_def mutex_unlock_modify_def
      cond_init_modify_def cond_enqueue_modify_def cond_wait_modify_def cond_signal_modify_def
      cond_broadcast_modify_def cond_destroy_modify_def sem_init_modify_def sem_post_modify_def
      sem_wait_modify_def process_exit_modify_def process_abort_modify_def exists_after_def
      get_mutex_def get_cv_def get_semaphore_def get_thread_def Let_def intro!: own_errors_intros)

lemma own_errors_apply [own_errors_intros]:
  "own_errors (apply_to t (seq_view ss))" "own_errors (is_enabled_in t (seq_view ss))"
  by (auto simp: is_enabled_in_def apply_to_def intro!: own_errors_intros)

lemma own_errors_follow [own_errors_intros]: "own_errors (follow t ss)"
  by (auto simp: follow_def seq_commit_def seq_push_new_state_def intro!: own_errors_intros)

lemma own_errors_programs [own_errors_intros]:
  "own_errors (model_execution_of r npo p)" "own_errors (get_enabled_runners p)"
  by (auto simp: model_execution_of_def get_enabled_runners_def Let_def intro!: own_errors_intros)

lemma own_errors_happens_before [own_errors_intros]:
  "own_errors (get_transition ctx i)" "own_errors (happens_before_thread ctx i p)"
  by (auto simp: get_transition_def happens_before_thread_def intro!: own_errors_intros)

lemma own_errors_race [own_errors_intros]: "own_errors (race_among ctx q p js)"
  by (induction js) (auto intro!: own_errors_intros)

lemma own_errors_grow [own_errors_intros]: "own_errors (grow_stack_after_running config ctx)"
  by (auto simp: grow_stack_after_running_def Let_def intro!: own_errors_intros)

lemma own_errors_update_at [own_errors_intros]:
  "own_errors (dynamically_update_backtrack_sets_at_index config S next_sp i p ctx)"
  by (auto simp: dynamically_update_backtrack_sets_at_index_def has_reversible_race_def collect_e_def
      threads_race_after_def intro!: own_errors_intros)

lemma own_errors_update_below [own_errors_intros]: "own_errors (update_below config next_sp p is ctx)"
  by (induction "is" arbitrary: ctx) (auto intro!: own_errors_intros)

lemma own_errors_update [own_errors_intros]: "own_errors (dynamically_update_backtrack_sets config ctx)"
  by (auto simp: dynamically_update_backtrack_sets_def pending_of_def Let_def intro!: own_errors_intros)

text \<open>So an error of the target that stops a step of the search was raised by running the target.\<close>

lemma expansion_error:
  assumes "continue_dpor_by_expanding_trace_with config env r ctx = Inl e" and "target_error e"
  shows "execute_runner env r (ctx_coordinator ctx) = Inl e"
proof -
  have "own_errors (bind_res (grow_stack_after_running config c) (dynamically_update_backtrack_sets config))"
    for c :: "'a dpor_context" by (intro own_errors_intros)
  with assms show ?thesis
    by (auto simp: continue_dpor_by_expanding_trace_with_def bind_res_eq_Inl own_errors_def)
qed

section \<open>Coordinators of a run\<close>

text \<open>A coordinator the search can bring about: it has executed runners and returned to depths.\<close>

definition reached_by :: "'w environment \<Rightarrow> 'w coordinator \<Rightarrow> 'w coordinator \<Rightarrow> bool" where
  "reached_by env c0 c \<longleftrightarrow> (\<exists>ops. fold_res (run_coordinator_op env) ops c0 = Inr c)"

lemma reached_refl [simp]: "reached_by env c c"
  unfolding reached_by_def by (intro exI [of _ "[]"]) simp

lemma reached_step:
  "reached_by env c0 c \<Longrightarrow> run_coordinator_op env a c = Inr c' \<Longrightarrow> reached_by env c0 c'"
proof -
  assume "reached_by env c0 c" and a: "run_coordinator_op env a c = Inr c'"
  then obtain ops where "fold_res (run_coordinator_op env) ops c0 = Inr c" by (auto simp: reached_by_def)
  with a have "fold_res (run_coordinator_op env) (ops @ [a]) c0 = Inr c'" by (simp add: fold_res_append)
  then show "reached_by env c0 c'" unfolding reached_by_def by blast
qed

lemma restore_keyed:
  assumes "restore_model_at_depth n p = Inr q" and "keyed p"
  shows "keyed q"
proof -
  from assms(1) obtain m q1 ss where m: "fold_res restore_next_step m p = Inr q1"
    "q = q1\<lparr>trace := ts_consume_into_subsequence n (trace q1), state_seq := ss\<rparr>"
    by (auto simp: restore_model_at_depth_def res_simps)
  from m(1) have "keyed q1"
    by (rule fold_res_invariant [where I = keyed]) (use assms(2) restore_next_step_keyed in blast)+
  with m(2) show ?thesis by (simp add: keyed_def)
qed

text \<open>Model and process stay in step however many ids the run uses up.\<close>

lemma op_in_step:
  assumes run: "run_coordinator_op env a c = Inr c'" and key: "keyed (current_program_model c)"
    and step: "in_step env c"
  shows "in_step env c' \<and> keyed (current_program_model c')"
proof (cases a)
  case (Execute r)
  with run have x: "execute_runner env r c = Inr c'" by simp
  from execute_runner_appends [OF this key] obtain t where t: "get_executor t = r"
    "keyed (current_program_model c')"
    "trace (current_program_model c') = trace (current_program_model c) @ [Some t]" by blast
  from x obtain mb w cb npo c2 p where y: "process_alive c"
    "process_execute env r (outside c) = Inr (mb, w)"
    "call_callback env cb r mb (c\<lparr>outside := w\<rparr>) = Inr (Some npo, c2)"
    "c' = c2\<lparr>current_program_model := p\<rparr>" by (rule execute_runner_shape)
  from callback_discovers [OF y(3)] y have "outside c' = w" "process_alive c'"
    by (simp_all add: discovers_def)
  moreover from step obtain w0 w1 where w: "force_new_process env w0 = Inr w1"
    "fold_res (replay_slot env) (trace (current_program_model c)) w1 = Inr (outside c)"
    by (auto simp: in_step_def)
  then have "fold_res (replay_slot env) (trace (current_program_model c')) w1 = Inr w"
    using t y(2) by (simp add: fold_res_append replay_slot_def)
  ultimately show ?thesis using t(2) w(1) by (auto simp: in_step_def)
next
  case (Return_to n)
  with run have "return_to_depth env n c = Inr c'" by simp
  then show ?thesis
    by (rule return_to_depth_shape) (use key restore_keyed in \<open>auto simp: in_step_def\<close>)
qed

lemma reached_in_step:
  assumes "reached_by env c0 c" and "keyed (current_program_model c0)" and "in_step env c0"
  shows "in_step env c"
proof -
  from assms(1) obtain ops where "fold_res (run_coordinator_op env) ops c0 = Inr c"
    by (auto simp: reached_by_def)
  then have "in_step env c \<and> keyed (current_program_model c)"
    by (rule fold_res_invariant [where I = "\<lambda>c. in_step env c \<and> keyed (current_program_model c)"])
      (use assms(2,3) op_in_step in blast)+
  then show ?thesis by simp
qed

section \<open>Reports\<close>

text \<open>What stands behind a report.\<close>

definition ends_program_with :: "error \<Rightarrow> runner_id \<Rightarrow> program \<Rightarrow> bool" where
  "ends_program_with e r p \<longleftrightarrow> (\<exists>t. get_pending_transition_for p r = Some t \<and>
     (if aborts_program_execution t then e = Termination_error SIGABRT r
      else program_exit_code t > 0 \<and> e = Nonzero_exit_code_error (program_exit_code t) r))"

definition stopped_by :: "'w environment \<Rightarrow> 'w coordinator \<Rightarrow> error \<Rightarrow> bool" where
  "stopped_by env c e \<longleftrightarrow> (\<exists>a. run_coordinator_op env a c = Inl e) \<or>
     (\<exists>r. ends_program_with e r (current_program_model c))"

fun backed :: "'w environment \<Rightarrow> 'w coordinator \<Rightarrow> dpor_event \<Rightarrow> bool" where
  "backed env c (Trace_completed s) = (get_enabled_runners (current_program_model c) = Inr [])"
| "backed env c (Deadlock_found s) =
     (get_enabled_runners (current_program_model c) = Inr [] \<and>
      is_in_deadlock (current_program_model c) = Inr True)"
| "backed env c (Undefined_behavior_found s e) = stopped_by env c e"
| "backed env c (Abnormal_termination_found s e) = stopped_by env c e"
| "backed env c (Nonzero_exit_code_found s e) = stopped_by env c e"

definition all_backed :: "'w environment \<Rightarrow> 'w coordinator \<Rightarrow> dpor_event list \<Rightarrow> bool" where
  "all_backed env c0 es \<longleftrightarrow> (\<forall>ev \<in> set es. \<exists>c. reached_by env c0 c \<and> backed env c ev)"

lemma all_backed_simps [simp]:
  "all_backed env c0 []"
  "all_backed env c0 (es @ fs) \<longleftrightarrow> all_backed env c0 es \<and> all_backed env c0 fs"
  "all_backed env c0 (ev # es) \<longleftrightarrow> (\<exists>c. reached_by env c0 c \<and> backed env c ev) \<and> all_backed env c0 es"
  by (auto simp: all_backed_def)

text \<open>Holds of the outcome of a pass when it holds of the state the pass starts from.\<close>

abbreviation state_of_run :: "'w environment \<Rightarrow> 'w coordinator \<Rightarrow> 'w dpor_state \<Rightarrow> bool" where
  "state_of_run env c0 st \<equiv>
     reached_by env c0 (ctx_coordinator (ds_context st)) \<and> all_backed env c0 (ds_events st)"

fun outcome_of_run :: "'w environment \<Rightarrow> 'w coordinator \<Rightarrow> 'w outcome_of_pass \<Rightarrow> bool" where
  "outcome_of_run env c0 (Finished st) = all_backed env c0 (ds_events st)"
| "outcome_of_run env c0 (Continue st) = state_of_run env c0 st"
| "outcome_of_run env c0 (outcome_of_pass.Escaped e) = True"

lemma catch_backed:
  assumes "all_backed env c0 (ds_events st)" and "reached_by env c0 c"
    and "target_error e \<Longrightarrow> stopped_by env c e"
  shows "outcome_of_run env c0 (catch_exploration cb st e)"
    and "outcome_of_run env c0 (catch_return cb st e)"
    and "outcome_of_run env c0 (catch_follow cb st e)"
  using assms by (cases e; auto simp: add_event_def)+

lemma check_next_error:
  "check_next_operation r ctx = Inl e \<Longrightarrow> target_error e \<Longrightarrow> stopped_by env (ctx_coordinator ctx) e"
  by (auto simp: check_next_operation_def stopped_by_def ends_program_with_def bind_res_eq_Inl deref_def
      split: option.splits if_splits)

lemma set_stack_run [simp]:
  "ds_events (set_stack stack st) = ds_events st"
  "ctx_coordinator (ds_context (set_stack stack st)) = ctx_coordinator (ds_context st)"
  by (simp_all add: set_stack_def)

lemma update_at_index_coordinator:
  "dynamically_update_backtrack_sets_at_index config S next_sp i p ctx = Inr (b, ctx') \<Longrightarrow>
   ctx_coordinator ctx' = ctx_coordinator ctx"
  by (auto simp: dynamically_update_backtrack_sets_at_index_def res_simps split: if_splits)

lemma update_below_coordinator:
  "update_below config next_sp p is ctx = Inr ctx' \<Longrightarrow> ctx_coordinator ctx' = ctx_coordinator ctx"
  by (induction "is" arbitrary: ctx)
    (auto simp: res_simps dest: update_at_index_coordinator split: if_splits)

lemma update_coordinator:
  assumes "dynamically_update_backtrack_sets config ctx = Inr ctx'"
  shows "ctx_coordinator ctx' = ctx_coordinator ctx"
proof -
  let ?top = "length (dpor_stack ctx) - 2"
  let ?step = "\<lambda>S_n rid ctx1. bind_res (pending_of ctx1 rid) (\<lambda>next_sp.
    bind_res (dynamically_update_backtrack_sets_at_index config S_n next_sp ?top rid ctx1)
      (\<lambda>x. Inr (snd x)))"
  from assms obtain S_n rs p t ctx2 where u:
    "fold_res (?step S_n) rs ctx = Inr ctx2"
    "update_below config t p (rev [0..<?top]) ctx2 = Inr ctx'"
    by (auto simp: dynamically_update_backtrack_sets_def Let_def res_simps)
  from u(1) have "ctx_coordinator ctx2 = ctx_coordinator ctx"
    by (rule fold_res_invariant [where I = "\<lambda>c. ctx_coordinator c = ctx_coordinator ctx"])
      (auto simp: res_simps dest: update_at_index_coordinator)
  with update_below_coordinator [OF u(2)] show ?thesis by simp
qed

lemma expansion_reaches:
  assumes "continue_dpor_by_expanding_trace_with config env r ctx = Inr ctx'"
    and "reached_by env c0 (ctx_coordinator ctx)"
  shows "reached_by env c0 (ctx_coordinator ctx')"
proof -
  from assms(1) obtain c ctx1 where c: "execute_runner env r (ctx_coordinator ctx) = Inr c"
    "grow_stack_after_running config (ctx\<lparr>ctx_coordinator := c\<rparr>) = Inr ctx1"
    "dynamically_update_backtrack_sets config ctx1 = Inr ctx'"
    by (auto simp: continue_dpor_by_expanding_trace_with_def res_simps)
  have "ctx_coordinator ctx1 = c"
    using c(2) by (auto simp: grow_stack_after_running_def Let_def res_simps split: if_splits)
  moreover have "ctx_coordinator ctx' = ctx_coordinator ctx1" using update_coordinator [OF c(3)] .
  ultimately show ?thesis using reached_step [OF assms(2), of "Execute r" c] c(1) by simp
qed

lemma explore_of_run:
  assumes "state_of_run env c0 st"
  shows "outcome_of_run env c0 (explore_phase config cb env st)"
proof -
  let ?r = "get_first_enabled_runner (last (dpor_stack (ds_context st)))"
  show ?thesis
  proof (cases "continue_dpor_by_expanding_trace_with config env ?r (ds_context st)")
    case (Inl e)
    then have "stopped_by env (ctx_coordinator (ds_context st)) e" if "target_error e"
      using expansion_error [OF Inl that] by (auto simp: stopped_by_def intro!: exI [of _ "Execute ?r"])
    with Inl assms show ?thesis
      by (auto simp: explore_phase_def Let_def intro: catch_backed)
  next
    case (Inr ctx)
    let ?st = "st\<lparr>ds_context := ctx, ds_stats := count_transition (ds_stats st)\<rparr>"
    have r: "state_of_run env c0 ?st" using expansion_reaches [OF Inr] assms by simp
    then have "outcome_of_run env c0 (catch_exploration cb ?st e)" if "check_next_operation ?r ctx = Inl e" for e
      using that by (intro catch_backed(1)) (auto intro: check_next_error)
    with Inr r show ?thesis
      by (auto simp: explore_phase_def Let_def split: sum.split)
  qed
qed

lemma follow_of_run:
  assumes "state_of_run env c0 st"
  shows "outcome_of_run env c0 (follow_backtrack_point config cb env st)"
proof -
  let ?c = "ctx_coordinator (ds_context st)" and ?n = "length (dpor_stack (ds_context st)) - 1"
  show ?thesis
  proof (cases "return_to_depth env ?n ?c")
    case (Inl e)
    then have "stopped_by env ?c e" by (auto simp: stopped_by_def intro!: exI [of _ "Return_to ?n"])
    with Inl assms show ?thesis
      by (auto simp: follow_backtrack_point_def Let_def intro: catch_backed)
  next
    case (Inr c)
    let ?st = "st\<lparr>ds_context := (ds_context st)\<lparr>ctx_coordinator := c\<rparr>, ds_stats := next_trace (ds_stats st)\<rparr>"
    let ?next = "bind_res (backtrack_set_pop_first (last (dpor_stack (ds_context st)))) (\<lambda>(r, top).
      continue_dpor_by_expanding_trace_with config env r
        ((ds_context ?st)\<lparr>dpor_stack := butlast (dpor_stack (ds_context st)) @ [top]\<rparr>))"
    have c: "reached_by env c0 c" using reached_step [of env c0 ?c "Return_to ?n" c] Inr assms by simp
    show ?thesis
    proof (cases ?next)
      case (Inl e)
      have "stopped_by env c e" if te: "target_error e"
      proof -
        from Inl te obtain r top where
          "continue_dpor_by_expanding_trace_with config env r
            ((ds_context ?st)\<lparr>dpor_stack := butlast (dpor_stack (ds_context st)) @ [top]\<rparr>) = Inl e"
          by (auto simp: bind_res_eq_Inl backtrack_set_pop_first_def Let_def split: if_splits)
        from expansion_error [OF this te] show ?thesis
          unfolding stopped_by_def by (intro disjI1 exI [of _ "Execute r"]) simp
      qed
      then have "outcome_of_run env c0 (catch_follow cb ?st e)"
        using c assms by (intro catch_backed(3)) auto
      with Inl \<open>return_to_depth env ?n ?c = Inr c\<close> show ?thesis
        by (simp add: follow_backtrack_point_def Let_def)
    next
      case (Inr ctx)
      then obtain r top where
        "continue_dpor_by_expanding_trace_with config env r
          ((ds_context ?st)\<lparr>dpor_stack := butlast (dpor_stack (ds_context st)) @ [top]\<rparr>) = Inr ctx"
        by (auto simp: res_simps split: prod.splits)
      from expansion_reaches [OF this, of c0] c have "reached_by env c0 (ctx_coordinator ctx)" by simp
      with Inr \<open>return_to_depth env ?n ?c = Inr c\<close> assms show ?thesis
        by (simp add: follow_backtrack_point_def Let_def)
    qed
  qed
qed

lemma backtrack_of_run:
  assumes "state_of_run env c0 st" and "get_enabled_runners (ctx_program (ds_context st)) = Inr []"
  shows "outcome_of_run env c0 (backtrack_phase config cb env st)"
proof -
  let ?c = "ctx_coordinator (ds_context st)"
  let ?st1 = "add_event (cb_trace_completed cb) (Trace_completed (ds_stats st)) st"
  have 1: "state_of_run env c0 ?st1" using assms by auto
  show ?thesis
  proof (cases "if cb_deadlock cb then is_in_deadlock (ctx_program (ds_context ?st1)) else Inr False")
    case (Inr deadlocked)
    let ?st2 = "add_event deadlocked (Deadlock_found (ds_stats ?st1)) ?st1"
    let ?st3 = "set_stack (pop_exhausted (dpor_stack (ds_context ?st2))) ?st2"
    have "deadlocked \<Longrightarrow> is_in_deadlock (ctx_program (ds_context st)) = Inr True"
      using Inr by (simp split: if_splits)
    then have 3: "state_of_run env c0 ?st3" using 1 assms by (auto simp: set_stack_def)
    have "backtrack_phase config cb env st = (if pop_exhausted (dpor_stack (ds_context ?st2)) = []
        then Finished ?st3 else follow_backtrack_point config cb env ?st3)"
      using Inr by (simp add: backtrack_phase_def Let_def)
    with follow_of_run [OF 3] 3 show ?thesis by simp
  qed (simp add: backtrack_phase_def Let_def)
qed

section \<open>Every pass, every run\<close>

lemma pass_of_run:
  assumes "search_inv (ds_context st)" and "state_of_run env c0 st"
  shows "outcome_of_run env c0 (dpor_iteration config cb env st)"
proof (cases "has_enabled_runners (last (dpor_stack (ds_context st)))")
  case False
  then have "get_enabled_runners (ctx_program (ds_context st)) = Inr []"
    using assms(1) by (simp add: search_inv_def Let_def has_enabled_runners_def)
  with False backtrack_of_run [OF assms(2)] assms(2) show ?thesis
    by (simp add: dpor_iteration_def Let_def)
qed (use explore_of_run [OF assms(2)] assms(2) in \<open>simp add: dpor_iteration_def Let_def\<close>)

lemma loop_of_run:
  assumes "loop_inv config st" and "maximum_total_execution_depth config < 4294967296"
    and "state_of_run env c0 st" and "verify_loop n config cb env st = Some (Inr st')"
  shows "all_backed env c0 (ds_events st')"
  using assms
proof (induction n arbitrary: st)
  case (Suc n)
  have out: "outcome_of_run env c0 (dpor_iteration config cb env st)"
    using Suc.prems(1,3) by (intro pass_of_run) (simp_all add: loop_inv_def)
  show ?case
  proof (cases "dpor_iteration config cb env st")
    case (Continue st1)
    with dpor_iteration_inv [OF Suc.prems(1,2) Continue] Suc.prems(2,4) out show ?thesis
      by (intro Suc.IH) simp_all
  qed (use Suc.prems(4) out in simp_all)
qed simp

text \<open>The places where the loop is entered, followed from the first.\<close>

lemma search_reaches_next:
  assumes "dpor_iteration config cb env st = Continue st1"
  shows "search_reaches config cb env st x \<longleftrightarrow> x = st \<or> search_reaches config cb env st1 x"
proof -
  have "search_reaches config cb env st x \<Longrightarrow> x = st \<or> search_reaches config cb env st1 x"
    by (induction rule: search_reaches.induct) (use assms in \<open>auto intro: search_reaches.intros\<close>)
  moreover have "search_reaches config cb env st1 x \<Longrightarrow> search_reaches config cb env st x"
    by (induction rule: search_reaches.induct) (use assms in \<open>auto intro: search_reaches.intros\<close>)
  ultimately show ?thesis by (auto intro: reach_start)
qed

lemma search_reaches_last:
  assumes "\<And>st1. dpor_iteration config cb env st \<noteq> Continue st1"
  shows "search_reaches config cb env st x \<longleftrightarrow> x = st"
proof
  show "search_reaches config cb env st x \<Longrightarrow> x = st"
    by (induction rule: search_reaches.induct) (use assms in auto)
qed (simp add: reach_start)

abbreviation model_deadlocked :: "'w dpor_state \<Rightarrow> bool" where
  "model_deadlocked st \<equiv> is_in_deadlock (ctx_program (ds_context st)) = Inr True"

lemma deadlock_in_completion:
  "Deadlock_found s \<in> set (completion_events st) \<longleftrightarrow> ds_stats st = s \<and> model_deadlocked st"
  using nothing_enabled_in_deadlock by (auto simp: completion_events_def)

text \<open>A loop that ends has reported the deadlocks of exactly the states in which it was entered.\<close>

lemma loop_reports_deadlocks:
  assumes "loop_inv config st" and "maximum_total_execution_depth config < 4294967296"
    and "verify_loop n config all_callbacks env st = Some (Inr st')"
  shows "Deadlock_found s \<in> set (ds_events st') \<longleftrightarrow> Deadlock_found s \<in> set (ds_events st) \<or>
    (\<exists>x. search_reaches config all_callbacks env st x \<and> ds_stats x = s \<and> model_deadlocked x)"
  using assms
proof (induction n arbitrary: st)
  case (Suc n)
  note pass = pass_events [OF Suc.prems(1), of env]
  show ?case
  proof (cases "dpor_iteration config all_callbacks env st")
    case (Continue st1)
    with Suc.prems have "loop_inv config st1" "verify_loop n config all_callbacks env st1 = Some (Inr st')"
      using dpor_iteration_inv [OF Suc.prems(1,2) Continue] by simp_all
    from Suc.IH [OF this(1) Suc.prems(2) this(2)] pass Continue show ?thesis
      by (auto simp: search_reaches_next [OF Continue] deadlock_in_completion)
  next
    case (Finished st1)
    with Suc.prems(3) have "st1 = st'" by simp
    have "\<not> is_violation (Deadlock_found s)" by simp
    with pass Finished \<open>st1 = st'\<close> have "Deadlock_found s \<in> set (ds_events st') \<longleftrightarrow>
        Deadlock_found s \<in> set (ds_events st @ completion_events st)" by fastforce
    moreover have "search_reaches config all_callbacks env st x \<longleftrightarrow> x = st" for x
      by (rule search_reaches_last) (simp add: Finished)
    ultimately show ?thesis by (auto simp: deadlock_in_completion)
  qed (use Suc.prems(3) in simp)
qed simp

lemma reaches_of_run:
  assumes "search_reaches config cb env st0 st" and "loop_inv config st0"
    and "maximum_total_execution_depth config < 4294967296" and "state_of_run env c0 st0"
  shows "loop_inv config st \<and> state_of_run env c0 st"
  using assms
proof (induction rule: search_reaches.induct)
  case (reach_pass st st')
  then have st: "loop_inv config st" "state_of_run env c0 st" by blast+
  then have "outcome_of_run env c0 (dpor_iteration config cb env st)"
    by (intro pass_of_run) (simp_all add: loop_inv_def)
  with dpor_iteration_inv [OF st(1) reach_pass.prems(2) reach_pass.hyps(2)] reach_pass.hyps(2)
  show ?case by simp
qed blast

text \<open>The state in which \<^verbatim>\<open>verify_using\<close> enters its loop.\<close>

definition search_entry :: "'w dpor_context \<Rightarrow> 'w dpor_state" where
  "search_entry ctx = \<lparr>ds_context = ctx, ds_stats = \<lparr>trace_id = 1, total_transitions = 0\<rparr>, ds_events = []\<rparr>"

text \<open>A coordinator whose process is fresh and whose program has not run.\<close>

definition fresh_start :: "'w environment \<Rightarrow> 'w \<Rightarrow> 'w coordinator \<Rightarrow> bool" where
  "fresh_start env w c \<longleftrightarrow> keyed (current_program_model c) \<and> trace (current_program_model c) = [] \<and>
     process_alive c \<and> force_new_process env w = Inr (outside c)"

lemma fresh_in_step: "fresh_start env w c \<Longrightarrow> in_step env c"
  by (auto simp: fresh_start_def in_step_def)

text \<open>What the reports of a run that starts from \<open>c0\<close> are worth.\<close>

definition reports_real :: "'w environment \<Rightarrow> 'w coordinator \<Rightarrow> dpor_event list \<Rightarrow> bool" where
  "reports_real env c0 es \<longleftrightarrow>
     (\<forall>ev \<in> set es. \<exists>c. reached_by env c0 c \<and> in_step env c \<and> backed env c ev)"

lemma default_depth: "default_configuration = Inr config \<Longrightarrow> maximum_total_execution_depth config = 1500"
  by (auto simp: default_configuration_def res_simps)

lemma check_is_real:
  assumes "fresh_start env w c" and "20 * 21 ^ 1500 < fuel"
  shows "\<exists>r. check_with_default_dpor fuel env c = Some r \<and>
    (\<forall>st. r = Inr st \<longrightarrow> reports_real env c (ds_events st))"
proof -
  obtain config where config: "default_configuration = Inr config" using default_configuration_ok by blast
  note d = default_depth [OF config]
  have start: "keyed (current_program_model c)" "trace (current_program_model c) = []" "in_step env c"
    using fresh_in_step [OF assms(1)] assms(1) by (simp_all add: fresh_start_def)
  have check: "check_with_default_dpor fuel env c = verify_using fuel config mcmini_callbacks env c"
    by (simp add: check_with_default_dpor_def config)
  have depth: "maximum_total_execution_depth config < 4294967296"
    "max 1 (maximum_total_execution_depth config) = 1500" by (simp_all add: d)
  have "20 * 21 ^ max 1 (maximum_total_execution_depth config) < fuel"
    using assms(2) by (simp only: depth(2))
  from verify_using_ends [OF start(1,2) depth(1) this, of mcmini_callbacks env]
  obtain r where r: "check_with_default_dpor fuel env c = Some r" unfolding check by blast
  moreover have "reports_real env c (ds_events st)" if st: "r = Inr st" for st
  proof -
    from r st check obtain ctx where ctx: "initial_dpor_context c = Inr ctx"
      "verify_loop fuel config mcmini_callbacks env
        \<lparr>ds_context = ctx, ds_stats = \<lparr>trace_id = 1, total_transitions = 0\<rparr>, ds_events = []\<rparr> = Some (Inr st)"
      by (auto simp: verify_using_def split: sum.splits)
    have "ctx_coordinator ctx = c" using ctx(1) by (auto simp: initial_dpor_context_def res_simps)
    moreover have "search_start c \<lparr>ds_context = ctx, ds_stats = \<lparr>trace_id = 1, total_transitions = 0\<rparr>,
        ds_events = []\<rparr>" using start ctx(1) by (simp add: search_start_def)
    ultimately have "all_backed env c (ds_events st)"
      using d by (intro loop_of_run [OF search_start_inv _ _ ctx(2)]) simp_all
    then show ?thesis
      using reached_in_step [OF _ start(1,3)] by (auto simp: all_backed_def reports_real_def)
  qed
  ultimately show ?thesis by blast
qed

lemma check_reports_deadlocks:
  assumes "fresh_start env w c" and "default_configuration = Inr config"
    and "check_with_default_dpor fuel env c = Some (Inr st)"
  obtains ctx where "initial_dpor_context c = Inr ctx"
    "\<And>s. Deadlock_found s \<in> set (ds_events st) \<longleftrightarrow>
       (\<exists>x. search_reaches config all_callbacks env (search_entry ctx) x \<and> ds_stats x = s \<and> model_deadlocked x)"
    "\<And>x. search_reaches config all_callbacks env (search_entry ctx) x \<Longrightarrow>
       in_step env (ctx_coordinator (ds_context x))"
proof -
  have "verify_using fuel config mcmini_callbacks env c = Some (Inr st)"
    using assms(3) by (simp add: check_with_default_dpor_def assms(2))
  then obtain ctx where ctx: "initial_dpor_context c = Inr ctx"
    "verify_loop fuel config all_callbacks env (search_entry ctx) = Some (Inr st)"
    by (auto simp: verify_using_def search_entry_def mcmini_callbacks_def all_callbacks_def split: sum.splits)
  have start: "keyed (current_program_model c)" "trace (current_program_model c) = []" "in_step env c"
    using fresh_in_step [OF assms(1)] assms(1) by (simp_all add: fresh_start_def)
  have inv: "loop_inv config (search_entry ctx)"
    using start ctx(1) by (intro search_start_inv) (simp add: search_start_def search_entry_def)
  have depth: "maximum_total_execution_depth config < 4294967296"
    by (simp add: default_depth [OF assms(2)])
  have run: "state_of_run env c (search_entry ctx)"
    using ctx(1) reached_refl [of env c]
    by (auto simp: search_entry_def initial_dpor_context_def res_simps all_backed_def)
  show thesis
  proof (rule that [OF ctx(1)])
    show "Deadlock_found s \<in> set (ds_events st) \<longleftrightarrow>
       (\<exists>x. search_reaches config all_callbacks env (search_entry ctx) x \<and> ds_stats x = s \<and> model_deadlocked x)"
      for s using loop_reports_deadlocks [OF inv depth ctx(2), of s] by (simp add: search_entry_def)
    show "in_step env (ctx_coordinator (ds_context x))"
      if "search_reaches config all_callbacks env (search_entry ctx) x" for x
      using reaches_of_run [OF that inv depth run] reached_in_step [OF _ start(1,3)] by blast
  qed
qed

section \<open>Both runs start afresh\<close>

lemma main_start_fresh:
  assumes "main_start env w = Inr c"
  shows "fresh_start env w c"
proof -
  have "new_coordinator env main_program default_registry w = Inr c"
    using assms by (simp add: main_start_def starting_from_main_eq)
  then show ?thesis
    by (auto simp: new_coordinator_def assign_new_process_handle_def fresh_start_def main_program_def
        keyed_def res_simps)
qed

lemma discovers_fresh: "discovers c c' \<Longrightarrow> fresh_start env w c \<Longrightarrow> fresh_start env w c'"
  using discovers_keyed [of c c'] by (simp add: fresh_start_def) (simp add: discovers_def)

lemma observe_object_fresh:
  "observe_object a v c = Inr (oid, c') \<Longrightarrow> fresh_start env w c \<Longrightarrow> fresh_start env w c'"
  by (blast intro: discovers_fresh observe_object_discovers)

lemma observe_bare_runner_fresh:
  "observe_bare_runner a v c = Inr (r, c') \<Longrightarrow> fresh_start env w c \<Longrightarrow> fresh_start env w c'"
  by (auto simp: observe_bare_runner_def fresh_start_def keyed_def res_simps Let_def)

lemma observe_transition_fresh:
  assumes "fresh_start env w c"
  shows "fresh_start env w (observe_runner_transition t c)"
  using assms keyed_put [of "current_program_model c" t "current_program_model c"]
  by (simp add: fresh_start_def observe_runner_transition_def set_transition_def replace_unowned_def Let_def)

lemma receive_objects_fresh:
  "receive_objects vos s = Inr s' \<Longrightarrow> fresh_start env w (recorder s) \<Longrightarrow> fresh_start env w (recorder s')"
proof (induction vos s rule: receive_objects.induct)
  case (2 vo vos s)
  show ?case
  proof (cases "rec_state vo")
  qed (use 2 in \<open>auto simp: res_simps intro: observe_object_fresh\<close>)
qed simp

lemma restore_objects_fresh:
  assumes "restore_objects messages c = Inr (d, threads)" and "fresh_start env w c"
  shows "fresh_start env w d"
proof -
  from assms(1) obtain s where s: "receive_objects messages
      \<lparr>recorder = c, recorded_threads = [], cv_waiting_threads = []\<rparr> = Inr s"
    "fold_res observe_recorded_thread threads (recorder s) = Inr d"
    by (auto simp: restore_objects_def Let_def res_simps)
  from s(2) show ?thesis
    by (rule fold_res_invariant [where I = "fresh_start env w"])
      (use receive_objects_fresh [OF s(1)] assms(2) in
        \<open>auto simp: observe_recorded_thread_def res_simps intro: observe_bare_runner_fresh\<close>)
qed

lemma next_transition_fresh:
  "next_transition_of env tr mailboxes vo c = Inr (t, c') \<Longrightarrow> fresh_start env w c \<Longrightarrow> fresh_start env w c'"
  by (auto simp: next_transition_of_def Let_def dest: callback_discovers intro: discovers_fresh
      split: thread_status.splits if_splits option.splits)

lemma restore_transition_fresh:
  "restore_transition env tr mailboxes vo c = Inr c' \<Longrightarrow> fresh_start env w c \<Longrightarrow> fresh_start env w c'"
  by (auto simp: restore_transition_def Let_def res_simps split: if_splits
      intro: observe_transition_fresh next_transition_fresh)

lemma checkpoint_start_fresh:
  assumes "do_model_checking_from_dmtcp_ckpt_file env mailboxes messages w = Inr c"
  shows "fresh_start env w c"
proof -
  from assms obtain p c0 d threads where x: "new_program (detached_view new_detached) [] = Inr p"
    "new_coordinator env p default_registry w = Inr c0" "restore_objects messages c0 = Inr (d, threads)"
    "fold_res (restore_transition env default_registry mailboxes) threads d = Inr c"
    by (auto simp: do_model_checking_from_dmtcp_ckpt_file_def res_simps)
  have "trace p = []" "next_steps p = []" using x(1) by (auto simp: new_program_def res_simps)
  with x(2) have "fresh_start env w c0"
    by (auto simp: new_coordinator_def assign_new_process_handle_def fresh_start_def keyed_def res_simps)
  with x(3) have "fresh_start env w d" by (rule restore_objects_fresh)
  with x(4) show ?thesis
    by (rule fold_res_invariant [where I = "fresh_start env w"]) (auto intro: restore_transition_fresh)
qed

lemma runs_are_real:
  assumes "20 * 21 ^ 1500 < fuel"
    and "(start, run) \<in> {(main_start env w, do_model_checking fuel env w),
      (do_model_checking_from_dmtcp_ckpt_file env mailboxes messages w,
       deep_debugging fuel env mailboxes messages w)}"
  shows "\<exists>r. run = Some r \<and> (\<forall>st. r = Inr st \<longrightarrow>
    (\<exists>c0. start = Inr c0 \<and> reports_real env c0 (ds_events st)))"
proof -
  have run: "run = (case start of Inl e \<Rightarrow> Some (Inl e) | Inr c \<Rightarrow> check_with_default_dpor fuel env c)"
    using assms(2) by (auto simp: do_model_checking_def deep_debugging_def)
  show ?thesis
  proof (cases start)
    case (Inr c)
    then have "fresh_start env w c" using assms(2)
      by (elim insertE emptyE) (simp_all add: main_start_fresh checkpoint_start_fresh)
    from check_is_real [OF this assms(1)] run Inr show ?thesis by simp
  qed (simp add: run)
qed

section \<open>Properties\<close>


text \<open>The target of one thread that starts and exits is reported deadlocked, after two passes.\<close>

lemma exiting_run:
  assumes "0 < n"
  shows "\<exists>st. do_model_checking (Suc n) exiting_process [] = Some (Inr st) \<and>
     Deadlock_found \<lparr>trace_id = 1, total_transitions = 1\<rparr> \<in> set (ds_events st)"
proof -
  obtain config where config: "default_configuration = Inr config" using default_configuration_ok by blast
  have "main_start exiting_process [] = Inr main_coordinator"
    by (simp add: main_start_def starting_from_main_eq new_coordinator_def assign_new_process_handle_def
        exiting_process_def main_coordinator_def)
  moreover have "initial_dpor_context main_coordinator = Inr (ds_context main_state)"
    using main_search_start by (simp add: search_start_def)
  ultimately have run: "do_model_checking (Suc n) exiting_process [] =
      verify_loop (Suc n) config mcmini_callbacks exiting_process
        \<lparr>ds_context = ds_context main_state, ds_stats = \<lparr>trace_id = 1, total_transitions = 0\<rparr>,
         ds_events = []\<rparr>"
    by (simp only: do_model_checking_def check_with_default_dpor_def verify_using_def config sum.case)
  also have "\<lparr>ds_context = ds_context main_state, ds_stats = \<lparr>trace_id = 1, total_transitions = 0\<rparr>,
         ds_events = []\<rparr> = main_state" by (simp add: main_state_def)
  also have "mcmini_callbacks = all_callbacks" by (simp add: mcmini_callbacks_def all_callbacks_def)
  finally have run: "do_model_checking (Suc n) exiting_process [] =
      verify_loop (Suc n) config all_callbacks exiting_process main_state" .
  have "1 < maximum_total_execution_depth config" using default_depth [OF config] by simp
  with assms run main_pass [of config] exiting_finishes [of config] show ?thesis by (cases n) auto
qed


end
