(* ===== verification/Ini_Parser.thy ===== *)
theory Ini_Parser
  imports Prelude "HOL-Library.Sublist"
begin

text \<open>
  The parser of configuration files, \<^verbatim>\<open>IniParser\<close> in \<^verbatim>\<open>misc/ini-parser.hpp\<close>: comments, sections
  with relative names, keys and values. A file is a string, its sections a map from names to maps from
  keys to values. \<^verbatim>\<open>std::isspace\<close> is that of the C locale, line numbers do not overflow, and the text
  of an exception is kept as what it is put together from.
\<close>

section \<open>Characters and lines\<close>

definition newline :: char where
  "newline = CHR 0x0A"

definition escape_char :: char where
  "escape_char = CHR 0x5C"

definition field_sep :: char where
  "field_sep = CHR ''=''"

definition comment_prefixes :: "string list" where
  "comment_prefixes = [''#'', '';'']"

definition isspace :: "char \<Rightarrow> bool" where
  "isspace c \<longleftrightarrow> (let n = of_char c :: nat in n = 32 \<or> 9 \<le> n \<and> n \<le> 13)"

definition trim :: "string \<Rightarrow> string" where
  "trim s = rev (dropWhile isspace (rev (dropWhile isspace s)))"

text \<open>\<^verbatim>\<open>std::getline\<close> until it fails: a last line without a newline counts unless it is empty.\<close>

fun getlines :: "string \<Rightarrow> string list" where
  "getlines [] = []"
| "getlines (c # cs) =
     (if c = newline then [] # getlines cs
      else case getlines cs of
             [] \<Rightarrow> [[c]]
           | l # ls \<Rightarrow> (c # l) # ls)"

text \<open>\<^verbatim>\<open>std::string::find\<close> of a string from a position on; \<open>None\<close> is \<^verbatim>\<open>npos\<close>.\<close>

definition str_find :: "string \<Rightarrow> string \<Rightarrow> nat \<Rightarrow> nat option" where
  "str_find s pat pos = find (\<lambda>i. prefix pat (drop i s)) [pos..<Suc (length s)]"

section \<open>Comments\<close>

text \<open>
  The loop for one prefix. An escaped prefix loses its escape character and the search goes on \<open>length
  pat\<close> characters after the place where the prefix was, which it has left by one.
\<close>

function remove_comment :: "string \<Rightarrow> string \<Rightarrow> nat \<Rightarrow> string" where
  "remove_comment pat line pos =
     (case str_find line pat pos of
        None \<Rightarrow> line
      | Some p \<Rightarrow>
          if p = 0 \<or> line ! (p - 1) \<noteq> escape_char then take p line
          else remove_comment pat (take (p - 1) line @ drop p line) (p + length pat))"
  by pat_completeness auto

lemma str_find_Some:
  assumes "str_find s pat pos = Some p"
  shows "pos \<le> p \<and> p \<le> length s \<and> prefix pat (drop p s) \<and> (\<forall>i \<in> {pos..<p}. \<not> prefix pat (drop i s))"
proof -
  from assms obtain k where k: "k < length [pos..<Suc (length s)]" "p = [pos..<Suc (length s)] ! k"
    "prefix pat (drop p s)" "\<forall>j < k. \<not> prefix pat (drop ([pos..<Suc (length s)] ! j) s)"
    by (auto simp: str_find_def find_Some_iff)
  then have p: "p = pos + k" "p < Suc (length s)" by (simp_all add: less_diff_conv del: upt_Suc)
  have "\<not> prefix pat (drop i s)" if "i \<in> {pos..<p}" for i
    using k(4) [rule_format, of "i - pos"] that p by (simp add: less_diff_conv2 del: upt_Suc)
  with k(3) p show ?thesis by auto
qed

lemma str_find_None:
  "str_find s pat pos = None \<longleftrightarrow> (\<forall>i \<in> {pos..length s}. \<not> prefix pat (drop i s))"
  by (auto simp: str_find_def find_None_iff simp del: upt_Suc)

termination remove_comment
  by (relation "measure (\<lambda>(pat, line, pos). length line)") (auto dest: str_find_Some)

declare remove_comment.simps [simp del]

definition removeComments :: "string \<Rightarrow> string" where
  "removeComments line = fold (\<lambda>pat l. remove_comment pat l 0) comment_prefixes line"

section \<open>Decoding\<close>

datatype ini_error =
    Cannot_open string
  | Section_not_closed nat
  | Empty_section_name nat
  | No_separator nat
  | Empty_key nat
  | Key_assigned_twice string string nat string string nat

type_synonym sections = "string \<Rightarrow> (string \<Rightarrow> string option) option"

record ini_state =
  sections :: sections
  line_tracker :: "string \<Rightarrow> (string \<Rightarrow> nat option) option"
  current_section :: string
  last_non_relative_section :: string
  line_no :: nat

definition new_ini_state :: ini_state where
  "new_ini_state = \<lparr>sections = Map.empty, line_tracker = Map.empty, current_section = [],
     last_non_relative_section = [], line_no = 0\<rparr>"

definition open_section :: "string \<Rightarrow> ini_state \<Rightarrow> ini_state" where
  "open_section name s =
     (let t = s\<lparr>current_section := name\<rparr>
      in if sections t name = None
         then t\<lparr>sections := (sections t)(name \<mapsto> Map.empty),
                line_tracker := (line_tracker t)(name \<mapsto> Map.empty)\<rparr>
         else t)"

definition decode_section :: "string \<Rightarrow> ini_state \<Rightarrow> ini_error + ini_state" where
  "decode_section line s =
     (case str_find line '']'' 0 of
        None \<Rightarrow> Inl (Section_not_closed (line_no s))
      | Some end_pos \<Rightarrow>
          let sec_name = trim (take (end_pos - 1) (drop 1 line))
          in if sec_name = [] then Inl (Empty_section_name (line_no s))
             else if hd sec_name = CHR ''.''
             then Inr (open_section
                    (if last_non_relative_section s \<noteq> [] then last_non_relative_section s @ sec_name
                     else drop 1 sec_name) s)
             else Inr (open_section sec_name (s\<lparr>last_non_relative_section := sec_name\<rparr>)))"

definition decode_field :: "string \<Rightarrow> ini_state \<Rightarrow> ini_error + ini_state" where
  "decode_field line s =
     (case str_find line [field_sep] 0 of
        None \<Rightarrow> Inl (No_separator (line_no s))
      | Some sep_pos \<Rightarrow>
          let key = trim (take sep_pos line); val = trim (drop (sep_pos + 1) line)
          in if key = [] then Inl (Empty_key (line_no s))
             else
               let t = open_section
                     (if current_section s = [] then ''global'' else current_section s) s;
                   sec = current_section t;
                   entries = the (sections t sec);
                   lines = the (line_tracker t sec)
               in case entries key of
                    Some old \<Rightarrow> Inl (Key_assigned_twice key sec
                      (case lines key of Some n \<Rightarrow> n | None \<Rightarrow> 0) old val (line_no s))
                  | None \<Rightarrow> Inr (t\<lparr>sections := (sections t)(sec \<mapsto> entries(key \<mapsto> val)),
                      line_tracker := (line_tracker t)(sec \<mapsto> lines(key \<mapsto> line_no s))\<rparr>))"

definition decode_line :: "string \<Rightarrow> ini_state \<Rightarrow> ini_error + ini_state" where
  "decode_line raw s0 =
     (let s = s0\<lparr>line_no := line_no s0 + 1\<rparr>; line = trim (removeComments raw)
      in if line = [] then Inr s
         else if hd line = CHR ''['' then decode_section line s
         else decode_field line s)"

fun decode_lines :: "string list \<Rightarrow> ini_state \<Rightarrow> ini_error + ini_state" where
  "decode_lines [] s = Inr s"
| "decode_lines (l # ls) s = (case decode_line l s of Inl e \<Rightarrow> Inl e | Inr s' \<Rightarrow> decode_lines ls s')"

definition decode :: "string \<Rightarrow> ini_error + sections" where
  "decode text = map_sum id sections (decode_lines (getlines text) new_ini_state)"

text \<open>
  The constructor that takes a file name; \<open>None\<close> is a file that cannot be opened. It goes through
  \<^verbatim>\<open>safe_decode\<close>, which throws what \<^verbatim>\<open>decode\<close> throws after it has emptied the object.
\<close>

definition ini_parser_of_file :: "(string \<Rightarrow> string option) \<Rightarrow> string \<Rightarrow> ini_error + sections" where
  "ini_parser_of_file files filename =
     (case files filename of None \<Rightarrow> Inl (Cannot_open filename) | Some text \<Rightarrow> decode text)"

section \<open>Comments, read from left to right\<close>

text \<open>
  What the comments of the format are: a prefix starts a comment, unless an escape character is in
  front of it, which is then dropped.
\<close>

definition is_comment_char :: "char \<Rightarrow> bool" where
  "is_comment_char c \<longleftrightarrow> c = CHR ''#'' \<or> c = CHR '';''"

fun strip_until :: "(char \<Rightarrow> bool) \<Rightarrow> string \<Rightarrow> string" where
  "strip_until P [] = []"
| "strip_until P [x] = (if P x then [] else [x])"
| "strip_until P (x # y # r) =
     (if P x then [] else if x = escape_char \<and> P y then y # strip_until P r
      else x # strip_until P (y # r))"

abbreviation strip_comment :: "string \<Rightarrow> string" where
  "strip_comment \<equiv> strip_until is_comment_char"

lemma prefix_single: "prefix [c] (drop i s) \<longleftrightarrow> i < length s \<and> s ! i = c"
  by (cases "i < length s") (auto simp: Cons_nth_drop_Suc [symmetric])

lemma str_find_next:
  assumes "x \<noteq> c"
  shows "str_find (before @ x # r) [c] (length before) = str_find (before @ x # r) [c] (Suc (length before))"
proof -
  have "[length before..<Suc (length (before @ x # r))]
      = length before # [Suc (length before)..<Suc (length (before @ x # r))]"
    by (subst upt_conv_Cons) simp_all
  with assms show ?thesis by (simp add: str_find_def del: upt_Suc)
qed

lemma str_find_here: "str_find (before @ c # r) [c] (length before) = Some (length before)"
proof -
  have "[length before..<Suc (length (before @ c # r))]
      = length before # [Suc (length before)..<Suc (length (before @ c # r))]"
    by (subst upt_conv_Cons) simp_all
  then show ?thesis by (simp add: str_find_def del: upt_Suc)
qed

lemma remove_comment_next:
  assumes "x \<noteq> c"
  shows "remove_comment [c] (before @ x # r) (length before) =
    remove_comment [c] ((before @ [x]) @ r) (length (before @ [x]))"
  using str_find_next [OF assms] by (simp add: remove_comment.simps)

lemma remove_comment_strip:
  assumes "\<not> sublist [escape_char, c, c] rest" and "c \<noteq> escape_char"
    and "before \<noteq> [] \<Longrightarrow> last before = escape_char \<Longrightarrow> rest \<noteq> [] \<Longrightarrow> hd rest \<noteq> c"
  shows "remove_comment [c] (before @ rest) (length before) = before @ strip_until (\<lambda>x. x = c) rest"
  using assms
proof (induction "\<lambda>x. x = c" rest arbitrary: before rule: strip_until.induct)
  case 1
  then show ?case by (simp add: remove_comment.simps str_find_def)
next
  case (2 x)
  show ?case
  proof (cases "x = c")
    case True
    with 2(3) str_find_here [of before c "[]"] show ?thesis
      by (subst remove_comment.simps) (auto simp: nth_append last_conv_nth)
  next
    case False
    with remove_comment_next [OF False, of before "[]"] show ?thesis
      by (simp add: remove_comment.simps str_find_def)
  qed
next
  case (3 x y r)
  have tl: "\<not> sublist [escape_char, c, c] (y # r)" using 3(3) by (simp add: sublist_Cons_right)
  consider "x = c" | "x \<noteq> c" "x = escape_char \<and> y = c" | "x \<noteq> c" "\<not> (x = escape_char \<and> y = c)" by blast
  then show ?case
  proof cases
    case 1
    with 3(5) str_find_here [of before c "y # r"] show ?thesis
      by (subst remove_comment.simps) (auto simp: nth_append last_conv_nth)
  next
    case 2
    then have xy: "x = escape_char" "y = c" by simp_all
    have "str_find (before @ x # y # r) [c] (length before) = Some (Suc (length before))"
      using str_find_next [OF 2(1), of before "y # r"] str_find_here [of "before @ [x]" c r] xy by simp
    then have step: "remove_comment [c] (before @ x # y # r) (length before) =
        remove_comment [c] ((before @ [c]) @ r) (Suc (Suc (length before)))"
      using xy by (subst remove_comment.simps) (simp add: nth_append)
    have r: "\<not> sublist [escape_char, c, c] r" "r \<noteq> [] \<Longrightarrow> hd r \<noteq> c"
      using 3(3) xy by (auto simp: sublist_Cons_right neq_Nil_conv)
    have "remove_comment [c] ((before @ [c]) @ r) (Suc (Suc (length before)))
        = remove_comment [c] ((before @ [c]) @ r) (length (before @ [c]))"
    proof (cases r)
      case Nil
      then show ?thesis by (simp add: remove_comment.simps str_find_def)
    next
      case (Cons z r')
      with r(2) remove_comment_next [of z c "before @ [c]" r'] show ?thesis by simp
    qed
    also have "\<dots> = (before @ [c]) @ strip_until (\<lambda>x. x = c) r"
      using 3(4) r 2 by (intro 3(1)) auto
    finally show ?thesis using step 2 by simp
  next
    case 3
    then show ?thesis
      using remove_comment_next [OF 3(1), of before "y # r"] tl 
        "3.hyps"(2) [OF 3(1) 3(2) tl "3.prems"(2), of "before @ [x]"] by auto
  qed
qed

lemma strip_plain: "\<not> P x \<Longrightarrow> x \<noteq> escape_char \<Longrightarrow> strip_until P (x # w) = x # strip_until P w"
  by (cases w) simp_all

lemma strip_escape: "\<not> P escape_char \<Longrightarrow> w = [] \<or> \<not> P (hd w) \<Longrightarrow>
    strip_until P (escape_char # w) = escape_char # strip_until P w"
  by (cases w) simp_all

lemma strip_starts: "P x \<Longrightarrow> strip_until P (x # w) = []"
  by (cases w) simp_all

lemma strip_head:
  "strip_until P w = z # v \<Longrightarrow> \<not> P z \<Longrightarrow> z \<noteq> escape_char \<Longrightarrow> \<exists>w'. w = z # w' \<and> strip_until P w' = v"
  by (cases "(P, w)" rule: strip_until.cases) (auto split: if_splits)

lemma strip_keeps_single:
  "sublist [escape_char, d, d] (strip_until P w) \<Longrightarrow> \<not> P d \<Longrightarrow> d \<noteq> escape_char \<Longrightarrow> \<not> P escape_char \<Longrightarrow>
   sublist [escape_char, d, d] w"
proof (induction P w rule: strip_until.induct)
  case (3 P x y r)
  show ?case
  proof (cases "P x \<or> (x = escape_char \<and> P y)")
    case True
    with 3 show ?thesis by (auto simp: sublist_Cons_right split: if_splits)
  next
    case False
    show ?thesis
    proof (cases "sublist [escape_char, d, d] (strip_until P (y # r))")
      case True
      with 3 False show ?thesis by (auto simp: sublist_Cons_right)
    next
      case sub: False
      with 3(3) False obtain v where x: "x = escape_char" "strip_until P (y # r) = d # d # v"
        by (auto simp: sublist_Cons_right prefix_def)
      with strip_head [of P "y # r" d "d # v"] strip_head [of P r d v] 3(4,5)
      obtain r' where "y = d" "r = d # r'" by auto
      with x(1) show ?thesis by (auto simp: sublist_Cons_right)
    qed
  qed
qed (auto split: if_splits)

lemma strip_twice:
  "strip_until (\<lambda>x. x = CHR '';'') (strip_until (\<lambda>x. x = CHR ''#'') w) = strip_comment w"
proof (induction is_comment_char w rule: strip_until.induct)
  case (3 x y r)
  note chars = is_comment_char_def escape_char_def
  consider "is_comment_char x" | "x = escape_char" "is_comment_char y"
    | "x = escape_char" "\<not> is_comment_char y" | "x \<noteq> escape_char" "\<not> is_comment_char x" by blast
  then show ?case
  proof cases
    case 1
    then show ?thesis by (auto simp: chars strip_plain strip_starts)
  next
    case 2
    with 3(1) show ?thesis by (auto simp: chars strip_plain)
  next
    case 3
    then have x: "\<not> is_comment_char x" "\<not> (x = escape_char \<and> is_comment_char y)" by (auto simp: chars)
    let ?v = "strip_until (\<lambda>x. x = CHR ''#'') (y # r)"
    have "?v = [] \<or> hd ?v \<noteq> CHR '';''"
      using strip_head [of "\<lambda>x. x = CHR ''#''" "y # r" "CHR '';''" "tl ?v"] 3(2)
      by (cases ?v) (auto simp: chars)
    with "3.hyps"(2) [OF x] 3 show ?thesis by (simp add: chars strip_escape [unfolded escape_char_def])
  next
    case 4
    then have "\<not> (x = escape_char \<and> is_comment_char y)" by simp
    from "3.hyps"(2) [OF 4(2) this] 4 show ?thesis by (auto simp: is_comment_char_def strip_plain)
  qed
qed (auto simp: is_comment_char_def)

text \<open>
  The two loops read the comments of the format from every line in which no escaped prefix is
  followed at once by the same prefix.
\<close>

lemma comments_read_left_to_right:
  assumes "\<not> sublist [escape_char, CHR ''#'', CHR ''#''] line"
    and "\<not> sublist [escape_char, CHR '';'', CHR '';''] line"
  shows "removeComments line = strip_comment line"
proof -
  let ?v = "strip_until (\<lambda>x. x = CHR ''#'') line"
  have "\<not> sublist [escape_char, CHR '';'', CHR '';''] ?v"
    using strip_keeps_single assms(2) by (auto simp: escape_char_def)
  with remove_comment_strip [OF assms(1), of "[]"] remove_comment_strip [of "CHR '';''" ?v "[]"] strip_twice
  show ?thesis by (simp add: removeComments_def comment_prefixes_def escape_char_def)
qed

text \<open>
  In the other lines a comment may stay: the search goes on one character too far, so the second prefix
  is not seen.
\<close>

lemma comment_after_escape_stays:
  "removeComments [CHR ''a'', escape_char, CHR ''#'', CHR ''#'', CHR ''b''] = ''a##b''"
  "strip_comment [CHR ''a'', escape_char, CHR ''#'', CHR ''#'', CHR ''b''] = ''a#''"
  by (simp_all add: removeComments_def comment_prefixes_def remove_comment.simps str_find_def
      escape_char_def is_comment_char_def upt_conv_Cons)

section \<open>Writing a configuration\<close>

text \<open>The text of a configuration, with every comment character escaped.\<close>

definition escape :: "string \<Rightarrow> string" where
  "escape s = concat (map (\<lambda>c. if is_comment_char c then [escape_char, c] else [c]) s)"

definition field_line :: "string \<times> string \<Rightarrow> string" where
  "field_line kv = escape (fst kv @ field_sep # snd kv)"

definition section_line :: "string \<Rightarrow> string" where
  "section_line name = escape (CHR ''['' # name @ '']'')"

definition section_lines :: "string \<times> (string \<times> string) list \<Rightarrow> string list" where
  "section_lines sec = section_line (fst sec) # map field_line (snd sec)"

definition render :: "(string \<times> (string \<times> string) list) list \<Rightarrow> string" where
  "render cfg = concat (map (\<lambda>l. l @ [newline]) (concat (map section_lines cfg)))"

text \<open>Names, keys and values that survive the trimming and the separators.\<close>

definition tidy :: "string \<Rightarrow> bool" where
  "tidy s \<longleftrightarrow> newline \<notin> set s \<and> (s = [] \<or> \<not> isspace (hd s) \<and> \<not> isspace (last s))"

definition good_field :: "string \<times> string \<Rightarrow> bool" where
  "good_field kv \<longleftrightarrow> tidy (fst kv) \<and> tidy (snd kv) \<and> fst kv \<noteq> [] \<and> hd (fst kv) \<noteq> CHR ''['' \<and>
     field_sep \<notin> set (fst kv)"

definition good_section :: "string \<times> (string \<times> string) list \<Rightarrow> bool" where
  "good_section sec \<longleftrightarrow> tidy (fst sec) \<and> fst sec \<noteq> [] \<and> hd (fst sec) \<noteq> CHR ''.'' \<and>
     CHR '']'' \<notin> set (fst sec) \<and> list_all good_field (snd sec) \<and> distinct (map fst (snd sec))"

definition good_config :: "(string \<times> (string \<times> string) list) list \<Rightarrow> bool" where
  "good_config cfg \<longleftrightarrow> list_all good_section cfg \<and> distinct (map fst cfg)"

definition meaning :: "(string \<times> (string \<times> string) list) list \<Rightarrow> sections" where
  "meaning cfg = map_of (map (\<lambda>(name, fields). (name, map_of fields)) cfg)"

lemma escape_simps [simp]:
  "escape [] = []"
  "escape (c # s) = (if is_comment_char c then escape_char # c # escape s else c # escape s)"
  by (simp_all add: escape_def)

lemma escape_head: "escape s = [] \<or> \<not> is_comment_char (hd (escape s))"
  by (cases s) (auto simp: is_comment_char_def escape_char_def)

lemma strip_comment_escape: "strip_comment (escape s) = s"
proof (induction s)
  case (Cons c s)
  have e: "\<not> is_comment_char escape_char" by (simp add: is_comment_char_def escape_char_def)
  show ?case
    using Cons e strip_escape [OF e escape_head, of s]
    by (cases "c = escape_char") (auto simp: strip_plain)
qed simp

lemma escape_no_double: "is_comment_char c \<Longrightarrow> \<not> sublist [escape_char, c, c] (escape s)"
proof (induction s)
  case (Cons d s)
  have e: "\<not> is_comment_char escape_char" "c \<noteq> escape_char"
    using Cons.prems by (auto simp: is_comment_char_def escape_char_def)
  have h: "\<not> prefix [c] (escape s)" "\<not> prefix [c, c] (escape s)"
    using escape_head [of s] Cons.prems by (auto simp: prefix_def)
  show ?case using Cons e h by (auto simp: sublist_Cons_right)
qed simp

lemma removeComments_escape [simp]: "removeComments (escape s) = s"
  by (simp add: comments_read_left_to_right escape_no_double is_comment_char_def strip_comment_escape)

lemma trim_edges:
  assumes "s \<noteq> []" and "\<not> isspace (hd s)" and "\<not> isspace (last s)"
  shows "trim s = s"
proof -
  have *: "w \<noteq> [] \<Longrightarrow> \<not> isspace (hd w) \<Longrightarrow> dropWhile isspace w = w" for w by (cases w) simp_all
  show ?thesis using * [of s] * [of "rev s"] assms by (simp add: trim_def hd_rev)
qed

lemma trim_tidy [simp]: "tidy s \<Longrightarrow> trim s = s"
  using trim_edges [of s] by (cases "s = []") (auto simp: tidy_def trim_def)

lemma newline_escape: "newline \<in> set (escape s) \<longleftrightarrow> newline \<in> set s"
  by (induction s) (auto simp: is_comment_char_def escape_char_def newline_def)

lemma getlines_line: "newline \<notin> set l \<Longrightarrow> getlines (l @ newline # rest) = l # getlines rest"
  by (induction l) auto

lemma getlines_lines:
  "\<forall>l \<in> set ls. newline \<notin> set l \<Longrightarrow> getlines (concat (map (\<lambda>l. l @ [newline]) ls)) = ls"
  by (induction ls) (simp_all add: getlines_line)

lemma str_find_first:
  assumes "c \<notin> set before"
  shows "str_find (before @ c # r) [c] 0 = Some (length before)"
proof (cases "str_find (before @ c # r) [c] 0")
  case None
  then have "\<forall>i \<in> {0..length (before @ c # r)}. \<not> prefix [c] (drop i (before @ c # r))"
    by (simp only: str_find_None)
  then have "\<not> prefix [c] (drop (length before) (before @ c # r))" by (rule bspec) simp
  then show ?thesis by simp
next
  case (Some p)
  let ?s = "before @ c # r"
  from str_find_Some [OF Some, unfolded prefix_single]
  have p: "?s ! p = c" "\<forall>i \<in> {0..<p}. \<not> (i < length ?s \<and> ?s ! i = c)" by simp_all
  from p(1) assms have "\<not> p < length before" by (auto simp: nth_append)
  moreover from p(2) have "\<not> length before < p" by (auto dest!: bspec [of _ _ "length before"])
  ultimately show ?thesis using Some by simp
qed

lemma decode_lines_append:
  "decode_lines (ls @ ms) s = (case decode_lines ls s of Inl e \<Rightarrow> Inl e | Inr t \<Rightarrow> decode_lines ms t)"
  by (induction ls arbitrary: s) (simp_all split: sum.split)

lemma decode_field_line:
  assumes "good_field (k, v)" and "current_section s \<noteq> []"
    and "sections s (current_section s) = Some fs" and "fs k = None"
  shows "\<exists>t. decode_line (field_line (k, v)) s = Inr t \<and> current_section t = current_section s \<and>
    sections t = (sections s)(current_section s \<mapsto> fs(k \<mapsto> v))"
proof -
  let ?line = "k @ field_sep # v"
  have "trim ?line = ?line"
    using assms(1) by (intro trim_edges) (auto simp: good_field_def tidy_def isspace_def field_sep_def)
  moreover have "?line \<noteq> []" "hd ?line \<noteq> CHR ''[''" using assms(1) by (simp_all add: good_field_def)
  moreover have "str_find ?line [field_sep] 0 = Some (length k)"
    using assms(1) by (intro str_find_first) (simp add: good_field_def)
  ultimately show ?thesis
    using assms by (simp add: decode_line_def field_line_def decode_field_def Let_def open_section_def
        good_field_def)
qed

lemma update_before_add: "m' k = None \<Longrightarrow> m(k \<mapsto> v) ++ m' = m ++ m'(k \<mapsto> v)"
  by (auto simp: map_add_def fun_eq_iff split: option.splits)

lemma decode_field_lines:
  assumes "list_all good_field kvs" and "distinct (map fst kvs)" and "current_section s \<noteq> []"
    and "sections s (current_section s) = Some fs" and "fst ` set kvs \<inter> dom fs = {}"
  shows "\<exists>t. decode_lines (map field_line kvs) s = Inr t \<and> current_section t = current_section s \<and>
    sections t = (sections s)(current_section s \<mapsto> fs ++ map_of kvs)"
  using assms
proof (induction kvs arbitrary: s fs)
  case (Cons kv kvs)
  obtain k v where kv: "kv = (k, v)" by (cases kv)
  have "fs k = None" using Cons.prems(5) kv by auto
  with decode_field_line [of k v s fs] Cons.prems kv obtain t where t:
    "decode_line (field_line (k, v)) s = Inr t" "current_section t = current_section s"
    "sections t = (sections s)(current_section s \<mapsto> fs(k \<mapsto> v))" by auto
  have "\<exists>u. decode_lines (map field_line kvs) t = Inr u \<and> current_section u = current_section t \<and>
      sections u = (sections t)(current_section t \<mapsto> fs(k \<mapsto> v) ++ map_of kvs)"
  proof (rule Cons.IH)
    show "fst ` set kvs \<inter> dom (fs(k \<mapsto> v)) = {}" using Cons.prems(2,5) kv by simp
  qed (use Cons.prems kv t in \<open>auto simp: fun_upd_def\<close>)
  then obtain u where u: "decode_lines (map field_line kvs) t = Inr u" "current_section u = current_section s"
    "sections u = (sections s)(current_section s \<mapsto> fs(k \<mapsto> v) ++ map_of kvs)" using t(2,3) by auto
  have eq: "fs ++ map_of ((k, v) # kvs) = fs(k \<mapsto> v) ++ map_of kvs"
    using Cons.prems(2) kv by (simp add: update_before_add map_of_eq_None_iff)
  show ?case
    unfolding kv list.map decode_lines.simps t(1) sum.case eq using u by blast
qed (auto simp: fun_eq_iff)

lemma decode_section_line:
  assumes "good_section (name, kvs)" and "sections s name = None"
  shows "\<exists>t. decode_line (section_line name) s = Inr t \<and> current_section t = name \<and>
    sections t = (sections s)(name \<mapsto> Map.empty)"
proof -
  let ?line = "CHR ''['' # name @ '']''"
  have "trim ?line = ?line" by (intro trim_edges) (simp_all add: isspace_def)
  moreover have "str_find ?line '']'' 0 = Some (Suc (length name))"
    using assms(1) str_find_first [of "CHR '']''" "CHR ''['' # name" "[]"] by (simp add: good_section_def)
  ultimately show ?thesis
    using assms by (simp add: decode_line_def section_line_def decode_section_def Let_def open_section_def
        good_section_def del: escape_simps)
qed

lemma meaning_Cons: "meaning (sec # cfg) = (meaning cfg)(fst sec \<mapsto> map_of (snd sec))"
  by (cases sec) (simp add: meaning_def)

lemma meaning_None: "name \<notin> fst ` set cfg \<Longrightarrow> meaning cfg name = None"
  by (force simp: meaning_def map_of_eq_None_iff)

lemma decode_sections:
  assumes "good_config cfg" and "fst ` set cfg \<inter> dom (sections s) = {}"
  shows "\<exists>t. decode_lines (concat (map section_lines cfg)) s = Inr t \<and>
    sections t = sections s ++ meaning cfg"
  using assms
proof (induction cfg arbitrary: s)
  case (Cons sec cfg)
  obtain name kvs where sec: "sec = (name, kvs)" by (cases sec)
  have good: "good_section (name, kvs)" "name \<notin> fst ` set cfg" "good_config cfg"
    using Cons.prems(1) sec by (auto simp: good_config_def)
  have "sections s name = None" using Cons.prems(2) sec by auto
  from decode_section_line [OF good(1) this] obtain t where t:
    "decode_line (section_line name) s = Inr t" "current_section t = name"
    "sections t = (sections s)(name \<mapsto> Map.empty)" by auto
  from decode_field_lines [of kvs t Map.empty] good(1) t obtain u where u:
    "decode_lines (map field_line kvs) t = Inr u" "sections u = (sections s)(name \<mapsto> map_of kvs)"
    by (auto simp: good_section_def)
  have "fst ` set cfg \<inter> dom (sections u) = {}" using u(2) good(2) Cons.prems(2) by auto
  with Cons.IH [OF good(3), of u] obtain w where
    "decode_lines (concat (map section_lines cfg)) u = Inr w" "sections w = sections u ++ meaning cfg" by auto
  moreover have "sections u ++ meaning cfg = sections s ++ meaning (sec # cfg)"
    using u(2) sec good(2) by (simp add: meaning_Cons meaning_None update_before_add)
  ultimately show ?case
    using t(1) u(1) sec by (simp add: section_lines_def [of "(name, kvs)"] decode_lines_append)
qed (simp add: meaning_def)

lemma section_lines_newline:
  assumes "good_section sec" and "l \<in> set (section_lines sec)"
  shows "newline \<notin> set l"
proof -
  have "newline \<notin> set (fst sec)" and "\<And>kv. kv \<in> set (snd sec) \<Longrightarrow> newline \<notin> set (fst kv) \<and> newline \<notin> set (snd kv)"
    using assms(1) by (auto simp: good_section_def good_field_def tidy_def list_all_iff)
  moreover have "newline \<noteq> field_sep" "newline \<notin> {CHR ''['', CHR '']''}"
    by (simp_all add: newline_def field_sep_def)
  ultimately show ?thesis
    using assms(2) by (auto simp: section_lines_def section_line_def field_line_def newline_escape
        simp del: escape_simps)
qed

text \<open>
  What is written is read back: decoding the text of a configuration whose names and keys fit the
  format gives exactly its sections with their keys and values, comment characters included.
\<close>

lemma configuration_is_read_back:
  assumes "good_config cfg"
  shows "decode (render cfg) = Inr (meaning cfg)"
proof -
  have "\<forall>l \<in> set (concat (map section_lines cfg)). newline \<notin> set l"
    using assms section_lines_newline by (auto simp: good_config_def list_all_iff)
  with decode_sections [OF assms, of new_ini_state] show ?thesis
    by (auto simp: decode_def render_def getlines_lines new_ini_state_def)
qed

lemma configuration_is_read_back_example:
  "\<exists>m. decode (render [(''log'', [(''a'', ''1;2''), (''b'', [])]), (''x'', [])]) = Inr m \<and>
     m ''log'' = Some [''a'' \<mapsto> ''1;2'', ''b'' \<mapsto> []] \<and> m ''y'' = None"
proof -
  have "good_config [(''log'', [(''a'', ''1;2''), (''b'', [])]), (''x'', [])]"
    by (simp add: good_config_def good_section_def good_field_def tidy_def isspace_def newline_def
        field_sep_def)
  from configuration_is_read_back [OF this] show ?thesis
    by (simp add: meaning_def) (simp add: fun_eq_iff)
qed

section \<open>Errors\<close>

text \<open>An error names the line that raised it, and every line before it was accepted.\<close>

fun error_line :: "ini_error \<Rightarrow> nat option" where
  "error_line (Cannot_open f) = None"
| "error_line (Section_not_closed n) = Some n"
| "error_line (Empty_section_name n) = Some n"
| "error_line (No_separator n) = Some n"
| "error_line (Empty_key n) = Some n"
| "error_line (Key_assigned_twice key sec first old new n) = Some n"

lemma open_section_line_no [simp]: "line_no (open_section name s) = line_no s"
  by (simp add: open_section_def Let_def)

lemma decode_line_no:
  "decode_line l s = Inr t \<Longrightarrow> line_no t = Suc (line_no s)"
  "decode_line l s = Inl e \<Longrightarrow> error_line e = Some (Suc (line_no s))"
  by (auto simp: decode_line_def decode_section_def decode_field_def Let_def
      split: if_splits option.splits)

lemma decode_error_line:
  assumes "decode_lines ls s = Inl e"
  shows "\<exists>n t. n < length ls \<and> error_line e = Some (line_no s + n + 1) \<and>
    decode_lines (take n ls) s = Inr t \<and> decode_line (ls ! n) t = Inl e"
  using assms
proof (induction ls arbitrary: s)
  case (Cons l ls)
  show ?case
  proof (cases "decode_line l s")
    case (Inl e')
    with Cons.prems have "e' = e" by simp
    with Inl decode_line_no(2) [of l s e] show ?thesis by (intro exI [of _ 0] exI [of _ s]) simp
  next
    case (Inr t)
    with Cons.prems Cons.IH [of t] decode_line_no(1) [OF Inr] obtain n u where "n < length ls"
      "error_line e = Some (line_no s + Suc n + 1)" "decode_lines (take n ls) t = Inr u"
      "decode_line (ls ! n) u = Inl e" by auto
    with Inr show ?thesis by (intro exI [of _ "Suc n"] exI [of _ u]) simp
  qed
qed simp

text \<open>
  The message about a key that is assigned twice says that the value is overridden; the file is
  refused instead.
\<close>

lemma second_assignment_is_refused:
  assumes "decode_line l s = Inl (Key_assigned_twice key sec first old new n)"
  shows "\<exists>fs. sections s sec = Some fs \<and> fs key = Some old"
  using assms
  by (auto simp: decode_line_def decode_section_def decode_field_def open_section_def Let_def
      split: if_splits option.splits)

text \<open>
  A relative name that is only a dot, with no section to be relative to, passes the test for empty
  names and opens the section without a name. The keys after it go to \<^verbatim>\<open>global\<close>.
\<close>

lemma lone_dot_opens_nameless_section:
  assumes "last_non_relative_section s = []" and "sections s [] = None" and "sections s ''global'' = None"
  shows "\<exists>t. decode_lines [''[.]'', ''k=v''] s = Inr t \<and> sections t [] = Some Map.empty \<and>
    sections t ''global'' = Some [''k'' \<mapsto> ''v'']"
proof -
  have clean: "removeComments ''[.]'' = ''[.]''" "removeComments ''k=v'' = ''k=v''"
    by (simp_all add: removeComments_def comment_prefixes_def remove_comment.simps str_find_def upt_conv_Cons)
  have trim: "trim ''[.]'' = ''[.]''" "trim ''.'' = ''.''" "trim ''k=v'' = ''k=v''" "trim ''k'' = ''k''"
    "trim ''v'' = ''v''" by (simp_all add: trim_def isspace_def)
  have "str_find ''[.]'' '']'' 0 = Some 2" "str_find ''k=v'' [field_sep] 0 = Some 1"
    by (simp_all add: str_find_def upt_conv_Cons field_sep_def)
  then show ?thesis
    using assms clean trim
    by (simp add: decode_line_def decode_section_def decode_field_def open_section_def Let_def)
qed

end
