(* ===== verification/Signals.thy ===== *)
theory Signals
  imports Ini_Parser
begin

text \<open>
  Signals of the model checker's own process (\<^verbatim>\<open>include/mcmini/signal.hpp\<close>,
  \<^verbatim>\<open>src/mcmini/signal.cpp\<close>): their names, the thread that listens for them, the test for a debugger
  and the counters of \<^verbatim>\<open>signal_tracker\<close>, which a handler increments while other threads consume.
  Numbers are those of Linux on x86-64. What becomes of a counted \<^verbatim>\<open>SIGCHLD\<close> is in
  \<open>Branch_Process\<close>.
\<close>

section \<open>Names\<close>

type_synonym signo = int

text \<open>The initializer of \<^verbatim>\<open>sig_to_str\<close>; a second name for a number that is there already is dropped.\<close>

definition sig_names :: "(signo \<times> string) list" where
  "sig_names =
     [(1, ''SIGHUP''), (2, ''SIGINT''), (3, ''SIGQUIT''), (4, ''SIGILL''), (5, ''SIGTRAP''),
      (6, ''SIGABRT''), (7, ''SIGBUS''), (8, ''SIGFPE''), (9, ''SIGKILL''), (10, ''SIGUSR1''),
      (11, ''SIGSEGV''), (12, ''SIGUSR2''), (13, ''SIGPIPE''), (14, ''SIGALRM''), (15, ''SIGTERM''),
      (16, ''SIGSTKFLT''), (17, ''SIGCHLD''), (18, ''SIGCONT''), (19, ''SIGSTOP''), (20, ''SIGTSTP''),
      (21, ''SIGTTIN''), (22, ''SIGTTOU''), (23, ''SIGURG''), (24, ''SIGXCPU''), (25, ''SIGXFSZ''),
      (26, ''SIGVTALRM''), (27, ''SIGPROF''), (28, ''SIGWINCH''), (29, ''SIGIO''), (29, ''SIGPOLL''),
      (30, ''SIGPWR''), (31, ''SIGSYS'')]"

definition sig_to_str :: "signo \<Rightarrow> string res" where
  "sig_to_str sig = map_at sig_names sig"

definition is_bad_signal :: "signo \<Rightarrow> bool" where
  "is_bad_signal sig \<longleftrightarrow> sig = 4 \<or> sig = 6 \<or> sig = 7 \<or> sig = 8 \<or> sig = 9 \<or> sig = 11 \<or> sig = 13 \<or> sig = 31"

lemma named_signals: "(\<exists>name. sig_to_str sig = Inr name) \<longleftrightarrow> 1 \<le> sig \<and> sig \<le> 31"
proof -
  have "x \<in> dom (map_of sig_names) \<longleftrightarrow> 1 \<le> x \<and> x \<le> 31" for x
    by (simp add: dom_map_of_conv_image_fst sig_names_def del: fun_upd_apply) presburger
  then have "map_of sig_names sig \<noteq> None \<longleftrightarrow> 1 \<le> sig \<and> sig \<le> 31" by (auto simp: dom_def)
  then show ?thesis by (auto simp: sig_to_str_def map_at_def split: option.splits)
qed

section \<open>Is there a debugger?\<close>

text \<open>The words of a line, and the number at the start of a word as \<^verbatim>\<open>operator>>\<close> reads it.\<close>

function words :: "string \<Rightarrow> string list" where
  "words s =
     (let t = dropWhile isspace s
      in if t = [] then []
         else takeWhile (\<lambda>c. \<not> isspace c) t # words (dropWhile (\<lambda>c. \<not> isspace c) t))"
  by pat_completeness auto

termination words
proof (relation "measure length")
  fix s t :: string
  assume "t = dropWhile isspace s" "t \<noteq> []"
  then have "\<not> isspace (hd t)" using hd_dropWhile [of isspace s] by simp
  with \<open>t \<noteq> []\<close> have "length (dropWhile (\<lambda>c. \<not> isspace c) t) < length t"
    by (cases t) (auto simp: le_imp_less_Suc length_dropWhile_le)
  also have "length t \<le> length s" using \<open>t = dropWhile isspace s\<close> by (simp add: length_dropWhile_le)
  finally show "(dropWhile (\<lambda>c. \<not> isspace c) t, s) \<in> measure length" by simp
qed simp

declare words.simps [simp del]

definition is_digit :: "char \<Rightarrow> bool" where
  "is_digit c \<longleftrightarrow> 48 \<le> (of_char c :: nat) \<and> (of_char c :: nat) \<le> 57"

definition read_number :: "string \<Rightarrow> int" where
  "read_number w =
     (let neg = (w \<noteq> [] \<and> hd w = CHR ''-'');
          body = (if w \<noteq> [] \<and> hd w \<in> {CHR ''-'', CHR ''+''} then tl w else w);
          n = foldl (\<lambda>n c. 10 * n + (of_char c - 48)) 0 (takeWhile is_digit body)
      in if neg then - n else n)"

fun tracer_found :: "string list \<Rightarrow> bool" where
  "tracer_found [] = False"
| "tracer_found (line # lines) =
     (case words line of
        key # rest \<Rightarrow>
          if key = ''TracerPid:''
          then (case rest of w # _ \<Rightarrow> read_number w \<noteq> 0 | [] \<Rightarrow> False)
          else tracer_found lines
      | [] \<Rightarrow> tracer_found lines)"

text \<open>\<open>None\<close> is a status file that cannot be opened.\<close>

definition is_likely_debugging :: "string option \<Rightarrow> bool" where
  "is_likely_debugging status_file =
     (case status_file of None \<Rightarrow> False | Some text \<Rightarrow> tracer_found (getlines text))"

lemma debugger_example:
  "is_likely_debugging (Some (''Name: mcmini'' @ [newline] @ ''TracerPid:'' @ [CHR 0x09] @ ''42''))"
  "\<not> is_likely_debugging (Some (''Name: mcmini'' @ [newline] @ ''TracerPid:'' @ [CHR 0x09] @ ''0''))"
  by (simp_all add: is_likely_debugging_def newline_def words.simps isspace_def read_number_def is_digit_def Let_def)

section \<open>The listening thread\<close>

definition SIGINT :: signo where
  "SIGINT = 2"

definition listened :: "signo \<Rightarrow> bool" where
  "listened sig \<longleftrightarrow> 1 \<le> sig \<and> sig \<le> 64 \<and> sig \<noteq> 17 \<and> sig \<noteq> 20 \<and>
     \<not> (is_bad_signal sig \<and> map_of sig_names sig \<noteq> None)"

datatype reaction = Listens_on | Terminates | Stops_itself | Exits_with_failure

text \<open>An exception that leaves the function of a thread terminates the process.\<close>

definition on_signal :: "string option \<Rightarrow> signo \<Rightarrow> reaction" where
  "on_signal status_file sig =
     (case sig_to_str sig of
        Inl e \<Rightarrow> Terminates
      | Inr name \<Rightarrow>
          if is_bad_signal sig then Terminates
          else if sig = SIGINT
          then if is_likely_debugging status_file then Stops_itself else Exits_with_failure
          else Listens_on)"

text \<open>
  The test for bad signals is never reached, and every real-time signal ends the model checker, since
  it has no name. \<^verbatim>\<open>SIGTERM\<close> and \<^verbatim>\<open>SIGHUP\<close> are swallowed.
\<close>

lemma listener_reactions:
  assumes "listened sig"
  shows "on_signal status_file sig =
    (if sig > 31 then Terminates
     else if sig = SIGINT
     then if is_likely_debugging status_file then Stops_itself else Exits_with_failure
     else Listens_on) \<and> \<not> is_bad_signal sig"
proof (cases "sig > 31")
  case True
  then have "\<not> (\<exists>name. sig_to_str sig = Inr name)" by (simp add: named_signals)
  with True show ?thesis
    by (cases "sig_to_str sig") (auto simp: on_signal_def is_bad_signal_def)
next
  case False
  with assms have 1: "1 \<le> sig \<and> sig \<le> 31" by (simp add: listened_def)
  then obtain name where name: "sig_to_str sig = Inr name" using named_signals [of sig] by blast
  with assms have "\<not> is_bad_signal sig"
    by (auto simp: listened_def sig_to_str_def map_at_def split: option.splits)
  with name False show ?thesis by (simp add: on_signal_def)
qed

lemma listener_examples: "listened 34" "listened 15" "on_signal None 34 = Terminates" "on_signal None 15 = Listens_on"
  using listener_reactions [of 34 None] listener_reactions [of 15 None]
  by (simp_all add: listened_def is_bad_signal_def SIGINT_def)

text \<open>The wait for a semaphore, by what each call of \<^verbatim>\<open>sem_wait\<close> returned; \<open>None\<close>: still waiting.\<close>

definition EINTR :: int where
  "EINTR = 4"

fun sig_semwait :: "(int \<times> int) list \<Rightarrow> int option" where
  "sig_semwait [] = None"
| "sig_semwait ((rc, errno) # calls) = (if rc \<noteq> 0 \<and> errno = EINTR then sig_semwait calls else Some rc)"

lemma sig_semwait_not_interrupted:
  "sig_semwait calls = (case dropWhile (\<lambda>(rc, errno). rc \<noteq> 0 \<and> errno = EINTR) calls of
     [] \<Rightarrow> None | (rc, errno) # rest \<Rightarrow> Some rc)"
  by (induction calls rule: sig_semwait.induct) simp_all

section \<open>The counters\<close>

text \<open>
  \<^verbatim>\<open>flags[sig]\<close> has an entry for each number below \<^verbatim>\<open>NSIG - 1\<close>. A consumer loads the counter and
  tries to exchange it until that succeeds or it reads zero; a weak exchange may fail for no reason.
  Handlers and consumers take their steps in any order.
\<close>

definition MAX_SIGNAL_TYPES :: nat where
  "MAX_SIGNAL_TYPES = 64"

definition set_signal :: "nat \<Rightarrow> nat list \<Rightarrow> nat list res" where
  "set_signal sig flags =
     (if sig < length flags then Inr (flags[sig := u32 (flags ! sig + 1)]) else Inl Array_overrun)"

definition has_signal :: "nat \<Rightarrow> nat list \<Rightarrow> bool res" where
  "has_signal sig flags = (if sig < length flags then Inr (flags ! sig > 0) else Inl Array_overrun)"

record signal_counter =
  flag :: nat
  loaded :: "nat \<Rightarrow> nat option"
  signals_set :: nat
  signals_consumed :: nat

inductive counter_step :: "signal_counter \<Rightarrow> signal_counter \<Rightarrow> bool" where
  fetch_add: "counter_step s (s\<lparr>flag := u32 (flag s + 1), signals_set := signals_set s + 1\<rparr>)"
| load: "loaded s i = None \<Longrightarrow> counter_step s (s\<lparr>loaded := (loaded s)(i := Some (flag s))\<rparr>)"
| nothing_to_consume: "loaded s i = Some 0 \<Longrightarrow> counter_step s (s\<lparr>loaded := (loaded s)(i := None)\<rparr>)"
| exchanged: "loaded s i = Some c \<Longrightarrow> 0 < c \<Longrightarrow> flag s = c \<Longrightarrow>
    counter_step s (s\<lparr>flag := c - 1, loaded := (loaded s)(i := None), signals_consumed := signals_consumed s + 1\<rparr>)"
| exchange_failed: "loaded s i = Some c \<Longrightarrow> 0 < c \<Longrightarrow>
    counter_step s (s\<lparr>loaded := (loaded s)(i := Some (flag s))\<rparr>)"

inductive counter_steps :: "signal_counter \<Rightarrow> signal_counter \<Rightarrow> bool" where
  no_counter_step: "counter_steps s s"
| more_counter_steps: "counter_steps s t \<Longrightarrow> counter_step t u \<Longrightarrow> counter_steps s u"

definition new_counter :: signal_counter where
  "new_counter = \<lparr>flag = 0, loaded = (\<lambda>_. None), signals_set = 0, signals_consumed = 0\<rparr>"

text \<open>
  No signal is lost and none is consumed twice, however handlers and consumers interleave: what was set
  is consumed or still counted. The counter has 32 bits.
\<close>

lemma signals_are_counted:
  assumes "counter_steps new_counter s" and "signals_set s < 4294967296"
  shows "flag s + signals_consumed s = signals_set s"
  using assms
proof (induction new_counter s rule: counter_steps.induct)
  case (more_counter_steps t u)
  from more_counter_steps(3) have "signals_set t \<le> signals_set u" by cases simp_all
  with more_counter_steps have t: "flag t + signals_consumed t = signals_set t"
    "signals_set t \<le> signals_set u" by simp_all
  from more_counter_steps(3) show ?case
    by cases (use t more_counter_steps(4) in simp_all)
qed (simp add: new_counter_def)

text \<open>The last real-time signal has no entry.\<close>

lemma last_signal_has_no_counter: "set_signal 64 (replicate MAX_SIGNAL_TYPES 0) = Inl Array_overrun"
  by (simp add: set_signal_def MAX_SIGNAL_TYPES_def)

end
