(* ===== verification/Reporting.thy ===== *)
theory Reporting
  imports Model_Checking Signals
begin

text \<open>
  The reports of \<^verbatim>\<open>src/mcmini/mcmini.cpp\<close>: the callbacks of the search, which list the trace of the
  model and what its threads would do next. A report is a list of lines; the text of a line is not
  modelled. What is printed before an exception is lost here.
\<close>

section \<open>Lines\<close>

datatype report_line =
    Headline string
  | Undefined_behavior_line error
  | Signal_line int string
  | Exit_code_line int
  | Trace_line nat
  | Operation_line runner_id transition
  | No_longer_pending runner_id
  | Next_thread_operations
  | Executing_line runner_id
  | Total_transitions nat

definition trace_lines :: "program \<Rightarrow> report_line list res" where
  "trace_lines p =
     fold_res (\<lambda>slot ls. bind_res (deref slot) (\<lambda>t. Inr (ls @ [Operation_line (get_executor t) t])))
       (trace p) []"

definition pending_lines :: "program \<Rightarrow> report_line list" where
  "pending_lines p = map (\<lambda>(r, t). Operation_line r t) (next_steps p)"

section \<open>The callbacks\<close>

definition finished_trace_classic_dpor :: "program \<Rightarrow> stats \<Rightarrow> report_line list res" where
  "finished_trace_classic_dpor p s =
     bind_res (trace_lines p) (\<lambda>ls.
       Inr (Trace_line (trace_id s) # ls @ Next_thread_operations # pending_lines p))"

definition found_undefined_behavior :: "program \<Rightarrow> stats \<Rightarrow> error \<Rightarrow> report_line list res" where
  "found_undefined_behavior p s ub =
     bind_res (finished_trace_classic_dpor p s) (\<lambda>ls. Inr (Undefined_behavior_line ub # ls))"

definition found_deadlock :: "program \<Rightarrow> report_line list res" where
  "found_deadlock p =
     bind_res (trace_lines p) (\<lambda>ls.
       Inr (Headline ''DEADLOCK'' # ls @ Next_thread_operations # pending_lines p))"

text \<open>The part that two callbacks share: the thread that ended the program is singled out.\<close>

definition culprit_lines :: "program \<Rightarrow> stats \<Rightarrow> runner_id \<Rightarrow> report_line list res" where
  "culprit_lines p s culprit =
     bind_res (trace_lines p) (\<lambda>ls.
       let terminator = get_pending_transition_for p culprit in
       Inr (Trace_line (trace_id s) # ls @
         [case terminator of
            Some t \<Rightarrow> Operation_line (get_executor t) t
          | None \<Rightarrow> No_longer_pending culprit] @
         Next_thread_operations #
         map (\<lambda>(r, t). case terminator of
                Some u \<Rightarrow> if r = get_executor u then Executing_line r else Operation_line r t
              | None \<Rightarrow> Operation_line r t) (next_steps p) @
         [Total_transitions (u32 (total_transitions s + 1))]))"

definition found_abnormal_termination ::
    "program \<Rightarrow> stats \<Rightarrow> int \<Rightarrow> runner_id \<Rightarrow> report_line list res" where
  "found_abnormal_termination p s signo culprit =
     bind_res (sig_to_str signo) (\<lambda>name.
     bind_res (culprit_lines p s culprit) (\<lambda>ls. Inr (Signal_line signo name # ls)))"

definition found_nonzero_exit_code ::
    "program \<Rightarrow> stats \<Rightarrow> int \<Rightarrow> runner_id \<Rightarrow> report_line list res" where
  "found_nonzero_exit_code p s exit_code culprit =
     bind_res (culprit_lines p s culprit) (\<lambda>ls. Inr (Exit_code_line exit_code # ls))"

section \<open>Reading a report\<close>

text \<open>The operations a report lists in front of the next ones, and their threads, the schedule.\<close>

fun listed_operations :: "report_line list \<Rightarrow> (runner_id \<times> transition) list" where
  "listed_operations (Operation_line r t # ls) = (r, t) # listed_operations ls"
| "listed_operations (Next_thread_operations # ls) = []"
| "listed_operations (l # ls) = listed_operations ls"
| "listed_operations [] = []"

definition listed_schedule :: "report_line list \<Rightarrow> runner_id list" where
  "listed_schedule ls = map fst (listed_operations ls)"

text \<open>Driving a process through a schedule.\<close>

definition drive :: "'w environment \<Rightarrow> runner_id list \<Rightarrow> 'w \<Rightarrow> 'w res" where
  "drive env schedule w = fold_res (\<lambda>r w. bind_res (process_execute env r w) (\<lambda>x. Inr (snd x))) schedule w"

text \<open>No slot of the trace is empty.\<close>

definition full_trace :: "program \<Rightarrow> transition list \<Rightarrow> bool" where
  "full_trace p ts \<longleftrightarrow> trace p = map Some ts"

lemma trace_lines_full:
  assumes "full_trace p ts"
  shows "trace_lines p = Inr (map (\<lambda>t. Operation_line (get_executor t) t) ts)"
proof -
  have "fold_res (\<lambda>slot ls. bind_res (deref slot) (\<lambda>t. Inr (ls @ [Operation_line (get_executor t) t])))
      (map Some ts) acc = Inr (acc @ map (\<lambda>t. Operation_line (get_executor t) t) ts)" for acc
    by (induction ts arbitrary: acc) simp_all
  with assms show ?thesis by (simp add: trace_lines_def full_trace_def)
qed

lemma listed_operations_trace:
  "listed_operations (map (\<lambda>t. Operation_line (get_executor t) t) ts @ ls) =
     map (\<lambda>t. (get_executor t, t)) ts @ listed_operations ls"
  by (induction ts) simp_all

text \<open>Replaying a trace succeeds only if every slot is filled, and is driving through its threads.\<close>

lemma replay_slot_Inr: "replay_slot env slot w = Inr w' \<longleftrightarrow>
    (\<exists>t mb. slot = Some t \<and> process_execute env (get_executor t) w = Inr (mb, w'))"
  by (auto simp: replay_slot_def res_simps)

lemma replayed_full:
  "fold_res (replay_slot env) tr w = Inr w' \<Longrightarrow>
   \<exists>ts. tr = map Some ts \<and> drive env (map get_executor ts) w = Inr w'"
proof (induction tr arbitrary: w)
  case Nil
  then show ?case by (simp add: drive_def)
next
  case (Cons slot tr)
  then obtain t mb w1 where 1: "slot = Some t" "process_execute env (get_executor t) w = Inr (mb, w1)"
    "fold_res (replay_slot env) tr w1 = Inr w'" by (auto simp: replay_slot_Inr res_simps)
  from Cons.IH [OF 1(3)] obtain ts where "tr = map Some ts" "drive env (map get_executor ts) w1 = Inr w'"
    by blast
  with 1 show ?case by (intro exI [of _ "t # ts"]) (simp add: drive_def)
qed

lemma in_step_replays:
  assumes "in_step env c"
  obtains ts w0 w1 where "full_trace (current_program_model c) ts" "force_new_process env w0 = Inr w1"
    "drive env (map get_executor ts) w1 = Inr (outside c)"
proof -
  from assms obtain w0 w1 where w: "force_new_process env w0 = Inr w1"
    "fold_res (replay_slot env) (trace (current_program_model c)) w1 = Inr (outside c)"
    by (auto simp: in_step_def)
  from replayed_full [OF w(2)] w(1) that show thesis by (auto simp: full_trace_def)
qed

text \<open>
  So a report of a deadlock in a coordinator that is in step can be printed, and the schedule it lists
  drives a fresh process to where the deadlock was found.
\<close>

lemma deadlock_report_replays:
  assumes "in_step env c"
  shows "\<exists>ls w0 w1. found_deadlock (current_program_model c) = Inr ls \<and> force_new_process env w0 = Inr w1 \<and>
    trace (current_program_model c) = map Some (map snd (listed_operations ls)) \<and>
    map fst (listed_operations ls) = map get_executor (map snd (listed_operations ls)) \<and>
    drive env (listed_schedule ls) w1 = Inr (outside c)"
  using assms
proof (rule in_step_replays)
  fix ts w0 w1
  assume "full_trace (current_program_model c) ts" "force_new_process env w0 = Inr w1"
    "drive env (map get_executor ts) w1 = Inr (outside c)"
  then show ?thesis
    by (intro exI [of _ "Headline ''DEADLOCK'' # map (\<lambda>t. Operation_line (get_executor t) t) ts @
          Next_thread_operations # pending_lines (current_program_model c)"] exI [of _ w0] exI [of _ w1] conjI)
      (simp_all add: found_deadlock_def trace_lines_full listed_schedule_def listed_operations_trace
        full_trace_def comp_def)
qed

text \<open>
  The thread that ended the program is marked in the list of next operations, and only that thread,
  if the model still has an operation pending for it.
\<close>

lemma culprit_is_marked:
  assumes "full_trace p ts" and "keyed p"
  shows "\<exists>ls. culprit_lines p s culprit = Inr ls \<and>
    {r. Executing_line r \<in> set ls} = (if get_pending_transition_for p culprit = None then {} else {culprit}) \<and>
    (No_longer_pending culprit \<in> set ls \<longleftrightarrow> get_pending_transition_for p culprit = None)"
proof (cases "get_pending_transition_for p culprit")
  case None
  with assms(1) show ?thesis by (auto simp: culprit_lines_def trace_lines_full)
next
  case (Some t)
  then have t: "get_executor t = culprit" "(culprit, t) \<in> set (next_steps p)"
    using keyed_lookup [OF assms(2)] by (auto simp: get_pending_transition_for_def
      get_transition_for_runner_def dest: map_of_SomeD)
  with Some assms(1) show ?thesis
    by (force simp: culprit_lines_def trace_lines_full split: if_splits)
qed

text \<open>
  The report of a program killed by a signal without a name does not appear: the lookup of the name
  throws out of the search.
\<close>

lemma unnamed_signal_is_not_reported:
  assumes "31 < signo"
  shows "found_abnormal_termination p s signo culprit = Inl Out_of_range"
proof -
  have "map_of sig_names signo = None"
    using named_signals [of signo] assms by (auto simp: sig_to_str_def map_at_def split: option.splits)
  then show ?thesis by (simp add: found_abnormal_termination_def sig_to_str_def map_at_def)
qed

section \<open>Properties\<close>

text \<open>
  C1. A reported deadlock is one and can be reproduced. If a run of the model checker is not cut off by an
  exception, the deadlocks it has reported are exactly those of the states of the search in which the
  loop of \<^verbatim>\<open>verify_using\<close> is entered and the model is deadlocked, each under the statistics of that
  state: none is made up and none is passed over. The report of each lists the trace of that state, and the
  threads of the operations listed drive a newly created process to where the process of that state is.
\<close>

theorem deadlocks_can_be_replayed:
  assumes "(start, run) \<in> {(main_start env w, do_model_checking fuel env w),
      (do_model_checking_from_dmtcp_ckpt_file env mailboxes messages w,
       deep_debugging fuel env mailboxes messages w)}"
    and "run = Some (Inr st)" and "default_configuration = Inr config"
  shows "\<exists>c0 ctx. start = Inr c0 \<and> initial_dpor_context c0 = Inr ctx \<and>
    (\<forall>s. Deadlock_found s \<in> set (ds_events st) \<longleftrightarrow>
       (\<exists>x. search_reaches config mcmini_callbacks env (search_entry ctx) x \<and> ds_stats x = s \<and>
            is_in_deadlock (ctx_program (ds_context x)) = Inr True)) \<and>
    (\<forall>x. search_reaches config mcmini_callbacks env (search_entry ctx) x \<longrightarrow>
       (\<exists>ls w0 w1. found_deadlock (ctx_program (ds_context x)) = Inr ls \<and>
          trace (ctx_program (ds_context x)) = map Some (map snd (listed_operations ls)) \<and>
          map fst (listed_operations ls) = map get_executor (map snd (listed_operations ls)) \<and>
          force_new_process env w0 = Inr w1 \<and>
          drive env (listed_schedule ls) w1 = Inr (outside (ctx_coordinator (ds_context x)))))"
proof -
  have cb: "mcmini_callbacks = all_callbacks" by (simp add: mcmini_callbacks_def all_callbacks_def)
  have run: "run = (case start of Inl e \<Rightarrow> Some (Inl e) | Inr c \<Rightarrow> check_with_default_dpor fuel env c)"
    using assms(1) by (auto simp: do_model_checking_def deep_debugging_def)
  with assms(2) obtain c0 where c0: "start = Inr c0" by (cases start) auto
  then have "fresh_start env w c0" using assms(1)
    by (elim insertE emptyE) (simp_all add: main_start_fresh checkpoint_start_fresh)
  moreover have "check_with_default_dpor fuel env c0 = Some (Inr st)" using run assms(2) c0 by simp
  ultimately obtain ctx where ctx: "initial_dpor_context c0 = Inr ctx"
    "\<And>s. Deadlock_found s \<in> set (ds_events st) \<longleftrightarrow>
       (\<exists>x. search_reaches config all_callbacks env (search_entry ctx) x \<and> ds_stats x = s \<and> model_deadlocked x)"
    "\<And>x. search_reaches config all_callbacks env (search_entry ctx) x \<Longrightarrow>
       in_step env (ctx_coordinator (ds_context x))"
    using check_reports_deadlocks [of env w c0 config fuel st] assms(3) by blast
  show ?thesis
    unfolding cb using c0 ctx(1,2) deadlock_report_replays [OF ctx(3)] by blast
qed

theorem deadlocks_can_be_replayed_witness:
  "\<exists>st (x :: runner_id list dpor_state) ls. do_model_checking (Suc 1) exiting_process [] = Some (Inr st) \<and>
     Deadlock_found \<lparr>trace_id = 1, total_transitions = 1\<rparr> \<in> set (ds_events st) \<and>
     ds_stats x = \<lparr>trace_id = 1, total_transitions = 1\<rparr> \<and>
     is_in_deadlock (ctx_program (ds_context x)) = Inr True \<and>
     found_deadlock (ctx_program (ds_context x)) = Inr ls \<and>
     drive exiting_process (listed_schedule ls) [] = Inr (outside (ctx_coordinator (ds_context x)))"
proof -
  let ?s = "\<lparr>trace_id = 1, total_transitions = 1\<rparr> :: stats"
  obtain st where st: "do_model_checking (Suc 1) exiting_process [] = Some (Inr st)"
    "Deadlock_found ?s \<in> set (ds_events st)" using exiting_run [of 1] by auto
  obtain config where config: "default_configuration = Inr config" using default_configuration_ok by blast
  have fresh: "force_new_process exiting_process w0 = Inr w1 \<longleftrightarrow> w1 = []" for w0 w1
    by (auto simp: exiting_process_def)
  have "(main_start exiting_process [], do_model_checking (Suc 1) exiting_process []) \<in>
    {(main_start exiting_process [], do_model_checking (Suc 1) exiting_process []),
      (do_model_checking_from_dmtcp_ckpt_file exiting_process [] [] [],
       deep_debugging (Suc 1) exiting_process [] [] [])}" by (rule insertI1)
  from deadlocks_can_be_replayed [OF this st(1) config] st(2) obtain ctx x where
    x: "search_reaches config mcmini_callbacks exiting_process (search_entry ctx) x" "ds_stats x = ?s"
      "is_in_deadlock (ctx_program (ds_context x)) = Inr True"
    and all: "\<forall>x. search_reaches config mcmini_callbacks exiting_process (search_entry ctx) x \<longrightarrow>
       (\<exists>ls w0 w1. found_deadlock (ctx_program (ds_context x)) = Inr ls \<and>
          trace (ctx_program (ds_context x)) = map Some (map snd (listed_operations ls)) \<and>
          map fst (listed_operations ls) = map get_executor (map snd (listed_operations ls)) \<and>
          force_new_process exiting_process w0 = Inr w1 \<and>
          drive exiting_process (listed_schedule ls) w1 = Inr (outside (ctx_coordinator (ds_context x))))"
    by blast
  from all [rule_format, OF x(1)] obtain ls where "found_deadlock (ctx_program (ds_context x)) = Inr ls"
    "drive exiting_process (listed_schedule ls) [] = Inr (outside (ctx_coordinator (ds_context x)))"
    unfolding fresh by blast
  with st x show ?thesis by blast
qed

end
