(* ===== verification/Restore_Properties.thy ===== *)
theory Restore_Properties
  imports Restore Program_Laws
begin

text \<open>
  What the model knows after a checkpoint was transferred: every recorded object at its address, in its
  recorded state, a condition variable with its own waiters; every recorded thread as the runner with
  its recorded id, about to take the step it stopped at.
\<close>

section \<open>The model while it is built\<close>

text \<open>
  The objects observed so far with their addresses, in order; those from position \<open>n\<close> on are runners.
\<close>

definition built :: "(address \<times> vos) list \<Rightarrow> nat \<Rightarrow> 'w coordinator \<Rightarrow> bool" where
  "built os n c \<longleftrightarrow>
     (let ss = state_seq (current_program_model c)
      in seq_wf ss \<and> seq_full ss \<and> objs ss = map (\<lambda>x. [snd x]) os \<and> distinct (map fst os) \<and>
         system_address_mapping c = zip (map fst os) [0..<length os] \<and> n \<le> length os \<and>
         forward (runner_to_obj_map ss) = map (\<lambda>r. (r, n + r)) [0..<length os - n] \<and>
         backward (runner_to_obj_map ss) = map (\<lambda>r. (n + r, r)) [0..<length os - n] \<and>
         length (states_in_sequence ss) = 1 \<and> trace (current_program_model c) = [])"

lemma built_empty:
  "built [] 0 c \<longleftrightarrow> system_address_mapping c = [] \<and> trace (current_program_model c) = [] \<and>
     (let ss = state_seq (current_program_model c)
      in seq_wf ss \<and> seq_full ss \<and> objs ss = [] \<and> forward (runner_to_obj_map ss) = [] \<and>
         backward (runner_to_obj_map ss) = [] \<and> length (states_in_sequence ss) = 1)"
  by (auto simp: built_def Let_def)

lemma new_program_empty:
  "new_program (detached_view new_detached) [] =
     Inr \<lparr>state_seq = new_seq, trace = [], next_steps = []\<rparr>"
  by (simp add: new_program_def seq_of_state_def detached_view_def new_detached_def u16_def u32_def
      inj_size_def inj_empty_def)

lemma seq_full_new: "seq_full new_seq"
  by (simp add: seq_full_def elem_full_def representative_state_def new_seq_def
      push_state_snapshot_def new_element_def inj_empty_def inj_size_def u16_def)

lemma built_new:
  "current_program_model c = \<lparr>state_seq = new_seq, trace = [], next_steps = []\<rparr> \<Longrightarrow>
     system_address_mapping c = [] \<Longrightarrow> built [] 0 c"
  by (simp add: built_empty Let_def seq_full_new)
    (simp add: new_seq_def push_state_snapshot_def inj_empty_def Let_def)

lemma map_of_positions_None:
  "a \<notin> fst ` set os \<Longrightarrow> map_of (zip (map fst os) [0..<length os]) a = None"
  using map_of_zip_is_None [of "map fst os" "[0..<length os]" a] by simp

lemma built_model_of_object:
  assumes "built os n c"
  shows "i < length os \<Longrightarrow> get_model_of_object c (fst (os ! i)) = i"
    and "a \<notin> fst ` set os \<Longrightarrow> get_model_of_object c a = invalid_objid"
proof -
  have m: "system_address_mapping c = zip (map fst os) [0..<length os]" "distinct (map fst os)"
    using assms by (simp_all add: built_def Let_def)
  show "get_model_of_object c (fst (os ! i)) = i" if "i < length os"
    using map_of_zip_nth [of "map fst os" "[0..<length os]" i] m that
    by (simp add: get_model_of_object_def)
  show "get_model_of_object c a = invalid_objid" if "a \<notin> fst ` set os"
    using that by (simp add: get_model_of_object_def m map_of_positions_None)
qed

lemma built_limit: "built os n c \<Longrightarrow> length os \<le> invalid_objid"
  by (auto simp: built_def seq_wf_def Let_def)

lemma built_contains:
  assumes "built os n c"
  shows "a \<notin> fst ` set os \<Longrightarrow> \<not> contains_addr c a"
    and "i < length os \<Longrightarrow> contains_addr c (fst (os ! i))"
  using built_model_of_object [OF assms] built_limit [OF assms]
  by (auto simp: contains_addr_def)

lemma built_object:
  assumes "built os n c" and "i < length os"
  shows "sv_object (seq_view (state_seq (current_program_model c))) i = Inr (snd (os ! i))"
  using full_get_object [of "state_seq (current_program_model c)" i] assms
  by (simp add: built_def Let_def)

lemma observe_object_built:
  assumes "built os (length os) c" and "a \<notin> fst ` set os" and "length os < invalid_objid"
  shows "\<exists>d. observe_object a v c = Inr (length os, d) \<and> built (os @ [(a, v)]) (Suc (length os)) d \<and>
    next_steps (current_program_model d) = next_steps (current_program_model c)"
proof -
  let ?ss = "state_seq (current_program_model c)"
  have b: "seq_wf ?ss" "seq_full ?ss" "objs ?ss = map (\<lambda>x. [snd x]) os"
    "system_address_mapping c = zip (map fst os) [0..<length os]" "distinct (map fst os)"
    "forward (runner_to_obj_map ?ss) = []" "backward (runner_to_obj_map ?ss) = []"
    "length (states_in_sequence ?ss) = 1" "trace (current_program_model c) = []"
    using assms(1) by (simp_all add: built_def Let_def)
  obtain es e where e: "states_in_sequence ?ss = es @ [e]" using b(1) by (rule seq_wf_last)
  have room: "length (objs ?ss) < invalid_objid" using b(3) assms(3) by simp
  have "map_of (system_address_mapping c) a = None"
    using assms(2) by (simp add: b(4) map_of_positions_None)
  then show ?thesis
    using seq_add_object_shape [OF e room, of v] built_contains(1) [OF assms(1,2)] b(3-9) e assms(2)
      seq_add_object_wf [OF b(1) room, of v] seq_add_object_full [OF b(1,2) room, of v]
    by (simp add: observe_object_def map_address_def built_def Let_def)
qed

lemma seq_add_runner_full:
  assumes "seq_wf ss" and "seq_full ss" and "length (objs ss) < invalid_objid"
    and "inj_size (runner_to_obj_map ss) < invalid_rid" and "seq_add_runner v ss = Inr (r, ss')"
  shows "seq_full ss'"
proof -
  obtain es e where e: "states_in_sequence ss = es @ [e]" "representative_state ss = e"
    using assms(1) by (rule seq_wf_last)
  show ?thesis
    using assms(2,4,5) unfolding seq_full_def seq_add_runner_shape [OF assms(1) e(1) assms(3,4)]
    by (auto simp: representative_state_def elem_full_def e idx_point length_point nth_append
        less_Suc_eq inj_size_def invalid_rid_def u16_def)
qed

lemma map_of_ids: "r < k \<Longrightarrow> map_of (map (\<lambda>r. (r, n + r)) [0..<k]) r = Some (n + r)"
  by (simp add: map_of_eq_Some_iff distinct_map comp_def inj_on_def)

lemma observe_bare_runner_built:
  assumes "built os n c" and "a \<notin> fst ` set os" and "length os < invalid_objid"
    and "length os - n < invalid_rid"
  shows "\<exists>d. observe_bare_runner a v c = Inr (length os - n, d) \<and> built (os @ [(a, v)]) n d \<and>
    next_steps (current_program_model d) = next_steps (current_program_model c)"
proof -
  let ?ss = "state_seq (current_program_model c)"
  have b: "seq_wf ?ss" "seq_full ?ss" "objs ?ss = map (\<lambda>x. [snd x]) os"
    "system_address_mapping c = zip (map fst os) [0..<length os]" "distinct (map fst os)" "n \<le> length os"
    "forward (runner_to_obj_map ?ss) = map (\<lambda>r. (r, n + r)) [0..<length os - n]"
    "backward (runner_to_obj_map ?ss) = map (\<lambda>r. (n + r, r)) [0..<length os - n]"
    "length (states_in_sequence ?ss) = 1" "trace (current_program_model c) = []"
    using assms(1) by (simp_all add: built_def Let_def)
  obtain es e where e: "states_in_sequence ?ss = es @ [e]" using b(1) by (rule seq_wf_last)
  have size: "inj_size (runner_to_obj_map ?ss) = length os - n" by (simp add: inj_size_def b(7))
  have room: "length (objs ?ss) < invalid_objid" "inj_size (runner_to_obj_map ?ss) < invalid_rid"
    using b(3) assms(3,4) size by simp_all
  note shape = seq_add_runner_shape [OF b(1) e room, of v]
  then obtain ss where ss: "seq_add_runner v ?ss = Inr (length os - n, ss)" using size by auto
  note wf = seq_add_runner_wf(1) [OF b(1) room ss] and full = seq_add_runner_full [OF b(1,2) room ss]
  from shape ss have s: "objs ss = map (\<lambda>x. [snd x]) (os @ [(a, v)])"
    "forward (runner_to_obj_map ss) = map (\<lambda>r. (r, n + r)) [0..<Suc (length os) - n]"
    "backward (runner_to_obj_map ss) = map (\<lambda>r. (n + r, r)) [0..<Suc (length os) - n]"
    "length (states_in_sequence ss) = 1"
    using b(3,6-9) e size by (auto simp: Suc_diff_le)
  have "count_domain (runner_to_obj_map ss) (length os - n)"
    "inj_at (runner_to_obj_map ss) (length os - n) = Inr (length os)"
    using b(6) map_of_ids [where n = n and k = "Suc (length os) - n" and r = "length os - n"]
    by (simp_all add: count_domain_def inj_at_def s(2) map_at_def)
  then have "sv_objid_for_runner (seq_view ss) (length os - n) = length os"
    using b(6) by (simp add: full_objid_for_runner [OF full] guarded_def inj_size_def s(2) Suc_diff_le)
  moreover have "map_of (system_address_mapping c) a = None"
    using assms(2) by (simp add: b(4) map_of_positions_None)
  ultimately show ?thesis
    using ss wf full s b assms(2)
    by (simp add: observe_bare_runner_def map_address_def built_def Let_def)
qed

section \<open>Receiving what was sent\<close>

definition is_thread :: "recorded_object \<Rightarrow> bool" where
  "is_thread vo \<longleftrightarrow> (\<exists>d rid st. rec_state vo = Thrd_state d rid st)"

text \<open>The state of the model's object for a record: a condition variable has the waiters recorded with it.\<close>

definition restored_state :: "recorded_object \<Rightarrow> vos option" where
  "restored_state vo =
     (case rec_state vo of
        Mut_state s ow \<Rightarrow> Some (Mutex_obj (new_mutex (mutex_state_of_status s) (rec_location vo) ow))
      | Sem_state n s \<Rightarrow> Some (Sem_obj (new_semaphore (semaphore_state_of_status s) n))
      | Cond_state c \<Rightarrow>
          map_option (\<lambda>ws. Cv_obj (new_condition_variable (cv_state_of_status (cond_status c))
              (interacting_thread c) (cond_mutex c) (cond_count c) ws None))
            (condition_variable_state.waiting_threads c)
      | Thrd_state d rid st \<Rightarrow> Some (Thread_obj (thread_of_status st))
      | _ \<Rightarrow> None)"

definition placed :: "rec_list \<Rightarrow> (address \<times> vos) list" where
  "placed recs = map (\<lambda>vo. (rec_location vo, the (restored_state vo))) (filter (\<lambda>vo. \<not> is_thread vo) recs)"

definition push_waiters :: "address \<Rightarrow> waiters \<Rightarrow> waiter_table \<Rightarrow> waiter_table" where
  "push_waiters cv ws tab = fold (\<lambda>(tid, st). push_waiter cv tid st) ws tab"

lemma receive_waiters:
  "receive_objects (waiter_messages cv ws @ ms) s =
     receive_objects ms (s\<lparr>cv_waiting_threads := push_waiters cv ws (cv_waiting_threads s)\<rparr>)"
  by (induction ws arbitrary: s) (auto simp: waiter_messages_def push_waiters_def)

lemma map_of_push_waiters:
  "map_of (push_waiters cv ws tab) =
     (if ws = [] then map_of tab
      else (map_of tab)(cv \<mapsto> (case map_of tab cv of Some us \<Rightarrow> us | None \<Rightarrow> []) @ ws))"
  by (induction ws arbitrary: tab)
    (auto simp: push_waiters_def push_waiter_def update_conv' fun_eq_iff split: option.splits)

lemma transfer_parts:
  assumes "transfer recs = Inr msgs"
  shows "\<exists>mss. list_all2 (\<lambda>vo ms. messages_of vo = Inr ms) recs mss \<and>
    msgs = concat mss @ [empty_visible_obj]"
proof -
  have "fold_res (\<lambda>vo sent. bind_res (messages_of vo) (\<lambda>ms. Inr (sent @ ms))) recs sent = Inr all \<Longrightarrow>
      \<exists>mss. list_all2 (\<lambda>vo ms. messages_of vo = Inr ms) recs mss \<and> all = sent @ concat mss" for sent all
  proof (induction recs arbitrary: sent)
    case (Cons vo recs)
    then obtain ms where ms: "messages_of vo = Inr ms"
      "fold_res (\<lambda>vo sent. bind_res (messages_of vo) (\<lambda>ms. Inr (sent @ ms))) recs (sent @ ms) = Inr all"
      by (auto simp: res_simps)
    from Cons.IH [OF this(2)] obtain mss where
      "list_all2 (\<lambda>vo ms. messages_of vo = Inr ms) recs mss" "all = (sent @ ms) @ concat mss" by blast
    with ms(1) show ?case by (intro exI [of _ "ms # mss"]) simp
  qed simp
  with assms show ?thesis by (auto simp: transfer_def res_simps)
qed

text \<open>The reader after some records: the objects in the model, the waiters seen, nothing pending.\<close>

definition reading :: "(address \<times> vos) list \<Rightarrow> 'w reader \<Rightarrow> bool" where
  "reading os s \<longleftrightarrow>
     built os (length os) (recorder s) \<and> dom (map_of (cv_waiting_threads s)) \<subseteq> fst ` set os \<and>
     next_steps (current_program_model (recorder s)) = []"

lemma reading_observe:
  assumes "reading os s" and "a \<notin> fst ` set os" and "length os < invalid_objid"
    and "dom (map_of tab) \<subseteq> insert a (fst ` set os)"
  shows "\<exists>d. observe_object a v (recorder s) = Inr (length os, d) \<and>
    reading (os @ [(a, v)]) (s\<lparr>cv_waiting_threads := tab, recorder := d\<rparr>)"
  using observe_object_built [of os "recorder s" a v] assms by (auto simp: reading_def)

lemma receive_one:
  assumes "messages_of vo = Inr ms" and "reading os s" and "length os < invalid_objid"
    and "\<not> is_thread vo \<Longrightarrow> rec_location vo \<notin> fst ` set os"
  shows "\<exists>s'. receive_objects (ms @ rest) s = receive_objects rest s' \<and> reading (os @ placed [vo]) s' \<and>
    recorded_threads s' = recorded_threads s @ (if is_thread vo then [vo] else [])"
proof -
  let ?a = "rec_location vo" and ?tab = "cv_waiting_threads s"
  have dom: "dom (map_of ?tab) \<subseteq> fst ` set os" using assms(2) by (simp add: reading_def)
  show ?thesis
  proof (cases "rec_state vo")
    case (Mut_state st ow)
    with assms reading_observe [OF assms(2) _ assms(3), of ?a ?tab] dom show ?thesis
      by (fastforce simp: messages_of_def is_thread_def placed_def restored_state_def
          translate_recorded_object_to_model_def)
  next
    case (Sem_state n st)
    with assms reading_observe [OF assms(2) _ assms(3), of ?a ?tab] dom show ?thesis
      by (fastforce simp: messages_of_def is_thread_def placed_def restored_state_def
          translate_recorded_object_to_model_def)
  next
    case (Cond_state c)
    with assms(1) obtain ws where ws: "condition_variable_state.waiting_threads c = Some ws"
      "ms = waiter_messages ?a ws @ [vo]"
      by (auto simp: messages_of_def waiters_of_def res_simps split: option.splits)
    let ?tab' = "push_waiters ?a ws ?tab"
    from Cond_state assms(4) have a: "?a \<notin> fst ` set os" by (simp add: is_thread_def)
    then have "map_of ?tab ?a = None" using dom by auto
    then have "(case map_of ?tab' ?a of Some us \<Rightarrow> us | None \<Rightarrow> []) = ws"
      by (simp add: map_of_push_waiters)
    moreover have "dom (map_of ?tab') \<subseteq> insert ?a (fst ` set os)"
      using dom by (auto simp: map_of_push_waiters)
    moreover from this reading_observe [OF assms(2) a assms(3)] obtain d where
      "observe_object ?a (the (restored_state vo)) (recorder s) = Inr (length os, d)"
      "reading (os @ [(?a, the (restored_state vo))]) (s\<lparr>cv_waiting_threads := ?tab', recorder := d\<rparr>)"
      by blast
    ultimately show ?thesis
      using Cond_state ws
      by (intro exI [of _ "s\<lparr>cv_waiting_threads := ?tab', recorder := d\<rparr>"])
        (simp add: receive_waiters is_thread_def placed_def restored_state_def
          translate_recorded_object_to_model_def)
  next
    case (Thrd_state d rid st)
    with assms(1) have "ms = [vo]" by (simp add: messages_of_def)
    with Thrd_state assms(2) show ?thesis
      by (intro exI [of _ "s\<lparr>recorded_threads := recorded_threads s @ [vo]\<rparr>"])
        (simp add: is_thread_def placed_def reading_def)
  qed (use assms(1) in \<open>simp_all add: messages_of_def\<close>)
qed

lemma receive_all:
  assumes "list_all2 (\<lambda>vo ms. messages_of vo = Inr ms) recs mss" and "reading os s"
    and "distinct (map fst os @ map rec_location (filter (\<lambda>vo. \<not> is_thread vo) recs))"
    and "length os + length recs \<le> invalid_objid"
  shows "\<exists>s'. receive_objects (concat mss @ rest) s = receive_objects rest s' \<and>
    reading (os @ placed recs) s' \<and> recorded_threads s' = recorded_threads s @ filter is_thread recs"
  using assms
proof (induction recs mss arbitrary: os s rule: list_all2_induct)
  case Nil
  then show ?case by (auto simp: placed_def)
next
  case (Cons vo recs ms mss)
  have "\<not> is_thread vo \<Longrightarrow> rec_location vo \<notin> fst ` set os" using Cons.prems(2) by auto
  from receive_one [OF Cons.hyps(1) Cons.prems(1) _ this] Cons.prems(3) obtain s1 where
    s1: "receive_objects (ms @ concat mss @ rest) s = receive_objects (concat mss @ rest) s1"
    "reading (os @ placed [vo]) s1"
    "recorded_threads s1 = recorded_threads s @ (if is_thread vo then [vo] else [])" by force
  have "distinct (map fst (os @ placed [vo]) @ map rec_location (filter (\<lambda>vo. \<not> is_thread vo) recs))"
    "length (os @ placed [vo]) + length recs \<le> invalid_objid"
    using Cons.prems(2,3) by (auto simp: placed_def)
  from Cons.IH [OF s1(2) this] obtain s2 where
    "receive_objects (concat mss @ rest) s1 = receive_objects rest s2"
    "reading ((os @ placed [vo]) @ placed recs) s2"
    "recorded_threads s2 = recorded_threads s1 @ filter is_thread recs" by blast
  then show ?case
    using s1 by (intro exI [of _ s2]) (auto simp: placed_def)
qed

section \<open>The runners\<close>

lemma built_runner:
  assumes "built os n c" and "n \<le> i" and "i < length os"
  shows "sv_objid_for_runner (seq_view (state_seq (current_program_model c))) (i - n) = i"
    and "get_model_of_runner c (fst (os ! i)) = i - n"
    and "sv_runner (seq_view (state_seq (current_program_model c))) (i - n) = Inr (snd (os ! i))"
proof -
  let ?ss = "state_seq (current_program_model c)" and ?k = "length os - n"
  have b: "seq_full ?ss" "length (objs ?ss) = length os"
    "forward (runner_to_obj_map ?ss) = map (\<lambda>r. (r, n + r)) [0..<?k]"
    "backward (runner_to_obj_map ?ss) = map (\<lambda>r. (n + r, r)) [0..<?k]"
    using assms(1) by (simp_all add: built_def Let_def)
  have k: "i - n < ?k" "n + (i - n) = i" using assms(2,3) by simp_all
  have fwd: "map_of (map (\<lambda>r. (r, n + r)) [0..<?k]) (i - n) = Some i"
    using map_of_ids [OF k(1), of n] k(2) by simp
  have bwd: "map_of (map (\<lambda>r. (n + r, r)) [0..<?k]) i = Some (i - n)"
    using k by (auto simp: map_of_eq_Some_iff distinct_map comp_def inj_on_def image_iff)
  show o: "sv_objid_for_runner (seq_view ?ss) (i - n) = i"
    using k(1) fwd by (simp add: full_objid_for_runner [OF b(1)] guarded_def inj_size_def b(3)
        count_domain_def inj_at_def)
  show "sv_runner (seq_view ?ss) (i - n) = Inr (snd (os ! i))"
    using o built_object [OF assms(1,3)] by (simp add: seq_view_def element_view_def)
  have "sv_runner_for_obj (seq_view ?ss) i = i - n"
    using bwd k(1) b(1,2) assms(3) by (simp add: element_contains_object_def seq_view_def element_view_def element_is_runner_def guarded_def
        seq_full_def elem_full_def inj_range_at_def count_range_def b(4) inj_size_def b(3))
  then show "get_model_of_runner c (fst (os ! i)) = i - n"
    using built_model_of_object(1) [OF assms(1,3)] built_limit [OF assms(1)] assms(3)
    by (simp add: get_model_of_runner_def Let_def)
qed

definition placed_threads :: "rec_list \<Rightarrow> (address \<times> vos) list" where
  "placed_threads ts = map (\<lambda>vo. (thrd_desc vo, Thread_obj (thread_of_status (thrd_status vo)))) ts"

lemma observe_threads:
  assumes "built os n c" and "\<forall>vo \<in> set ts. is_thread vo"
    and "distinct (map fst os @ map thrd_desc ts)"
    and "length os + length ts \<le> invalid_objid" and "length os - n + length ts \<le> invalid_rid"
  shows "\<exists>d. fold_res observe_recorded_thread ts c = Inr d \<and> built (os @ placed_threads ts) n d \<and>
    next_steps (current_program_model d) = next_steps (current_program_model c)"
  using assms
proof (induction ts arbitrary: os c)
  case (Cons vo ts)
  let ?v = "Thread_obj (thread_of_status (thrd_status vo))"
  have "thrd_desc vo \<notin> fst ` set os" "length os < invalid_objid" "length os - n < invalid_rid"
    using Cons.prems(3-5) by auto
  from observe_bare_runner_built [OF Cons.prems(1) this, of ?v] obtain d where
    d: "observe_bare_runner (thrd_desc vo) ?v c = Inr (length os - n, d)"
    "built (os @ [(thrd_desc vo, ?v)]) n d"
    "next_steps (current_program_model d) = next_steps (current_program_model c)" by blast
  have "translate_recorded_runner_to_model vo = Inr ?v"
    using Cons.prems(2) by (auto simp: is_thread_def translate_recorded_runner_to_model_def thrd_status_def)
  then have one: "observe_recorded_thread vo c = Inr d" by (simp add: observe_recorded_thread_def d)
  have "n \<le> length os" using Cons.prems(1) by (simp add: built_def Let_def)
  then have "\<exists>d'. fold_res observe_recorded_thread ts d = Inr d' \<and>
      built ((os @ [(thrd_desc vo, ?v)]) @ placed_threads ts) n d' \<and>
      next_steps (current_program_model d') = next_steps (current_program_model d)"
    using Cons.prems(2-5) by (intro Cons.IH d(2)) auto
  then show ?case using one d(3) by (auto simp: placed_threads_def)
qed (simp add: placed_threads_def)

section \<open>The restored model\<close>

text \<open>
  A recording from which a model can be built: no two records share an address, the threads have the
  ids 0, 1, and so on, and there is room for all.
\<close>

definition address_of :: "recorded_object \<Rightarrow> address" where
  "address_of vo = (if is_thread vo then thrd_desc vo else rec_location vo)"

definition threads_by_id :: "rec_list \<Rightarrow> rec_list" where
  "threads_by_id recs = sort_key thrd_id (filter is_thread recs)"

definition consistent :: "rec_list \<Rightarrow> bool" where
  "consistent recs \<longleftrightarrow>
     distinct (map address_of recs) \<and>
     map thrd_id (threads_by_id recs) = [0..<length (threads_by_id recs)] \<and>
     length recs \<le> invalid_objid \<and> length (threads_by_id recs) \<le> invalid_rid"

definition everything :: "rec_list \<Rightarrow> (address \<times> vos) list" where
  "everything recs = placed recs @ placed_threads (threads_by_id recs)"

lemma distinct_locations:
  assumes "distinct (map address_of recs)"
  shows "distinct (map rec_location (filter (\<lambda>vo. \<not> is_thread vo) recs))"
proof -
  have "map address_of (filter (\<lambda>vo. \<not> is_thread vo) recs) =
      map rec_location (filter (\<lambda>vo. \<not> is_thread vo) recs)" by (simp add: address_of_def)
  with distinct_map_filter [OF assms, of "\<lambda>vo. \<not> is_thread vo"] show ?thesis by simp
qed

lemma distinct_addresses:
  assumes "distinct (map address_of recs)"
  shows "distinct (map fst (placed recs) @ map thrd_desc (threads_by_id recs))"
proof -
  have inj: "inj_on address_of (set recs)" using assms by (simp add: distinct_map)
  have "map address_of (filter is_thread recs) = map thrd_desc (filter is_thread recs)"
    by (simp add: address_of_def)
  with distinct_map_filter [OF assms, of is_thread]
  have "distinct (map thrd_desc (threads_by_id recs))"
    by (simp add: threads_by_id_def distinct_map)
  moreover have "rec_location vo \<noteq> thrd_desc vt"
    if "vo \<in> set recs" "\<not> is_thread vo" "vt \<in> set recs" "is_thread vt" for vo vt
    using inj_onD [OF inj, of vo vt] that by (auto simp: address_of_def)
  then have "set (map fst (placed recs)) \<inter> set (map thrd_desc (threads_by_id recs)) = {}"
    by (fastforce simp: placed_def threads_by_id_def)
  moreover have "distinct (map fst (placed recs))"
    using distinct_locations [OF assms] by (simp add: placed_def comp_def)
  ultimately show ?thesis by (simp only: distinct_append)
qed

lemma restore_objects_built:
  assumes "transfer recs = Inr msgs" and "consistent recs" and "built [] 0 c"
    and "next_steps (current_program_model c) = []"
  shows "\<exists>d. restore_objects msgs c = Inr (d, threads_by_id recs) \<and>
    built (everything recs) (length (placed recs)) d \<and> next_steps (current_program_model d) = []"
proof -
  from transfer_parts [OF assms(1)] obtain mss where
    mss: "list_all2 (\<lambda>vo ms. messages_of vo = Inr ms) recs mss" "msgs = concat mss @ [empty_visible_obj]"
    by blast
  let ?s = "\<lparr>recorder = c, recorded_threads = [], cv_waiting_threads = []\<rparr>"
  have "reading [] ?s" using assms(3,4) by (simp add: reading_def)
  from receive_all [OF mss(1) this, of "[empty_visible_obj]"] distinct_locations [of recs] assms(2)
  obtain s where s: "receive_objects msgs ?s = Inr s" "reading (placed recs) s"
    "recorded_threads s = filter is_thread recs"
    by (auto simp: consistent_def mss(2) empty_visible_obj_def)
  have len: "length (placed recs) + length (threads_by_id recs) = length recs"
    using sum_length_filter_compl [of is_thread recs] by (simp add: placed_def threads_by_id_def)
  have "\<exists>d. fold_res observe_recorded_thread (threads_by_id recs) (recorder s) = Inr d \<and>
      built (placed recs @ placed_threads (threads_by_id recs)) (length (placed recs)) d \<and>
      next_steps (current_program_model d) = next_steps (current_program_model (recorder s))"
    using s(2) assms(2) distinct_addresses [of recs] len
    by (intro observe_threads) (auto simp: reading_def consistent_def threads_by_id_def)
  then show ?thesis
    using s by (auto simp: restore_objects_def everything_def threads_by_id_def reading_def)
qed

lemma everything_nth:
  assumes "vo \<in> set recs"
  shows "\<not> is_thread vo \<Longrightarrow> \<exists>i < length (placed recs).
      everything recs ! i = (rec_location vo, the (restored_state vo))"
    and "map thrd_id (threads_by_id recs) = [0..<length (threads_by_id recs)] \<Longrightarrow> is_thread vo \<Longrightarrow>
      length (placed recs) + thrd_id vo < length (everything recs) \<and>
      everything recs ! (length (placed recs) + thrd_id vo) =
        (thrd_desc vo, Thread_obj (thread_of_status (thrd_status vo)))"
proof -
  show "\<exists>i < length (placed recs). everything recs ! i = (rec_location vo, the (restored_state vo))"
    if "\<not> is_thread vo"
  proof -
    from that assms have "(rec_location vo, the (restored_state vo)) \<in> set (placed recs)"
      by (auto simp: placed_def)
    then show ?thesis by (auto simp: in_set_conv_nth everything_def nth_append)
  qed
  assume ids: "map thrd_id (threads_by_id recs) = [0..<length (threads_by_id recs)]" and "is_thread vo"
  with assms have "vo \<in> set (threads_by_id recs)" by (simp add: threads_by_id_def)
  then obtain j where j: "j < length (threads_by_id recs)" "threads_by_id recs ! j = vo"
    by (auto simp: in_set_conv_nth)
  from arg_cong [OF ids, of "\<lambda>xs. xs ! j"] j have "thrd_id vo = j" by simp
  with j show "length (placed recs) + thrd_id vo < length (everything recs) \<and>
      everything recs ! (length (placed recs) + thrd_id vo) =
        (thrd_desc vo, Thread_obj (thread_of_status (thrd_status vo)))"
    by (simp add: everything_def placed_threads_def nth_append)
qed

text \<open>The model knows the recorded objects and threads.\<close>

definition knows :: "rec_list \<Rightarrow> 'w coordinator \<Rightarrow> bool" where
  "knows recs d \<longleftrightarrow>
     (\<forall>vo \<in> set recs.
        contains_addr d (address_of vo) \<and>
        sv_object (seq_view (state_seq (current_program_model d))) (get_model_of_object d (address_of vo))
          = Inr (the (restored_state vo)) \<and>
        (is_thread vo \<longrightarrow>
           get_model_of_runner d (thrd_desc vo) = thrd_id vo \<and>
           sv_runner (seq_view (state_seq (current_program_model d))) (thrd_id vo)
             = Inr (Thread_obj (thread_of_status (thrd_status vo)))))"

lemma built_knows:
  assumes "built (everything recs) (length (placed recs)) d" and "consistent recs"
  shows "knows recs d"
  unfolding knows_def
proof
  fix vo assume vo: "vo \<in> set recs"
  have "\<exists>i < length (everything recs). everything recs ! i = (address_of vo, the (restored_state vo))"
  proof (cases "is_thread vo")
    case True
    then have "restored_state vo = Some (Thread_obj (thread_of_status (thrd_status vo)))"
      by (auto simp: is_thread_def restored_state_def thrd_status_def)
    with True everything_nth(2) [OF vo] assms(2) show ?thesis
      by (auto simp: consistent_def address_of_def)
  next
    case False
    with everything_nth(1) [OF vo] show ?thesis
      by (auto simp: address_of_def everything_def intro: trans_less_add1)
  qed
  then obtain i where i: "i < length (everything recs)"
    "everything recs ! i = (address_of vo, the (restored_state vo))" by blast
  from built_model_of_object(1) [OF assms(1) i(1)] built_contains(2) [OF assms(1) i(1)]
    built_object [OF assms(1) i(1)] i(2)
  have "contains_addr d (address_of vo) \<and>
      sv_object (seq_view (state_seq (current_program_model d))) (get_model_of_object d (address_of vo))
        = Inr (the (restored_state vo))" by simp
  moreover have "get_model_of_runner d (thrd_desc vo) = thrd_id vo \<and>
      sv_runner (seq_view (state_seq (current_program_model d))) (thrd_id vo)
        = Inr (Thread_obj (thread_of_status (thrd_status vo)))" if "is_thread vo"
    using built_runner [OF assms(1) le_add1, of "thrd_id vo"] everything_nth(2) [OF vo _ that] assms(2)
    by (simp add: consistent_def)
  ultimately show "contains_addr d (address_of vo) \<and>
      sv_object (seq_view (state_seq (current_program_model d))) (get_model_of_object d (address_of vo))
        = Inr (the (restored_state vo)) \<and>
      (is_thread vo \<longrightarrow>
        get_model_of_runner d (thrd_desc vo) = thrd_id vo \<and>
        sv_runner (seq_view (state_seq (current_program_model d))) (thrd_id vo)
          = Inr (Thread_obj (thread_of_status (thrd_status vo))))" by blast
qed

text \<open>
  C15. A checkpoint is transferred without loss: what the template thread sends about a consistent
  recording, the model checker restores. Every recorded object is found at its address in its recorded
  state, every condition variable with the waiters of its own queue; every recorded thread is the
  runner with its recorded id, whatever the order in which the records were made.
\<close>

theorem checkpoint_is_restored:
  assumes "transfer recs = Inr msgs" and "consistent recs"
    and "current_program_model c = \<lparr>state_seq = new_seq, trace = [], next_steps = []\<rparr>"
    and "system_address_mapping c = []"
  shows "\<exists>d. restore_objects msgs c = Inr (d, threads_by_id recs) \<and> knows recs d"
  using restore_objects_built [OF assms(1,2) built_new [OF assms(3,4)]] built_knows [OF _ assms(2)] assms(3)
  by auto

text \<open>Two threads, the second about to wait on a condition variable, the first holding the mutex.\<close>

definition recorded_cv :: condition_variable_state where
  "recorded_cv = new_cond_state CV_INITIALIZED 1 8 (Some [(1, CV_PREWAITING)])"

definition two_threads :: rec_list where
  "two_threads =
     [\<lparr>rec_location = 0, rec_state = Thrd_state 100 0 ALIVE\<rparr>,
      \<lparr>rec_location = 0, rec_state = Thrd_state 200 1 ALIVE\<rparr>,
      \<lparr>rec_location = 16, rec_state = Cond_state recorded_cv\<rparr>,
      \<lparr>rec_location = 8, rec_state = Mut_state LOCKED 0\<rparr>]"

definition two_threads_messages :: rec_list where
  "two_threads_messages =
     [\<lparr>rec_location = 0, rec_state = Thrd_state 100 0 ALIVE\<rparr>,
      \<lparr>rec_location = 0, rec_state = Thrd_state 200 1 ALIVE\<rparr>,
      \<lparr>rec_location = 0, rec_state = Waiting_queue_state 16 1 CV_PREWAITING\<rparr>,
      \<lparr>rec_location = 16, rec_state = Cond_state recorded_cv\<rparr>,
      \<lparr>rec_location = 8, rec_state = Mut_state LOCKED 0\<rparr>, empty_visible_obj]"

lemma two_threads_sent: "transfer two_threads = Inr two_threads_messages"
  by (simp add: transfer_def two_threads_def two_threads_messages_def messages_of_def
      waiter_messages_def waiters_of_def recorded_cv_def new_cond_state_def NULL_def)

lemma two_threads_consistent: "consistent two_threads"
  by (simp add: consistent_def two_threads_def threads_by_id_def is_thread_def address_of_def
      thrd_desc_def thrd_id_def invalid_objid_def invalid_rid_def)

theorem checkpoint_is_restored_witness:
  "\<exists>d. restore_objects two_threads_messages
       \<lparr>current_program_model = \<lparr>state_seq = new_seq, trace = [], next_steps = []\<rparr>,
        runtime_transition_mapping = default_registry, process_alive = True, outside = (),
        system_address_mapping = []\<rparr> = Inr (d, threads_by_id two_threads) \<and>
     sv_object (seq_view (state_seq (current_program_model d))) (get_model_of_object d 8)
       = Inr (Mutex_obj (new_mutex Mutex_locked 8 0)) \<and>
     get_model_of_runner d 200 = 1"
  using checkpoint_is_restored [OF two_threads_sent two_threads_consistent,
      of "\<lparr>current_program_model = \<lparr>state_seq = new_seq, trace = [], next_steps = []\<rparr>,
        runtime_transition_mapping = default_registry, process_alive = True, outside = (),
        system_address_mapping = []\<rparr>"]
  by (auto simp: knows_def two_threads_def address_of_def is_thread_def restored_state_def
      thrd_desc_def thrd_id_def)

section \<open>The pending transitions\<close>

text \<open>
  Where a thread of the restarted target is: it called an operation, and its wrapper has handed over
  the mailbox in which it announces it.
\<close>

definition stopped_at :: "runner_mailbox list \<Rightarrow> pthread_map_entry list \<Rightarrow> runner_id \<Rightarrow> visible_op \<Rightarrow> bool" where
  "stopped_at mailboxes head r opn \<longleftrightarrow>
     r < length mailboxes \<and>
     (\<exists>mb acts. length (mb_cnts mb) = 64 \<and>
        wrapper_of head opn DMTCP_RESTART_INTO_BRANCH = Perform acts \<and>
        announcements acts mb \<noteq> [] \<and> hd (announcements acts mb) = mailboxes ! r)"

text \<open>The operation names recorded objects, in the sense of \<open>op_ok\<close>.\<close>

fun op_addresses :: "visible_op \<Rightarrow> address set" where
  "op_addresses (Op_mutex_init a) = {a}"
| "op_addresses (Op_mutex_lock a) = {a}"
| "op_addresses (Op_mutex_unlock a) = {a}"
| "op_addresses (Op_sem_init a n) = {a}"
| "op_addresses (Op_sem_post a) = {a}"
| "op_addresses (Op_sem_wait a) = {a}"
| "op_addresses (Op_cond_init a) = {a}"
| "op_addresses (Op_cond_wait a m) = {a, m}"
| "op_addresses (Op_cond_signal a) = {a}"
| "op_addresses (Op_cond_broadcast a) = {a}"
| "op_addresses (Op_cond_destroy a) = {a}"
| "op_addresses _ = {}"

fun values_fit :: "pthread_map_entry list \<Rightarrow> visible_op \<Rightarrow> bool" where
  "values_fit head (Op_sem_init a n) \<longleftrightarrow> n < 2 ^ 32"
| "values_fit head (Op_join t) \<longleftrightarrow> search_pthread_map t head < invalid_rid"
| "values_fit head _ \<longleftrightarrow> True"

definition op_recorded :: "rec_list \<Rightarrow> pthread_map_entry list \<Rightarrow> visible_op \<Rightarrow> bool" where
  "op_recorded recs head opn \<longleftrightarrow>
     op_addresses opn \<subseteq> {a. a < 2 ^ 64} \<inter> address_of ` set recs \<and> values_fit head opn"

lemma op_recorded_ok: "knows recs d \<Longrightarrow> op_recorded recs head opn \<Longrightarrow> op_ok d head opn"
  by (cases opn) (auto simp: op_recorded_def knows_def)

lemma announced_executor: "t \<in> set (announced c p head restart opn) \<Longrightarrow> get_executor t = p"
  by (cases opn) (auto simp: Let_def split: if_splits)

lemma announced_not_empty: "announced c p head restart opn \<noteq> []"
  by (cases opn) (simp_all add: Let_def)

text \<open>The pending transition a recorded thread should have.\<close>

definition resumed ::
    "'w coordinator \<Rightarrow> pthread_map_entry list \<Rightarrow> (runner_id \<Rightarrow> visible_op) \<Rightarrow> recorded_object \<Rightarrow> transition" where
  "resumed d head stop vo =
     (case thrd_status vo of
        ALIVE \<Rightarrow> hd (announced d (thrd_id vo) head True (stop (thrd_id vo)))
      | EXITED \<Rightarrow> Thread_exit (thrd_id vo))"

lemma resumed_executor: "get_executor (resumed d head stop vo) = thrd_id vo"
  by (cases "thrd_status vo")
    (simp_all add: resumed_def announced_executor [OF hd_in_set [OF announced_not_empty]])

lemma next_transition_resumed:
  assumes "thrd_status vo = ALIVE \<Longrightarrow>
      op_ok d head (stop (thrd_id vo)) \<and> stopped_at mailboxes head (thrd_id vo) (stop (thrd_id vo))"
  shows "next_transition_of env default_registry mailboxes vo d = discovered (resumed d head stop vo) d"
proof (cases "thrd_status vo")
  case ALIVE
  let ?r = "thrd_id vo" and ?opn = "stop (thrd_id vo)"
  from assms [OF ALIVE] obtain mb acts where a: "op_ok d head ?opn" "?r < length mailboxes"
    "length (mb_cnts mb) = 64" "wrapper_of head ?opn DMTCP_RESTART_INTO_BRANCH = Perform acts"
    "announcements acts mb \<noteq> []" "hd (announcements acts mb) = mailboxes ! ?r"
    by (auto simp: stopped_at_def)
  have "map (discover env ?r d) (announcements acts mb) =
      map (\<lambda>t. Some (discovered t d)) (announced d ?r head True ?opn)"
    using operation_understood [OF _ a(1,3), of DMTCP_RESTART_INTO_BRANCH env ?r] a(4)
    by (auto simp: controlled_def is_in_restart_mode_def)
  from arg_cong [OF this, of hd] a(5,6)
  have "discover env ?r d (mailboxes ! ?r) = Some (discovered (hd (announced d ?r head True ?opn)) d)"
    by (simp add: hd_map announced_not_empty)
  with ALIVE a(2) show ?thesis
    by (auto simp: next_transition_of_def resumed_def discover_def Let_def split: option.splits)
qed (simp add: next_transition_of_def resumed_def)

lemma restore_transition_resumed:
  assumes "thrd_status vo = ALIVE \<Longrightarrow>
      op_ok d head (stop (thrd_id vo)) \<and> stopped_at mailboxes head (thrd_id vo) (stop (thrd_id vo))"
  shows "restore_transition env default_registry mailboxes vo d =
    Inr (observe_runner_transition (resumed d head stop vo) d)"
  by (simp add: restore_transition_def next_transition_resumed [where head = head and stop = stop, OF assms] deref_def Let_def
      num_objects_def observe_runner_transition_def)

lemma observe_transition_simps [simp]:
  "get_model_of_object (observe_runner_transition t d) a = get_model_of_object d a"
  "contains_addr (observe_runner_transition t d) a = contains_addr d a"
  "state_seq (current_program_model (observe_runner_transition t d)) = state_seq (current_program_model d)"
  "trace (current_program_model (observe_runner_transition t d)) = trace (current_program_model d)"
  "next_steps (current_program_model (observe_runner_transition t d)) =
     omap_put (get_executor t) t (next_steps (current_program_model d))"
  by (simp_all add: observe_runner_transition_def get_model_of_object_def contains_addr_def Let_def
      set_transition_def replace_unowned_def)

lemma op_ok_observe: "op_ok (observe_runner_transition t d) head opn = op_ok d head opn"
  by (cases opn) simp_all

lemma resumed_observe: "resumed (observe_runner_transition t d) = resumed d"
proof -
  have "announced (observe_runner_transition t d) p head restart opn = announced d p head restart opn"
    for p head restart opn by (cases opn) simp_all
  then show ?thesis by (intro ext) (simp add: resumed_def split: thread_status.split)
qed

lemma knows_observe: "knows recs (observe_runner_transition t d) = knows recs d"
  by (simp add: knows_def get_model_of_runner_def Let_def)

lemma restore_transitions:
  assumes "\<forall>vo \<in> set ts. thrd_status vo = ALIVE \<longrightarrow>
      op_ok d head (stop (thrd_id vo)) \<and> stopped_at mailboxes head (thrd_id vo) (stop (thrd_id vo))"
    and "omap_wf (next_steps (current_program_model d))" and "distinct (map thrd_id ts)"
  shows "\<exists>e. fold_res (restore_transition env default_registry mailboxes) ts d = Inr e \<and>
    state_seq (current_program_model e) = state_seq (current_program_model d) \<and>
    trace (current_program_model e) = trace (current_program_model d) \<and>
    omap_wf (next_steps (current_program_model e)) \<and> resumed e = resumed d \<and>
    knows recs e = knows recs d \<and>
    (\<forall>r. map_of (next_steps (current_program_model e)) r =
      (case List.find (\<lambda>vo. thrd_id vo = r) ts of
         Some vo \<Rightarrow> Some (resumed d head stop vo)
       | None \<Rightarrow> map_of (next_steps (current_program_model d)) r))"
  using assms
proof (induction ts arbitrary: d)
  case (Cons vo ts)
  let ?d = "observe_runner_transition (resumed d head stop vo) d"
  have vo: "restore_transition env default_registry mailboxes vo d = Inr ?d"
    using Cons.prems(1) by (intro restore_transition_resumed) simp
  have "\<forall>vo \<in> set ts. thrd_status vo = ALIVE \<longrightarrow>
      op_ok ?d head (stop (thrd_id vo)) \<and> stopped_at mailboxes head (thrd_id vo) (stop (thrd_id vo))"
    "omap_wf (next_steps (current_program_model ?d))" "distinct (map thrd_id ts)"
    using Cons.prems by (simp_all add: op_ok_observe omap_wf_put)
  from Cons.IH [OF this] obtain e where
    e: "fold_res (restore_transition env default_registry mailboxes) ts ?d = Inr e"
    "state_seq (current_program_model e) = state_seq (current_program_model d)"
    "trace (current_program_model e) = trace (current_program_model d)"
    "omap_wf (next_steps (current_program_model e))" "resumed e = resumed d"
    "knows recs e = knows recs d"
    "\<forall>r. map_of (next_steps (current_program_model e)) r =
      (case List.find (\<lambda>vo. thrd_id vo = r) ts of
         Some vo \<Rightarrow> Some (resumed d head stop vo)
       | None \<Rightarrow> map_of (next_steps (current_program_model ?d)) r)"
    unfolding resumed_observe knows_observe by auto
  from Cons.prems(3) have "thrd_id vo \<notin> thrd_id ` set ts" by simp
  then have "List.find (\<lambda>v. thrd_id v = thrd_id vo) ts = None"
    unfolding find_None_iff by (metis imageI)
  then have "\<forall>r. map_of (next_steps (current_program_model e)) r =
      (case List.find (\<lambda>v. thrd_id v = r) (vo # ts) of
         Some vo \<Rightarrow> Some (resumed d head stop vo)
       | None \<Rightarrow> map_of (next_steps (current_program_model d)) r)"
    using e(7) Cons.prems(2) by (auto simp: resumed_executor split: option.split)
  with vo e show ?case by auto
qed auto

text \<open>
  C14. Model checking goes on where the threads stopped. For a consistent recording whose living
  threads have each announced an operation of \<open>visible_op\<close> on recorded objects, the start from the checkpoint
  succeeds; the model it ends with is well-formed, at depth 0, knows what was recorded, and the next
  transition of each thread is the operation it called, or its exit.
\<close>

theorem model_resumes_where_threads_stopped:
  assumes "transfer recs = Inr msgs" and "consistent recs" and "force_new_process env w = Inr w'"
    and "\<forall>vo \<in> set recs. is_thread vo \<and> thrd_status vo = ALIVE \<longrightarrow>
      op_recorded recs head (stop (thrd_id vo)) \<and>
      stopped_at mailboxes head (thrd_id vo) (stop (thrd_id vo))"
  shows "\<exists>e. do_model_checking_from_dmtcp_ckpt_file env mailboxes msgs w = Inr e \<and>
    prog_wf (current_program_model e) \<and> trace (current_program_model e) = [] \<and> knows recs e \<and>
    (\<forall>vo \<in> set recs. is_thread vo \<longrightarrow>
       get_pending_transition_for (current_program_model e) (thrd_id vo) = Some (resumed e head stop vo))"
proof -
  let ?p = "\<lparr>state_seq = new_seq, trace = [], next_steps = []\<rparr>" and ?ts = "threads_by_id recs"
  let ?c = "\<lparr>current_program_model = ?p, runtime_transition_mapping = default_registry,
      process_alive = True, outside = w', system_address_mapping = []\<rparr>"
  have start: "do_model_checking_from_dmtcp_ckpt_file env mailboxes msgs w =
      bind_res (restore_objects msgs ?c)
        (\<lambda>(d, threads). fold_res (restore_transition env default_registry mailboxes) threads d)"
    by (simp add: do_model_checking_from_dmtcp_ckpt_file_def new_program_empty new_coordinator_def
        assign_new_process_handle_def assms(3))
  from restore_objects_built [OF assms(1,2) built_new, of ?c] obtain d where
    d: "restore_objects msgs ?c = Inr (d, ?ts)" "built (everything recs) (length (placed recs)) d"
    "next_steps (current_program_model d) = []" by auto
  have k: "knows recs d" by (rule built_knows [OF d(2) assms(2)])
  have ids: "map thrd_id ?ts = [0..<length ?ts]" using assms(2) by (simp add: consistent_def)
  have set_ts: "set ?ts = {vo \<in> set recs. is_thread vo}" by (simp add: threads_by_id_def)
  have stops: "\<forall>vo \<in> set ?ts. thrd_status vo = ALIVE \<longrightarrow>
      op_ok d head (stop (thrd_id vo)) \<and> stopped_at mailboxes head (thrd_id vo) (stop (thrd_id vo))"
    using assms(4) op_recorded_ok [OF k] by (simp add: set_ts)
  have dist: "distinct (map thrd_id ?ts)" by (simp add: ids)
  from restore_transitions [OF stops _ dist, of env recs] d(3) obtain e where
    e: "fold_res (restore_transition env default_registry mailboxes) ?ts d = Inr e"
    "state_seq (current_program_model e) = state_seq (current_program_model d)"
    "trace (current_program_model e) = trace (current_program_model d)"
    "omap_wf (next_steps (current_program_model e))" "resumed e = resumed d" "knows recs e"
    "\<forall>r. map_of (next_steps (current_program_model e)) r =
      map_option (resumed d head stop) (List.find (\<lambda>vo. thrd_id vo = r) ?ts)"
    using k by (auto simp: option.case_eq_if map_option_case)
  have found: "List.find (\<lambda>v. thrd_id v = r) ?ts = Some vo \<Longrightarrow> vo \<in> set ?ts \<and> thrd_id vo = r" for r vo
    by (auto simp: find_Some_iff)
  have "get_pending_transition_for (current_program_model e) (thrd_id vo) = Some (resumed e head stop vo)"
    if vo: "vo \<in> set recs" "is_thread vo" for vo
  proof -
    obtain vt where "List.find (\<lambda>v. thrd_id v = thrd_id vo) ?ts = Some vt"
      using vo set_ts by (metis (mono_tags, lifting) find_None_iff mem_Collect_eq not_None_eq)
    with found [OF this] vo set_ts dist e(5,7) show ?thesis
      by (auto simp: get_pending_transition_for_def get_transition_for_runner_def distinct_map dest: inj_onD)
  qed
  moreover have "prog_wf (current_program_model e)"
  proof -
    have b: "seq_wf (state_seq (current_program_model d))"
      "inj_size (runner_to_obj_map (state_seq (current_program_model d))) = length ?ts"
      "length (states_in_sequence (state_seq (current_program_model d))) = 1"
      "trace (current_program_model d) = []"
      using d(2) by (simp_all add: built_def Let_def inj_size_def everything_def placed_threads_def)
    have below: "thrd_id vo < length ?ts" if "vo \<in> set ?ts" for vo
    proof -
      from that have "thrd_id vo \<in> set (map thrd_id ?ts)" by simp
      then show ?thesis unfolding ids by simp
    qed
    have "get_executor t = r \<and> r < length ?ts"
      if t: "map_of (next_steps (current_program_model e)) r = Some t" for r t
    proof -
      from t e(7) obtain vo where "List.find (\<lambda>vo. thrd_id vo = r) ?ts = Some vo"
        "t = resumed d head stop vo" by (metis map_option_eq_Some)
      with found below show ?thesis by (metis resumed_executor)
    qed
    with b e show ?thesis
      by (simp add: prog_wf_def pending_wf_def get_num_states_in_sequence_def)
  qed
  moreover have "trace (current_program_model e) = []" using d(2) e(3) by (simp add: built_def Let_def)
  moreover have "do_model_checking_from_dmtcp_ckpt_file env mailboxes msgs w = Inr e"
    by (simp add: start d(1) e(1))
  ultimately show ?thesis using e(6) by blast
qed

text \<open>The threads stopped while the first unlocked the mutex and the second waited.\<close>

definition two_stops :: "runner_id \<Rightarrow> visible_op" where
  "two_stops r = (if r = 0 then Op_mutex_unlock 8 else Op_cond_wait 16 8)"

definition two_mailboxes :: "runner_mailbox list" where
  "two_mailboxes =
     map (\<lambda>r. hd (announcements
          (case wrapper_of [] (two_stops r) DMTCP_RESTART_INTO_BRANCH of Perform acts \<Rightarrow> acts | _ \<Rightarrow> [])
          \<lparr>mb_type = 0, mb_cnts = replicate 64 0\<rparr>)) [0, 1]"

lemma two_threads_stopped:
  "stopped_at two_mailboxes [] 0 (two_stops 0)" "stopped_at two_mailboxes [] 1 (two_stops 1)"
proof -
  show "stopped_at two_mailboxes [] 0 (two_stops 0)" "stopped_at two_mailboxes [] 1 (two_stops 1)"
    unfolding stopped_at_def
    by (rule conjI, simp add: two_mailboxes_def,
        rule exI [of _ "\<lparr>mb_type = 0, mb_cnts = replicate 64 0\<rparr>"],
        simp add: two_mailboxes_def two_stops_def wrapper_defs Let_def)+
qed

theorem model_resumes_where_threads_stopped_witness:
  "\<exists>e. do_model_checking_from_dmtcp_ckpt_file still_world two_mailboxes two_threads_messages () = Inr e \<and>
     prog_wf (current_program_model e) \<and>
     get_pending_transition_for (current_program_model e) 0
       = Some (Mutex_unlock 0 (get_model_of_object e 8)) \<and>
     get_pending_transition_for (current_program_model e) 1
       = Some (Cond_enqueue 1 (get_model_of_object e 16) (get_model_of_object e 8))"
proof -
  have "\<forall>vo \<in> set two_threads. is_thread vo \<and> thrd_status vo = ALIVE \<longrightarrow>
      op_recorded two_threads [] (two_stops (thrd_id vo)) \<and>
      stopped_at two_mailboxes [] (thrd_id vo) (two_stops (thrd_id vo))"
    using two_threads_stopped
    by (auto simp: two_threads_def is_thread_def thrd_id_def op_recorded_def two_stops_def address_of_def)
  from model_resumes_where_threads_stopped [OF two_threads_sent two_threads_consistent _ this,
      of still_world "()" "()"] show ?thesis
    by (auto simp: still_world_def two_threads_def is_thread_def thrd_id_def thrd_status_def
        resumed_def two_stops_def)
qed

end
