(* ===== verification/Restart.thy ===== *)
theory Restart
  imports Recording Wrappers
begin

text \<open>
  What happens inside a process that DMTCP has just restarted from a checkpoint
  (\<^verbatim>\<open>src/lib/dmtcp-callback.c\<close>). The checkpoint thread is told of the restart and changes the mode
  of the library; every thread of the target sees the new mode in the wrapper it is in, or in the next
  one, and checks in; the template thread waits until all have, and then either hands the process to the
  model checker or forks a copy of it for every branch (\<^verbatim>\<open>src/lib/template/loop.c\<close>).

  These threads are interleaved by a step relation, one step per access to something they share: the
  mode, the semaphores \<^verbatim>\<open>template_thread_sem\<close> and \<^verbatim>\<open>dmtcp_restart_sem\<close>, the mutex and the condition
  variable. A fork is followed into the child: all memory is copied, the threads continue from the
  contexts they saved, the template thread from its fork. Spurious wake-ups are a relation of their own.
\<close>

section \<open>Threads, checkpoint thread and template thread\<close>

text \<open>
  Where a thread of the target is in \<^verbatim>\<open>thread_handle_after_dmtcp_restart\<close>: still in a wrapper of the
  recording, past the test for the restart mode, past its own reading of the mode, past
  \<^verbatim>\<open>getcontext\<close>, at the switch, in the loop on the condition variable, or listening to the model checker.
  \<open>Gone\<close>: a thread that the child does not have, because no context was saved.
\<close>

datatype thread_pc =
    In_wrapper | Restarting | Entered | Saved | At_switch | Locking | Checking | In_cond_wait
  | Awaiting | Aborted | Gone

datatype checkpoint_pc = Event_sent | Mode_set | Finished

datatype template_pc =
    Asleep | Collecting nat | Stable | Posted | Looping | In_branch | Announcing | Broadcasting
  | Announced | Transferring

datatype holder = Nobody | Thread nat | Template_thread

record restart =
  mode :: libmcmini_mode
  checkpoint_thread :: checkpoint_pc
  template_thread :: template_pc
  threads :: "nat \<Rightarrow> thread_pc"
  mode_on_entry :: "nat \<Rightarrow> libmcmini_mode"
  template_thread_sem :: nat
  dmtcp_restart_sem :: nat
  template_thread_mut :: holder
  mcmini_process_sem :: nat
  in_child :: bool

text \<open>The number of threads the template thread waits for.\<close>

definition is_alive_thread :: "recorded_object \<Rightarrow> bool" where
  "is_alive_thread vo \<longleftrightarrow> (case rec_state vo of Thrd_state _ _ st \<Rightarrow> st = ALIVE | _ \<Rightarrow> False)"

definition thread_count :: "rec_list \<Rightarrow> nat" where
  "thread_count head = length (filter is_alive_thread head)"

text \<open>The mode a restart begins with; the flag is the environment variable \<^verbatim>\<open>MCMINI_TEMPLATE_LOOP\<close>.\<close>

definition restart_mode :: "bool \<Rightarrow> libmcmini_mode" where
  "restart_mode template_loop =
     (if template_loop then DMTCP_RESTART_INTO_TEMPLATE else DMTCP_RESTART_INTO_BRANCH)"

definition switch_on_entry :: "libmcmini_mode \<Rightarrow> thread_pc" where
  "switch_on_entry m =
     (case m of
        DMTCP_RESTART_INTO_TEMPLATE \<Rightarrow> Locking
      | DMTCP_RESTART_INTO_BRANCH \<Rightarrow> Awaiting
      | _ \<Rightarrow> Aborted)"

text \<open>A resurrected thread returns a second time from \<^verbatim>\<open>getcontext\<close> and does not notify again.\<close>

definition resurrected :: "thread_pc \<Rightarrow> thread_pc" where
  "resurrected pc = (if pc \<in> {In_wrapper, Restarting, Entered, Gone} then Gone else At_switch)"

definition fast_multithreaded_fork :: "restart \<Rightarrow> restart" where
  "fast_multithreaded_fork s =
     s\<lparr>in_child := True, template_thread := In_branch, threads := \<lambda>i. resurrected (threads s i)\<rparr>"

abbreviation goto :: "nat \<Rightarrow> thread_pc \<Rightarrow> restart \<Rightarrow> restart" where
  "goto i pc s \<equiv> s\<lparr>threads := (threads s)(i := pc)\<rparr>"

inductive restart_step :: "nat \<Rightarrow> rec_list \<Rightarrow> bool \<Rightarrow> restart \<Rightarrow> restart \<Rightarrow> bool"
  for n :: nat and head :: rec_list and template_loop :: bool where
  event_restart: "checkpoint_thread s = Event_sent \<Longrightarrow>
    restart_step n head template_loop s (s\<lparr>checkpoint_thread := Mode_set, mode := restart_mode template_loop\<rparr>)"
| wake_template: "checkpoint_thread s = Mode_set \<Longrightarrow>
    restart_step n head template_loop s
      (s\<lparr>checkpoint_thread := Finished, template_thread_sem := template_thread_sem s + 1\<rparr>)"
| notice_restart: "i < n \<Longrightarrow> threads s i = In_wrapper \<Longrightarrow> is_in_restart_mode (mode s) \<Longrightarrow>
    restart_step n head template_loop s (goto i Restarting s)"
| read_mode: "i < n \<Longrightarrow> threads s i = Restarting \<Longrightarrow>
    restart_step n head template_loop s
      (goto i Entered (s\<lparr>mode_on_entry := (mode_on_entry s)(i := mode s)\<rparr>))"
| save_context: "i < n \<Longrightarrow> threads s i = Entered \<Longrightarrow>
    restart_step n head template_loop s (goto i Saved s)"
| notify_template_thread: "i < n \<Longrightarrow> threads s i = Saved \<Longrightarrow>
    restart_step n head template_loop s
      (goto i At_switch (s\<lparr>dmtcp_restart_sem := dmtcp_restart_sem s + 1\<rparr>))"
| switch: "i < n \<Longrightarrow> threads s i = At_switch \<Longrightarrow>
    restart_step n head template_loop s (goto i (switch_on_entry (mode_on_entry s i)) s)"
| lock: "i < n \<Longrightarrow> threads s i = Locking \<Longrightarrow> template_thread_mut s = Nobody \<Longrightarrow>
    restart_step n head template_loop s (goto i Checking (s\<lparr>template_thread_mut := Thread i\<rparr>))"
| still_template: "i < n \<Longrightarrow> threads s i = Checking \<Longrightarrow> mode s \<noteq> TARGET_BRANCH_AFTER_RESTART \<Longrightarrow>
    restart_step n head template_loop s (goto i In_cond_wait (s\<lparr>template_thread_mut := Nobody\<rparr>))"
| is_branch: "i < n \<Longrightarrow> threads s i = Checking \<Longrightarrow> mode s = TARGET_BRANCH_AFTER_RESTART \<Longrightarrow>
    restart_step n head template_loop s (goto i Awaiting (s\<lparr>template_thread_mut := Nobody\<rparr>))"
| count_threads: "template_thread s = Asleep \<Longrightarrow> 0 < template_thread_sem s \<Longrightarrow>
    restart_step n head template_loop s
      (s\<lparr>template_thread := Collecting (thread_count head),
         template_thread_sem := template_thread_sem s - 1\<rparr>)"
| collect: "template_thread s = Collecting (Suc k) \<Longrightarrow> 0 < dmtcp_restart_sem s \<Longrightarrow>
    restart_step n head template_loop s
      (s\<lparr>template_thread := Collecting k, dmtcp_restart_sem := dmtcp_restart_sem s - 1\<rparr>)"
| become_branch: "template_thread s = Collecting 0 \<Longrightarrow> mode s = DMTCP_RESTART_INTO_BRANCH \<Longrightarrow>
    restart_step n head template_loop s
      (s\<lparr>template_thread := Stable, mode := TARGET_BRANCH_AFTER_RESTART\<rparr>)"
| remain_template: "template_thread s = Collecting 0 \<Longrightarrow> mode s \<noteq> DMTCP_RESTART_INTO_BRANCH \<Longrightarrow>
    restart_step n head template_loop s (s\<lparr>template_thread := Stable\<rparr>)"
| post_ready: "template_thread s = Stable \<Longrightarrow>
    restart_step n head template_loop s
      (s\<lparr>template_thread := Posted, mcmini_process_sem := mcmini_process_sem s + 1\<rparr>)"
| enter_loop: "template_thread s = Posted \<Longrightarrow> mode s = DMTCP_RESTART_INTO_TEMPLATE \<Longrightarrow>
    restart_step n head template_loop s (s\<lparr>template_thread := Looping\<rparr>)"
| skip_loop: "template_thread s = Posted \<Longrightarrow> mode s \<noteq> DMTCP_RESTART_INTO_TEMPLATE \<Longrightarrow>
    restart_step n head template_loop s (s\<lparr>template_thread := Transferring\<rparr>)"
| fork_child: "template_thread s = Looping \<Longrightarrow>
    restart_step n head template_loop s (fast_multithreaded_fork s)"
| set_branch_mode: "template_thread s = In_branch \<Longrightarrow>
    restart_step n head template_loop s
      (s\<lparr>template_thread := Announcing, mode := TARGET_BRANCH_AFTER_RESTART\<rparr>)"
| announce: "template_thread s = Announcing \<Longrightarrow> template_thread_mut s = Nobody \<Longrightarrow>
    restart_step n head template_loop s
      (s\<lparr>template_thread := Broadcasting, template_thread_mut := Template_thread\<rparr>)"
| broadcast: "template_thread s = Broadcasting \<Longrightarrow>
    restart_step n head template_loop s
      (s\<lparr>template_thread := Announced,
         threads := \<lambda>i. if threads s i = In_cond_wait then Locking else threads s i\<rparr>)"
| release: "template_thread s = Announced \<Longrightarrow>
    restart_step n head template_loop s
      (s\<lparr>template_thread := Transferring, template_thread_mut := Nobody\<rparr>)"

text \<open>A thread may return from the condition variable without a broadcast.\<close>

inductive spurious_wakeup :: "nat \<Rightarrow> restart \<Rightarrow> restart \<Rightarrow> bool" for n :: nat where
  wakes_up: "i < n \<Longrightarrow> threads s i = In_cond_wait \<Longrightarrow> spurious_wakeup n s (goto i Locking s)"

inductive restart_steps :: "nat \<Rightarrow> rec_list \<Rightarrow> bool \<Rightarrow> restart \<Rightarrow> restart \<Rightarrow> bool"
  for n :: nat and head :: rec_list and template_loop :: bool where
  no_restart_step: "restart_steps n head template_loop s s"
| more_restart_steps: "restart_steps n head template_loop s s' \<Longrightarrow>
    restart_step n head template_loop s' s'' \<or> spurious_wakeup n s' s'' \<Longrightarrow>
    restart_steps n head template_loop s s''"

text \<open>The checkpoint thread is about to be told of the restart.\<close>

definition restarted :: restart where
  "restarted =
     \<lparr>mode = PRE_CHECKPOINT, checkpoint_thread = Event_sent, template_thread = Asleep,
      threads = \<lambda>_. In_wrapper, mode_on_entry = \<lambda>_. PRE_CHECKPOINT, template_thread_sem = 0,
      dmtcp_restart_sem = 0, template_thread_mut = Nobody, mcmini_process_sem = 0, in_child = False\<rparr>"

end
