(* ===== verification/Restart_Properties.thy ===== *)
theory Restart_Properties
  imports Restart
begin

text \<open>
  The threads of a restarted process get to the model checker: none of them mistakes the mode, none
  listens too early, and in a branch all of them listen in the end, provided no thread held the mutex
  when the process was forked.
\<close>

section \<open>The barrier\<close>

definition notified :: "thread_pc \<Rightarrow> bool" where
  "notified pc \<longleftrightarrow> pc \<in> {At_switch, Locking, Checking, In_cond_wait, Awaiting, Aborted}"

definition notified_threads :: "nat \<Rightarrow> restart \<Rightarrow> nat" where
  "notified_threads n s = card {i. i < n \<and> notified (threads s i)}"

text \<open>The semaphore and the threads already collected add up to the threads that have notified.\<close>

definition barrier :: "nat \<Rightarrow> restart \<Rightarrow> bool" where
  "barrier n s \<longleftrightarrow>
     (case template_thread s of
        Asleep \<Rightarrow> dmtcp_restart_sem s = notified_threads n s \<and> \<not> in_child s
      | Collecting k \<Rightarrow> k \<le> n \<and> dmtcp_restart_sem s + n = notified_threads n s + k \<and> \<not> in_child s
      | _ \<Rightarrow> \<forall>i<n. notified (threads s i))"

lemma notified_simps [simp]:
  "notified At_switch" "notified Locking" "notified Checking" "notified In_cond_wait"
  "notified Awaiting" "notified Aborted" "\<not> notified In_wrapper" "\<not> notified Restarting"
  "\<not> notified Entered" "\<not> notified Saved" "\<not> notified Gone"
  by (simp_all add: notified_def)

lemma notified_switch [simp]: "notified (switch_on_entry m)"
  by (simp add: switch_on_entry_def split: libmcmini_mode.split)

lemma notified_resurrected [simp]: "notified pc \<Longrightarrow> resurrected pc = At_switch"
  by (auto simp: notified_def resurrected_def)

lemma notified_threads_le: "notified_threads n s \<le> n"
proof -
  have "notified_threads n s \<le> card {..<n}" unfolding notified_threads_def by (rule card_mono) auto
  then show ?thesis by simp
qed

lemma all_notified: "n \<le> notified_threads n s \<Longrightarrow> i < n \<Longrightarrow> notified (threads s i)"
proof (rule ccontr)
  assume n: "n \<le> notified_threads n s" "i < n" "\<not> notified (threads s i)"
  have "notified_threads n s \<le> card ({..<n} - {i})"
    unfolding notified_threads_def by (rule card_mono) (use n in auto)
  also have "\<dots> < n" using n(2) by (simp add: card_Diff_singleton)
  finally show False using n(1) by simp
qed

lemma notified_threads_same:
  assumes "\<And>i. i < n \<Longrightarrow> notified (threads s' i) \<longleftrightarrow> notified (threads s i)"
  shows "notified_threads n s' = notified_threads n s"
  unfolding notified_threads_def using assms by (metis (mono_tags, lifting))

lemma notified_threads_more:
  assumes "i < n" and "\<not> notified (threads s i)" and "notified pc"
    and "threads s' = (threads s)(i := pc)"
  shows "notified_threads n s' = notified_threads n s + 1"
proof -
  have "{j. j < n \<and> notified (threads s' j)} = insert i {j. j < n \<and> notified (threads s j)}"
    using assms by auto
  then show ?thesis using assms(2) by (simp add: notified_threads_def)
qed

lemma notified_threads_goto:
  assumes "notified pc \<longleftrightarrow> notified (threads s i)" and "threads s' = (threads s)(i := pc)"
  shows "notified_threads n s' = notified_threads n s"
  using assms by (intro notified_threads_same) simp

text \<open>A step of a thread that does not notify the template thread keeps the barrier.\<close>

lemma barrier_goto:
  assumes "threads s' = (threads s)(i := pc)" and "barrier n s"
    and "notified pc \<longleftrightarrow> notified (threads s i)" and "template_thread s' = template_thread s"
    and "dmtcp_restart_sem s' = dmtcp_restart_sem s" and "in_child s' = in_child s"
  shows "barrier n s'"
proof -
  have "notified (threads s' j) \<longleftrightarrow> notified (threads s j)" for j using assms(1,3) by simp
  moreover have "notified_threads n s' = notified_threads n s"
    by (rule notified_threads_goto [OF assms(3,1)])
  ultimately show ?thesis
    using assms(2) unfolding barrier_def assms(4,5,6) by (simp split: template_pc.splits)
qed

lemma barrier_other:
  assumes "threads s' = threads s" and "barrier n s" and "template_thread s' = template_thread s"
    and "dmtcp_restart_sem s' = dmtcp_restart_sem s" and "in_child s' = in_child s"
  shows "barrier n s'"
  using assms by (simp add: barrier_def notified_threads_def split: template_pc.splits)

lemma restart_step_barrier:
  assumes "restart_step n head template_loop s s'" and "barrier n s" and "thread_count head = n"
  shows "barrier n s'"
  using assms
proof (induction rule: restart_step.induct)
  case (notify_template_thread i s)
  let ?s = "goto i At_switch (s\<lparr>dmtcp_restart_sem := dmtcp_restart_sem s + 1\<rparr>)"
  have "notified_threads n ?s = notified_threads n s + 1"
    by (rule notified_threads_more) (use notify_template_thread in simp_all)
  then show ?case using notify_template_thread
    by (auto simp: barrier_def split: template_pc.splits)
next
  case (collect s k)
  have "notified_threads n (s\<lparr>template_thread := Collecting k,
      dmtcp_restart_sem := dmtcp_restart_sem s - 1\<rparr>) = notified_threads n s"
    by (rule notified_threads_same) simp
  with collect show ?case by (auto simp: barrier_def)
next
  case (count_threads s)
  have "notified_threads n (s\<lparr>template_thread := Collecting (thread_count head),
      template_thread_sem := template_thread_sem s - 1\<rparr>) = notified_threads n s"
    by (rule notified_threads_same) simp
  with count_threads show ?case by (simp add: barrier_def)
next
  case (become_branch s)
  then have "n \<le> notified_threads n s" by (simp add: barrier_def)
  from all_notified [OF this] show ?case by (simp add: barrier_def)
next
  case (remain_template s)
  then have "n \<le> notified_threads n s" by (simp add: barrier_def)
  from all_notified [OF this] show ?case by (simp add: barrier_def)
next
  case (fork_child s)
  then show ?case by (simp add: barrier_def fast_multithreaded_fork_def)
qed ((rule barrier_goto, simp, assumption, simp_all; fail)
    | (rule barrier_other, simp, assumption, simp_all; fail)
    | simp add: barrier_def; fail)+

section \<open>Modes\<close>

text \<open>The mode, and whether the process is a branch, where the template thread is.\<close>

definition modes_ok :: "bool \<Rightarrow> restart \<Rightarrow> bool" where
  "modes_ok template_loop s \<longleftrightarrow>
     (case template_thread s of
        Stable \<Rightarrow> mode s = (if template_loop then DMTCP_RESTART_INTO_TEMPLATE else TARGET_BRANCH_AFTER_RESTART)
          \<and> \<not> in_child s
      | Posted \<Rightarrow> mode s = (if template_loop then DMTCP_RESTART_INTO_TEMPLATE else TARGET_BRANCH_AFTER_RESTART)
          \<and> \<not> in_child s
      | Looping \<Rightarrow> template_loop \<and> mode s = DMTCP_RESTART_INTO_TEMPLATE \<and> \<not> in_child s
      | In_branch \<Rightarrow> template_loop \<and> mode s = DMTCP_RESTART_INTO_TEMPLATE \<and> in_child s
      | Announcing \<Rightarrow> template_loop \<and> mode s = TARGET_BRANCH_AFTER_RESTART \<and> in_child s
      | Broadcasting \<Rightarrow> template_loop \<and> mode s = TARGET_BRANCH_AFTER_RESTART \<and> in_child s
      | Announced \<Rightarrow> template_loop \<and> mode s = TARGET_BRANCH_AFTER_RESTART \<and> in_child s
      | Transferring \<Rightarrow> mode s = TARGET_BRANCH_AFTER_RESTART \<and> in_child s = template_loop
      | _ \<Rightarrow> mode s = restart_mode template_loop \<and> \<not> in_child s)"

definition started_ok :: "nat \<Rightarrow> bool \<Rightarrow> restart \<Rightarrow> bool" where
  "started_ok n template_loop s \<longleftrightarrow>
     (case checkpoint_thread s of
        Event_sent \<Rightarrow> mode s = PRE_CHECKPOINT \<and> template_thread s = Asleep \<and> template_thread_sem s = 0 \<and>
          (\<forall>i<n. threads s i = In_wrapper) \<and> \<not> in_child s
      | Mode_set \<Rightarrow> template_thread s = Asleep \<and> template_thread_sem s = 0 \<and> modes_ok template_loop s
      | Finished \<Rightarrow> modes_ok template_loop s)"

definition thread_ok :: "bool \<Rightarrow> bool \<Rightarrow> libmcmini_mode \<Rightarrow> thread_pc \<Rightarrow> bool" where
  "thread_ok template_loop child m pc \<longleftrightarrow>
     pc \<notin> {Aborted, Gone} \<and>
     (pc \<notin> {In_wrapper, Restarting} \<longrightarrow> m = restart_mode template_loop) \<and>
     (pc \<in> {Locking, Checking, In_cond_wait} \<longrightarrow> template_loop) \<and>
     (pc = Awaiting \<longrightarrow> template_loop \<longrightarrow> child)"

definition restart_ok :: "nat \<Rightarrow> bool \<Rightarrow> restart \<Rightarrow> bool" where
  "restart_ok n template_loop s \<longleftrightarrow>
     barrier n s \<and> started_ok n template_loop s \<and>
     (\<forall>i<n. thread_ok template_loop (in_child s) (mode_on_entry s i) (threads s i))"

lemma restart_modes [simp]:
  "restart_mode b \<noteq> TARGET_BRANCH_AFTER_RESTART" "is_in_restart_mode (restart_mode b)"
  "restart_mode b \<noteq> PRE_CHECKPOINT"
  "DMTCP_RESTART_INTO_BRANCH = restart_mode b \<longleftrightarrow> \<not> b"
  "restart_mode b = DMTCP_RESTART_INTO_TEMPLATE \<longleftrightarrow> b" "restart_mode b = DMTCP_RESTART_INTO_BRANCH \<longleftrightarrow> \<not> b"
  by (simp_all add: restart_mode_def is_in_restart_mode_def)

lemma switch_on_entry_ok: "thread_ok b child (restart_mode b) (switch_on_entry (restart_mode b))"
  by (simp add: thread_ok_def switch_on_entry_def restart_mode_def)

text \<open>As long as one thread has not notified, the mode of the restart is unchanged.\<close>

lemma mode_before_barrier:
  assumes "restart_ok n b s" and "i < n" and "\<not> notified (threads s i)"
    and "checkpoint_thread s \<noteq> Event_sent"
  shows "mode s = restart_mode b"
proof -
  have "template_thread s = Asleep \<or> (\<exists>k. template_thread s = Collecting k)"
    using assms(1-3) by (auto simp: restart_ok_def barrier_def split: template_pc.splits)
  then show ?thesis
    using assms(1,4) by (auto simp: restart_ok_def started_ok_def modes_ok_def split: checkpoint_pc.splits)
qed

lemma has_started: "restart_ok n b s \<Longrightarrow> i < n \<Longrightarrow> threads s i \<noteq> In_wrapper \<Longrightarrow> checkpoint_thread s \<noteq> Event_sent"
  by (auto simp: restart_ok_def started_ok_def)

text \<open>A step of one thread.\<close>

lemma restart_ok_goto:
  assumes "threads s' = (threads s)(i := pc)" and "restart_ok n b s" and "barrier n s'"
    and "checkpoint_thread s \<noteq> Event_sent"
    and "thread_ok b (in_child s) (mode_on_entry s' i) pc"
    and "\<And>j. j \<noteq> i \<Longrightarrow> mode_on_entry s' j = mode_on_entry s j"
    and "mode s' = mode s" and "template_thread s' = template_thread s" and "in_child s' = in_child s"
    and "checkpoint_thread s' = checkpoint_thread s" and "template_thread_sem s' = template_thread_sem s"
  shows "restart_ok n b s'"
proof -
  have "modes_ok b s' = modes_ok b s" unfolding modes_ok_def assms(7-9) ..
  then have "started_ok n b s'"
    using assms(2,4) unfolding restart_ok_def started_ok_def assms(7-11)
    by (simp split: checkpoint_pc.splits)
  moreover have "thread_ok b (in_child s') (mode_on_entry s' j) (threads s' j)" if "j < n" for j
    using assms(1,2,5,6,9) that by (cases "j = i") (simp_all add: restart_ok_def)
  ultimately show ?thesis using assms(3) by (simp add: restart_ok_def)
qed

lemma thread_okD: "restart_ok n b s \<Longrightarrow> i < n \<Longrightarrow> thread_ok b (in_child s) (mode_on_entry s i) (threads s i)"
  by (simp add: restart_ok_def)

lemma restart_step_ok:
  assumes "restart_step n head b s s'" and "restart_ok n b s" and "thread_count head = n"
  shows "restart_ok n b s'"
proof -
  have bar: "barrier n s'"
    using restart_step_barrier [OF assms(1) _ assms(3)] assms(2) by (simp add: restart_ok_def)
  from assms(1) show ?thesis
  proof cases
    case (event_restart)
    then show ?thesis using assms(2) bar
      by (simp add: restart_ok_def started_ok_def modes_ok_def thread_ok_def)
  next
    case (wake_template)
    then show ?thesis using assms(2) bar
      by (auto simp: restart_ok_def started_ok_def modes_ok_def)
  next
    case (notice_restart i)
    have "checkpoint_thread s \<noteq> Event_sent"
      using notice_restart assms(2) by (auto simp: restart_ok_def started_ok_def is_in_restart_mode_def)
    with notice_restart bar assms(2) show ?thesis
      by (intro restart_ok_goto [of s' s i Restarting]) (simp_all add: thread_ok_def)
  next
    case (read_mode i)
    have started: "checkpoint_thread s \<noteq> Event_sent"
      using has_started [OF assms(2) read_mode(2)] read_mode(3) by auto
    have "mode s = restart_mode b"
      by (rule mode_before_barrier [OF assms(2) read_mode(2) _ started]) (use read_mode in simp)
    with read_mode bar assms(2) started show ?thesis
      by (intro restart_ok_goto [of s' s i Entered]) (simp_all add: thread_ok_def)
  next
    case (save_context i)
    have "checkpoint_thread s \<noteq> Event_sent"
      using has_started [OF assms(2) save_context(2)] save_context(3) by auto
    with save_context bar assms(2) thread_okD [OF assms(2), of i] show ?thesis
      by (intro restart_ok_goto [of s' s i Saved]) (simp_all add: thread_ok_def)
  next
    case (notify_template_thread i)
    have "checkpoint_thread s \<noteq> Event_sent"
      using has_started [OF assms(2) notify_template_thread(2)] notify_template_thread(3) by auto
    with notify_template_thread bar assms(2) thread_okD [OF assms(2), of i] show ?thesis
      by (intro restart_ok_goto [of s' s i At_switch]) (simp_all add: thread_ok_def)
  next
    case (switch i)
    have "checkpoint_thread s \<noteq> Event_sent"
      using has_started [OF assms(2) switch(2)] switch(3) by auto
    moreover have "mode_on_entry s i = restart_mode b"
      using thread_okD [OF assms(2) switch(2)] switch(3) by (simp add: thread_ok_def)
    ultimately show ?thesis using switch bar assms(2)
      by (intro restart_ok_goto [of s' s i "switch_on_entry (mode_on_entry s i)"])
        (simp_all add: switch_on_entry_ok)
  next
    case (lock i)
    have "checkpoint_thread s \<noteq> Event_sent"
      using has_started [OF assms(2) lock(2)] lock(3) by auto
    with lock bar assms(2) thread_okD [OF assms(2), of i] show ?thesis
      by (intro restart_ok_goto [of s' s i Checking]) (simp_all add: thread_ok_def)
  next
    case (still_template i)
    have "checkpoint_thread s \<noteq> Event_sent"
      using has_started [OF assms(2) still_template(2)] still_template(3) by auto
    with still_template bar assms(2) thread_okD [OF assms(2), of i] show ?thesis
      by (intro restart_ok_goto [of s' s i In_cond_wait]) (simp_all add: thread_ok_def)
  next
    case (is_branch i)
    have started: "checkpoint_thread s \<noteq> Event_sent"
      using has_started [OF assms(2) is_branch(2)] is_branch(3) by auto
    have ok: "thread_ok b (in_child s) (mode_on_entry s i) Checking"
      using thread_okD [OF assms(2) is_branch(2)] is_branch(3) by simp
    then have "in_child s" using assms(2) is_branch(4) started
      by (auto simp: thread_ok_def restart_ok_def started_ok_def modes_ok_def
          split: template_pc.splits checkpoint_pc.splits)
    with is_branch bar assms(2) ok started show ?thesis
      by (intro restart_ok_goto [of s' s i Awaiting]) (simp_all add: thread_ok_def)
  next
    case (fork_child)
    then have "\<forall>i<n. notified (threads s i)" using assms(2) by (simp add: restart_ok_def barrier_def)
    moreover from this have "mode_on_entry s i = restart_mode b" if "i < n" for i
      using thread_okD [OF assms(2) that] that by (auto simp: thread_ok_def)
    ultimately show ?thesis using fork_child bar assms(2)
      by (auto simp: restart_ok_def started_ok_def modes_ok_def thread_ok_def
          fast_multithreaded_fork_def split: checkpoint_pc.splits)
  next
    case (broadcast)
    with bar assms(2) show ?thesis
      by (auto simp: restart_ok_def started_ok_def modes_ok_def thread_ok_def split: checkpoint_pc.splits)
  qed (use assms(2) bar in \<open>auto simp: restart_ok_def started_ok_def modes_ok_def
      split: checkpoint_pc.splits if_splits\<close>)
qed

lemma spurious_wakeup_ok:
  assumes "spurious_wakeup n s s'" and "restart_ok n b s"
  shows "restart_ok n b s'"
  using assms(1)
proof cases
  case (wakes_up i)
  have bar: "barrier n s'"
    by (rule barrier_goto [of s' s i Locking]) (use wakes_up assms(2) in \<open>simp_all add: restart_ok_def\<close>)
  have "checkpoint_thread s \<noteq> Event_sent"
    using has_started [OF assms(2) wakes_up(2)] wakes_up(3) by auto
  with wakes_up bar assms(2) thread_okD [OF assms(2), of i] show ?thesis
    by (intro restart_ok_goto [of s' s i Locking]) (simp_all add: thread_ok_def)
qed

lemma restart_invariant:
  assumes "restart_steps n head b s s'" and "I s"
    and "\<And>t t'. restart_step n head b t t' \<Longrightarrow> I t \<Longrightarrow> I t'"
    and "\<And>t t'. spurious_wakeup n t t' \<Longrightarrow> I t \<Longrightarrow> I t'"
  shows "I s'"
  using assms by (induction rule: restart_steps.induct) blast+

lemma restart_steps_ok:
  assumes "restart_steps n head b s s'" and "restart_ok n b s" and "thread_count head = n"
  shows "restart_ok n b s'"
  using restart_invariant [OF assms(1), of "restart_ok n b", OF assms(2)]
    restart_step_ok spurious_wakeup_ok assms(3) by blast

lemma restarted_ok: "restart_ok n b restarted"
  by (simp add: restart_ok_def restarted_def started_ok_def barrier_def notified_threads_def thread_ok_def)

text \<open>A template with one thread, waiting for the first request to fork.\<close>

definition one_thread :: rec_list where
  "one_thread = [\<lparr>rec_location = 0, rec_state = Thrd_state 7 0 ALIVE\<rparr>]"

lemma one_thread_count: "thread_count one_thread = 1"
  by (simp add: thread_count_def one_thread_def is_alive_thread_def)

definition template_of_one :: restart where
  "template_of_one =
     restarted\<lparr>mode := DMTCP_RESTART_INTO_TEMPLATE, checkpoint_thread := Finished, template_thread := Looping,
       threads := (\<lambda>_. In_wrapper)(0 := At_switch),
       mode_on_entry := (\<lambda>_. PRE_CHECKPOINT)(0 := DMTCP_RESTART_INTO_TEMPLATE), mcmini_process_sem := 1\<rparr>"

lemma one_step: "restart_steps n head b s s' \<Longrightarrow> restart_step n head b s' s'' \<Longrightarrow> restart_steps n head b s s''"
  by (blast intro: more_restart_steps)

lemma template_of_one_reached: "restart_steps 1 one_thread True restarted template_of_one"
proof -
  let ?R = "DMTCP_RESTART_INTO_TEMPLATE"
  let ?s1 = "restarted\<lparr>checkpoint_thread := Mode_set, mode := ?R\<rparr>"
  let ?s2 = "?s1\<lparr>checkpoint_thread := Finished, template_thread_sem := 1\<rparr>"
  let ?s3 = "goto 0 Restarting ?s2"
  let ?s4 = "goto 0 Entered (?s3\<lparr>mode_on_entry := (mode_on_entry ?s3)(0 := ?R)\<rparr>)"
  let ?s5 = "goto 0 Saved ?s4"
  let ?s6 = "goto 0 At_switch (?s5\<lparr>dmtcp_restart_sem := 1\<rparr>)"
  let ?s7 = "?s6\<lparr>template_thread := Collecting 1, template_thread_sem := 0\<rparr>"
  let ?s8 = "?s7\<lparr>template_thread := Collecting 0, dmtcp_restart_sem := 0\<rparr>"
  let ?s9 = "?s8\<lparr>template_thread := Stable\<rparr>"
  let ?s10 = "?s9\<lparr>template_thread := Posted, mcmini_process_sem := 1\<rparr>"
  let ?step = "restart_step 1 one_thread True"
  note facts = restarted_def restart_mode_def is_in_restart_mode_def one_thread_count
  have 1: "?step restarted ?s1" using event_restart [of restarted 1 one_thread True] by (simp add: facts)
  have 2: "?step ?s1 ?s2" using wake_template [of ?s1 1 one_thread True] by (simp add: facts)
  have 3: "?step ?s2 ?s3" by (rule notice_restart) (simp_all add: facts)
  have 4: "?step ?s3 ?s4" using read_mode [of 0 1 ?s3 one_thread True] by (simp add: facts)
  have 5: "?step ?s4 ?s5" by (rule save_context) (simp_all add: facts)
  have 6: "?step ?s5 ?s6" using notify_template_thread [of 0 1 ?s5 one_thread True] by (simp add: facts)
  have 7: "?step ?s6 ?s7" using count_threads [of ?s6 1 one_thread True] by (simp add: facts)
  have 8: "?step ?s7 ?s8" using collect [of ?s7 0 1 one_thread True] by (simp add: facts)
  have 9: "?step ?s8 ?s9" by (rule remain_template) (simp_all add: facts)
  have 10: "?step ?s9 ?s10" using post_ready [of ?s9 1 one_thread True] by (simp add: facts)
  have 11: "?step ?s10 (?s10\<lparr>template_thread := Looping\<rparr>)" by (rule enter_loop) (simp_all add: facts)
  have "?s10\<lparr>template_thread := Looping\<rparr> = template_of_one"
    by (simp add: template_of_one_def facts fun_eq_iff)
  with 11 have 11: "?step ?s10 template_of_one" by simp
  show ?thesis
    by (rule one_step [OF _ 11], rule one_step [OF _ 10], rule one_step [OF _ 9], rule one_step [OF _ 8],
        rule one_step [OF _ 7], rule one_step [OF _ 6], rule one_step [OF _ 5], rule one_step [OF _ 4],
        rule one_step [OF _ 3], rule one_step [OF _ 2], rule one_step [OF _ 1], rule no_restart_step)
qed

text \<open>
  C18. The barrier protects the mode. When the record lists exactly the living threads, then in every
  interleaving every thread that reaches the switch of \<^verbatim>\<open>thread_handle_after_dmtcp_restart\<close> does so
  with the mode of the restart: no thread ever aborts. The model checker is told that the process is
  ready only when all threads have saved their contexts, so a fork loses none; and as long as the
  process is a template none of them listens to the model checker.
\<close>

theorem restarted_threads_are_collected:
  assumes "restart_steps n head template_loop restarted s" and "thread_count head = n" and "i < n"
  shows "threads s i \<noteq> Aborted \<and> threads s i \<noteq> Gone \<and>
    (mcmini_process_sem s = 0 \<or> notified (threads s i)) \<and>
    (threads s i = Awaiting \<longrightarrow> template_loop = in_child s)"
proof -
  have ok: "restart_ok n template_loop s"
    by (rule restart_steps_ok [OF assms(1) restarted_ok assms(2)])
  let ?past = "\<lambda>s. mcmini_process_sem s = 0 \<or>
      template_thread s \<notin> {Asleep, Stable} \<and> (\<forall>k. template_thread s \<noteq> Collecting k)"
  have "?past s"
  proof (rule restart_invariant [OF assms(1)])
    show "?past restarted" by (simp add: restarted_def)
    show "?past t'" if "restart_step n head template_loop t t'" "?past t" for t t'
      using that by cases (auto simp: fast_multithreaded_fork_def)
    show "?past t'" if "spurious_wakeup n t t'" "?past t" for t t'
      using that by cases auto
  qed
  then have "mcmini_process_sem s = 0 \<or> notified (threads s i)"
    using ok assms(3) by (auto simp: restart_ok_def barrier_def split: template_pc.splits)
  moreover have "in_child s \<longrightarrow> template_loop"
    using ok by (auto simp: restart_ok_def started_ok_def modes_ok_def
        split: checkpoint_pc.splits template_pc.splits)
  ultimately show ?thesis using thread_okD [OF ok assms(3)] by (auto simp: thread_ok_def)
qed

theorem restarted_threads_are_collected_witness:
  "threads template_of_one 0 \<noteq> Gone \<and> notified (threads template_of_one 0)"
  using restarted_threads_are_collected [OF template_of_one_reached one_thread_count, of 0]
  by (simp add: template_of_one_def)

text \<open>
  Without that assumption the protection fails: a thread that the record does not list as alive may read
  the mode after the template thread has changed it, and abort.
\<close>

lemma uncounted_thread_aborts: "\<exists>s. restart_steps 1 [] False restarted s \<and> threads s 0 = Aborted"
proof -
  let ?R = "DMTCP_RESTART_INTO_BRANCH"
  let ?s1 = "restarted\<lparr>checkpoint_thread := Mode_set, mode := ?R\<rparr>"
  let ?s2 = "?s1\<lparr>checkpoint_thread := Finished, template_thread_sem := 1\<rparr>"
  let ?s3 = "goto 0 Restarting ?s2"
  let ?s4 = "?s3\<lparr>template_thread := Collecting 0, template_thread_sem := 0\<rparr>"
  let ?s5 = "?s4\<lparr>template_thread := Stable, mode := TARGET_BRANCH_AFTER_RESTART\<rparr>"
  let ?s6 = "goto 0 Entered (?s5\<lparr>mode_on_entry := (mode_on_entry ?s5)(0 := TARGET_BRANCH_AFTER_RESTART)\<rparr>)"
  let ?s7 = "goto 0 Saved ?s6"
  let ?s8 = "goto 0 At_switch (?s7\<lparr>dmtcp_restart_sem := 1\<rparr>)"
  let ?step = "restart_step 1 [] False"
  note facts = restarted_def restart_mode_def is_in_restart_mode_def thread_count_def
  have 1: "?step restarted ?s1" using event_restart [of restarted 1 "[]" False] by (simp add: facts)
  have 2: "?step ?s1 ?s2" using wake_template [of ?s1 1 "[]" False] by (simp add: facts)
  have 3: "?step ?s2 ?s3" by (rule notice_restart) (simp_all add: facts)
  have 4: "?step ?s3 ?s4" using count_threads [of ?s3 1 "[]" False] by (simp add: facts)
  have 5: "?step ?s4 ?s5" by (rule become_branch) (simp_all add: facts)
  have 6: "?step ?s5 ?s6" using read_mode [of 0 1 ?s5 "[]" False] by (simp add: facts)
  have 7: "?step ?s6 ?s7" by (rule save_context) (simp_all add: facts)
  have 8: "?step ?s7 ?s8" using notify_template_thread [of 0 1 ?s7 "[]" False] by (simp add: facts)
  have 9: "?step ?s8 (goto 0 Aborted ?s8)" using switch [of 0 1 ?s8 "[]" False] by (simp add: facts switch_on_entry_def)
  have "restart_steps 1 [] False restarted (goto 0 Aborted ?s8)"
    by (rule one_step [OF _ 9], rule one_step [OF _ 8], rule one_step [OF _ 7], rule one_step [OF _ 6],
        rule one_step [OF _ 5], rule one_step [OF _ 4], rule one_step [OF _ 3], rule one_step [OF _ 2],
        rule one_step [OF _ 1], rule no_restart_step)
  then show ?thesis by (rule exI [where x = "goto 0 Aborted ?s8", OF conjI]) simp
qed

section \<open>Branches\<close>

text \<open>After a fork the threads are back at the switch, with the mode of the template.\<close>

lemma forked_threads:
  assumes "restart_steps n head True restarted s" and "thread_count head = n" and "template_thread s = Looping"
  shows "mode s = DMTCP_RESTART_INTO_TEMPLATE" "checkpoint_thread s = Finished"
    and "i < n \<Longrightarrow> threads (fast_multithreaded_fork s) i = At_switch"
    and "i < n \<Longrightarrow> mode_on_entry s i = DMTCP_RESTART_INTO_TEMPLATE"
proof -
  have ok: "restart_ok n True s" by (rule restart_steps_ok [OF assms(1) restarted_ok assms(2)])
  then show "mode s = DMTCP_RESTART_INTO_TEMPLATE" "checkpoint_thread s = Finished"
    using assms(3) by (auto simp: restart_ok_def started_ok_def modes_ok_def split: checkpoint_pc.splits)
  assume i: "i < n"
  with ok assms(3) have "notified (threads s i)" by (simp add: restart_ok_def barrier_def)
  then show "threads (fast_multithreaded_fork s) i = At_switch"
    by (simp add: fast_multithreaded_fork_def)
  from \<open>notified (threads s i)\<close> show "mode_on_entry s i = DMTCP_RESTART_INTO_TEMPLATE"
    using thread_okD [OF ok i] by (auto simp: thread_ok_def)
qed

definition in_branch :: "nat \<Rightarrow> restart \<Rightarrow> bool" where
  "in_branch n s \<longleftrightarrow>
     checkpoint_thread s = Finished \<and>
     template_thread s \<in> {In_branch, Announcing, Broadcasting, Announced, Transferring} \<and>
     mode s = (if template_thread s = In_branch then DMTCP_RESTART_INTO_TEMPLATE
               else TARGET_BRANCH_AFTER_RESTART) \<and>
     (\<forall>i<n. mode_on_entry s i = DMTCP_RESTART_INTO_TEMPLATE)"

lemma forked_in_branch:
  assumes "restart_steps n head True restarted s" and "thread_count head = n" and "template_thread s = Looping"
  shows "in_branch n (fast_multithreaded_fork s)"
  using forked_threads [OF assms] by (simp add: in_branch_def fast_multithreaded_fork_def)

subsection \<open>A fork while a thread holds the mutex\<close>

definition blocked :: "nat \<Rightarrow> nat \<Rightarrow> restart \<Rightarrow> bool" where
  "blocked n j s \<longleftrightarrow>
     in_branch n s \<and> template_thread_mut s = Thread j \<and> template_thread s \<in> {In_branch, Announcing} \<and>
     (\<forall>i<n. threads s i \<in> {At_switch, Locking})"

lemma restart_step_blocked: "restart_step n head True s s' \<Longrightarrow> blocked n j s \<Longrightarrow> blocked n j s'"
  by (cases rule: restart_step.cases, assumption)
    (auto simp: blocked_def in_branch_def switch_on_entry_def)

lemma spurious_wakeup_blocked: "spurious_wakeup n s s' \<Longrightarrow> blocked n j s \<Longrightarrow> blocked n j s'"
  by (cases rule: spurious_wakeup.cases, assumption) (auto simp: blocked_def)

text \<open>
  C35. A fork at the wrong moment stops a branch. The threads of the template take the mutex to look at
  the mode after they have notified the template thread, so one of them may hold it when the template is
  forked. The copy of the mutex is locked in the child, but there its holder starts again at the switch:
  nobody ever unlocks it, no thread of the branch ever listens to the model checker, and the template
  thread never gets to its broadcast.
\<close>

theorem fork_with_held_mutex_blocks_branch:
  assumes "restart_steps n head True restarted s" and "thread_count head = n"
    and "template_thread s = Looping" and "template_thread_mut s = Thread j"
    and "restart_steps n head True (fast_multithreaded_fork s) t"
  shows "template_thread_mut t = Thread j \<and> template_thread t \<in> {In_branch, Announcing} \<and>
    (\<forall>i<n. threads t i \<noteq> Awaiting)"
proof -
  have "blocked n j (fast_multithreaded_fork s)"
    using forked_in_branch [OF assms(1-3)] forked_threads(3) [OF assms(1-3)] assms(4)
    by (simp add: blocked_def fast_multithreaded_fork_def)
  then have "blocked n j t"
    using restart_invariant [OF assms(5), of "blocked n j"]
      restart_step_blocked spurious_wakeup_blocked by blast
  then show ?thesis by (auto simp: blocked_def)
qed

text \<open>The thread has taken the mutex and not yet looked at the mode.\<close>

definition mutex_held :: restart where
  "mutex_held = goto 0 Checking (template_of_one\<lparr>template_thread_mut := Thread 0\<rparr>)"

lemma mutex_held_reached: "restart_steps 1 one_thread True restarted mutex_held"
proof -
  let ?s = "goto 0 Locking template_of_one"
  have 1: "restart_step 1 one_thread True template_of_one ?s"
    using switch [of 0 1 template_of_one one_thread True] by (simp add: template_of_one_def restarted_def switch_on_entry_def)
  have 2: "restart_step 1 one_thread True ?s mutex_held"
    using lock [of 0 1 ?s one_thread True] by (simp add: template_of_one_def restarted_def mutex_held_def)
  show ?thesis by (rule one_step [OF one_step [OF template_of_one_reached 1] 2])
qed

theorem fork_with_held_mutex_blocks_branch_witness:
  "{t. restart_steps 1 one_thread True (fast_multithreaded_fork mutex_held) t} \<inter> {t. threads t 0 = Awaiting} = {}"
  using fork_with_held_mutex_blocks_branch [OF mutex_held_reached one_thread_count, of 0]
  by (auto simp: mutex_held_def template_of_one_def)

subsection \<open>A fork while the mutex is free\<close>

text \<open>Who holds the mutex; and nobody is left waiting once the broadcast is past.\<close>

definition branch_ok :: "nat \<Rightarrow> restart \<Rightarrow> bool" where
  "branch_ok n s \<longleftrightarrow>
     in_branch n s \<and>
     (\<forall>i<n. threads s i \<in> {At_switch, Locking, Checking, In_cond_wait, Awaiting}) \<and>
     (\<forall>i<n. threads s i = Checking \<longleftrightarrow> template_thread_mut s = Thread i) \<and>
     (template_thread_mut s = Template_thread \<longleftrightarrow> template_thread s \<in> {Broadcasting, Announced}) \<and>
     (\<forall>i. template_thread_mut s = Thread i \<longrightarrow> i < n) \<and>
     (\<forall>i<n. threads s i = In_cond_wait \<longrightarrow> template_thread s \<in> {In_branch, Announcing, Broadcasting})"

lemma branch_ok_goto:
  assumes "threads s' = (threads s)(i := pc)" and "branch_ok n s" and "i < n"
    and "pc \<in> {At_switch, Locking, Checking, In_cond_wait, Awaiting}"
    and "template_thread s' = template_thread s" and "mode s' = mode s"
    and "checkpoint_thread s' = checkpoint_thread s" and "mode_on_entry s' = mode_on_entry s"
    and "template_thread_mut s' =
      (if pc = Checking then Thread i else if threads s i = Checking then Nobody
       else template_thread_mut s)"
    and "pc = Checking \<Longrightarrow> template_thread_mut s = Nobody"
    and "pc = In_cond_wait \<Longrightarrow> template_thread s \<in> {In_branch, Announcing, Broadcasting}"
  shows "branch_ok n s'"
proof -
  from assms(2) have b: "in_branch n s"
      "\<And>j. j < n \<Longrightarrow> threads s j \<in> {At_switch, Locking, Checking, In_cond_wait, Awaiting}"
      "\<And>j. j < n \<Longrightarrow> threads s j = Checking \<longleftrightarrow> template_thread_mut s = Thread j"
      "template_thread_mut s = Template_thread \<longleftrightarrow> template_thread s \<in> {Broadcasting, Announced}"
      "\<And>j. template_thread_mut s = Thread j \<Longrightarrow> j < n"
      "\<And>j. j < n \<Longrightarrow> threads s j = In_cond_wait \<Longrightarrow>
        template_thread s \<in> {In_branch, Announcing, Broadcasting}"
    by (auto simp: branch_ok_def)
  have "in_branch n s'" using b(1) unfolding in_branch_def assms(5-8) .
  moreover have "threads s' j = Checking \<longleftrightarrow> template_thread_mut s' = Thread j" if "j < n" for j
    using b(3) [OF that] b(3) [OF assms(3)] assms(1,9,10) by (cases "j = i") auto
  moreover have "template_thread_mut s' = Template_thread \<longleftrightarrow> template_thread s' \<in> {Broadcasting, Announced}"
    using b(3) [OF assms(3)] b(4) assms(5,9,10) by auto
  moreover have "j < n" if "template_thread_mut s' = Thread j" for j
    using that b(5) assms(3,9) by (auto split: if_splits)
  moreover have "template_thread s' \<in> {In_branch, Announcing, Broadcasting}"
    if "j < n" "threads s' j = In_cond_wait" for j
    using that b(6) assms(1,5,11) by (cases "j = i") simp_all
  moreover have "threads s' j \<in> {At_switch, Locking, Checking, In_cond_wait, Awaiting}" if "j < n" for j
    using b(2) [OF that] assms(1,4) by (cases "j = i") simp_all
  ultimately show ?thesis unfolding branch_ok_def by blast
qed

lemma branch_okD:
  assumes "branch_ok n s"
  shows "checkpoint_thread s = Finished"
    and "template_thread s \<in> {In_branch, Announcing, Broadcasting, Announced, Transferring}"
    and "i < n \<Longrightarrow> threads s i \<in> {At_switch, Locking, Checking, In_cond_wait, Awaiting}"
  using assms unfolding branch_ok_def in_branch_def by blast+

lemma restart_step_branch_ok:
  assumes "restart_step n head True s s'" and "branch_ok n s"
  shows "branch_ok n s'"
  using assms(1)
proof cases
  case (switch i)
  with assms(2) have "mode_on_entry s i = DMTCP_RESTART_INTO_TEMPLATE"
    by (simp add: branch_ok_def in_branch_def)
  with switch assms(2) show ?thesis
    by (intro branch_ok_goto [of s' s i Locking]) (simp_all add: switch_on_entry_def)
next
  case (lock i)
  with assms(2) show ?thesis by (intro branch_ok_goto [of s' s i Checking]) simp_all
next
  case (still_template i)
  with assms(2) have "template_thread s = In_branch"
    by (auto simp: branch_ok_def in_branch_def)
  with still_template assms(2) show ?thesis by (intro branch_ok_goto [of s' s i In_cond_wait]) simp_all
next
  case (is_branch i)
  with assms(2) show ?thesis by (intro branch_ok_goto [of s' s i Awaiting]) simp_all
next
  case set_branch_mode
  with assms(2) show ?thesis by (auto simp: branch_ok_def in_branch_def)
next
  case announce
  with assms(2) show ?thesis by (auto simp: branch_ok_def in_branch_def)
next
  case broadcast
  with assms(2) show ?thesis by (auto simp: branch_ok_def in_branch_def)
next
  case release
  with assms(2) show ?thesis by (auto simp: branch_ok_def in_branch_def)
qed (use branch_okD [OF assms(2)] in \<open>force+\<close>)

lemma spurious_wakeup_branch_ok:
  assumes "spurious_wakeup n s s'" and "branch_ok n s"
  shows "branch_ok n s'"
  using assms(1)
proof cases
  case (wakes_up i)
  with assms(2) show ?thesis by (intro branch_ok_goto [of s' s i Locking]) simp_all
qed

text \<open>What is left to do.\<close>

definition announced :: "restart \<Rightarrow> bool" where
  "announced s \<longleftrightarrow> template_thread s \<in> {Announced, Transferring}"

fun steps_left :: "bool \<Rightarrow> thread_pc \<Rightarrow> nat" where
  "steps_left past At_switch = (if past then 3 else 6)"
| "steps_left past Locking = (if past then 2 else 5)"
| "steps_left past Checking = (if past then 1 else 4)"
| "steps_left past In_cond_wait = 3"
| "steps_left past _ = 0"

fun template_steps_left :: "template_pc \<Rightarrow> nat" where
  "template_steps_left In_branch = 4"
| "template_steps_left Announcing = 3"
| "template_steps_left Broadcasting = 2"
| "template_steps_left Announced = 1"
| "template_steps_left _ = 0"

definition work_left :: "nat \<Rightarrow> restart \<Rightarrow> nat" where
  "work_left n s =
     template_steps_left (template_thread s) + (\<Sum>i<n. steps_left (announced s) (threads s i))"

lemma steps_left_le: "steps_left past pc \<le> 6"
  by (cases "(past, pc)" rule: steps_left.cases) auto

lemma work_left_le: "work_left n s \<le> 6 * n + 4"
proof -
  have "(\<Sum>i<n. steps_left (announced s) (threads s i)) \<le> (\<Sum>i<n. 6)"
    by (rule sum_mono) (rule steps_left_le)
  moreover have "template_steps_left (template_thread s) \<le> 4"
    by (cases "template_thread s" rule: template_steps_left.cases) auto
  ultimately show ?thesis by (simp add: work_left_def)
qed

lemma work_left_goto:
  assumes "i < n" and "threads s' = (threads s)(i := pc)" and "template_thread s' = template_thread s"
    and "steps_left (announced s) pc < steps_left (announced s) (threads s i)"
  shows "work_left n s' < work_left n s"
proof -
  have "announced s' = announced s" using assms(3) by (simp add: announced_def)
  moreover have "(\<Sum>j<n. steps_left (announced s) (threads s' j))
      < (\<Sum>j<n. steps_left (announced s) (threads s j))"
    by (rule sum_strict_mono_ex1) (use assms in auto)
  ultimately show ?thesis using assms(3) by (simp add: work_left_def)
qed

lemma work_left_template:
  assumes "template_steps_left (template_thread s') < template_steps_left (template_thread s)"
    and "\<And>i. i < n \<Longrightarrow>
      steps_left (announced s') (threads s' i) \<le> steps_left (announced s) (threads s i)"
  shows "work_left n s' < work_left n s"
  using assms(1) sum_mono [of "{..<n}" "\<lambda>i. steps_left (announced s') (threads s' i)"
      "\<lambda>i. steps_left (announced s) (threads s i)"] assms(2)
  by (force simp: work_left_def)

lemma restart_step_works:
  assumes "restart_step n head True s s'" and "branch_ok n s"
  shows "work_left n s' < work_left n s"
  using assms(1)
proof cases
  case (switch i)
  with assms(2) have "mode_on_entry s i = DMTCP_RESTART_INTO_TEMPLATE"
    by (simp add: branch_ok_def in_branch_def)
  with switch show ?thesis by (intro work_left_goto [of i n s' s Locking]) (simp_all add: switch_on_entry_def)
next
  case (lock i)
  then show ?thesis by (intro work_left_goto [of i n s' s Checking]) simp_all
next
  case (still_template i)
  with assms(2) have "\<not> announced s"
    by (auto simp: branch_ok_def in_branch_def announced_def)
  with still_template show ?thesis by (intro work_left_goto [of i n s' s In_cond_wait]) simp_all
next
  case (is_branch i)
  then show ?thesis by (intro work_left_goto [of i n s' s Awaiting]) simp_all
next
  case broadcast
  have "steps_left True (if pc = In_cond_wait then Locking else pc) \<le> steps_left False pc" for pc
    by (cases "(False, pc)" rule: steps_left.cases) auto
  with broadcast show ?thesis by (intro work_left_template) (simp_all add: announced_def)
next
  case set_branch_mode
  then show ?thesis by (intro work_left_template) (simp_all add: announced_def)
next
  case announce
  then show ?thesis by (intro work_left_template) (simp_all add: announced_def)
next
  case release
  then show ?thesis by (intro work_left_template) (simp_all add: announced_def)
qed (use branch_okD [OF assms(2)] in \<open>force+\<close>)

text \<open>When no step is left, all threads listen.\<close>

lemma stuck_branch:
  assumes "branch_ok n s" and "\<nexists>s'. restart_step n head True s s'" and "i < n"
  shows "threads s i = Awaiting"
proof -
  have late: "template_thread s \<in> {Announcing, Transferring}"
    using assms(1,2) restart_step.set_branch_mode [of s n head True]
      restart_step.broadcast [of s n head True] restart_step.release [of s n head True]
    by (auto simp: branch_ok_def in_branch_def)
  then have mode: "mode s = TARGET_BRANCH_AFTER_RESTART"
    using assms(1) by (auto simp: branch_ok_def in_branch_def)
  have not_checking: "threads s j \<noteq> Checking" if "j < n" for j
    using restart_step.is_branch [OF that _ mode] assms(2) by blast
  have "template_thread_mut s \<noteq> Template_thread"
    using assms(1) late by (auto simp: branch_ok_def)
  moreover have "template_thread_mut s \<noteq> Thread j" for j
    using assms(1) not_checking by (auto simp: branch_ok_def)
  ultimately have free: "template_thread_mut s = Nobody" by (cases "template_thread_mut s") auto
  have "template_thread s \<noteq> Announcing"
    using restart_step.announce [OF _ free] assms(2) by blast
  then have "threads s i \<noteq> In_cond_wait" using late assms(1,3) by (auto simp: branch_ok_def)
  moreover have "threads s i \<noteq> Locking"
    using restart_step.lock [OF assms(3) _ free] assms(2) by blast
  moreover have "threads s i \<noteq> At_switch"
    using restart_step.switch [OF assms(3)] assms(2) by blast
  ultimately show ?thesis
    using assms(1,3) not_checking [OF assms(3)] by (auto simp: branch_ok_def)
qed

lemma branch_run:
  assumes "branch_ok n t" and "(restart_step n head True ^^ k) t u"
  shows "branch_ok n u \<and> k + work_left n u \<le> work_left n t"
  using assms(2)
proof (induction k arbitrary: u)
  case 0
  with assms(1) show ?case by simp
next
  case (Suc k)
  from Suc.prems obtain v where v: "(restart_step n head True ^^ k) t v" "restart_step n head True v u"
    by auto
  with Suc.IH have "branch_ok n v" "k + work_left n v \<le> work_left n t" by auto
  with restart_step_branch_ok [OF v(2)] restart_step_works [OF v(2)] show ?case by force
qed

text \<open>
  C19. Otherwise every branch gets going. If no thread holds the mutex at the fork, then from any state
  the branch gets into, spurious wake-ups included, it makes at most \<open>6 * n + 4\<close> more steps of its
  own, and when no step is left every one of its \<open>n\<close> threads is listening to the model checker: no
  thread misses the broadcast and none is left behind at the mutex.
\<close>

theorem branch_threads_reach_scheduler:
  assumes "restart_steps n head True restarted s" and "thread_count head = n"
    and "template_thread s = Looping" and "template_thread_mut s = Nobody"
    and "restart_steps n head True (fast_multithreaded_fork s) t"
    and "(restart_step n head True ^^ k) t u"
  shows "k \<le> 6 * n + 4 \<and>
    ((\<nexists>v. restart_step n head True u v) \<longrightarrow> (\<forall>i<n. threads u i = Awaiting))"
proof -
  have "branch_ok n (fast_multithreaded_fork s)"
    using forked_in_branch [OF assms(1-3)] forked_threads(3) [OF assms(1-3)] assms(4)
    by (simp add: branch_ok_def fast_multithreaded_fork_def)
  then have "branch_ok n t"
    using restart_invariant [OF assms(5), of "branch_ok n"]
      restart_step_branch_ok spurious_wakeup_branch_ok by blast
  from branch_run [OF this assms(6)] work_left_le [of n t] stuck_branch show ?thesis by fastforce
qed

text \<open>The branch of the template with one thread, from its fork to its end.\<close>

definition listening :: restart where
  "listening =
     goto 0 Awaiting ((fast_multithreaded_fork template_of_one)
       \<lparr>mode := TARGET_BRANCH_AFTER_RESTART, template_thread := Transferring\<rparr>)"

lemma seven_steps:
  assumes "P a b" "P b c" "P c d" "P d e" "P e f" "P f g" "P g h"
  shows "(P ^^ 7) a h"
  using assms by (simp add: eval_nat_numeral relcompp_apply) blast

lemma listening_reached:
  "(restart_step 1 one_thread True ^^ 7) (fast_multithreaded_fork template_of_one) listening"
proof -
  let ?t = "fast_multithreaded_fork template_of_one"
  let ?t1 = "?t\<lparr>template_thread := Announcing, mode := TARGET_BRANCH_AFTER_RESTART\<rparr>"
  let ?t2 = "?t1\<lparr>template_thread := Broadcasting, template_thread_mut := Template_thread\<rparr>"
  let ?t3 = "?t2\<lparr>template_thread := Announced,
     threads := \<lambda>i. if threads ?t2 i = In_cond_wait then Locking else threads ?t2 i\<rparr>"
  let ?t4 = "?t3\<lparr>template_thread := Transferring, template_thread_mut := Nobody\<rparr>"
  let ?t5 = "goto 0 Locking ?t4"
  let ?t6 = "goto 0 Checking (?t5\<lparr>template_thread_mut := Thread 0\<rparr>)"
  let ?t7 = "goto 0 Awaiting (?t6\<lparr>template_thread_mut := Nobody\<rparr>)"
  let ?step = "restart_step 1 one_thread True"
  note facts = fast_multithreaded_fork_def template_of_one_def restarted_def resurrected_def
    switch_on_entry_def
  have 1: "?step ?t ?t1" by (rule set_branch_mode) (simp add: facts)
  have 2: "?step ?t1 ?t2" by (rule announce) (simp_all add: facts)
  have 3: "?step ?t2 ?t3" by (rule broadcast) simp
  have 4: "?step ?t3 ?t4" by (rule release) simp
  have 5: "?step ?t4 ?t5" using switch [of 0 1 ?t4 one_thread True] by (simp add: facts)
  have 6: "?step ?t5 ?t6" by (rule lock) simp_all
  have 7: "?step ?t6 ?t7" by (rule is_branch) simp_all
  have "?t7 = listening" by (simp add: listening_def facts fun_eq_iff)
  with 7 have "?step ?t6 listening" by simp
  with 1 2 3 4 5 6 show ?thesis by (rule seven_steps [of ?step])
qed

theorem branch_threads_reach_scheduler_witness: "threads listening 0 = Awaiting"
proof -
  have "\<nexists>v. restart_step 1 one_thread True listening v"
    by (auto elim!: restart_step.cases
        simp: listening_def fast_multithreaded_fork_def template_of_one_def restarted_def)
  with branch_threads_reach_scheduler [OF template_of_one_reached one_thread_count _ _
      no_restart_step listening_reached]
  show ?thesis by (simp add: template_of_one_def restarted_def)
qed

end
