(* ===== verification/Recording_Steps.thy ===== *)
theory Recording_Steps
  imports Recording
begin

text \<open>
  Threads that initialise, lock and unlock mutexes, wait on, signal and broadcast condition variables and
  post to and wait on semaphores while the target is recorded, interleaved at the critical sections of the
  wrappers: a step relation whose steps are the sections of \<open>Recording\<close> and, between them, the effect of
  the C library's operation on the real object. The real objects behave as POSIX says: a lock succeeds
  when the mutex is free, a wait when the value is positive; the caller of unlock or of a wait on a
  condition variable holds the mutex; such a wait releases the mutex and returns, woken or timed out, when
  it has it again. Any call may fail. Left out are \<^verbatim>\<open>sem_init\<close>, \<^verbatim>\<open>sem_destroy\<close>, \<^verbatim>\<open>pthread_cond_init\<close>
  and \<^verbatim>\<open>pthread_cond_destroy\<close>.

  At a checkpoint no thread is inside a wrapper between its real operation and its second section
  (\<open>quiescent\<close>). The theorems say what the records are then worth.
\<close>

section \<open>Threads at work\<close>

text \<open>
  Where a thread is: in no operation; about to perform the real operation on the object at an
  address, holding a pointer to its record; or past it, with the record still to be updated. A wait on a
  condition variable also names the mutex; \<open>Parked\<close> is the thread inside \<^verbatim>\<open>pthread_cond_timedwait\<close>, which
  has released the mutex.
\<close>

datatype activity =
    Idle
  | Locking address nat | Locked address nat
  | Unlocking address nat | Unlocked address nat
  | Posting address nat | Posted address nat
  | Waiting address nat | Waited address nat
  | Initializing address nat
  | Parking address address nat | Parked address address nat | Unparked address address nat
  | Signalling address nat | Broadcasting address nat

record system =
  records :: rec_list
  holder :: "address \<Rightarrow> runner_id option"
  sem_value :: "address \<Rightarrow> nat"
  doing :: "runner_id \<Rightarrow> activity"

definition goes :: "runner_id \<Rightarrow> activity \<Rightarrow> system \<Rightarrow> system" where
  "goes t a \<sigma> = \<sigma>\<lparr>doing := (doing \<sigma>)(t := a)\<rparr>"

text \<open>A call that fails returns without changing the object or its record.\<close>

fun may_fail :: "activity \<Rightarrow> bool" where
  "may_fail (Locking m i) = True"
| "may_fail (Unlocking m i) = True"
| "may_fail (Posting s i) = True"
| "may_fail (Waiting s i) = True"
| "may_fail (Parking c m i) = True"
| "may_fail _ = False"

inductive step :: "system \<Rightarrow> system \<Rightarrow> bool" where
  lock_enter: "doing \<sigma> t = Idle \<Longrightarrow> mutex_enter m (records \<sigma>) = (i, r) \<Longrightarrow>
    step \<sigma> (goes t (Locking m i) (\<sigma>\<lparr>records := r\<rparr>))"
| lock_real: "doing \<sigma> t = Locking m i \<Longrightarrow> holder \<sigma> m = None \<Longrightarrow>
    step \<sigma> (goes t (Locked m i) (\<sigma>\<lparr>holder := (holder \<sigma>)(m := Some t)\<rparr>))"
| lock_leave: "doing \<sigma> t = Locked m i \<Longrightarrow> mutex_lock_leave i t (records \<sigma>) = Inr r \<Longrightarrow>
    step \<sigma> (goes t Idle (\<sigma>\<lparr>records := r\<rparr>))"
| unlock_enter: "doing \<sigma> t = Idle \<Longrightarrow> holder \<sigma> m = Some t \<Longrightarrow>
    mutex_unlock_enter m (records \<sigma>) = Inr i \<Longrightarrow> step \<sigma> (goes t (Unlocking m i) \<sigma>)"
| unlock_real: "doing \<sigma> t = Unlocking m i \<Longrightarrow>
    step \<sigma> (goes t (Unlocked m i) (\<sigma>\<lparr>holder := (holder \<sigma>)(m := None)\<rparr>))"
| unlock_leave: "doing \<sigma> t = Unlocked m i \<Longrightarrow> mutex_unlock_leave i 0 (records \<sigma>) = Inr r \<Longrightarrow>
    step \<sigma> (goes t Idle (\<sigma>\<lparr>records := r\<rparr>))"
| post_enter: "doing \<sigma> t = Idle \<Longrightarrow>
    sem_use_enter s (word_of_nat (sem_value \<sigma> s)) (records \<sigma>) = (i, r) \<Longrightarrow>
    step \<sigma> (goes t (Posting s i) (\<sigma>\<lparr>records := r\<rparr>))"
| post_real: "doing \<sigma> t = Posting s i \<Longrightarrow>
    step \<sigma> (goes t (Posted s i) (\<sigma>\<lparr>sem_value := (sem_value \<sigma>)(s := sem_value \<sigma> s + 1)\<rparr>))"
| post_leave: "doing \<sigma> t = Posted s i \<Longrightarrow> sem_post_leave i 0 (records \<sigma>) = Inr r \<Longrightarrow>
    step \<sigma> (goes t Idle (\<sigma>\<lparr>records := r\<rparr>))"
| wait_enter: "doing \<sigma> t = Idle \<Longrightarrow>
    sem_use_enter s (word_of_nat (sem_value \<sigma> s)) (records \<sigma>) = (i, r) \<Longrightarrow>
    step \<sigma> (goes t (Waiting s i) (\<sigma>\<lparr>records := r\<rparr>))"
| wait_real: "doing \<sigma> t = Waiting s i \<Longrightarrow> 0 < sem_value \<sigma> s \<Longrightarrow>
    step \<sigma> (goes t (Waited s i) (\<sigma>\<lparr>sem_value := (sem_value \<sigma>)(s := sem_value \<sigma> s - 1)\<rparr>))"
| wait_leave: "doing \<sigma> t = Waited s i \<Longrightarrow> sem_wait_leave i (records \<sigma>) = Inr r \<Longrightarrow>
    step \<sigma> (goes t Idle (\<sigma>\<lparr>records := r\<rparr>))"
| init_enter: "doing \<sigma> t = Idle \<Longrightarrow> mutex_enter m (records \<sigma>) = (i, r) \<Longrightarrow>
    step \<sigma> (goes t (Initializing m i) (\<sigma>\<lparr>records := r\<rparr>))"
| init_leave: "doing \<sigma> t = Initializing m i \<Longrightarrow> mutex_init_leave i rc (records \<sigma>) = Inr r \<Longrightarrow>
    step \<sigma> (goes t Idle (\<sigma>\<lparr>records := r\<rparr>))"
| cond_enter: "doing \<sigma> t = Idle \<Longrightarrow> holder \<sigma> m = Some t \<Longrightarrow> thread_id_of th (records \<sigma>) = Inr t \<Longrightarrow>
    cond_wait_enter th c m (records \<sigma>) = Inr (i, r) \<Longrightarrow>
    step \<sigma> (goes t (Parking c m i) (\<sigma>\<lparr>records := r\<rparr>))"
| park: "doing \<sigma> t = Parking c m i \<Longrightarrow>
    step \<sigma> (goes t (Parked c m i) (\<sigma>\<lparr>holder := (holder \<sigma>)(m := None)\<rparr>))"
| unpark: "doing \<sigma> t = Parked c m i \<Longrightarrow> holder \<sigma> m = None \<Longrightarrow>
    step \<sigma> (goes t (if timed_out then Parking c m i else Unparked c m i)
      (\<sigma>\<lparr>holder := (holder \<sigma>)(m := Some t)\<rparr>))"
| cond_leave: "doing \<sigma> t = Unparked c m i \<Longrightarrow> thread_id_of th (records \<sigma>) = Inr t \<Longrightarrow>
    cond_wait_leave th i (records \<sigma>) = Inr r \<Longrightarrow> step \<sigma> (goes t Idle (\<sigma>\<lparr>records := r\<rparr>))"
| signal_enter: "doing \<sigma> t = Idle \<Longrightarrow> cond_signal_enter th c (records \<sigma>) = Inr (i, r) \<Longrightarrow>
    step \<sigma> (goes t (Signalling c i) (\<sigma>\<lparr>records := r\<rparr>))"
| signal_leave: "doing \<sigma> t = Signalling c i \<Longrightarrow> cond_signal_leave i rc (records \<sigma>) = Inr r \<Longrightarrow>
    step \<sigma> (goes t Idle (\<sigma>\<lparr>records := r\<rparr>))"
| broadcast_enter: "doing \<sigma> t = Idle \<Longrightarrow> cond_wake_enter th c (records \<sigma>) = Inr (i, r) \<Longrightarrow>
    step \<sigma> (goes t (Broadcasting c i) (\<sigma>\<lparr>records := r\<rparr>))"
| broadcast_leave: "doing \<sigma> t = Broadcasting c i \<Longrightarrow> cond_broadcast_leave i rc (records \<sigma>) = Inr r \<Longrightarrow>
    step \<sigma> (goes t Idle (\<sigma>\<lparr>records := r\<rparr>))"
| call_fails: "may_fail (doing \<sigma> t) \<Longrightarrow> step \<sigma> (goes t Idle \<sigma>)"

inductive steps :: "system \<Rightarrow> system \<Rightarrow> bool" where
  no_step: "steps \<sigma> \<sigma>"
| one_more: "steps \<sigma> \<tau> \<Longrightarrow> step \<tau> \<rho> \<Longrightarrow> steps \<sigma> \<rho>"

text \<open>
  No thread has locked or unlocked a mutex or changed a semaphore without having updated its record. A wait
  on a condition variable never updates the record of the mutex, so it does not count.
\<close>

fun unrecorded :: "activity \<Rightarrow> bool" where
  "unrecorded (Locked m i) = True"
| "unrecorded (Unlocked m i) = True"
| "unrecorded (Posted s i) = True"
| "unrecorded (Waited s i) = True"
| "unrecorded _ = False"

definition quiescent :: "system \<Rightarrow> bool" where
  "quiescent \<sigma> \<longleftrightarrow> (\<forall>t. \<not> unrecorded (doing \<sigma> t))"

text \<open>What the list records about an address.\<close>

definition recorded_at :: "rec_list \<Rightarrow> address \<Rightarrow> recorded_state option" where
  "recorded_at recs a = map_option (\<lambda>i. rec_state (recs ! i)) (find_object a recs)"

text \<open>Recording begins with all threads idle and records, if any, that agree with the objects.\<close>

definition recording_starts :: "system \<Rightarrow> bool" where
  "recording_starts \<sigma> \<longleftrightarrow>
     (\<forall>t. doing \<sigma> t = Idle) \<and>
     (\<forall>m ow. recorded_at (records \<sigma>) m = Some (Mut_state LOCKED ow) \<longrightarrow> holder \<sigma> m = Some ow) \<and>
     (\<forall>s n st. recorded_at (records \<sigma>) s = Some (Sem_state n st) \<longrightarrow> n = word_of_nat (sem_value \<sigma> s))"

section \<open>The list of records\<close>

lemma find_index_append:
  "find_index P (xs @ ys) =
     (case find_index P xs of Some i \<Rightarrow> Some i
      | None \<Rightarrow> map_option (\<lambda>j. length xs + j) (find_index P ys))"
  by (induction xs) (cases "find_index P ys"; auto split: option.splits)+

lemma find_index_Some: "find_index P xs = Some i \<Longrightarrow> i < length xs \<and> P (xs ! i)"
  by (induction xs arbitrary: i) (auto split: if_splits)

lemma find_index_map: "find_index P (map f xs) = find_index (\<lambda>x. P (f x)) xs"
  by (induction xs) auto

lemma find_object_locations: "find_object a recs = find_index (\<lambda>l. l = a) (map rec_location recs)"
  by (simp add: find_object_def find_index_map)

lemma find_object_Some:
  "find_object a recs = Some i \<Longrightarrow> i < length recs \<and> rec_location (recs ! i) = a"
  unfolding find_object_def by (drule find_index_Some) simp

lemma locations_set_rec_state [simp]:
  "map rec_location (set_rec_state i st recs) = map rec_location recs"
proof (cases "i < length recs")
  case True
  then have "map rec_location (set_rec_state i st recs) =
      (map rec_location recs)[i := map rec_location recs ! i]"
    by (simp add: set_rec_state_def map_update)
  then show ?thesis by simp
qed (simp add: set_rec_state_def list_update_beyond not_less)

lemma find_object_set_rec_state [simp]:
  "find_object a (set_rec_state i st recs) = find_object a recs"
  by (simp add: find_object_locations)

lemma find_object_append_new:
  "find_object a recs = None \<Longrightarrow>
     find_object b (recs @ [\<lparr>rec_location = a, rec_state = st\<rparr>]) =
       (if b = a then Some (length recs) else find_object b recs)"
  by (auto simp: find_object_def find_index_append split: option.splits)

text \<open>Entering leaves every earlier record in place, and the entered address is recorded after it.\<close>

lemma find_or_add_cases:
  assumes "find_or_add a st recs = (i, r)"
  obtains (found) "find_object a recs = Some i" "r = recs"
  | (added) "find_object a recs = None" "i = length recs"
      "r = recs @ [\<lparr>rec_location = a, rec_state = st\<rparr>]"
  using assms
  by (auto simp: find_or_add_def add_rec_entry_record_mode_def split: option.splits)

lemma recorded_at_set [simp]:
  assumes "find_object b recs = Some i"
  shows "recorded_at (set_rec_state i st recs) a = (if a = b then Some st else recorded_at recs a)"
proof -
  from find_object_Some [OF assms] have i: "i < length recs" "rec_location (recs ! i) = b" by simp_all
  show ?thesis
  proof (cases "find_object a recs")
    case (Some j)
    from find_object_Some [OF this] have j: "j < length recs" "rec_location (recs ! j) = a" by simp_all
    have "set_rec_state i st recs ! j = (if j = i then (recs ! i)\<lparr>rec_state := st\<rparr> else recs ! j)"
      using i(1) by (auto simp: set_rec_state_def)
    moreover have "j = i \<longleftrightarrow> a = b" using Some assms i(2) j(2) by (metis option.inject)
    ultimately show ?thesis using Some by (simp add: recorded_at_def)
  next
    case None
    with assms have "a \<noteq> b" by auto
    with None show ?thesis by (simp add: recorded_at_def)
  qed
qed

lemma recorded_at_find_or_add:
  assumes "find_or_add b st recs = (i, r)"
  shows "recorded_at r a = (if a = b \<and> recorded_at recs a = None then Some st else recorded_at recs a)"
    and "find_object b r = Some i"
    and "find_object a recs = Some j \<Longrightarrow> find_object a r = Some j"
proof -
  have "recorded_at r a = (if a = b \<and> recorded_at recs a = None then Some st else recorded_at recs a) \<and>
        find_object b r = Some i \<and> (find_object a recs = Some j \<longrightarrow> find_object a r = Some j)"
    using assms
  proof (cases rule: find_or_add_cases)
    case found
    then show ?thesis by (auto simp: recorded_at_def)
  next
    case added
    have "recs ! k = r ! k" if "find_object a recs = Some k" for k
      using find_object_Some [OF that] added by (simp add: nth_append)
    with added show ?thesis
      by (cases "find_object a recs") (auto simp: recorded_at_def find_object_append_new)
  qed
  then show "recorded_at r a = (if a = b \<and> recorded_at recs a = None then Some st else recorded_at recs a)"
    and "find_object b r = Some i"
    and "find_object a recs = Some j \<Longrightarrow> find_object a r = Some j" by auto
qed

section \<open>Threads in flight\<close>

definition count_doing :: "(activity \<Rightarrow> bool) \<Rightarrow> (runner_id \<Rightarrow> activity) \<Rightarrow> nat" where
  "count_doing P d = card {t. P (d t)}"

lemma count_doing_upd:
  assumes "finite {t. d t \<noteq> Idle}" and "\<not> P Idle"
  shows "(of_nat (count_doing P (d(t := a))) :: 32 word) =
     of_nat (count_doing P d) + (if P a then 1 else 0) - (if P (d t) then 1 else 0)"
proof -
  let ?S = "{u. u \<noteq> t \<and> P (d u)}"
  have fin: "finite ?S"
    by (rule finite_subset [OF _ assms(1)]) (use assms(2) in auto)
  have split: "{u. P ((d(t := b)) u)} = (if P b then insert t ?S else ?S)" for b by auto
  have "count_doing P (d(t := b)) = (if P b then Suc (card ?S) else card ?S)" for b
    unfolding count_doing_def split using fin by simp
  from this [of a] this [of "d t"] show ?thesis by simp
qed

fun posted_on :: "address \<Rightarrow> activity \<Rightarrow> bool" where
  "posted_on s (Posted s' i) = (s' = s)"
| "posted_on s _ = False"

fun waited_on :: "address \<Rightarrow> activity \<Rightarrow> bool" where
  "waited_on s (Waited s' i) = (s' = s)"
| "waited_on s _ = False"

text \<open>The address a thread works on and the position of its record.\<close>

fun works_on :: "activity \<Rightarrow> (address \<times> nat) option" where
  "works_on Idle = None"
| "works_on (Locking m i) = Some (m, i)"
| "works_on (Locked m i) = Some (m, i)"
| "works_on (Unlocking m i) = Some (m, i)"
| "works_on (Unlocked m i) = Some (m, i)"
| "works_on (Posting s i) = Some (s, i)"
| "works_on (Posted s i) = Some (s, i)"
| "works_on (Waiting s i) = Some (s, i)"
| "works_on (Waited s i) = Some (s, i)"
| "works_on (Initializing m i) = Some (m, i)"
| "works_on (Parking c m i) = Some (c, i)"
| "works_on (Parked c m i) = Some (c, i)"
| "works_on (Unparked c m i) = Some (c, i)"
| "works_on (Signalling c i) = Some (c, i)"
| "works_on (Broadcasting c i) = Some (c, i)"

definition pointers_ok :: "system \<Rightarrow> bool" where
  "pointers_ok \<sigma> \<longleftrightarrow>
     finite {t. doing \<sigma> t \<noteq> Idle} \<and>
     (\<forall>t a i. works_on (doing \<sigma> t) = Some (a, i) \<longrightarrow> find_object a (records \<sigma>) = Some i)"

fun holds :: "activity \<Rightarrow> address \<Rightarrow> bool" where
  "holds (Locked m' i) m = (m' = m)"
| "holds (Unlocking m' i) m = (m' = m)"
| "holds (Parking c m' i) m = (m' = m)"
| "holds _ m = False"

text \<open>The thread is past its unlock, or inside a wait that has released the mutex.\<close>

fun gave_up :: "activity \<Rightarrow> address \<Rightarrow> bool" where
  "gave_up (Unlocked m' i) m = (m' = m)"
| "gave_up (Parked c m' i) m = (m' = m)"
| "gave_up _ m = False"

definition holders_ok :: "system \<Rightarrow> bool" where
  "holders_ok \<sigma> \<longleftrightarrow>
     (\<forall>t m. holds (doing \<sigma> t) m \<longrightarrow> holder \<sigma> m = Some t) \<and>
     (\<forall>m ow. recorded_at (records \<sigma>) m = Some (Mut_state LOCKED ow) \<longrightarrow>
        holder \<sigma> m = Some ow \<or> gave_up (doing \<sigma> ow) m)"

definition values_ok :: "system \<Rightarrow> bool" where
  "values_ok \<sigma> \<longleftrightarrow>
     (\<forall>s n st. recorded_at (records \<sigma>) s = Some (Sem_state n st) \<longrightarrow>
        n + of_nat (count_doing (posted_on s) (doing \<sigma>)) =
        of_nat (sem_value \<sigma> s) + of_nat (count_doing (waited_on s) (doing \<sigma>)))"

lemmas entry_defs = mutex_enter_def sem_use_enter_def mutex_unlock_enter_def

lemmas leave_defs = mutex_lock_leave_def mutex_unlock_leave_def sem_post_leave_def sem_wait_leave_def
  mutex_init_leave_def

lemma with_mutex_Inr:
  "with_mutex i f recs = Inr r \<longleftrightarrow>
     (\<exists>s ow. rec_state (recs ! i) = Mut_state s ow \<and> r = set_rec_state i (f s ow) recs)"
  by (auto simp: with_mutex_def split: recorded_state.splits)

lemma with_sem_Inr:
  "with_sem i f recs = Inr r \<longleftrightarrow>
     (\<exists>n s. rec_state (recs ! i) = Sem_state n s \<and> r = set_rec_state i (Sem_state (f n) s) recs)"
  by (auto simp: with_sem_def split: recorded_state.splits)

text \<open>What the sections on condition variables do to the list: at most one record, of a condition variable.\<close>

definition cond_entered :: "address \<Rightarrow> rec_list \<Rightarrow> nat \<Rightarrow> rec_list \<Rightarrow> bool" where
  "cond_entered c recs i r \<longleftrightarrow>
     (\<exists>s0 r0. find_or_add c (Cond_state s0) recs = (i, r0) \<and>
        (r = r0 \<or> (\<exists>s. r = set_rec_state i (Cond_state s) r0)))"

definition cond_left :: "nat \<Rightarrow> rec_list \<Rightarrow> rec_list \<Rightarrow> bool" where
  "cond_left i recs r \<longleftrightarrow> r = recs \<or> (\<exists>s. r = set_rec_state i (Cond_state s) recs)"

lemma with_cond_left: "with_cond i f recs = Inr r \<Longrightarrow> cond_left i recs r"
  by (auto simp: with_cond_def cond_left_def res_simps split: recorded_state.splits)

lemma cond_sections_left:
  "cond_wait_leave th i recs = Inr r \<Longrightarrow> cond_left i recs r"
  "cond_signal_leave i rc recs = Inr r \<Longrightarrow> cond_left i recs r"
  "cond_broadcast_leave i rc recs = Inr r \<Longrightarrow> cond_left i recs r"
  by (auto simp: cond_wait_leave_def cond_signal_leave_def cond_broadcast_leave_def res_simps cond_left_def
      dest: with_cond_left split: if_splits)

lemma cond_wake_entered: "cond_wake_enter th c recs = Inr (i, r) \<Longrightarrow>
    \<exists>s0. find_or_add c (Cond_state s0) recs = (i, r)"
  by (auto simp: cond_wake_enter_def find_or_add_def res_simps split: option.splits)

lemma cond_sections_entered:
  "cond_wake_enter th c recs = Inr (i, r) \<Longrightarrow> cond_entered c recs i r"
  "cond_signal_enter th c recs = Inr (i, r) \<Longrightarrow> cond_entered c recs i r"
  "cond_wait_enter th c m recs = Inr (i, r) \<Longrightarrow> cond_entered c recs i r"
proof -
  show "cond_wake_enter th c recs = Inr (i, r) \<Longrightarrow> cond_entered c recs i r"
    using cond_wake_entered by (fastforce simp: cond_entered_def)
  show "cond_signal_enter th c recs = Inr (i, r) \<Longrightarrow> cond_entered c recs i r"
    using cond_wake_entered [of th c recs] with_cond_left
    by (fastforce simp: cond_signal_enter_def cond_entered_def cond_left_def res_simps)
  show "cond_entered c recs i r" if run: "cond_wait_enter th c m recs = Inr (i, r)"
  proof -
    from run obtain tid where tid: "thread_id_of th recs = Inr tid"
      by (auto simp: cond_wait_enter_def res_simps)
    obtain j r0 where r0: "find_or_add c
        (Cond_state (new_cond_state CV_INITIALIZED tid m (Some []))) recs = (j, r0)" by fastforce
    with run tid have "j = i" and "with_cond i (enter_waiting_room tid m) r0 = Inr r"
      by (auto simp: cond_wait_enter_def res_simps)
    with with_cond_left [OF this(2)] r0 show ?thesis unfolding cond_entered_def cond_left_def by blast
  qed
qed

lemma cond_entered_find:
  assumes "cond_entered c recs i r"
  shows "find_object c r = Some i" and "find_object b recs = Some j \<Longrightarrow> find_object b r = Some j"
proof -
  from assms obtain s0 r0 where r0: "find_or_add c (Cond_state s0) recs = (i, r0)"
    "r = r0 \<or> (\<exists>s. r = set_rec_state i (Cond_state s) r0)" by (auto simp: cond_entered_def)
  note f = recorded_at_find_or_add [OF r0(1)]
  show "find_object c r = Some i" using r0(2) f(2) by auto
  show "find_object b recs = Some j \<Longrightarrow> find_object b r = Some j" using r0(2) f(3) by auto
qed

lemma cond_left_find: "cond_left i recs r \<Longrightarrow> find_object b r = find_object b recs"
  by (auto simp: cond_left_def)

text \<open>Records of other kinds are as before.\<close>

lemma cond_entered_others:
  assumes "cond_entered c recs i r" and "recorded_at r a = Some st" and "\<nexists>s. st = Cond_state s"
  shows "recorded_at recs a = Some st"
proof -
  from assms(1) obtain s0 r0 where r0: "find_or_add c (Cond_state s0) recs = (i, r0)"
    "r = r0 \<or> (\<exists>s. r = set_rec_state i (Cond_state s) r0)" by (auto simp: cond_entered_def)
  note f = recorded_at_find_or_add [OF r0(1)]
  have "recorded_at r0 a = Some st"
    using r0(2) assms(2,3) f(2) by (auto split: if_splits)
  with f(1) [of a] assms(3) show ?thesis by (auto split: if_splits)
qed

lemma cond_left_others:
  assumes "cond_left i recs r" and "find_object c recs = Some i"
    and "recorded_at r a = Some st" and "\<nexists>s. st = Cond_state s"
  shows "recorded_at recs a = Some st"
  using assms by (auto simp: cond_left_def split: if_splits)

lemma goes_simps [simp]:
  "records (goes t a \<sigma>) = records \<sigma>" "holder (goes t a \<sigma>) = holder \<sigma>"
  "sem_value (goes t a \<sigma>) = sem_value \<sigma>" "doing (goes t a \<sigma>) = (doing \<sigma>)(t := a)"
  by (simp_all add: goes_def)

section \<open>Invariants\<close>

lemma pointers_ok_move:
  assumes "pointers_ok \<sigma>" and same: "doing \<rho> = doing \<sigma>"
    and "\<And>b j. find_object b (records \<sigma>) = Some j \<Longrightarrow> find_object b (records \<rho>) = Some j"
    and "\<And>b i. works_on a = Some (b, i) \<Longrightarrow> find_object b (records \<rho>) = Some i"
  shows "pointers_ok (goes t a \<rho>)" (is "pointers_ok ?\<tau>")
proof -
  have "finite {u. doing ?\<tau> u \<noteq> Idle}"
    by (rule finite_subset [of _ "insert t {u. doing \<sigma> u \<noteq> Idle}"])
      (use assms(1) same in \<open>auto simp: pointers_ok_def\<close>)
  moreover have "find_object b (records ?\<tau>) = Some i" if "works_on (doing ?\<tau> u) = Some (b, i)" for u b i
  proof (cases "u = t")
    case True
    with that assms(4) show ?thesis by simp
  next
    case False
    with that same have "works_on (doing \<sigma> u) = Some (b, i)" by simp
    with assms(1,3) show ?thesis by (simp add: pointers_ok_def)
  qed
  ultimately show ?thesis unfolding pointers_ok_def by blast
qed

lemma pointer_of:
  "pointers_ok \<sigma> \<Longrightarrow> doing \<sigma> t = x \<Longrightarrow> works_on x = Some (a, i) \<Longrightarrow>
     find_object a (records \<sigma>) = Some i"
  by (auto simp: pointers_ok_def)

lemma step_pointers_ok: "step \<sigma> \<tau> \<Longrightarrow> pointers_ok \<sigma> \<Longrightarrow> pointers_ok \<tau>"
proof (induction rule: step.induct)
  case (lock_enter \<sigma> t m i r)
  note r = recorded_at_find_or_add [OF lock_enter(2) [unfolded entry_defs]]
  show ?case using lock_enter(1,3) by (intro pointers_ok_move [of \<sigma>]) (auto simp: r(2,3))
next
  case (lock_real \<sigma> t m i)
  then show ?case by (intro pointers_ok_move [of \<sigma>]) (auto intro: pointer_of)
next
  case (lock_leave \<sigma> t m i r)
  then show ?case by (intro pointers_ok_move [of \<sigma>]) (auto simp: leave_defs with_mutex_Inr)
next
  case (unlock_enter \<sigma> t m i)
  then show ?case
    by (intro pointers_ok_move [of \<sigma>]) (auto simp: entry_defs split: option.splits)
next
  case (unlock_real \<sigma> t m i)
  then show ?case by (intro pointers_ok_move [of \<sigma>]) (auto intro: pointer_of)
next
  case (unlock_leave \<sigma> t m i r)
  then show ?case by (intro pointers_ok_move [of \<sigma>]) (auto simp: leave_defs with_mutex_Inr)
next
  case (post_enter \<sigma> t s i r)
  note r = recorded_at_find_or_add [OF post_enter(2) [unfolded entry_defs]]
  show ?case using post_enter(1,3) by (intro pointers_ok_move [of \<sigma>]) (auto simp: r(2,3))
next
  case (post_real \<sigma> t s i)
  then show ?case by (intro pointers_ok_move [of \<sigma>]) (auto intro: pointer_of)
next
  case (post_leave \<sigma> t s i r)
  then show ?case by (intro pointers_ok_move [of \<sigma>]) (auto simp: leave_defs with_sem_Inr)
next
  case (wait_enter \<sigma> t s i r)
  note r = recorded_at_find_or_add [OF wait_enter(2) [unfolded entry_defs]]
  show ?case using wait_enter(1,3) by (intro pointers_ok_move [of \<sigma>]) (auto simp: r(2,3))
next
  case (wait_real \<sigma> t s i)
  then show ?case by (intro pointers_ok_move [of \<sigma>]) (auto intro: pointer_of)
next
  case (wait_leave \<sigma> t s i r)
  then show ?case by (intro pointers_ok_move [of \<sigma>]) (auto simp: leave_defs with_sem_Inr)
next
  case (init_enter \<sigma> t m i r)
  note r = recorded_at_find_or_add [OF init_enter(2) [unfolded entry_defs]]
  show ?case using init_enter(1,3) by (intro pointers_ok_move [of \<sigma>]) (auto simp: r(2,3))
next
  case (init_leave \<sigma> t m i rc r)
  then show ?case
    by (intro pointers_ok_move [of \<sigma>]) (auto simp: leave_defs with_mutex_Inr split: if_splits)
next
  case (cond_enter \<sigma> t m th c i r)
  note r = cond_entered_find [OF cond_sections_entered(3) [OF cond_enter(4)]]
  show ?case using cond_enter(5) by (intro pointers_ok_move [of \<sigma>]) (auto simp: r)
next
  case (park \<sigma> t c m i)
  then show ?case by (intro pointers_ok_move [of \<sigma>]) (auto intro: pointer_of)
next
  case (unpark \<sigma> t c m i timed_out)
  then show ?case by (intro pointers_ok_move [of \<sigma>]) (auto intro: pointer_of split: if_splits)
next
  case (cond_leave \<sigma> t c m i th r)
  then show ?case
    by (intro pointers_ok_move [of \<sigma>]) (auto simp: cond_left_find [OF cond_sections_left(1)])
next
  case (signal_enter \<sigma> t th c i r)
  note r = cond_entered_find [OF cond_sections_entered(2) [OF signal_enter(2)]]
  show ?case using signal_enter(3) by (intro pointers_ok_move [of \<sigma>]) (auto simp: r)
next
  case (signal_leave \<sigma> t c i rc r)
  then show ?case
    by (intro pointers_ok_move [of \<sigma>]) (auto simp: cond_left_find [OF cond_sections_left(2)])
next
  case (broadcast_enter \<sigma> t th c i r)
  note r = cond_entered_find [OF cond_sections_entered(1) [OF broadcast_enter(2)]]
  show ?case using broadcast_enter(3) by (intro pointers_ok_move [of \<sigma>]) (auto simp: r)
next
  case (broadcast_leave \<sigma> t c i rc r)
  then show ?case
    by (intro pointers_ok_move [of \<sigma>]) (auto simp: cond_left_find [OF cond_sections_left(3)])
next
  case (call_fails \<sigma> t)
  then show ?case by (intro pointers_ok_move [of \<sigma>]) auto
qed

text \<open>A step on semaphores leaves what is recorded of locked mutexes, and the other way round.\<close>

definition same_locked :: "rec_list \<Rightarrow> rec_list \<Rightarrow> bool" where
  "same_locked recs r \<longleftrightarrow>
     (\<forall>m ow. recorded_at r m = Some (Mut_state LOCKED ow) \<longrightarrow>
        recorded_at recs m = Some (Mut_state LOCKED ow))"

lemma holders_ok_move:
  assumes ok: "holders_ok \<sigma>" and same: "same_locked (records \<sigma>) (records \<rho>)"
    and \<rho>: "holder \<rho> = holder \<sigma>" "doing \<rho> = doing \<sigma>"
    and t: "\<And>m. \<not> gave_up (doing \<sigma> t) m" and a: "\<And>m. holds a m \<Longrightarrow> holder \<sigma> m = Some t"
  shows "holders_ok (goes t a \<rho>)"
  unfolding holders_ok_def goes_simps \<rho>
proof (intro conjI allI impI)
  fix u m
  assume "holds (((doing \<sigma>)(t := a)) u) m"
  then show "holder \<sigma> m = Some u"
    using ok a by (cases "u = t") (auto simp: holders_ok_def)
next
  fix m ow
  assume "recorded_at (records \<rho>) m = Some (Mut_state LOCKED ow)"
  with same ok have "holder \<sigma> m = Some ow \<or> gave_up (doing \<sigma> ow) m"
    by (simp add: same_locked_def holders_ok_def)
  then show "holder \<sigma> m = Some ow \<or> gave_up (((doing \<sigma>)(t := a)) ow) m"
    using t by (cases "ow = t") auto
qed

text \<open>A thread takes a free mutex, or gives up one that it holds.\<close>

lemma holders_ok_take:
  assumes ok: "holders_ok \<sigma>" and free: "holder \<sigma> m = None"
    and t: "\<And>m'. gave_up (doing \<sigma> t) m' \<Longrightarrow> m' = m" and a: "\<And>m'. holds a m' \<Longrightarrow> m' = m"
  shows "holders_ok (goes t a (\<sigma>\<lparr>holder := (holder \<sigma>)(m := Some t)\<rparr>))"
  unfolding holders_ok_def goes_simps
proof (intro conjI allI impI)
  fix u m'
  assume "holds (((doing (\<sigma>\<lparr>holder := (holder \<sigma>)(m := Some t)\<rparr>))(t := a)) u) m'"
  then show "holder (\<sigma>\<lparr>holder := (holder \<sigma>)(m := Some t)\<rparr>) m' = Some u"
    using ok a free by (cases "u = t") (auto simp: holders_ok_def)
next
  fix m' ow
  assume "recorded_at (records (\<sigma>\<lparr>holder := (holder \<sigma>)(m := Some t)\<rparr>)) m' = Some (Mut_state LOCKED ow)"
  with ok have "holder \<sigma> m' = Some ow \<or> gave_up (doing \<sigma> ow) m'" by (simp add: holders_ok_def)
  then show "holder (\<sigma>\<lparr>holder := (holder \<sigma>)(m := Some t)\<rparr>) m' = Some ow \<or>
      gave_up (((doing (\<sigma>\<lparr>holder := (holder \<sigma>)(m := Some t)\<rparr>))(t := a)) ow) m'"
    using t free by (cases "ow = t") auto
qed

lemma holders_ok_release:
  assumes ok: "holders_ok \<sigma>" and now: "holds (doing \<sigma> t) m"
    and a: "gave_up a m" "\<And>m'. \<not> holds a m'"
  shows "holders_ok (goes t a (\<sigma>\<lparr>holder := (holder \<sigma>)(m := None)\<rparr>))"
  unfolding holders_ok_def goes_simps
proof (intro conjI allI impI)
  have m: "holder \<sigma> m = Some t" using ok now by (simp add: holders_ok_def)
  have quiet: "\<not> gave_up (doing \<sigma> t) m'" for m' using now by (cases "doing \<sigma> t") auto
  {
    fix u m'
    assume "holds (((doing (\<sigma>\<lparr>holder := (holder \<sigma>)(m := None)\<rparr>))(t := a)) u) m'"
    then have "u \<noteq> t" "holder \<sigma> m' = Some u" using ok a(2) by (auto simp: holders_ok_def split: if_splits)
    with m show "holder (\<sigma>\<lparr>holder := (holder \<sigma>)(m := None)\<rparr>) m' = Some u" by auto
  }
  fix m' ow
  assume "recorded_at (records (\<sigma>\<lparr>holder := (holder \<sigma>)(m := None)\<rparr>)) m' = Some (Mut_state LOCKED ow)"
  with ok have "holder \<sigma> m' = Some ow \<or> gave_up (doing \<sigma> ow) m'" by (simp add: holders_ok_def)
  then show "holder (\<sigma>\<lparr>holder := (holder \<sigma>)(m := None)\<rparr>) m' = Some ow \<or>
      gave_up (((doing (\<sigma>\<lparr>holder := (holder \<sigma>)(m := None)\<rparr>))(t := a)) ow) m'"
    using m a(1) quiet by (cases "ow = t") auto
qed

lemma holders_ok_record:
  assumes ok: "holders_ok \<sigma>" and found: "find_object m (records \<sigma>) = Some i"
    and st: "\<And>ow. st = Mut_state LOCKED ow \<Longrightarrow> ow = t \<and> holder \<sigma> m = Some t"
    and t: "\<And>m'. gave_up (doing \<sigma> t) m' \<Longrightarrow> m' = m" "\<not> gave_up (doing \<sigma> t) m \<or> (\<forall>ow. st \<noteq> Mut_state LOCKED ow)"
  shows "holders_ok (goes t Idle (\<sigma>\<lparr>records := set_rec_state i st (records \<sigma>)\<rparr>))"
  unfolding holders_ok_def goes_simps
proof (intro conjI allI impI)
  fix u m'
  assume "holds (((doing (\<sigma>\<lparr>records := set_rec_state i st (records \<sigma>)\<rparr>))(t := Idle)) u) m'"
  then show "holder (\<sigma>\<lparr>records := set_rec_state i st (records \<sigma>)\<rparr>) m' = Some u"
    using ok by (cases "u = t") (auto simp: holders_ok_def)
next
  fix m' ow
  assume r: "recorded_at (records (\<sigma>\<lparr>records := set_rec_state i st (records \<sigma>)\<rparr>)) m' = Some (Mut_state LOCKED ow)"
  show "holder (\<sigma>\<lparr>records := set_rec_state i st (records \<sigma>)\<rparr>) m' = Some ow \<or>
      gave_up (((doing (\<sigma>\<lparr>records := set_rec_state i st (records \<sigma>)\<rparr>))(t := Idle)) ow) m'"
  proof (cases "m' = m")
    case True
    with r found have "st = Mut_state LOCKED ow" by simp
    with st True show ?thesis by simp
  next
    case False
    with r found have "recorded_at (records \<sigma>) m' = Some (Mut_state LOCKED ow)" by simp
    with ok have "holder \<sigma> m' = Some ow \<or> gave_up (doing \<sigma> ow) m'" by (simp add: holders_ok_def)
    with t(1) False show ?thesis by (cases "ow = t") auto
  qed
qed

lemma same_locked_refl [simp]: "same_locked r r"
  by (simp add: same_locked_def)

lemma same_locked_find_or_add:
  "find_or_add b st recs = (i, r) \<Longrightarrow> (\<And>ow. st \<noteq> Mut_state LOCKED ow) \<Longrightarrow> same_locked recs r"
  using recorded_at_find_or_add(1) by (fastforce simp: same_locked_def split: if_splits)

lemma same_locked_set:
  "find_object b recs = Some i \<Longrightarrow> (\<And>ow. st \<noteq> Mut_state LOCKED ow) \<Longrightarrow>
     same_locked recs (set_rec_state i st recs)"
  by (simp add: same_locked_def)

lemma same_locked_cond:
  "cond_entered c recs i r \<Longrightarrow> same_locked recs r"
  "cond_left i recs r \<Longrightarrow> find_object c recs = Some i \<Longrightarrow> same_locked recs r"
  unfolding same_locked_def by (auto intro: cond_entered_others cond_left_others)

lemma step_holders_ok: "step \<sigma> \<tau> \<Longrightarrow> pointers_ok \<sigma> \<Longrightarrow> holders_ok \<sigma> \<Longrightarrow> holders_ok \<tau>"
proof (induction rule: step.induct)
  case (lock_enter \<sigma> t m i r)
  then have "same_locked (records \<sigma>) r"
    by (intro same_locked_find_or_add [of m]) (auto simp: entry_defs)
  with lock_enter show ?case by (intro holders_ok_move [of \<sigma>]) auto
next
  case (lock_real \<sigma> t m i)
  then show ?case by (intro holders_ok_take) auto
next
  case (lock_leave \<sigma> t m i r)
  then have "find_object m (records \<sigma>) = Some i" "holder \<sigma> m = Some t"
    by (auto intro: pointer_of simp: holders_ok_def)
  with lock_leave show ?case
    by (auto simp: leave_defs with_mutex_Inr intro!: holders_ok_record)
next
  case (unlock_enter \<sigma> t m i)
  then show ?case by (intro holders_ok_move [of \<sigma>]) auto
next
  case (unlock_real \<sigma> t m i)
  then show ?case by (intro holders_ok_release) auto
next
  case (unlock_leave \<sigma> t m i r)
  then have "find_object m (records \<sigma>) = Some i" by (auto intro: pointer_of)
  with unlock_leave show ?case
    by (auto simp: leave_defs with_mutex_Inr intro!: holders_ok_record)
next
  case (post_enter \<sigma> t s i r)
  then have "same_locked (records \<sigma>) r"
    by (intro same_locked_find_or_add [of s]) (auto simp: entry_defs)
  with post_enter show ?case by (intro holders_ok_move [of \<sigma>]) auto
next
  case (post_real \<sigma> t s i)
  then show ?case by (intro holders_ok_move [of \<sigma>]) auto
next
  case (post_leave \<sigma> t s i r)
  then have "find_object s (records \<sigma>) = Some i" by (auto intro: pointer_of)
  with post_leave have "same_locked (records \<sigma>) r"
    by (auto simp: leave_defs with_sem_Inr intro: same_locked_set)
  with post_leave show ?case by (intro holders_ok_move [of \<sigma>]) auto
next
  case (wait_enter \<sigma> t s i r)
  then have "same_locked (records \<sigma>) r"
    by (intro same_locked_find_or_add [of s]) (auto simp: entry_defs)
  with wait_enter show ?case by (intro holders_ok_move [of \<sigma>]) auto
next
  case (wait_real \<sigma> t s i)
  then show ?case by (intro holders_ok_move [of \<sigma>]) auto
next
  case (wait_leave \<sigma> t s i r)
  then have "find_object s (records \<sigma>) = Some i" by (auto intro: pointer_of)
  with wait_leave have "same_locked (records \<sigma>) r"
    by (auto simp: leave_defs with_sem_Inr intro: same_locked_set)
  with wait_leave show ?case by (intro holders_ok_move [of \<sigma>]) auto
next
  case (init_enter \<sigma> t m i r)
  then have "same_locked (records \<sigma>) r"
    by (intro same_locked_find_or_add [of m]) (auto simp: entry_defs)
  with init_enter show ?case by (intro holders_ok_move [of \<sigma>]) auto
next
  case (init_leave \<sigma> t m i rc r)
  then have "find_object m (records \<sigma>) = Some i" by (auto intro: pointer_of)
  with init_leave have "same_locked (records \<sigma>) r"
    by (auto simp: leave_defs with_mutex_Inr intro: same_locked_set split: if_splits)
  with init_leave show ?case by (intro holders_ok_move [of \<sigma>]) auto
next
  case (cond_enter \<sigma> t m th c i r)
  note same = same_locked_cond(1) [OF cond_sections_entered(3) [OF cond_enter(4)]]
  with cond_enter show ?case by (intro holders_ok_move [of \<sigma>]) auto
next
  case (park \<sigma> t c m i)
  then show ?case by (intro holders_ok_release) auto
next
  case (unpark \<sigma> t c m i timed_out)
  then show ?case by (intro holders_ok_take) (auto split: if_splits)
next
  case (cond_leave \<sigma> t c m i th r)
  then have "find_object c (records \<sigma>) = Some i" by (auto intro: pointer_of)
  note same = same_locked_cond(2) [OF cond_sections_left(1) [OF cond_leave(3)] this]
  with cond_leave show ?case by (intro holders_ok_move [of \<sigma>]) auto
next
  case (signal_enter \<sigma> t th c i r)
  note same = same_locked_cond(1) [OF cond_sections_entered(2) [OF signal_enter(2)]]
  with signal_enter show ?case by (intro holders_ok_move [of \<sigma>]) auto
next
  case (signal_leave \<sigma> t c i rc r)
  then have "find_object c (records \<sigma>) = Some i" by (auto intro: pointer_of)
  note same = same_locked_cond(2) [OF cond_sections_left(2) [OF signal_leave(2)] this]
  with signal_leave show ?case by (intro holders_ok_move [of \<sigma>]) auto
next
  case (broadcast_enter \<sigma> t th c i r)
  note same = same_locked_cond(1) [OF cond_sections_entered(1) [OF broadcast_enter(2)]]
  with broadcast_enter show ?case by (intro holders_ok_move [of \<sigma>]) auto
next
  case (broadcast_leave \<sigma> t c i rc r)
  then have "find_object c (records \<sigma>) = Some i" by (auto intro: pointer_of)
  note same = same_locked_cond(2) [OF cond_sections_left(3) [OF broadcast_leave(2)] this]
  with broadcast_leave show ?case by (intro holders_ok_move [of \<sigma>]) auto
next
  case (call_fails \<sigma> t)
  moreover have "\<not> gave_up (doing \<sigma> t) m" for m using call_fails(1) by (cases "doing \<sigma> t") auto
  ultimately show ?case by (intro holders_ok_move [of \<sigma>]) auto
qed

definition same_counts :: "rec_list \<Rightarrow> rec_list \<Rightarrow> bool" where
  "same_counts recs r \<longleftrightarrow>
     (\<forall>s n st. recorded_at r s = Some (Sem_state n st) \<longrightarrow> recorded_at recs s = Some (Sem_state n st))"

lemma same_counts_refl [simp]: "same_counts r r"
  by (simp add: same_counts_def)

lemma same_counts_find_or_add:
  "find_or_add b st recs = (i, r) \<Longrightarrow> (\<And>n s. st \<noteq> Sem_state n s) \<Longrightarrow> same_counts recs r"
  using recorded_at_find_or_add(1) by (fastforce simp: same_counts_def split: if_splits)

lemma same_counts_set:
  "find_object b recs = Some i \<Longrightarrow> (\<And>n s. st \<noteq> Sem_state n s) \<Longrightarrow>
     same_counts recs (set_rec_state i st recs)"
  by (simp add: same_counts_def)

lemma same_counts_cond:
  "cond_entered c recs i r \<Longrightarrow> same_counts recs r"
  "cond_left i recs r \<Longrightarrow> find_object c recs = Some i \<Longrightarrow> same_counts recs r"
  unfolding same_counts_def by (auto intro: cond_entered_others cond_left_others)

lemmas count_goes =
  count_doing_upd [where P = "posted_on s" for s] count_doing_upd [where P = "waited_on s" for s]

text \<open>A thread that works on a mutex, or has just entered, is neither past a post nor past a wait.\<close>

lemma values_ok_move:
  assumes ok: "values_ok \<sigma>" and fin: "pointers_ok \<sigma>" and same: "same_counts (records \<sigma>) (records \<rho>)"
    and \<rho>: "sem_value \<rho> = sem_value \<sigma>" "doing \<rho> = doing \<sigma>"
    and quiet: "\<And>s. \<not> posted_on s (doing \<sigma> t) \<and> \<not> waited_on s (doing \<sigma> t)"
      "\<And>s. \<not> posted_on s a \<and> \<not> waited_on s a"
  shows "values_ok (goes t a \<rho>)"
  using assms by (simp add: values_ok_def same_counts_def pointers_ok_def count_goes)

lemma values_ok_enter:
  assumes ok: "values_ok \<sigma>" and fin: "pointers_ok \<sigma>"
    and enter: "sem_use_enter s (word_of_nat (sem_value \<sigma> s)) (records \<sigma>) = (i, r)"
    and idle: "doing \<sigma> t = Idle" and a: "a = Posting s i \<or> a = Waiting s i"
  shows "values_ok (goes t a (\<sigma>\<lparr>records := r\<rparr>))"
  unfolding values_ok_def goes_simps
proof (intro allI impI)
  fix s' n st
  have fin': "finite {u. doing \<sigma> u \<noteq> Idle}" using fin by (simp add: pointers_ok_def)
  have count: "(of_nat (count_doing (posted_on s') ((doing \<sigma>)(t := a))) :: 32 word) =
      of_nat (count_doing (posted_on s') (doing \<sigma>))"
    "(of_nat (count_doing (waited_on s') ((doing \<sigma>)(t := a))) :: 32 word) =
      of_nat (count_doing (waited_on s') (doing \<sigma>))"
    using fin' a idle by (auto simp: count_goes)
  assume "recorded_at (records (\<sigma>\<lparr>records := r\<rparr>)) s' = Some (Sem_state n st)"
  then have rec: "recorded_at r s' = Some (Sem_state n st)" by simp
  have "n + of_nat (count_doing (posted_on s') (doing \<sigma>)) =
      of_nat (sem_value \<sigma> s') + of_nat (count_doing (waited_on s') (doing \<sigma>))"
  proof (cases "s' = s \<and> recorded_at (records \<sigma>) s = None")
    case True
    then have "find_object s (records \<sigma>) = None" by (simp add: recorded_at_def)
    then have "works_on (doing \<sigma> u) \<noteq> Some (s, j)" for u j
      using fin by (auto simp: pointers_ok_def)
    then have "\<not> posted_on s (doing \<sigma> u)" "\<not> waited_on s (doing \<sigma> u)" for u
      by (metis posted_on.elims(2) works_on.simps(7), metis waited_on.elims(2) works_on.simps(9))
    then have "count_doing (posted_on s) (doing \<sigma>) = 0" "count_doing (waited_on s) (doing \<sigma>) = 0"
      by (simp_all add: count_doing_def)
    moreover have "n = word_of_nat (sem_value \<sigma> s)"
      using rec True recorded_at_find_or_add(1) [OF enter [unfolded sem_use_enter_def], of s'] by simp
    ultimately show ?thesis using True by simp
  next
    case False
    with rec recorded_at_find_or_add(1) [OF enter [unfolded sem_use_enter_def], of s']
    have "recorded_at (records \<sigma>) s' = Some (Sem_state n st)" by (auto split: if_splits)
    with ok show ?thesis by (simp add: values_ok_def)
  qed
  with count show "n + of_nat (count_doing (posted_on s') ((doing (\<sigma>\<lparr>records := r\<rparr>))(t := a))) =
      of_nat (sem_value (\<sigma>\<lparr>records := r\<rparr>) s') +
      of_nat (count_doing (waited_on s') ((doing (\<sigma>\<lparr>records := r\<rparr>))(t := a)))" by simp
qed

text \<open>The real operation and the leaving section change one value or one record, and one count.\<close>

lemma values_ok_real:
  assumes ok: "values_ok \<sigma>" and fin: "pointers_ok \<sigma>"
    and move: "doing \<sigma> t = Posting s i \<and> a = Posted s i \<and> v = sem_value \<sigma> s + 1 \<or>
               doing \<sigma> t = Waiting s i \<and> a = Waited s i \<and> sem_value \<sigma> s = v + 1"
  shows "values_ok (goes t a (\<sigma>\<lparr>sem_value := (sem_value \<sigma>)(s := v)\<rparr>))"
proof -
  have fin': "finite {u. doing \<sigma> u \<noteq> Idle}" using fin by (simp add: pointers_ok_def)
  show ?thesis
    using ok move unfolding values_ok_def goes_simps
    by (auto simp: count_goes fin' algebra_simps)
qed

lemma values_ok_leave:
  assumes ok: "values_ok \<sigma>" and fin: "pointers_ok \<sigma>"
    and rec: "rec_state (records \<sigma> ! i) = Sem_state n st"
    and move: "doing \<sigma> t = Posted s i \<and> n' = n + 1 \<or> doing \<sigma> t = Waited s i \<and> n' = n - 1"
  shows "values_ok (goes t Idle (\<sigma>\<lparr>records := set_rec_state i (Sem_state n' st) (records \<sigma>)\<rparr>))"
proof -
  have fin': "finite {u. doing \<sigma> u \<noteq> Idle}" using fin by (simp add: pointers_ok_def)
  have found: "find_object s (records \<sigma>) = Some i" using move fin by (auto intro: pointer_of)
  then have at_s: "recorded_at (records \<sigma>) s = Some (Sem_state n st)" using rec
    by (simp add: recorded_at_def)
  with ok have eq: "n + of_nat (count_doing (posted_on s) (doing \<sigma>)) =
      of_nat (sem_value \<sigma> s) + of_nat (count_doing (waited_on s) (doing \<sigma>))"
    by (simp add: values_ok_def)
  show ?thesis
    using ok move eq unfolding values_ok_def goes_simps
    by (auto simp: count_goes fin' recorded_at_set [OF found] algebra_simps split: if_splits)
qed

lemma step_values_ok: "step \<sigma> \<tau> \<Longrightarrow> pointers_ok \<sigma> \<Longrightarrow> values_ok \<sigma> \<Longrightarrow> values_ok \<tau>"
proof (induction rule: step.induct)
  case (lock_enter \<sigma> t m i r)
  then have "same_counts (records \<sigma>) r"
    by (intro same_counts_find_or_add [of m]) (auto simp: entry_defs)
  with lock_enter show ?case by (intro values_ok_move) auto
next
  case (lock_leave \<sigma> t m i r)
  then have "find_object m (records \<sigma>) = Some i" by (auto intro: pointer_of)
  with lock_leave have "same_counts (records \<sigma>) r"
    by (auto simp: leave_defs with_mutex_Inr intro: same_counts_set)
  with lock_leave show ?case by (intro values_ok_move) auto
next
  case (unlock_leave \<sigma> t m i r)
  then have "find_object m (records \<sigma>) = Some i" by (auto intro: pointer_of)
  with unlock_leave have "same_counts (records \<sigma>) r"
    by (auto simp: leave_defs with_mutex_Inr intro: same_counts_set)
  with unlock_leave show ?case by (intro values_ok_move) auto
next
  case (post_leave \<sigma> t s i r)
  then obtain n st where "rec_state (records \<sigma> ! i) = Sem_state n st"
    "r = set_rec_state i (Sem_state (n + 1) st) (records \<sigma>)" by (auto simp: leave_defs with_sem_Inr)
  with post_leave show ?case by (auto intro!: values_ok_leave)
next
  case (wait_leave \<sigma> t s i r)
  then obtain n st where "rec_state (records \<sigma> ! i) = Sem_state n st"
    "r = set_rec_state i (Sem_state (n - 1) st) (records \<sigma>)" by (auto simp: leave_defs with_sem_Inr)
  with wait_leave show ?case by (auto intro!: values_ok_leave)
next
  case (init_enter \<sigma> t m i r)
  then have "same_counts (records \<sigma>) r"
    by (intro same_counts_find_or_add [of m]) (auto simp: entry_defs)
  with init_enter show ?case by (intro values_ok_move) auto
next
  case (init_leave \<sigma> t m i rc r)
  then have "find_object m (records \<sigma>) = Some i" by (auto intro: pointer_of)
  with init_leave have "same_counts (records \<sigma>) r"
    by (auto simp: leave_defs with_mutex_Inr intro: same_counts_set split: if_splits)
  with init_leave show ?case by (intro values_ok_move) auto
next
  case (cond_enter \<sigma> t m th c i r)
  note same = same_counts_cond(1) [OF cond_sections_entered(3) [OF cond_enter(4)]]
  with cond_enter show ?case by (intro values_ok_move) auto
next
  case (unpark \<sigma> t c m i timed_out)
  then show ?case by (intro values_ok_move) (auto split: if_splits)
next
  case (cond_leave \<sigma> t c m i th r)
  then have "find_object c (records \<sigma>) = Some i" by (auto intro: pointer_of)
  note same = same_counts_cond(2) [OF cond_sections_left(1) [OF cond_leave(3)] this]
  with cond_leave show ?case by (intro values_ok_move) auto
next
  case (signal_enter \<sigma> t th c i r)
  note same = same_counts_cond(1) [OF cond_sections_entered(2) [OF signal_enter(2)]]
  with signal_enter show ?case by (intro values_ok_move) auto
next
  case (signal_leave \<sigma> t c i rc r)
  then have "find_object c (records \<sigma>) = Some i" by (auto intro: pointer_of)
  note same = same_counts_cond(2) [OF cond_sections_left(2) [OF signal_leave(2)] this]
  with signal_leave show ?case by (intro values_ok_move) auto
next
  case (broadcast_enter \<sigma> t th c i r)
  note same = same_counts_cond(1) [OF cond_sections_entered(1) [OF broadcast_enter(2)]]
  with broadcast_enter show ?case by (intro values_ok_move) auto
next
  case (broadcast_leave \<sigma> t c i rc r)
  then have "find_object c (records \<sigma>) = Some i" by (auto intro: pointer_of)
  note same = same_counts_cond(2) [OF cond_sections_left(3) [OF broadcast_leave(2)] this]
  with broadcast_leave show ?case by (intro values_ok_move) auto
next
  case (call_fails \<sigma> t)
  moreover have "\<not> posted_on s (doing \<sigma> t) \<and> \<not> waited_on s (doing \<sigma> t)" for s
    using call_fails(1) by (cases "doing \<sigma> t") auto
  ultimately show ?case by (intro values_ok_move) auto
qed (auto intro!: values_ok_move values_ok_enter values_ok_real)

lemma recording_starts_ok:
  assumes "recording_starts \<sigma>"
  shows "pointers_ok \<sigma>" and "holders_ok \<sigma>" and "values_ok \<sigma>"
proof -
  have "count_doing (posted_on s) (doing \<sigma>) = 0" "count_doing (waited_on s) (doing \<sigma>) = 0" for s
    using assms by (simp_all add: recording_starts_def count_doing_def)
  with assms show "values_ok \<sigma>" by (simp add: values_ok_def recording_starts_def)
qed (use assms in \<open>simp_all add: pointers_ok_def holders_ok_def recording_starts_def\<close>)

lemma steps_ok:
  "steps \<sigma> \<tau> \<Longrightarrow> pointers_ok \<sigma> \<and> holders_ok \<sigma> \<and> values_ok \<sigma> \<Longrightarrow>
     pointers_ok \<tau> \<and> holders_ok \<tau> \<and> values_ok \<tau>"
  by (induction rule: steps.induct) (auto intro: step_pointers_ok step_holders_ok step_values_ok)

section \<open>Properties\<close>

text \<open>
  C24. Whatever the interleaving of the threads that post to and wait on semaphores, the count that
  is recorded of a semaphore at a quiescent moment is its value: increments and decrements of the
  record commute, so their order in the list does not matter.
\<close>

theorem semaphores_recorded_exactly:
  assumes "recording_starts \<sigma>" and "steps \<sigma> \<tau>" and "quiescent \<tau>"
    and "recorded_at (records \<tau>) s = Some (Sem_state n st)"
  shows "n = word_of_nat (sem_value \<tau> s)"
proof -
  have "values_ok \<tau>" using steps_ok [OF assms(2)] recording_starts_ok [OF assms(1)] by blast
  moreover have none: "\<not> posted_on s (doing \<tau> t)" "\<not> waited_on s (doing \<tau> t)" for t
    using assms(3) by (cases "doing \<tau> t"; force simp: quiescent_def dest: spec [of _ t])+
  then have "count_doing (posted_on s) (doing \<tau>) = 0" "count_doing (waited_on s) (doing \<tau>) = 0"
    by (simp_all add: count_doing_def)
  moreover from this \<open>values_ok \<tau>\<close> assms(4)
  have "n + of_nat (count_doing (posted_on s) (doing \<tau>)) =
      of_nat (sem_value \<tau> s) + of_nat (count_doing (waited_on s) (doing \<tau>))"
    unfolding values_ok_def by blast
  ultimately show ?thesis by simp
qed

definition nothing_recorded :: system where
  "nothing_recorded =
     \<lparr>records = [], holder = (\<lambda>_. None), sem_value = (\<lambda>_. 0), doing = (\<lambda>_. Idle)\<rparr>"

lemma nothing_recorded_starts: "recording_starts nothing_recorded"
  by (simp add: recording_starts_def nothing_recorded_def recorded_at_def find_object_def)

definition after_post :: system where
  "after_post =
     nothing_recorded\<lparr>records := [\<lparr>rec_location = 8, rec_state = Sem_state 1 SEM_INITIALIZED\<rparr>],
       sem_value := (\<lambda>_. 0)(8 := 1)\<rparr>"

lemma after_post_reached: "steps nothing_recorded after_post"
proof -
  let ?\<sigma> = nothing_recorded
  let ?r = "[\<lparr>rec_location = 8, rec_state = Sem_state 0 SEM_INITIALIZED\<rparr>]"
  have "steps ?\<sigma> (goes 1 (Posting 8 0) (?\<sigma>\<lparr>records := ?r\<rparr>))" (is "steps _ ?\<sigma>1")
    by (rule one_more, rule no_step, rule post_enter)
      (simp_all add: nothing_recorded_def sem_use_enter_def find_or_add_def find_object_def
        add_rec_entry_record_mode_def)
  then have "steps ?\<sigma> (goes 1 (Posted 8 0) (?\<sigma>1\<lparr>sem_value := (sem_value ?\<sigma>1)(8 := sem_value ?\<sigma>1 8 + 1)\<rparr>))"
    (is "steps _ ?\<sigma>2")
    by (rule one_more, intro post_real) (simp add: goes_def)
  then have "steps ?\<sigma> (goes 1 Idle
      (?\<sigma>2\<lparr>records := [\<lparr>rec_location = 8, rec_state = Sem_state 1 SEM_INITIALIZED\<rparr>]\<rparr>))"
    by (rule one_more, intro post_leave [where i = 0 and s = 8])
      (simp_all add: goes_def sem_post_leave_def with_sem_def set_rec_state_def)
  moreover have "goes 1 Idle
      (?\<sigma>2\<lparr>records := [\<lparr>rec_location = 8, rec_state = Sem_state 1 SEM_INITIALIZED\<rparr>]\<rparr>) = after_post"
    by (auto simp: goes_def nothing_recorded_def after_post_def fun_eq_iff)
  ultimately show ?thesis by simp
qed

theorem semaphores_recorded_exactly_witness:
  "recorded_at (records after_post) 8 = Some (Sem_state 1 SEM_INITIALIZED) \<and>
   (1 :: 32 word) = word_of_nat (sem_value after_post 8)"
proof -
  have "quiescent after_post" by (simp add: quiescent_def after_post_def nothing_recorded_def)
  moreover have rec: "recorded_at (records after_post) 8 = Some (Sem_state 1 SEM_INITIALIZED)"
    by (simp add: recorded_at_def after_post_def find_object_def)
  ultimately show ?thesis
    using semaphores_recorded_exactly [OF nothing_recorded_starts after_post_reached] by blast
qed

text \<open>
  C25. A mutex that is recorded as locked at a quiescent moment is held by the thread the record names,
  with one exception: the thread is inside \<^verbatim>\<open>pthread_cond_timedwait\<close> with that mutex, which it has
  released while the record still names it. This is however the threads interleave initialising, locking
  and unlocking mutexes, waits, signals and broadcasts on condition variables and posts and waits on
  semaphores, and whichever of these calls fail.
\<close>

theorem locked_records_are_true:
  assumes "recording_starts \<sigma>" and "steps \<sigma> \<tau>" and "quiescent \<tau>"
    and "recorded_at (records \<tau>) m = Some (Mut_state LOCKED ow)"
  shows "holder \<tau> m = Some ow \<or> (\<exists>c i. doing \<tau> ow = Parked c m i)"
proof -
  have "holders_ok \<tau>" using steps_ok [OF assms(2)] recording_starts_ok [OF assms(1)] by blast
  then have "holder \<tau> m = Some ow \<or> gave_up (doing \<tau> ow) m"
    using assms(4) by (simp add: holders_ok_def)
  moreover have "\<not> unrecorded (doing \<tau> ow)" using assms(3) by (simp add: quiescent_def)
  ultimately show ?thesis by (cases "doing \<tau> ow") auto
qed

text \<open>Thread 1, which has locked the mutex at 8, waits on the condition variable at 16.\<close>

definition about_to_wait :: system where
  "about_to_wait =
     \<lparr>records = [\<lparr>rec_location = NULL, rec_state = Thrd_state 64 1 ALIVE\<rparr>,
                 \<lparr>rec_location = 8, rec_state = Mut_state LOCKED 1\<rparr>],
      holder = (\<lambda>_. None)(8 := Some 1), sem_value = (\<lambda>_. 0), doing = (\<lambda>_. Idle)\<rparr>"

definition asleep_in_wait :: system where
  "asleep_in_wait =
     \<lparr>records = records about_to_wait @
        [\<lparr>rec_location = 16, rec_state = Cond_state ((new_cond_state CV_INITIALIZED 1 8 (Some [(1, CV_PREWAITING)]))
            \<lparr>cond_count := 1\<rparr>)\<rparr>],
      holder = (\<lambda>_. None), sem_value = (\<lambda>_. 0), doing = (\<lambda>_. Idle)(1 := Parked 16 8 2)\<rparr>"

lemma asleep_in_wait_reached: "steps about_to_wait asleep_in_wait"
proof -
  let ?\<sigma> = about_to_wait
  let ?\<tau> = "goes 1 (Parking 16 8 2) (?\<sigma>\<lparr>records := records asleep_in_wait\<rparr>)"
  have "step ?\<sigma> ?\<tau>"
    by (rule cond_enter [where th = 64])
      (simp_all add: about_to_wait_def asleep_in_wait_def cond_wait_enter_def thread_id_of_def
        find_thread_record_mode_def is_thread_record_def find_or_add_def find_object_def
        add_rec_entry_record_mode_def with_cond_def enter_waiting_room_def waiters_of_def
        new_cond_state_def set_rec_state_def waiters_contain_def waiters_enqueue_def NULL_def)
  moreover have "step ?\<tau> (goes 1 (Parked 16 8 2) (?\<tau>\<lparr>holder := (holder ?\<tau>)(8 := None)\<rparr>))"
    by (rule park) simp
  moreover have "goes 1 (Parked 16 8 2) (?\<tau>\<lparr>holder := (holder ?\<tau>)(8 := None)\<rparr>) = asleep_in_wait"
    by (auto simp: goes_def about_to_wait_def asleep_in_wait_def fun_eq_iff)
  ultimately show ?thesis by (metis no_step one_more)
qed

theorem locked_records_are_true_witness:
  "recorded_at (records asleep_in_wait) 8 = Some (Mut_state LOCKED 1) \<and> holder asleep_in_wait 8 = None \<and>
   (\<exists>c i. doing asleep_in_wait 1 = Parked c 8 i)"
proof -
  have "recording_starts about_to_wait"
    by (auto simp: recording_starts_def about_to_wait_def recorded_at_def find_object_def NULL_def
        split: if_splits)
  moreover have "quiescent asleep_in_wait" by (simp add: quiescent_def asleep_in_wait_def)
  moreover have rec: "recorded_at (records asleep_in_wait) 8 = Some (Mut_state LOCKED 1)"
    by (simp add: recorded_at_def asleep_in_wait_def about_to_wait_def find_object_def NULL_def)
  ultimately have "holder asleep_in_wait 8 = Some 1 \<or> (\<exists>c i. doing asleep_in_wait 1 = Parked c 8 i)"
    using locked_records_are_true [OF _ asleep_in_wait_reached] by blast
  moreover have "holder asleep_in_wait 8 = None" by (simp add: asleep_in_wait_def)
  ultimately show ?thesis using rec by simp
qed

definition held_by_1 :: "address \<Rightarrow> system" where
  "held_by_1 m =
     \<lparr>records = [\<lparr>rec_location = m, rec_state = Mut_state LOCKED 1\<rparr>], holder = (\<lambda>_. None)(m := Some 1),
      sem_value = (\<lambda>_. 0), doing = (\<lambda>_. Idle)\<rparr>"

definition held_by_2 :: "address \<Rightarrow> (runner_id \<Rightarrow> activity) \<Rightarrow> mutex_status \<Rightarrow> runner_id \<Rightarrow> system" where
  "held_by_2 m d st ow =
     \<lparr>records = [\<lparr>rec_location = m, rec_state = Mut_state st ow\<rparr>], holder = (\<lambda>_. None)(m := Some 2),
      sem_value = (\<lambda>_. 0), doing = d\<rparr>"

lemma held_by_1_starts: "recording_starts (held_by_1 m)"
  by (auto simp: recording_starts_def held_by_1_def recorded_at_def find_object_def split: if_splits)

lemma overtaken_unlock:
  "steps (held_by_1 m) (held_by_2 m ((\<lambda>_. Idle)(1 := Unlocked m 0)) LOCKED 2)"
proof -
  let ?\<sigma> = "held_by_1 m"
  have "steps ?\<sigma> (goes 1 (Unlocking m 0) ?\<sigma>)" (is "steps _ ?\<sigma>1")
    by (rule one_more, rule no_step, rule unlock_enter)
      (simp_all add: held_by_1_def mutex_unlock_enter_def find_object_def)
  then have "steps ?\<sigma> (goes 2 (Locking m 0) (?\<sigma>1\<lparr>records := records ?\<sigma>\<rparr>))" (is "steps _ ?\<sigma>2")
    by (rule one_more, intro lock_enter)
      (simp_all add: held_by_1_def goes_def mutex_enter_def find_or_add_def find_object_def)
  then have "steps ?\<sigma> (goes 1 (Unlocked m 0) (?\<sigma>2\<lparr>holder := (holder ?\<sigma>2)(m := None)\<rparr>))" (is "steps _ ?\<sigma>3")
    by (rule one_more, intro unlock_real) (simp_all add: goes_def)
  then have "steps ?\<sigma> (goes 2 (Locked m 0) (?\<sigma>3\<lparr>holder := (holder ?\<sigma>3)(m := Some 2)\<rparr>))" (is "steps _ ?\<sigma>4")
    by (rule one_more, intro lock_real) (simp_all add: goes_def)
  then have "steps ?\<sigma> (goes 2 Idle (?\<sigma>4\<lparr>records := [\<lparr>rec_location = m, rec_state = Mut_state LOCKED 2\<rparr>]\<rparr>))"
    by (rule one_more, intro lock_leave [where i = 0 and m = m])
      (simp_all add: goes_def held_by_1_def mutex_lock_leave_def with_mutex_def set_rec_state_def)
  moreover have "goes 2 Idle (?\<sigma>4\<lparr>records := [\<lparr>rec_location = m, rec_state = Mut_state LOCKED 2\<rparr>]\<rparr>)
      = held_by_2 m ((\<lambda>_. Idle)(1 := Unlocked m 0)) LOCKED 2"
    by (auto simp: goes_def held_by_1_def held_by_2_def fun_eq_iff)
  ultimately show ?thesis by simp
qed

text \<open>
  The record of an unlocked mutex may be false: a thread that unlocks notes so only after the
  real unlock, so another thread can lock the mutex and record that in between, and the note of the
  unlock then overwrites the record of the lock. Every thread is idle afterwards, and the mutex that
  thread 2 holds is recorded as unlocked.
\<close>

lemma unlocked_record_may_be_false:
  "\<exists>\<sigma> \<tau>. recording_starts \<sigma> \<and> steps \<sigma> \<tau> \<and> (\<forall>t. doing \<tau> t = Idle) \<and>
     recorded_at (records \<tau>) m = Some (Mut_state UNLOCKED RID_INVALID) \<and> holder \<tau> m = Some 2"
proof -
  let ?\<rho> = "held_by_2 m ((\<lambda>_. Idle)(1 := Unlocked m 0)) LOCKED 2"
  let ?r = "[\<lparr>rec_location = m, rec_state = Mut_state UNLOCKED RID_INVALID\<rparr>]"
  have "steps (held_by_1 m) (goes 1 Idle (?\<rho>\<lparr>records := ?r\<rparr>))"
    by (rule one_more [OF overtaken_unlock], rule unlock_leave [where i = 0 and m = m])
      (simp_all add: held_by_2_def mutex_unlock_leave_def with_mutex_def set_rec_state_def)
  then show ?thesis
    by (intro exI [of _ "held_by_1 m"] exI [of _ "goes 1 Idle (?\<rho>\<lparr>records := ?r\<rparr>)"])
      (simp add: held_by_1_starts held_by_2_def recorded_at_def find_object_def)
qed

end
