(* ===== verification/Recording_Properties.thy ===== *)
theory Recording_Properties
  imports Recording
begin

text \<open>
  What the records of condition variables are worth, and which timed waits can be handed to the
  model checker. The first part follows one thread through \<^verbatim>\<open>mc_pthread_cond_wait\<close> while others
  wait, signal and broadcast: a section of a wrapper on the record of the condition variable is a
  value of \<open>cond_section\<close>.
\<close>

section \<open>Sections on one condition variable\<close>

datatype cond_section =
    Wait_enter runner_id address | Wait_leave runner_id
  | Signal_enter | Signal_leave | Broadcast_leave

fun run_section :: "cond_section \<Rightarrow> condition_variable_state \<Rightarrow> condition_variable_state res" where
  "run_section (Wait_enter u mutex) c = enter_waiting_room u mutex c"
| "run_section (Wait_leave u) c = leave_waiting_room u c"
| "run_section Signal_enter c = count_waiting c"
| "run_section Signal_leave c = note_signal c"
| "run_section Broadcast_leave c = note_broadcast c"

fun of_thread :: "cond_section \<Rightarrow> runner_id option" where
  "of_thread (Wait_enter u mutex) = Some u"
| "of_thread (Wait_leave u) = Some u"
| "of_thread _ = None"

text \<open>Every entry of the thread says that it is still in the outer waiting room.\<close>

definition prewaiting :: "runner_id \<Rightarrow> waiters \<Rightarrow> bool" where
  "prewaiting t ws \<longleftrightarrow>
     (let entries = filter (\<lambda>w. fst w = t) ws
      in entries \<noteq> [] \<and> (\<forall>w \<in> set entries. snd w = CV_PREWAITING))"

lemma prewaitingD: "prewaiting t ws \<Longrightarrow> w \<in> set ws \<Longrightarrow> fst w = t \<Longrightarrow> snd w = CV_PREWAITING"
  by (auto simp: prewaiting_def Let_def)

lemma prewaiting_others [simp]:
  "u \<noteq> t \<Longrightarrow> prewaiting t (waiters_update u st ws) = prewaiting t ws"
  "u \<noteq> t \<Longrightarrow> prewaiting t (waiters_remove u ws) = prewaiting t ws"
  "u \<noteq> t \<Longrightarrow> prewaiting t (waiters_enqueue u st ws) = prewaiting t ws"
  by (simp_all add: prewaiting_def waiters_enqueue_def)

lemma first_waiting_entry:
  "waiters_first_waiting ws = RID_INVALID \<or> (waiters_first_waiting ws, CV_WAITING) \<in> set ws"
  by (induction ws) auto

lemma prewaiting_first_waiting:
  "prewaiting t ws \<Longrightarrow> waiters_first_waiting ws \<noteq> RID_INVALID \<Longrightarrow> waiters_first_waiting ws \<noteq> t"
  using first_waiting_entry [of ws] prewaitingD [of t ws "(t, CV_WAITING)"] by auto

lemma prewaiting_broadcast: "prewaiting t ws \<Longrightarrow> prewaiting t (broadcast_waiters ws)"
proof -
  have "prewaiting t r \<and> length r = length ws \<Longrightarrow> set ks \<subseteq> {..<length ws} \<Longrightarrow>
      prewaiting t (fold (\<lambda>k r. if snd (r ! k) = CV_WAITING
        then waiters_update (fst (r ! k)) CV_SIGNALED r else r) ks r)" for ks r
  proof (induction ks arbitrary: r)
    case (Cons k ks)
    let ?r = "if snd (r ! k) = CV_WAITING then waiters_update (fst (r ! k)) CV_SIGNALED r else r"
    have "fst (r ! k) \<noteq> t" if "snd (r ! k) = CV_WAITING"
      using Cons.prems that nth_mem [of k r] prewaitingD [of t r "r ! k"] by auto
    then have "prewaiting t ?r" using Cons.prems by auto
    moreover have "length ?r = length ws" using Cons.prems by simp
    ultimately show ?case using Cons.IH [of ?r] Cons.prems by simp
  qed simp
  from this [of ws "[0..<length ws]"] show "prewaiting t ws \<Longrightarrow> prewaiting t (broadcast_waiters ws)"
    unfolding broadcast_waiters_def by (simp add: lessThan_atLeast0)
qed

lemma section_keeps_prewaiting:
  assumes "run_section s c = Inr d" and "waiting_threads c = Some ws" and "prewaiting t ws"
    and "of_thread s \<noteq> Some t"
  shows "\<exists>vs. waiting_threads d = Some vs \<and> prewaiting t vs"
proof (cases s)
  case (Wait_enter u mutex)
  with assms show ?thesis
    by (auto simp: enter_waiting_room_def waiters_of_def)
next
  case (Wait_leave u)
  with assms show ?thesis
    by (auto simp: leave_waiting_room_def waiters_of_def
        split: option.splits if_splits)
next
  case Signal_enter
  with assms show ?thesis by (auto simp: count_waiting_def waiters_of_def)
next
  case Signal_leave
  with assms show ?thesis
    by (auto simp: note_signal_def waiters_of_def Let_def prewaiting_first_waiting)
next
  case Broadcast_leave
  with assms show ?thesis by (auto simp: note_broadcast_def waiters_of_def prewaiting_broadcast)
qed

lemma sections_keep_prewaiting:
  "fold_res run_section ss c = Inr d \<Longrightarrow> waiting_threads c = Some ws \<Longrightarrow> prewaiting t ws \<Longrightarrow>
     \<forall>s \<in> set ss. of_thread s \<noteq> Some t \<Longrightarrow>
     \<exists>vs. waiting_threads d = Some vs \<and> prewaiting t vs"
proof (induction ss arbitrary: c ws)
  case (Cons s ss)
  then obtain e where e: "run_section s c = Inr e" "fold_res run_section ss e = Inr d"
    by (auto simp: res_simps)
  from Cons.prems(4) have "of_thread s \<noteq> Some t" by simp
  from section_keeps_prewaiting [OF e(1) Cons.prems(2,3) this] obtain vs where
    "waiting_threads e = Some vs" "prewaiting t vs" by blast
  with Cons.IH [OF e(2)] Cons.prems(4) show ?case by simp
qed auto

lemma map_of_prewaiting: "prewaiting t ws \<Longrightarrow> map_of ws t = Some CV_PREWAITING"
  by (induction ws) (auto simp: prewaiting_def Let_def split: if_splits)

text \<open>
  C34. A wait that is recorded from beginning to end leaves a stale waiter behind. A thread that
  waits is in the queue as \<^verbatim>\<open>CV_PREWAITING\<close>; signals and broadcasts only mark threads that are
  \<^verbatim>\<open>CV_WAITING\<close>, so whatever the other threads do in the meantime, when it has been woken and
  returns it finds itself unmarked, notes \<^verbatim>\<open>CV_WAITING\<close> and stays in the queue and in the count.
\<close>

theorem finished_wait_is_recorded_as_waiting:
  assumes "waiting_threads c = Some ws" and "\<not> waiters_contain ws t"
    and "enter_waiting_room t mutex c = Inr c1"
    and "fold_res run_section ss c1 = Inr c2" and "\<forall>s \<in> set ss. of_thread s \<noteq> Some t"
  shows "\<exists>vs c3. waiting_threads c2 = Some vs \<and> leave_waiting_room t c2 = Inr c3 \<and>
     waiting_threads c3 = Some (waiters_update t CV_WAITING vs) \<and>
     waiters_state (waiters_update t CV_WAITING vs) t = Some CV_WAITING \<and> cond_count c3 = cond_count c2"
proof -
  have "waiting_threads c1 = Some (ws @ [(t, CV_PREWAITING)])"
    using assms(1-3) by (auto simp: enter_waiting_room_def waiters_of_def waiters_enqueue_def)
  moreover have "prewaiting t (ws @ [(t, CV_PREWAITING)])"
    using assms(2) by (force simp: prewaiting_def waiters_contain_def)
  ultimately obtain vs where vs: "waiting_threads c2 = Some vs" "prewaiting t vs"
    using sections_keep_prewaiting [OF assms(4) _ _ assms(5)] by blast
  from map_of_prewaiting [OF this(2)] have t: "waiters_state vs t = Some CV_PREWAITING" "t \<in> fst ` set vs"
    by (simp_all add: waiters_state_def map_of_eq_Some_iff weak_map_of_SomeI) (metis map_of_eq_None_iff option.simps(3))
  then show ?thesis
    using vs by (simp add: leave_waiting_room_def waiters_of_def waiters_state_update)
qed

definition fresh_cond :: condition_variable_state where
  "fresh_cond = new_cond_state CV_INITIALIZED 0 NULL (Some [])"

theorem finished_wait_is_recorded_as_waiting_witness:
  "\<exists>c1 c2 c3. enter_waiting_room 1 8 fresh_cond = Inr c1 \<and>
     fold_res run_section [Signal_enter, Signal_leave] c1 = Inr c2 \<and>
     leave_waiting_room 1 c2 = Inr c3 \<and> waiting_threads c3 = Some [(1, CV_WAITING)]"
proof -
  define c1 where "c1 = fresh_cond\<lparr>interacting_thread := 1,
    waiting_threads := Some [(1, CV_PREWAITING)], cond_mutex := 8, cond_count := 1\<rparr>"
  have 1: "enter_waiting_room 1 8 fresh_cond = Inr c1"
    by (simp add: c1_def enter_waiting_room_def fresh_cond_def new_cond_state_def waiters_of_def
        waiters_contain_def waiters_enqueue_def)
  have 2: "fold_res run_section [Signal_enter, Signal_leave] c1 = Inr c1"
    by (simp add: c1_def count_waiting_def note_signal_def fresh_cond_def new_cond_state_def
        waiters_of_def)
  obtain vs c3 where "waiting_threads c1 = Some vs" "leave_waiting_room 1 c1 = Inr c3"
    "waiting_threads c3 = Some (waiters_update 1 CV_WAITING vs)"
    using finished_wait_is_recorded_as_waiting [OF _ _ 1 2] by (auto simp: fresh_cond_def
        new_cond_state_def waiters_contain_def)
  with 1 2 show ?thesis by (auto simp: c1_def)
qed

section \<open>Broadcasts\<close>

definition signaled_if_waiting ::
    "runner_id \<times> condition_variable_status \<Rightarrow> runner_id \<times> condition_variable_status" where
  "signaled_if_waiting w = (fst w, if snd w = CV_WAITING then CV_SIGNALED else snd w)"

lemma broadcast_prefix:
  assumes "distinct (map fst ws)" and "k \<le> length ws"
  shows "fold (\<lambda>k r. if snd (r ! k) = CV_WAITING then waiters_update (fst (r ! k)) CV_SIGNALED r else r)
           [0..<k] ws = map signaled_if_waiting (take k ws) @ drop k ws"
  using assms(2)
proof (induction k)
  case (Suc k)
  let ?r = "map signaled_if_waiting (take k ws) @ drop k ws"
  from Suc.prems have k: "k < length ws" by simp
  have at_k: "?r ! k = ws ! k" using k by (simp add: nth_append)
  have split: "drop k ws = ws ! k # drop (Suc k) ws" using k by (rule Cons_nth_drop_Suc [symmetric])
  have "map fst ws = map fst (take k ws) @ fst (ws ! k) # map fst (drop (Suc k) ws)"
    by (subst id_take_nth_drop [OF k]) simp
  with assms(1) have "fst (ws ! k) \<notin> set (map fst (take k ws))" by (metis distinct_append not_distinct_conv_prefix)
  then have new: "fst (ws ! k) \<notin> fst ` set (map signaled_if_waiting (take k ws))"
    by (auto simp: signaled_if_waiting_def image_image)
  let ?f = "\<lambda>k r. if snd (r ! k) = CV_WAITING then waiters_update (fst (r ! k)) CV_SIGNALED r else r"
  have "fold ?f [0..<Suc k] ws = ?f k (fold ?f [0..<k] ws)" by simp
  also have "fold ?f [0..<k] ws = ?r" using Suc by simp
  also have "?f k ?r =
      map signaled_if_waiting (take k ws) @ signaled_if_waiting (ws ! k) # drop (Suc k) ws"
    using new at_k split by (cases "ws ! k") (auto simp: waiters_update_append signaled_if_waiting_def)
  finally show ?case using k by (simp add: take_Suc_conv_app_nth)
qed simp

text \<open>
  C27. The loop of \<^verbatim>\<open>pthread_cond_broadcast\<close>, which looks up every waiting thread again from the front
  of the queue while it walks along it, marks exactly the threads that were \<^verbatim>\<open>CV_WAITING\<close>, each in
  its place, when no thread is queued twice.
\<close>

theorem broadcast_signals_all_waiting:
  assumes "distinct (map fst ws)" and "waiting_threads c = Some ws"
  shows "note_broadcast c = Inr (c\<lparr>waiting_threads := Some (map signaled_if_waiting ws)\<rparr>)"
  using broadcast_prefix [OF assms(1), of "length ws"] assms(2)
  by (simp add: note_broadcast_def waiters_of_def broadcast_waiters_def)

theorem broadcast_signals_all_waiting_witness:
  "note_broadcast (fresh_cond\<lparr>waiting_threads := Some [(1, CV_WAITING), (2, CV_PREWAITING), (3, CV_WAITING)]\<rparr>)
     = Inr (fresh_cond\<lparr>waiting_threads := Some [(1, CV_SIGNALED), (2, CV_PREWAITING), (3, CV_SIGNALED)]\<rparr>)"
  using broadcast_signals_all_waiting [of "[(1, CV_WAITING), (2, CV_PREWAITING), (3, CV_WAITING)]"
      "fresh_cond\<lparr>waiting_threads := Some [(1, CV_WAITING), (2, CV_PREWAITING), (3, CV_WAITING)]\<rparr>"]
  by (simp add: signaled_if_waiting_def)

section \<open>Timed waits\<close>

text \<open>
  \<^verbatim>\<open>sem_timedwait\<close> returns 0 or -1, never \<^verbatim>\<open>ETIMEDOUT\<close>, which it leaves in \<^verbatim>\<open>errno\<close>. So a thread
  that waits on a semaphore when the checkpoint is taken never falls through to the code that hands it
  to the model checker: its first timeout is returned to the program as a failure. A thread that waits
  for a mutex is handed over at its first timeout after the restart.
\<close>

lemma sem_waits_are_not_handed_over:
  assumes "\<forall>(rc, restart) \<in> set attempts. rc = 0 \<or> rc = -1"
  shows "record_sem_wait sem value attempts recs \<noteq> Some (Inr (None, r)) \<and>
     record_sem_wait sem value ((-1, True) # attempts) recs =
       Some (Inr (Some (-1), snd (sem_use_enter sem value recs))) \<and>
     record_mutex_lock t m ((ETIMEDOUT, True) # attempts) recs =
       Some (Inr (None, snd (mutex_enter m recs)))"
proof -
  have "timed_loop attempts \<noteq> Some Escaped"
    using assms by (cases attempts) (auto simp: ETIMEDOUT_def)
  then show ?thesis
    by (auto simp: record_sem_wait_def record_mutex_lock_def after_attempts_def ETIMEDOUT_def bind_res_def
        split: prod.splits attempt_result.splits option.splits sum.splits)
qed

lemma sem_waits_are_not_handed_over_example:
  "record_sem_wait 8 0 [(-1, True)] [] =
     Some (Inr (Some (-1), [\<lparr>rec_location = 8, rec_state = Sem_state 0 SEM_INITIALIZED\<rparr>]))"
  using sem_waits_are_not_handed_over [of "[]" 8 0 "[]" "[]" 0 8]
  by (simp add: sem_use_enter_def find_or_add_def find_object_def add_rec_entry_record_mode_def)

end
