(* ===== verification/Handshake.thy ===== *)
theory Handshake
  imports Wrapper_Properties "HOL-Library.Sublist"
begin

text \<open>
  The handshake between the scheduler and one thread of the target through the two semaphores of the
  thread's mailbox: \<^verbatim>\<open>src/common/runner_mailbox.c\<close>, the scheduler's side in
  \<^verbatim>\<open>local_linux_process::execute_runner\<close>, the thread's side in the wrappers. Both sides run
  concurrently; a step relation interleaves them. A thread is the list of the actions it still has to
  perform.

  Control passes from one side to the other like a token: it is with the scheduler outside
  \<^verbatim>\<open>execute_runner\<close>, in \<open>child_side_sem\<close>, with the thread, or in \<open>model_side_sem\<close>. \<open>control\<close> says which
  lists of actions respect that; \<open>has_control\<close> follows the thread for the proofs.
\<close>

section \<open>The two sides\<close>

record link =
  model_side_sem :: nat
  child_side_sem :: nat
  mailbox :: runner_mailbox
  todo :: "action list"
  has_control :: bool
  in_execute_runner :: bool
  received :: "runner_mailbox list"

fun on_mailbox :: "action \<Rightarrow> bool" where
  "on_mailbox (Set_type ty) = True"
| "on_mailbox (Copy_to off bytes) = True"
| "on_mailbox Wake_scheduler = True"
| "on_mailbox Wait_for_scheduler = True"
| "on_mailbox _ = False"

inductive link_step :: "link \<Rightarrow> link \<Rightarrow> bool" where
  set_type: "todo l = Set_type ty # acts \<Longrightarrow>
    link_step l (l\<lparr>mailbox := (mailbox l)\<lparr>mb_type := rttid ty\<rparr>, todo := acts\<rparr>)"
| copy_to: "todo l = Copy_to off bytes # acts \<Longrightarrow>
    link_step l (l\<lparr>mailbox := mb_copy off bytes (mailbox l), todo := acts\<rparr>)"
| wake_scheduler: "todo l = Wake_scheduler # acts \<Longrightarrow>
    link_step l (l\<lparr>model_side_sem := model_side_sem l + 1, todo := acts, has_control := False\<rparr>)"
| wait_for_scheduler: "todo l = Wait_for_scheduler # acts \<Longrightarrow> 0 < child_side_sem l \<Longrightarrow>
    link_step l (l\<lparr>child_side_sem := child_side_sem l - 1, todo := acts, has_control := True\<rparr>)"
| other_action: "todo l = a # acts \<Longrightarrow> \<not> on_mailbox a \<Longrightarrow> a \<noteq> Block_indefinitely \<Longrightarrow>
    link_step l (l\<lparr>todo := acts\<rparr>)"
| wake_thread: "\<not> in_execute_runner l \<Longrightarrow>
    link_step l (l\<lparr>child_side_sem := child_side_sem l + 1, in_execute_runner := True\<rparr>)"
| wait_for_thread: "in_execute_runner l \<Longrightarrow> 0 < model_side_sem l \<Longrightarrow>
    link_step l (l\<lparr>model_side_sem := model_side_sem l - 1, in_execute_runner := False,
                   received := received l @ [mailbox l]\<rparr>)"

inductive link_steps :: "link \<Rightarrow> link \<Rightarrow> bool" where
  no_link_step: "link_steps l l"
| more_link_steps: "link_steps l l' \<Longrightarrow> link_step l' l'' \<Longrightarrow> link_steps l l''"

text \<open>\<^verbatim>\<open>mc_runner_mailbox_init\<close>: both semaphores are 0 and the payload is cleared; the thread has not started.\<close>

definition new_link :: "nat \<Rightarrow> action list \<Rightarrow> link" where
  "new_link ty acts =
     \<lparr>model_side_sem = 0, child_side_sem = 0, mailbox = \<lparr>mb_type = ty, mb_cnts = replicate 64 0\<rparr>,
      todo = acts, has_control = False, in_execute_runner = False, received = []\<rparr>"

section \<open>Disciplined threads\<close>

text \<open>
  The control a thread ends up with, \<open>None\<close> when it writes into the mailbox or wakes the scheduler
  without control, or waits while it has it.
\<close>

fun control :: "bool \<Rightarrow> action list \<Rightarrow> bool option" where
  "control h [] = Some h"
| "control h (Set_type ty # acts) = (if h then control h acts else None)"
| "control h (Copy_to off bytes # acts) = (if h then control h acts else None)"
| "control h (Wake_scheduler # acts) = (if h then control False acts else None)"
| "control h (Wait_for_scheduler # acts) = (if h then None else control True acts)"
| "control h (a # acts) = control h acts"

lemma control_append:
  "control h (xs @ ys) = (case control h xs of None \<Rightarrow> None | Some h' \<Rightarrow> control h' ys)"
  by (induction h xs rule: control.induct) auto

lemma control_other: "\<not> on_mailbox a \<Longrightarrow> control h (a # acts) = control h acts"
  by (cases a) auto

text \<open>The mailboxes a thread hands over.\<close>

fun handovers :: "action list \<Rightarrow> runner_mailbox \<Rightarrow> runner_mailbox list" where
  "handovers [] mb = []"
| "handovers (Set_type ty # acts) mb = handovers acts (mb\<lparr>mb_type := rttid ty\<rparr>)"
| "handovers (Copy_to off bytes # acts) mb = handovers acts (mb_copy off bytes mb)"
| "handovers (Wake_scheduler # acts) mb = mb # handovers acts mb"
| "handovers (_ # acts) mb = handovers acts mb"

lemma handovers_other: "\<not> on_mailbox a \<Longrightarrow> handovers (a # acts) mb = handovers acts mb"
  by (cases a) auto

definition token :: "link \<Rightarrow> nat" where
  "token l = model_side_sem l + child_side_sem l + (if has_control l then 1 else 0)
     + (if in_execute_runner l then 0 else 1)"

definition link_ok :: "runner_mailbox list \<Rightarrow> link \<Rightarrow> bool" where
  "link_ok all l \<longleftrightarrow>
     token l = 1 \<and> control (has_control l) (todo l) \<noteq> None \<and>
     received l @ replicate (model_side_sem l) (mailbox l) @ handovers (todo l) (mailbox l) = all"

lemma link_step_ok: "link_step l l' \<Longrightarrow> link_ok all l \<Longrightarrow> link_ok all l'"
proof (induction rule: link_step.induct)
  case (set_type l ty acts)
  then have "has_control l" by (cases "has_control l") (auto simp: link_ok_def)
  with set_type show ?case by (auto simp: link_ok_def token_def split: if_splits)
next
  case (copy_to l off bytes acts)
  then have "has_control l" by (cases "has_control l") (auto simp: link_ok_def)
  with copy_to show ?case by (auto simp: link_ok_def token_def split: if_splits)
next
  case (wake_scheduler l acts)
  then have "has_control l" by (cases "has_control l") (auto simp: link_ok_def)
  with wake_scheduler show ?case by (auto simp: link_ok_def token_def split: if_splits)
next
  case (wait_for_scheduler l acts)
  then have "\<not> has_control l" by (cases "has_control l") (auto simp: link_ok_def)
  with wait_for_scheduler show ?case by (auto simp: link_ok_def token_def split: if_splits)
next
  case (other_action l a acts)
  then show ?case by (simp add: link_ok_def token_def control_other handovers_other)
next
  case (wake_thread l)
  then show ?case by (auto simp: link_ok_def token_def)
next
  case (wait_for_thread l)
  then have "model_side_sem l = 1" by (auto simp: link_ok_def token_def split: if_splits)
  with wait_for_thread show ?case by (auto simp: link_ok_def token_def split: if_splits)
qed

lemma link_steps_ok: "link_steps l l' \<Longrightarrow> link_ok all l \<Longrightarrow> link_ok all l'"
  by (induction rule: link_steps.induct) (auto intro: link_step_ok)

lemma new_link_ok:
  "control False acts \<noteq> None \<Longrightarrow>
     link_ok (handovers acts \<lparr>mb_type = ty, mb_cnts = replicate 64 0\<rparr>) (new_link ty acts)"
  by (simp add: link_ok_def new_link_def token_def)

section \<open>Whole threads\<close>

text \<open>A branch is under control and not at a restart: \<^verbatim>\<open>TARGET_BRANCH\<close>, also after a restart.\<close>

definition branch_mode :: "libmcmini_mode \<Rightarrow> bool" where
  "branch_mode mode \<longleftrightarrow> controlled mode \<and> \<not> is_in_restart_mode mode"

lemma branch_mode_cases: "branch_mode mode \<longleftrightarrow> mode = TARGET_BRANCH \<or> mode = TARGET_BRANCH_AFTER_RESTART"
  by (cases mode) (auto simp: branch_mode_def controlled_def is_in_restart_mode_def)

definition branch_actions ::
    "libmcmini_mode \<Rightarrow> pthread_map_entry list \<Rightarrow> visible_op \<Rightarrow> action list" where
  "branch_actions mode head opn =
     (case wrapper_of head opn mode of Perform acts \<Rightarrow> acts | _ \<Rightarrow> [])"

text \<open>A thread of a branch: it waits to be started and then performs its operations.\<close>

definition branch_thread ::
    "libmcmini_mode \<Rightarrow> pthread_map_entry list \<Rightarrow> visible_op list \<Rightarrow> action list" where
  "branch_thread mode head ops = thread_await_scheduler @ concat (map (branch_actions mode head) ops)"

lemmas branch_simps = branch_actions_def by_mode_controlled is_in_restart_mode_def

lemma real_join_simps:
  "control h (real_join mode rec t e) = Some h"
  "Notify_template \<notin> set (real_join mode rec t e)"
  "Copy_to off bytes \<notin> set (real_join mode rec t e)"
  by (simp_all add: real_join_def)

lemma control_branch_actions:
  "branch_mode mode \<Longrightarrow> control True (branch_actions mode head opn) = Some (opn \<noteq> Op_return)"
  unfolding branch_mode_cases
  by (cases opn)
    (auto simp: branch_actions_def is_in_restart_mode_def wrapper_defs Let_def real_join_simps
      split: option.split)

fun fits :: "action \<Rightarrow> bool" where
  "fits (Copy_to off bytes) \<longleftrightarrow> off + length bytes \<le> 64"
| "fits Notify_template \<longleftrightarrow> False"
| "fits _ \<longleftrightarrow> True"

lemma branch_actions_fit:
  assumes "branch_mode mode"
  shows "list_all fits (branch_actions mode head opn)"
proof (cases opn)
  case (Op_join t)
  have "list_all fits (real_join mode rec t e)" for mode rec e by (simp add: real_join_def)
  with assms show ?thesis
    by (auto simp: branch_mode_cases Op_join branch_actions_def is_in_restart_mode_def wrapper_defs Let_def
        split: option.split)
qed (use assms in \<open>auto simp: branch_mode_cases branch_actions_def is_in_restart_mode_def wrapper_defs Let_def\<close>)

fun mailbox_after :: "action list \<Rightarrow> runner_mailbox \<Rightarrow> runner_mailbox" where
  "mailbox_after [] mb = mb"
| "mailbox_after (Set_type ty # acts) mb = mailbox_after acts (mb\<lparr>mb_type := rttid ty\<rparr>)"
| "mailbox_after (Copy_to off bytes # acts) mb = mailbox_after acts (mb_copy off bytes mb)"
| "mailbox_after (_ # acts) mb = mailbox_after acts mb"

lemma handovers_append:
  "handovers (xs @ ys) mb = handovers xs mb @ handovers ys (mailbox_after xs mb)"
  by (induction xs mb rule: handovers.induct) auto

lemma mailbox_after_length:
  "list_all fits acts \<Longrightarrow> length (mb_cnts mb) = 64 \<Longrightarrow> length (mb_cnts (mailbox_after acts mb)) = 64"
  by (induction acts mb rule: handovers.induct) auto

lemma handovers_announcements: "list_all fits acts \<Longrightarrow> handovers acts mb = announcements acts mb"
  by (induction acts mb rule: handovers.induct) auto

lemma announcements_are_understood_branch:
  assumes "branch_mode mode" and "op_ok c head opn" and "length (mb_cnts mb) = 64"
  shows "map (discover env p c) (announcements (branch_actions mode head opn) mb) =
     map (\<lambda>t. Some (discovered t c)) (announced c p head False opn)"
  using operation_understood [OF _ assms(2,3), of mode env p] assms(1)
  by (auto simp: branch_mode_def branch_actions_def)

lemma handovers_of_operations:
  assumes "branch_mode mode" and "\<forall>opn \<in> set ops. op_ok c head opn" and "length (mb_cnts mb) = 64"
  shows "map (discover env p c) (handovers (concat (map (branch_actions mode head) ops)) mb) =
     map (\<lambda>t. Some (discovered t c)) (concat (map (announced c p head False) ops))"
  using assms
proof (induction ops arbitrary: mb)
  case (Cons opn ops)
  then have "op_ok c head opn" by simp
  from announcements_are_understood_branch [OF Cons.prems(1) this Cons.prems(3)]
  show ?case
    using Cons.IH [of "mailbox_after (branch_actions mode head opn) mb"] Cons.prems
    by (simp add: handovers_append handovers_announcements branch_actions_fit mailbox_after_length)
qed simp

lemma control_operations:
  "branch_mode mode \<Longrightarrow> Op_return \<notin> set (butlast ops) \<Longrightarrow>
     control True (concat (map (branch_actions mode head) ops)) = Some (ops = [] \<or> last ops \<noteq> Op_return)"
  by (induction ops) (auto simp: control_append control_branch_actions split: if_splits)

lemma nothing_received_without_wake:
  "link_steps l l' \<Longrightarrow> Wake_scheduler \<notin> set (todo l) \<and> model_side_sem l = 0 \<and> received l = [] \<Longrightarrow>
     Wake_scheduler \<notin> set (todo l') \<and> model_side_sem l' = 0 \<and> received l' = []"
proof (induction rule: link_steps.induct)
  case (more_link_steps l l' l'')
  from more_link_steps(2) more_link_steps.IH [OF more_link_steps(4)] show ?case
    by (cases rule: link_step.cases) auto
qed

lemma link_steps_first: "link_step l l' \<Longrightarrow> link_steps l' l'' \<Longrightarrow> link_steps l l''"
  by (rotate_tac, induction rule: link_steps.induct)
    (auto intro: no_link_step more_link_steps)

text \<open>While the scheduler is inside \<^verbatim>\<open>execute_runner\<close>, some action of the thread, or the return, is possible.\<close>

lemma next_handover_is_received:
  assumes "link_ok all l" and "in_execute_runner l" and "Block_indefinitely \<notin> set (todo l)"
    and "length (received l) < length all"
  shows "\<exists>l'. link_steps l l' \<and> \<not> in_execute_runner l' \<and>
           length (received l') = Suc (length (received l))"
  using assms
proof (induction "todo l" arbitrary: l rule: length_induct)
  case (1 l)
  show ?case
  proof (cases "0 < model_side_sem l")
    case True
    with 1(3) have "link_step l (l\<lparr>model_side_sem := model_side_sem l - 1, in_execute_runner := False,
        received := received l @ [mailbox l]\<rparr>)" by (rule wait_for_thread)
    then show ?thesis
      by (intro exI conjI) (rule more_link_steps [OF no_link_step], assumption, simp_all)
  next
    case False
    have go: ?thesis if "link_step l l1" "length (todo l1) < length (todo l)"
      "set (todo l1) \<subseteq> set (todo l)" "in_execute_runner l1" "received l1 = received l" for l1
      using 1(1) [rule_format, of "todo l1" l1] that 1(2-5) link_step_ok [OF that(1) 1(2)]
        link_steps_first [OF that(1)] by (metis subsetD)
    from 1(2,5) False have "todo l \<noteq> []" by (auto simp: link_ok_def)
    then obtain a acts where todo: "todo l = a # acts" by (cases "todo l") auto
    show ?thesis
    proof (cases a)
      case (Set_type ty)
      with todo 1(3) show ?thesis by (intro go [OF set_type]) auto
    next
      case (Copy_to off bytes)
      with todo 1(3) show ?thesis by (intro go [OF copy_to]) auto
    next
      case Wake_scheduler
      with todo 1(3) show ?thesis by (intro go [OF wake_scheduler]) auto
    next
      case Wait_for_scheduler
      with 1(2) todo have "\<not> has_control l" by (cases "has_control l") (auto simp: link_ok_def)
      with 1(2,3) False have "0 < child_side_sem l" by (auto simp: link_ok_def token_def)
      with Wait_for_scheduler todo 1(3) show ?thesis by (intro go [OF wait_for_scheduler]) auto
    qed (use todo 1(3,4) in \<open>auto intro!: go [OF other_action]\<close>)
  qed
qed

section \<open>Properties\<close>

text \<open>
  C17. For a thread that keeps the discipline \<open>control\<close> (it writes into the mailbox and wakes the
  scheduler only between a wait and the next wake-up) and any interleaving with the scheduler: the
  mailboxes that \<^verbatim>\<open>execute_runner\<close> has returned are the first ones the thread hands over, in order and
  unchanged; the two semaphores together are never above 1; and the two sides exclude each other. The thread
  is in control, or about to write or to wake the scheduler, only while the scheduler is inside
  \<^verbatim>\<open>execute_runner\<close> with both semaphores 0, where it can neither read the mailbox nor return; while the
  scheduler is outside \<^verbatim>\<open>execute_runner\<close> both semaphores are 0 and the thread cannot pass its wait.
\<close>

theorem handovers_arrive_in_order:
  assumes "control False acts \<noteq> None" and "link_steps (new_link ty acts) l"
  shows "prefix (received l) (handovers acts \<lparr>mb_type = ty, mb_cnts = replicate 64 0\<rparr>) \<and>
     model_side_sem l + child_side_sem l \<le> 1 \<and>
     (has_control l \<or> (\<exists>a as. todo l = a # as \<and> on_mailbox a \<and> a \<noteq> Wait_for_scheduler) \<longrightarrow>
        in_execute_runner l \<and> model_side_sem l = 0 \<and> child_side_sem l = 0 \<and>
        (\<forall>l'. link_step l l' \<longrightarrow> in_execute_runner l' \<and> received l' = received l)) \<and>
     (\<not> in_execute_runner l \<longrightarrow> model_side_sem l = 0 \<and> child_side_sem l = 0 \<and> \<not> has_control l \<and>
        (\<forall>l'. link_step l l' \<longrightarrow> mailbox l' = mailbox l \<and> \<not> has_control l'))"
proof -
  have ok: "link_ok (handovers acts \<lparr>mb_type = ty, mb_cnts = replicate 64 0\<rparr>) l"
    using link_steps_ok [OF assms(2) new_link_ok [OF assms(1)]] .
  then have "prefix (received l) (handovers acts \<lparr>mb_type = ty, mb_cnts = replicate 64 0\<rparr>)"
    unfolding link_ok_def by (metis prefixI)
  moreover from ok have tok: "token l = 1" and ctl: "control (has_control l) (todo l) \<noteq> None"
    by (simp_all add: link_ok_def)
  have touch: "has_control l" if "todo l = a # as" "on_mailbox a" "a \<noteq> Wait_for_scheduler" for a as
    using that ctl by (cases a) (auto split: if_splits)
  have busy: "in_execute_runner l \<and> model_side_sem l = 0 \<and> child_side_sem l = 0" if "has_control l"
    using that tok by (auto simp: token_def split: if_splits)
  have idle: "model_side_sem l = 0 \<and> child_side_sem l = 0 \<and> \<not> has_control l" if "\<not> in_execute_runner l"
    using that tok by (auto simp: token_def split: if_splits)
  have "in_execute_runner l' \<and> received l' = received l" if "has_control l" "link_step l l'" for l'
    using that(2) busy [OF that(1)] by (cases rule: link_step.cases) auto
  moreover have "mailbox l' = mailbox l \<and> \<not> has_control l'" if "\<not> in_execute_runner l" "link_step l l'" for l'
    using that(2) idle [OF that(1)] touch by (cases rule: link_step.cases) auto
  moreover have "model_side_sem l + child_side_sem l \<le> 1" using tok by (simp add: token_def)
  ultimately show ?thesis using touch busy idle by blast
qed

definition lock_once :: "visible_op list" where
  "lock_once = [Op_mutex_lock 4096]"

lemma branch_thread_disciplined:
  "branch_mode mode \<Longrightarrow> Op_return \<notin> set (butlast ops) \<Longrightarrow> control False (branch_thread mode head ops) \<noteq> None"
  by (simp add: branch_thread_def thread_await_scheduler_def control_operations)

lemma branch_modes [simp]: "branch_mode TARGET_BRANCH" "branch_mode TARGET_BRANCH_AFTER_RESTART"
  by (simp_all add: branch_mode_cases)

lemmas link_intros = set_type copy_to wake_scheduler wait_for_scheduler other_action wake_thread
  wait_for_thread

definition lock_announced :: link where
  "lock_announced =
     \<lparr>model_side_sem = 0, child_side_sem = 0,
      mailbox = mb_copy 0 (le_bytes 8 4096) \<lparr>mb_type = 2, mb_cnts = replicate 64 0\<rparr>,
      todo = [Wait_for_scheduler, Call (Lib_mutex_lock 4096)], has_control = False,
      in_execute_runner = False,
      received = [mb_copy 0 (le_bytes 8 4096) \<lparr>mb_type = 2, mb_cnts = replicate 64 0\<rparr>]\<rparr>"

lemma lock_announced_reached: "link_steps (new_link 0 (branch_thread TARGET_BRANCH [] lock_once)) lock_announced"
proof -
  have acts: "branch_thread TARGET_BRANCH [] lock_once =
      [Wait_for_scheduler, Set_type MUTEX_LOCK_TYPE, Copy_to 0 (le_bytes 8 4096), Wake_scheduler,
       Wait_for_scheduler, Call (Lib_mutex_lock 4096)]"
    by (simp add: branch_thread_def lock_once_def branch_actions_def is_in_restart_mode_def
        wrapper_defs Let_def)
  let ?l = "new_link 0 (branch_thread TARGET_BRANCH [] lock_once)"
  let ?l1 = "?l\<lparr>child_side_sem := 1, in_execute_runner := True\<rparr>"
  let ?l2 = "?l1\<lparr>child_side_sem := 0, todo := tl (todo ?l), has_control := True\<rparr>"
  let ?l3 = "?l2\<lparr>mailbox := (mailbox ?l)\<lparr>mb_type := 2\<rparr>, todo := tl (todo ?l2)\<rparr>"
  let ?l4 = "?l3\<lparr>mailbox := mb_copy 0 (le_bytes 8 4096) (mailbox ?l3), todo := tl (todo ?l3)\<rparr>"
  let ?l5 = "?l4\<lparr>model_side_sem := 1, todo := tl (todo ?l4), has_control := False\<rparr>"
  have "link_steps ?l ?l1"
    using more_link_steps [OF no_link_step wake_thread, of ?l] by (simp add: new_link_def)
  then have "link_steps ?l ?l2"
    using more_link_steps [OF _ wait_for_scheduler, of ?l ?l1] by (simp add: new_link_def acts)
  then have "link_steps ?l ?l3"
    using more_link_steps [OF _ set_type, of ?l ?l2] by (simp add: new_link_def acts)
  then have "link_steps ?l ?l4"
    using more_link_steps [OF _ copy_to, of ?l ?l3] by (simp add: new_link_def acts)
  then have "link_steps ?l ?l5"
    using more_link_steps [OF _ wake_scheduler, of ?l ?l4] by (simp add: new_link_def acts)
  from more_link_steps [OF this wait_for_thread] show ?thesis
    by (simp add: new_link_def acts lock_announced_def)
qed

theorem handovers_arrive_in_order_witness:
  "prefix (received lock_announced)
     (handovers (branch_thread TARGET_BRANCH [] lock_once) \<lparr>mb_type = 0, mb_cnts = replicate 64 0\<rparr>) \<and>
   map mb_type (received lock_announced) = [2] \<and>
   (\<forall>l'. \<not> (link_step lock_announced l' \<and> has_control l'))"
  using handovers_arrive_in_order [OF branch_thread_disciplined lock_announced_reached]
  by (auto simp: lock_once_def lock_announced_def)

text \<open>
  \<^verbatim>\<open>execute_runner\<close> returns: whenever the scheduler is inside it and the thread has a mailbox left
  to hand over, the two sides can go on until the scheduler has received the next one.
\<close>

lemma execute_runner_returns:
  assumes "control False acts \<noteq> None" and "link_steps (new_link ty acts) l"
    and "in_execute_runner l" and "Block_indefinitely \<notin> set (todo l)"
    and "length (received l) < length (handovers acts \<lparr>mb_type = ty, mb_cnts = replicate 64 0\<rparr>)"
  shows "\<exists>l'. link_steps l l' \<and> \<not> in_execute_runner l' \<and>
     length (received l') = Suc (length (received l))"
  by (rule next_handover_is_received [OF link_steps_ok [OF assms(2) new_link_ok [OF assms(1)]] assms(3-5)])

lemma execute_runner_returns_example:
  "\<exists>l'. link_steps (new_link 0 (branch_thread TARGET_BRANCH [] lock_once)\<lparr>child_side_sem := 1, in_execute_runner := True\<rparr>) l' \<and>
     \<not> in_execute_runner l' \<and> length (received l') = 1"
proof -
  let ?l = "new_link 0 (branch_thread TARGET_BRANCH [] lock_once)"
  have "link_steps ?l (?l\<lparr>child_side_sem := 1, in_execute_runner := True\<rparr>)"
    using more_link_steps [OF no_link_step wake_thread, of ?l] by (simp add: new_link_def)
  from execute_runner_returns [OF branch_thread_disciplined this] show ?thesis
    by (simp add: lock_once_def branch_thread_def branch_actions_def is_in_restart_mode_def
        new_link_def wrapper_defs Let_def)
qed

text \<open>
  C13. A thread of a branch, in either of its modes, that performs a sequence of the operations of
  \<open>visible_op\<close> (on mutexes, condition variables and semaphores except \<^verbatim>\<open>sem_destroy\<close>, joins, the return
  from its routine, and the end of the process; neither \<^verbatim>\<open>pthread_create\<close> nor \<^verbatim>\<open>pthread_exit\<close>), each on
  objects the model knows beforehand: what the scheduler has received at any moment are, read by the
  callbacks, the first transitions of those operations, in order.
\<close>

theorem model_learns_operations_in_order:
  assumes "branch_mode mode" and "Op_return \<notin> set (butlast ops)" and "\<forall>opn \<in> set ops. op_ok c head opn"
    and "link_steps (new_link ty (branch_thread mode head ops)) l"
  shows "prefix (map (discover env p c) (received l))
     (map (\<lambda>t. Some (discovered t c)) (concat (map (announced c p head False) ops)))"
proof -
  let ?mb = "\<lparr>mb_type = ty, mb_cnts = replicate 64 (0 :: byte)\<rparr>"
  have "link_ok (handovers (branch_thread mode head ops) ?mb) l"
    using link_steps_ok [OF assms(4) new_link_ok [OF branch_thread_disciplined [OF assms(1,2)]]] .
  then have "prefix (received l) (handovers (branch_thread mode head ops) ?mb)"
    unfolding link_ok_def by (metis prefixI)
  then have "prefix (map (discover env p c) (received l))
      (map (discover env p c) (handovers (branch_thread mode head ops) ?mb))"
    by (rule map_mono_prefix)
  also have "map (discover env p c) (handovers (branch_thread mode head ops) ?mb) =
      map (\<lambda>t. Some (discovered t c)) (concat (map (announced c p head False) ops))"
    using handovers_of_operations [OF assms(1,3), of ?mb env p]
    by (simp add: branch_thread_def thread_await_scheduler_def)
  finally show ?thesis .
qed

theorem model_learns_operations_in_order_witness:
  "map (discover still_world 3 one_mutex_world) (received lock_announced) =
     [Some (discovered (Mutex_lock 3 1) one_mutex_world)]"
  using model_learns_operations_in_order [OF branch_modes(1) _ _ lock_announced_reached, of one_mutex_world still_world 3]
  by (simp add: lock_once_def lock_announced_def contains_addr_def get_model_of_object_def
      one_mutex_world_def invalid_objid_def)

text \<open>
  C39. A thread whose routine returns after a restart checks in and is executed as exiting, but then only
  waits: it never wakes the scheduler. Whatever happens, \<^verbatim>\<open>execute_runner\<close> has returned nothing for it,
  and it gets stuck inside.
\<close>

theorem restarted_return_hangs:
  assumes "thread_routine_return DMTCP_RESTART_INTO_BRANCH = Perform acts"
  shows "(\<forall>l. link_steps (new_link ty acts) l \<longrightarrow> received l = []) \<and>
     (\<exists>l. link_steps (new_link ty acts) l \<and> in_execute_runner l \<and> (\<forall>l'. \<not> link_step l l'))"
proof -
  have acts: "acts = [Set_type THREAD_EXIT_TYPE, Notify_template, Wait_for_scheduler,
      Set_type THREAD_EXIT_TYPE, Wait_for_scheduler]"
    using assms by (simp add: thread_routine_return_def thread_handle_after_dmtcp_restart_def
        thread_await_scheduler_def)
  let ?l = "new_link ty acts"
  let ?l1 = "?l\<lparr>mailbox := (mailbox ?l)\<lparr>mb_type := 6\<rparr>, todo := tl (todo ?l)\<rparr>"
  let ?l2 = "?l1\<lparr>todo := tl (todo ?l1)\<rparr>"
  let ?l3 = "?l2\<lparr>child_side_sem := 1, in_execute_runner := True\<rparr>"
  let ?l4 = "?l3\<lparr>child_side_sem := 0, todo := tl (todo ?l3), has_control := True\<rparr>"
  let ?l5 = "?l4\<lparr>mailbox := (mailbox ?l4)\<lparr>mb_type := 6\<rparr>, todo := tl (todo ?l4)\<rparr>"
  have "link_steps ?l ?l1"
    using more_link_steps [OF no_link_step set_type, of ?l] by (simp add: new_link_def acts)
  then have "link_steps ?l ?l2"
    using more_link_steps [OF _ other_action, of ?l ?l1] by (simp add: new_link_def acts)
  then have "link_steps ?l ?l3"
    using more_link_steps [OF _ wake_thread, of ?l ?l2] by (simp add: new_link_def acts)
  then have "link_steps ?l ?l4"
    using more_link_steps [OF _ wait_for_scheduler, of ?l ?l3] by (simp add: new_link_def acts)
  then have "link_steps ?l ?l5"
    using more_link_steps [OF _ set_type, of ?l ?l4] by (simp add: new_link_def acts)
  moreover have "\<not> link_step ?l5 l'" for l'
    by (auto elim!: link_step.cases simp: new_link_def acts)
  moreover have "received l = []" if "link_steps ?l l" for l
    using nothing_received_without_wake [OF that] by (simp add: new_link_def acts)
  ultimately show ?thesis by (auto simp: new_link_def)
qed

theorem restarted_return_hangs_witness:
  "\<exists>acts. thread_routine_return DMTCP_RESTART_INTO_BRANCH = Perform acts \<and>
     (\<forall>l. link_steps (new_link 0 acts) l \<longrightarrow> received l = [])"
proof -
  obtain acts where "thread_routine_return DMTCP_RESTART_INTO_BRANCH = Perform acts"
    by (simp add: thread_routine_return_def)
  with restarted_return_hangs [OF this] show ?thesis by blast
qed

end
