(* ===== verification/Raw_Semaphore.thy ===== *)
theory Raw_Semaphore
  imports Prelude
begin

text \<open>
  The semaphore a thread of the target sleeps on, a plain futex word
  (\<^verbatim>\<open>src/common/runner_mailbox.c\<close>). One thread waits on it and the model checker posts to it; the
  steps of both, down to the atomic operations, are interleaved. The kernel's \<^verbatim>\<open>FUTEX_WAIT\<close> compares
  the word with 0 and goes to sleep in one step, and may return early; \<^verbatim>\<open>FUTEX_WAKE\<close> wakes the
  sleeper if there is one. The word has 32 bits, and a post to a word of all ones wraps to 0, as the
  atomic addition does. A \<^verbatim>\<open>FUTEX_WAIT\<close> that fails for any other reason than a changed word or a
  signal makes the wait return -1.

  \<open>Handshake\<close> uses the semaphore as a counter; the theorems here say that it is one.
\<close>

section \<open>Waiting and posting\<close>

text \<open>
  Where the waiter is: about to load the word, holding the value it loaded, about to call the kernel,
  asleep, past its wait, or back from it with -1.
\<close>

datatype waiter = Loading | Loaded "32 word" | Calling | Asleep | Through | Failed

datatype poster = Resting | Added

record raw_sem =
  futex_word :: "32 word"
  waiter :: waiter
  poster :: poster

definition mc_raw_sem_wait_step :: "raw_sem \<Rightarrow> raw_sem" where
  "mc_raw_sem_wait_step s =
     (case waiter s of
        Loading \<Rightarrow> s\<lparr>waiter := Loaded (futex_word s)\<rparr>
      | Loaded cur \<Rightarrow>
          if cur > 0
          then (if futex_word s = cur then s\<lparr>futex_word := cur - 1, waiter := Through\<rparr>
                else s\<lparr>waiter := Loading\<rparr>)
          else s\<lparr>waiter := Calling\<rparr>
      | Calling \<Rightarrow> if futex_word s = 0 then s\<lparr>waiter := Asleep\<rparr> else s\<lparr>waiter := Loading\<rparr>
      | Asleep \<Rightarrow> s
      | Through \<Rightarrow> s
      | Failed \<Rightarrow> s)"

definition mc_raw_sem_post_step :: "raw_sem \<Rightarrow> raw_sem" where
  "mc_raw_sem_post_step s =
     (case poster s of
        Resting \<Rightarrow> s\<lparr>futex_word := futex_word s + 1, poster := Added\<rparr>
      | Added \<Rightarrow> s\<lparr>poster := Resting, waiter := (if waiter s = Asleep then Loading else waiter s)\<rparr>)"

inductive raw_step :: "raw_sem \<Rightarrow> raw_sem \<Rightarrow> bool" where
  wait_step: "raw_step s (mc_raw_sem_wait_step s)"
| interrupted: "waiter s = Asleep \<Longrightarrow> raw_step s (s\<lparr>waiter := Loading\<rparr>)"
| wait_error: "waiter s = Calling \<Longrightarrow> raw_step s (s\<lparr>waiter := Failed\<rparr>)"
| next_wait: "waiter s \<in> {Through, Failed} \<Longrightarrow> raw_step s (s\<lparr>waiter := Loading\<rparr>)"
| post_step: "raw_step s (mc_raw_sem_post_step s)"

inductive raw_steps :: "raw_sem \<Rightarrow> raw_sem \<Rightarrow> bool" where
  no_raw_step: "raw_steps s s"
| more_raw_steps: "raw_steps s s' \<Longrightarrow> raw_step s' s'' \<Longrightarrow> raw_steps s s''"

text \<open>After \<^verbatim>\<open>mc_runner_mailbox_init\<close>.\<close>

definition new_raw_sem :: raw_sem where
  "new_raw_sem = \<lparr>futex_word = 0, waiter = Loading, poster = Resting\<rparr>"

section \<open>It counts\<close>

text \<open>
  What a user of a counting semaphore sees: the value, whether the waiter is past its wait, and whether
  the poster is inside its call.
\<close>

definition counter_step :: "32 word \<times> bool \<times> bool \<Rightarrow> 32 word \<times> bool \<times> bool \<Rightarrow> bool" where
  "counter_step c d \<longleftrightarrow>
     (case c of (n, through, posting) \<Rightarrow>
        d = c \<or>
        (\<not> through \<and> 0 < n \<and> d = (n - 1, True, posting)) \<or>
        (through \<and> d = (n, False, posting)) \<or>
        (\<not> posting \<and> d = (n + 1, through, True)) \<or>
        (posting \<and> d = (n, through, False)))"

definition as_counter :: "raw_sem \<Rightarrow> 32 word \<times> bool \<times> bool" where
  "as_counter s = (futex_word s, waiter s = Through, poster s = Added)"

lemma raw_step_counts: "raw_step s s' \<Longrightarrow> counter_step (as_counter s) (as_counter s')"
  by (cases rule: raw_step.cases, assumption)
    (auto simp: counter_step_def as_counter_def mc_raw_sem_wait_step_def mc_raw_sem_post_step_def
      split: waiter.splits poster.splits)

text \<open>A sleeping waiter with a positive word is about to be woken.\<close>

definition will_be_woken :: "raw_sem \<Rightarrow> bool" where
  "will_be_woken s \<longleftrightarrow> waiter s = Asleep \<longrightarrow> 0 < futex_word s \<longrightarrow> poster s = Added"

lemma raw_step_wakes: "raw_step s s' \<Longrightarrow> will_be_woken s \<Longrightarrow> will_be_woken s'"
  by (cases rule: raw_step.cases, assumption)
    (auto simp: will_be_woken_def mc_raw_sem_wait_step_def mc_raw_sem_post_step_def
      split: waiter.splits poster.splits if_splits)

lemma raw_steps_wake: "raw_steps s s' \<Longrightarrow> will_be_woken s \<Longrightarrow> will_be_woken s'"
  by (induction rule: raw_steps.induct) (auto intro: raw_step_wakes)

text \<open>
  C23. No wake-up is lost. In every reachable state in which the word is positive and no post is under
  way, the waiter, if it is inside its wait, gets through by its own steps alone, at most four of them,
  and takes exactly one unit. Every step of the protocol is a step of a counting semaphore of 32 bits or
  none.
\<close>

theorem raw_semaphore_loses_no_wakeup:
  assumes "raw_steps new_raw_sem s"
  shows "(\<forall>s'. raw_step s s' \<longrightarrow> counter_step (as_counter s) (as_counter s')) \<and>
    (0 < futex_word s \<and> poster s = Resting \<and> waiter s \<notin> {Through, Failed} \<longrightarrow>
       (\<exists>k \<le> 4. (mc_raw_sem_wait_step ^^ k) s = s\<lparr>futex_word := futex_word s - 1, waiter := Through\<rparr>))"
proof (intro conjI impI allI)
  show "counter_step (as_counter s) (as_counter s')" if "raw_step s s'" for s'
    using raw_step_counts [OF that] .
  assume s: "0 < futex_word s \<and> poster s = Resting \<and> waiter s \<notin> {Through, Failed}"
  have "will_be_woken s"
    by (rule raw_steps_wake [OF assms]) (simp add: will_be_woken_def new_raw_sem_def)
  with s have awake: "waiter s \<noteq> Asleep" by (simp add: will_be_woken_def)
  from s have word: "futex_word s \<noteq> 0" by auto
  let ?s' = "s\<lparr>futex_word := futex_word s - 1, waiter := Through\<rparr>"
  have loading: "(mc_raw_sem_wait_step ^^ 2) (s\<lparr>waiter := Loading\<rparr>) = ?s'"
    using s by (simp add: mc_raw_sem_wait_step_def numeral_2_eq_2)
  show "\<exists>k \<le> 4. (mc_raw_sem_wait_step ^^ k) s = ?s'"
  proof (cases "waiter s")
    case Loading
    then have "s\<lparr>waiter := Loading\<rparr> = s" by (cases s) simp
    with loading show ?thesis by (intro exI [of _ 2]) simp
  next
    case (Loaded cur)
    consider "cur = futex_word s" | "cur \<noteq> futex_word s" "cur > 0" | "cur = 0"
      using word_gt_0 [of cur] by blast
    then show ?thesis
    proof cases
      case 1
      with Loaded s show ?thesis by (intro exI [of _ 1]) (simp add: mc_raw_sem_wait_step_def)
    next
      case 2
      with Loaded have "mc_raw_sem_wait_step s = s\<lparr>waiter := Loading\<rparr>"
        by (simp add: mc_raw_sem_wait_step_def)
      with loading show ?thesis by (intro exI [of _ 3]) (simp add: funpow_Suc_right numeral_3_eq_3 numeral_2_eq_2)
    next
      case 3
      with Loaded s word have "mc_raw_sem_wait_step (mc_raw_sem_wait_step s) = s\<lparr>waiter := Loading\<rparr>"
        by (simp add: mc_raw_sem_wait_step_def)
      with loading show ?thesis
        by (intro exI [of _ 4]) (simp add: funpow_Suc_right eval_nat_numeral)
    qed
  next
    case Calling
    with word have "mc_raw_sem_wait_step s = s\<lparr>waiter := Loading\<rparr>" by (simp add: mc_raw_sem_wait_step_def)
    with loading show ?thesis by (intro exI [of _ 3]) (simp add: funpow_Suc_right numeral_3_eq_3 numeral_2_eq_2)
  qed (use s awake in simp_all)
qed

text \<open>The waiter is about to sleep when the post arrives.\<close>

definition post_before_sleep :: raw_sem where
  "post_before_sleep = \<lparr>futex_word = 1, waiter = Calling, poster = Resting\<rparr>"

lemma post_before_sleep_reached: "raw_steps new_raw_sem post_before_sleep"
proof -
  let ?s1 = "mc_raw_sem_wait_step new_raw_sem"
  let ?s2 = "mc_raw_sem_wait_step ?s1"
  let ?s3 = "mc_raw_sem_post_step ?s2"
  let ?s4 = "mc_raw_sem_post_step ?s3"
  have "raw_steps new_raw_sem ?s4"
    by (rule more_raw_steps [OF _ post_step], rule more_raw_steps [OF _ post_step],
        rule more_raw_steps [OF _ wait_step], rule more_raw_steps [OF _ wait_step], rule no_raw_step)
  moreover have "?s4 = post_before_sleep"
    by (simp add: post_before_sleep_def new_raw_sem_def mc_raw_sem_wait_step_def mc_raw_sem_post_step_def)
  ultimately show ?thesis by simp
qed

theorem raw_semaphore_loses_no_wakeup_witness:
  "\<exists>k \<le> 4. (mc_raw_sem_wait_step ^^ k) post_before_sleep =
     \<lparr>futex_word = 0, waiter = Through, poster = Resting\<rparr>"
  using raw_semaphore_loses_no_wakeup [OF post_before_sleep_reached]
  by (simp add: post_before_sleep_def)

end
