(* ===== verification/Branch_Process.thy ===== *)
theory Branch_Process
  imports Prelude
begin

text \<open>
  Running a thread of a branch process: \<^verbatim>\<open>local_linux_process::execute_runner\<close>
  (\<^verbatim>\<open>src/mcmini/real_world/local_linux_process.cpp\<close>) and the counter of death signals it relies on
  (\<^verbatim>\<open>src/mcmini/signal.cpp\<close>). The model checker sleeps on the semaphore of the runner's mailbox. It
  is woken by the thread, which has reached its next operation, or by the handler of \<^verbatim>\<open>SIGCHLD\<close>,
  which counts the signal and then posts to the semaphore that \<^verbatim>\<open>set_sem\<close> named last. After each
  wake-up \<^verbatim>\<open>execute_runner\<close> consumes a counted signal, if there is one, and asks \<^verbatim>\<open>waitpid\<close> whether
  it was its own branch that ended.

  The model checker, the thread, the handler (which runs on a thread of its own, between any two steps)
  and the processes that end are interleaved by a step relation. \<^verbatim>\<open>SIGCHLD\<close>s that have not been
  delivered are counted; the kernel may merge them, which drops some of them. The counter of the handler
  is a 32-bit integer that never gets near its limit.
\<close>

section \<open>Consuming signals and judging deaths\<close>

definition try_consume_signal :: "nat \<Rightarrow> bool \<times> nat" where
  "try_consume_signal current = (if current > 0 then (True, current - 1) else (False, current))"

text \<open>What \<^verbatim>\<open>waitpid\<close> says of the branch, with the exit code or the signal.\<close>

datatype wait_result = No_change | Wait_failed | Exited_with int | Killed_by int | Other_change

definition judge :: "runner_id \<Rightarrow> wait_result \<Rightarrow> error option" where
  "judge r status =
     (case status of
        No_change \<Rightarrow> None
      | Wait_failed \<Rightarrow> Some (Execution_error ''Error attempting to determine the failure causing the child process to abnormally exit'')
      | Exited_with exit_code \<Rightarrow>
          if exit_code \<noteq> 0 then Some (Nonzero_exit_code_error exit_code r)
          else Some (Execution_error ''process exited normally (code 0) while a transition was still pending on it'')
      | Killed_by signo \<Rightarrow> Some (Termination_error signo r)
      | Other_change \<Rightarrow> Some (Execution_error ''SIGSTOP/SIGCONT in branch processes is not yet supported.''))"

section \<open>The model checker, the thread and the signal handler\<close>

text \<open>Where the model checker is: the lines of \<^verbatim>\<open>execute_runner\<close>, or its end by an exception.\<close>

datatype phase =
    Outside | Waking runner_id | Sleeping runner_id | Woken runner_id | Asking runner_id | Threw error

text \<open>
  \<open>running r\<close>: thread \<open>r\<close> was woken and has not reached its next operation. \<open>ended\<close>: how the branch
  ended, if it did. A branch is a child of the template process, and of the model checker only once the
  template has ended and the model checker has become its reaper. Before that \<^verbatim>\<open>waitpid\<close> on the
  branch fails, whether the branch lives or not (\<open>not_a_child\<close>); a comment of \<^verbatim>\<open>execute_runner\<close>
  expects it to report no change of a living branch. Both answers are steps of the model.
\<close>

record monitor =
  sems :: "runner_id \<Rightarrow> nat"
  running :: "runner_id \<Rightarrow> bool"
  phase :: phase
  current_sem :: "runner_id option"
  sigchld :: nat
  undelivered :: nat
  in_handler :: bool
  ended :: "wait_result option"

inductive monitor_step :: "monitor \<Rightarrow> monitor \<Rightarrow> bool" where
  set_sem: "phase m = Outside \<Longrightarrow> r < MAX_TOTAL_THREADS_IN_PROGRAM \<Longrightarrow>
    monitor_step m (m\<lparr>phase := Waking r, current_sem := Some r\<rparr>)"
| wake_thread: "phase m = Waking r \<Longrightarrow>
    monitor_step m (m\<lparr>phase := Sleeping r, running := (running m)(r := True)\<rparr>)"
| check_in: "running m r \<Longrightarrow> ended m = None \<Longrightarrow>
    monitor_step m (m\<lparr>running := (running m)(r := False), sems := (sems m)(r := sems m r + 1)\<rparr>)"
| sig_semwait: "phase m = Sleeping r \<Longrightarrow> 0 < sems m r \<Longrightarrow>
    monitor_step m (m\<lparr>phase := Woken r, sems := (sems m)(r := sems m r - 1)\<rparr>)"
| no_signal: "phase m = Woken r \<Longrightarrow> try_consume_signal (sigchld m) = (False, n) \<Longrightarrow>
    monitor_step m (m\<lparr>phase := Outside\<rparr>)"
| consumed: "phase m = Woken r \<Longrightarrow> try_consume_signal (sigchld m) = (True, n) \<Longrightarrow>
    monitor_step m (m\<lparr>phase := Asking r, sigchld := n\<rparr>)"
| not_ours: "phase m = Asking r \<Longrightarrow> judge r (case ended m of None \<Rightarrow> No_change | Some st \<Rightarrow> st) = None \<Longrightarrow>
    monitor_step m (m\<lparr>phase := Sleeping r\<rparr>)"
| ours: "phase m = Asking r \<Longrightarrow> judge r (case ended m of None \<Rightarrow> No_change | Some st \<Rightarrow> st) = Some e \<Longrightarrow>
    monitor_step m (m\<lparr>phase := Threw e\<rparr>)"
| not_a_child: "phase m = Asking r \<Longrightarrow> judge r Wait_failed = Some e \<Longrightarrow>
    monitor_step m (m\<lparr>phase := Threw e\<rparr>)"
| branch_ends: "ended m = None \<Longrightarrow> status \<noteq> No_change \<Longrightarrow>
    monitor_step m (m\<lparr>ended := Some status, undelivered := undelivered m + 1\<rparr>)"
| other_ends: "monitor_step m (m\<lparr>undelivered := undelivered m + 1\<rparr>)"
| merged: "1 < undelivered m \<Longrightarrow> monitor_step m (m\<lparr>undelivered := undelivered m - 1\<rparr>)"
| set_signal: "0 < undelivered m \<Longrightarrow> \<not> in_handler m \<Longrightarrow>
    monitor_step m (m\<lparr>undelivered := undelivered m - 1, sigchld := sigchld m + 1, in_handler := True\<rparr>)"
| post_current: "in_handler m \<Longrightarrow> current_sem m = Some r \<Longrightarrow>
    monitor_step m (m\<lparr>in_handler := False, sems := (sems m)(r := sems m r + 1)\<rparr>)"
| post_nothing: "in_handler m \<Longrightarrow> current_sem m = None \<Longrightarrow> monitor_step m (m\<lparr>in_handler := False\<rparr>)"

inductive monitor_steps :: "monitor \<Rightarrow> monitor \<Rightarrow> bool" where
  no_monitor_step: "monitor_steps m m"
| more_monitor_steps: "monitor_steps m m' \<Longrightarrow> monitor_step m' m'' \<Longrightarrow> monitor_steps m m''"

text \<open>A new branch: fresh mailboxes, nothing counted, and no runner yet whose semaphore is named.\<close>

definition new_branch :: monitor where
  "new_branch =
     \<lparr>sems = \<lambda>_. 0, running = \<lambda>_. False, phase = Outside, current_sem = None, sigchld = 0,
      undelivered = 0, in_handler = False, ended = None\<rparr>"

section \<open>Wake-ups are accounted for\<close>

fun executing :: "phase \<Rightarrow> runner_id option" where
  "executing (Sleeping r) = Some r"
| "executing (Woken r) = Some r"
| "executing (Asking r) = Some r"
| "executing _ = None"

definition units :: "monitor \<Rightarrow> nat" where
  "units m = sum (sems m) {..<MAX_TOTAL_THREADS_IN_PROGRAM}"

definition owed :: "monitor \<Rightarrow> nat" where
  "owed m = (case executing (phase m) of Some r \<Rightarrow> if running m r then 0 else 1 | None \<Rightarrow> 0)"

lemma owed_update [simp]:
  "owed (m\<lparr>sems := f\<rparr>) = owed m" "owed (m\<lparr>current_sem := c\<rparr>) = owed m" "owed (m\<lparr>sigchld := n\<rparr>) = owed m"
  "owed (m\<lparr>undelivered := n\<rparr>) = owed m" "owed (m\<lparr>in_handler := b\<rparr>) = owed m"
  "owed (m\<lparr>ended := st\<rparr>) = owed m"
  by (simp_all add: owed_def split: option.split)

lemma units_update [simp]:
  "units (m\<lparr>running := f\<rparr>) = units m" "units (m\<lparr>phase := ph\<rparr>) = units m"
  "units (m\<lparr>current_sem := c\<rparr>) = units m" "units (m\<lparr>sigchld := n\<rparr>) = units m"
  "units (m\<lparr>undelivered := n\<rparr>) = units m" "units (m\<lparr>in_handler := b\<rparr>) = units m"
  "units (m\<lparr>ended := st\<rparr>) = units m"
  by (simp_all add: units_def)

text \<open>
  Every unit of a semaphore, and the one just taken, stands for a check-in of the runner being executed
  or for a counted signal whose handler has finished.
\<close>

definition accounted :: "monitor \<Rightarrow> bool" where
  "accounted m \<longleftrightarrow>
     units m + (case phase m of Woken r \<Rightarrow> 1 | _ \<Rightarrow> 0) + (if in_handler m then 1 else 0)
       \<le> sigchld m + owed m"

definition monitor_ok :: "monitor \<Rightarrow> bool" where
  "monitor_ok m \<longleftrightarrow>
     (\<forall>e. phase m \<noteq> Threw e) \<longrightarrow>
       accounted m \<and>
       (\<forall>r. running m r \<longrightarrow> executing (phase m) = Some r) \<and>
       (\<forall>r. executing (phase m) = Some r \<or> phase m = Waking r \<longrightarrow> r < MAX_TOTAL_THREADS_IN_PROGRAM) \<and>
       (\<forall>r. current_sem m = Some r \<longrightarrow> r < MAX_TOTAL_THREADS_IN_PROGRAM)"

lemma sum_update:
  fixes f :: "nat \<Rightarrow> nat"
  assumes "r < k"
  shows "sum (f(r := f r + 1)) {..<k} = sum f {..<k} + 1"
    and "0 < f r \<Longrightarrow> sum (f(r := f r - 1)) {..<k} + 1 = sum f {..<k}"
proof -
  have s: "sum g {..<k} = g r + sum g ({..<k} - {r})" for g :: "nat \<Rightarrow> nat"
    using assms by (intro sum.remove) auto
  have "sum (f(r := v)) ({..<k} - {r}) = sum f ({..<k} - {r})" for v
    by (rule sum.cong) auto
  with s [of f] s [of "f(r := f r + 1)"] s [of "f(r := f r - 1)"]
  show "sum (f(r := f r + 1)) {..<k} = sum f {..<k} + 1"
    and "0 < f r \<Longrightarrow> sum (f(r := f r - 1)) {..<k} + 1 = sum f {..<k}" by simp_all
qed

lemma monitor_okI:
  assumes "\<forall>e. phase m' \<noteq> Threw e \<Longrightarrow> accounted m'"
    and "\<And>r. \<forall>e. phase m' \<noteq> Threw e \<Longrightarrow> running m' r \<Longrightarrow> executing (phase m') = Some r"
    and "\<And>r. executing (phase m') = Some r \<or> phase m' = Waking r \<or> current_sem m' = Some r \<Longrightarrow>
      \<forall>e. phase m' \<noteq> Threw e \<Longrightarrow> r < MAX_TOTAL_THREADS_IN_PROGRAM"
  shows "monitor_ok m'"
  using assms unfolding monitor_ok_def by blast

lemma monitor_step_ok: "monitor_step m m' \<Longrightarrow> monitor_ok m \<Longrightarrow> monitor_ok m'"
proof (induction rule: monitor_step.induct)
  case (check_in m r)
  let ?m = "m\<lparr>running := (running m)(r := False), sems := (sems m)(r := sems m r + 1)\<rparr>"
  show ?case
  proof (rule monitor_okI)
    assume "\<forall>e. phase ?m \<noteq> Threw e"
    with check_in have r: "executing (phase m) = Some r" "accounted m" "r < MAX_TOTAL_THREADS_IN_PROGRAM"
      by (auto simp: monitor_ok_def)
    then have "units ?m = units m + 1" using sum_update(1) [of r] by (simp add: units_def)
    moreover have "owed ?m = owed m + 1" using r(1) check_in(1) by (simp add: owed_def)
    ultimately show "accounted ?m" using r(2) by (simp add: accounted_def)
  next
    fix q assume "\<forall>e. phase ?m \<noteq> Threw e" and q: "running ?m q"
    with check_in have "\<forall>q. running m q \<longrightarrow> executing (phase m) = Some q" by (simp add: monitor_ok_def)
    with q show "executing (phase ?m) = Some q" by (simp split: if_splits)
  next
    fix q assume "executing (phase ?m) = Some q \<or> phase ?m = Waking q \<or> current_sem ?m = Some q"
      and "\<forall>e. phase ?m \<noteq> Threw e"
    with check_in(3) show "q < MAX_TOTAL_THREADS_IN_PROGRAM" by (simp add: monitor_ok_def) blast
  qed
next
  case (sig_semwait m r)
  let ?m = "m\<lparr>phase := Woken r, sems := (sems m)(r := sems m r - 1)\<rparr>"
  from sig_semwait have r: "r < MAX_TOTAL_THREADS_IN_PROGRAM" "accounted m" by (simp_all add: monitor_ok_def)
  then have "units ?m + 1 = units m" using sum_update(2) [of r] sig_semwait(2) by (simp add: units_def)
  then have "accounted ?m" using r(2) sig_semwait(1) by (simp add: accounted_def owed_def)
  then show ?case using sig_semwait by (intro monitor_okI) (auto simp: monitor_ok_def)
next
  case (post_current m r)
  let ?m = "m\<lparr>in_handler := False, sems := (sems m)(r := sems m r + 1)\<rparr>"
  show ?case
  proof (rule monitor_okI)
    assume "\<forall>e. phase ?m \<noteq> Threw e"
    with post_current have r: "r < MAX_TOTAL_THREADS_IN_PROGRAM" "accounted m" by (simp_all add: monitor_ok_def)
    then have "units ?m = units m + 1" using sum_update(1) [of r] by (simp add: units_def)
    moreover have "owed ?m = owed m" by (simp add: owed_def split: option.split)
    ultimately show "accounted ?m" using r(2) post_current(1) by (simp add: accounted_def)
  qed (use post_current in \<open>auto simp: monitor_ok_def\<close>)
next
  case (no_signal m r n)
  then have "accounted (m\<lparr>phase := Outside\<rparr>)"
    by (auto simp: monitor_ok_def accounted_def owed_def units_def try_consume_signal_def split: if_splits)
  moreover have "owed m = 1" "in_handler m = False"
    using no_signal by (auto simp: monitor_ok_def accounted_def owed_def try_consume_signal_def split: if_splits)
  ultimately show ?case
    using no_signal by (intro monitor_okI) (auto simp: monitor_ok_def owed_def split: if_splits)
next
  case (wake_thread m r)
  let ?m = "m\<lparr>phase := Sleeping r, running := (running m)(r := True)\<rparr>"
  from wake_thread have r: "r < MAX_TOTAL_THREADS_IN_PROGRAM" "accounted m" "\<forall>q. \<not> running m q"
    "\<forall>q. current_sem m = Some q \<longrightarrow> q < MAX_TOTAL_THREADS_IN_PROGRAM" by (simp_all add: monitor_ok_def)
  have "accounted ?m" using r(2) wake_thread(1) by (simp add: accounted_def owed_def units_def)
  then show ?case
  proof (rule monitor_okI)
    show "executing (phase ?m) = Some q" if "running ?m q" for q
      using that r(3) by (cases "q = r") simp_all
    show "q < MAX_TOTAL_THREADS_IN_PROGRAM"
      if "executing (phase ?m) = Some q \<or> phase ?m = Waking q \<or> current_sem ?m = Some q" for q
      using that r(1,4) by (elim disjE) simp_all
  qed
next
  case (consumed m r n)
  let ?m = "m\<lparr>phase := Asking r, sigchld := n\<rparr>"
  from consumed have r: "accounted m" "r < MAX_TOTAL_THREADS_IN_PROGRAM"
    "\<forall>q. running m q \<longrightarrow> r = q" "\<forall>q. current_sem m = Some q \<longrightarrow> q < MAX_TOTAL_THREADS_IN_PROGRAM"
    by (simp_all add: monitor_ok_def)
  have "sigchld m = n + 1" using consumed(2) by (auto simp: try_consume_signal_def split: if_splits)
  then have "accounted ?m" using r(1) consumed(1) by (simp add: accounted_def owed_def units_def)
  then show ?case
  proof (rule monitor_okI)
    show "executing (phase ?m) = Some q" if "running ?m q" for q using that r(3) by simp
    show "q < MAX_TOTAL_THREADS_IN_PROGRAM"
      if "executing (phase ?m) = Some q \<or> phase ?m = Waking q \<or> current_sem ?m = Some q" for q
      using that r(2,4) by (elim disjE) simp_all
  qed
next
  case (set_signal m)
  then show ?case by (simp add: monitor_ok_def accounted_def)
next
  case (post_nothing m)
  then show ?case by (auto simp: monitor_ok_def accounted_def)
next
  case (set_sem m r)
  then show ?case by (auto simp: monitor_ok_def accounted_def owed_def)
next
  case (not_ours m r)
  then show ?case by (auto simp: monitor_ok_def accounted_def owed_def)
qed (simp_all add: monitor_ok_def accounted_def)

lemma monitor_steps_ok: "monitor_steps m m' \<Longrightarrow> monitor_ok m \<Longrightarrow> monitor_ok m'"
  by (induction rule: monitor_steps.induct) (auto intro: monitor_step_ok)

lemma new_branch_ok: "monitor_ok new_branch"
  by (simp add: monitor_ok_def new_branch_def accounted_def units_def owed_def)

text \<open>
  As long as the branch is the template's child, any signal consumed during a call ends the call with an
  exception, also when the branch lives and another process ended.
\<close>

lemma signal_of_other_process_throws:
  assumes "phase m = Woken r" and "0 < sigchld m" and "ended m = None"
  shows "\<exists>e. monitor_steps m (m\<lparr>sigchld := sigchld m - 1, phase := Threw e\<rparr>)"
proof -
  let ?m = "m\<lparr>phase := Asking r, sigchld := sigchld m - 1\<rparr>"
  have 1: "monitor_step m ?m"
    by (rule consumed) (use assms in \<open>simp_all add: try_consume_signal_def\<close>)
  obtain e where "judge r Wait_failed = Some e" by (simp add: judge_def)
  then have "monitor_step ?m (?m\<lparr>phase := Threw e\<rparr>)" by (intro not_a_child) simp_all
  then have "monitor_step ?m (m\<lparr>sigchld := sigchld m - 1, phase := Threw e\<rparr>)" by simp
  from more_monitor_steps [OF more_monitor_steps [OF no_monitor_step 1] this] show ?thesis by blast
qed

lemma monitor_steps_trans: "monitor_steps m' m'' \<Longrightarrow> monitor_steps m m' \<Longrightarrow> monitor_steps m m''"
  by (induction rule: monitor_steps.induct) (auto intro: more_monitor_steps)

inductive_cases returns: "monitor_step m m'"

text \<open>\<^verbatim>\<open>execute_runner\<close> returns only in one way.\<close>

lemma return_step:
  assumes "monitor_step m m'" and "phase m \<noteq> Outside" and "phase m' = Outside"
  obtains r where "phase m = Woken r" "sigchld m = 0" "m' = m\<lparr>phase := Outside\<rparr>"
  using assms by (cases rule: returns) (auto simp: try_consume_signal_def split: if_splits)

lemma return_ok:
  assumes "monitor_ok m" and "phase m = Woken r" and "sigchld m = 0"
  shows "\<not> running m r \<and> \<not> in_handler m \<and> (\<forall>r' < MAX_TOTAL_THREADS_IN_PROGRAM. sems m r' = 0)"
proof -
  have "units m + 1 + (if in_handler m then 1 else 0) \<le> owed m" "owed m \<le> 1"
    using assms by (auto simp: monitor_ok_def accounted_def owed_def)
  then have "units m = 0" "\<not> in_handler m" "owed m = 1" by (auto split: if_splits)
  with assms(2) show ?thesis by (auto simp: units_def owed_def split: if_splits)
qed

text \<open>
  A run: runner 0 is executed, then a process ends and its signal is handled, then runner 1 is to be
  executed.
\<close>

definition executed_0 :: monitor where
  "executed_0 = new_branch\<lparr>phase := Woken 0, current_sem := Some 0\<rparr>"

lemma executed_0_reached: "monitor_steps new_branch executed_0"
proof -
  let ?m1 = "new_branch\<lparr>phase := Waking 0, current_sem := Some 0\<rparr>"
  let ?m2 = "?m1\<lparr>phase := Sleeping 0, running := (running ?m1)(0 := True)\<rparr>"
  let ?m3 = "?m2\<lparr>running := (running ?m2)(0 := False), sems := (sems ?m2)(0 := sems ?m2 0 + 1)\<rparr>"
  let ?m4 = "?m3\<lparr>phase := Woken 0, sems := (sems ?m3)(0 := sems ?m3 0 - 1)\<rparr>"
  have 1: "monitor_step new_branch ?m1"
    by (rule set_sem) (simp_all add: new_branch_def MAX_TOTAL_THREADS_IN_PROGRAM_def)
  have 2: "monitor_step ?m1 ?m2" by (rule wake_thread) simp
  have 3: "monitor_step ?m2 ?m3" by (rule check_in) (simp_all add: new_branch_def)
  have 4: "monitor_step ?m3 ?m4" by (rule sig_semwait) simp_all
  have "?m4 = executed_0" by (simp add: executed_0_def new_branch_def fun_eq_iff)
  with 4 have "monitor_step ?m3 executed_0" by simp
  from more_monitor_steps [OF more_monitor_steps [OF more_monitor_steps [OF
      more_monitor_steps [OF no_monitor_step 1] 2] 3] this] show ?thesis .
qed

definition signal_between :: "wait_result option \<Rightarrow> monitor" where
  "signal_between status = new_branch\<lparr>current_sem := Some 0, sems := (\<lambda>_. 0)(0 := 1), sigchld := 1, ended := status\<rparr>"

lemma signal_between_reached:
  assumes "status \<noteq> Some No_change"
  shows "monitor_steps new_branch (signal_between status)"
proof -
  let ?m1 = "executed_0\<lparr>phase := Outside\<rparr>"
  let ?m2 = "?m1\<lparr>ended := status, undelivered := undelivered ?m1 + 1\<rparr>"
  let ?m3 = "?m2\<lparr>undelivered := undelivered ?m2 - 1, sigchld := sigchld ?m2 + 1, in_handler := True\<rparr>"
  let ?m4 = "?m3\<lparr>in_handler := False, sems := (sems ?m3)(0 := sems ?m3 0 + 1)\<rparr>"
  have 1: "monitor_step executed_0 ?m1"
    by (rule no_signal [of _ 0 0]) (simp_all add: executed_0_def new_branch_def try_consume_signal_def)
  have 2: "monitor_step ?m1 ?m2"
  proof (cases status)
    case None
    have "?m2 = ?m1\<lparr>undelivered := undelivered ?m1 + 1\<rparr>" by (simp add: None executed_0_def new_branch_def)
    then show ?thesis using other_ends [of ?m1] by simp
  next
    case (Some st)
    then show ?thesis using assms branch_ends [of ?m1 st] by (simp add: executed_0_def new_branch_def)
  qed
  have 3: "monitor_step ?m2 ?m3" by (rule set_signal) (simp_all add: executed_0_def new_branch_def)
  have 4: "monitor_step ?m3 ?m4" by (rule post_current) (simp_all add: executed_0_def new_branch_def)
  have "?m4 = signal_between status"
    by (simp add: signal_between_def executed_0_def new_branch_def fun_eq_iff)
  with 4 have "monitor_step ?m3 (signal_between status)" by simp
  from more_monitor_steps [OF more_monitor_steps [OF more_monitor_steps [OF
      more_monitor_steps [OF executed_0_reached 1] 2] 3] this] show ?thesis .
qed

definition next_runner_waits :: "wait_result option \<Rightarrow> monitor" where
  "next_runner_waits status =
     (signal_between status)\<lparr>phase := Sleeping 1, current_sem := Some 1, running := (\<lambda>_. False)(1 := True)\<rparr>"

lemma next_runner_waits_reached:
  assumes "status \<noteq> Some No_change"
  shows "monitor_steps new_branch (next_runner_waits status)"
proof -
  let ?m = "signal_between status"
  let ?m1 = "?m\<lparr>phase := Waking 1, current_sem := Some 1\<rparr>"
  have "monitor_step ?m ?m1"
    by (rule set_sem) (simp_all add: signal_between_def new_branch_def MAX_TOTAL_THREADS_IN_PROGRAM_def)
  moreover have "monitor_step ?m1 (next_runner_waits status)"
    using wake_thread [of ?m1 1] by (simp add: next_runner_waits_def signal_between_def new_branch_def)
  ultimately show ?thesis using signal_between_reached [OF assms] by (blast intro: more_monitor_steps)
qed

text \<open>
  C21. \<^verbatim>\<open>execute_runner\<close> returns only when the thread is ready: whatever processes end and whenever their
  signals are handled, the runner has reached its next operation when the call returns, and no unit is
  left in any mailbox's semaphore and no signal is left in the counter that could end a later call early.
\<close>

theorem returned_runner_has_checked_in:
  assumes "monitor_steps new_branch m" and "monitor_step m m'"
    and "phase m \<noteq> Outside" and "phase m' = Outside"
  shows "\<exists>r. phase m = Woken r \<and> \<not> running m' r \<and> sigchld m' = 0 \<and> \<not> in_handler m' \<and>
    (\<forall>r' < MAX_TOTAL_THREADS_IN_PROGRAM. sems m' r' = 0)"
proof -
  obtain r where r: "phase m = Woken r" "sigchld m = 0" "m' = m\<lparr>phase := Outside\<rparr>"
    using return_step [OF assms(2-4)] by blast
  with return_ok [OF monitor_steps_ok [OF assms(1) new_branch_ok] r(1,2)] show ?thesis by simp
qed

theorem returned_runner_has_checked_in_witness:
  "\<not> running (executed_0\<lparr>phase := Outside\<rparr>) 0 \<and> sems (executed_0\<lparr>phase := Outside\<rparr>) 0 = 0"
proof -
  have "monitor_step executed_0 (executed_0\<lparr>phase := Outside\<rparr>)"
    by (rule no_signal [of _ 0 0]) (simp_all add: executed_0_def new_branch_def try_consume_signal_def)
  from returned_runner_has_checked_in [OF executed_0_reached this] show ?thesis
    by (simp add: executed_0_def MAX_TOTAL_THREADS_IN_PROGRAM_def)
qed

section \<open>Stray signals\<close>

text \<open>A unit in the semaphore of another runner stays there until \<^verbatim>\<open>execute_runner\<close> ends.\<close>

lemma stray_unit_stays:
  assumes "monitor_step m m'" and "executing (phase m) = Some r" and "r' \<noteq> r" and "0 < sems m r'"
    and "monitor_ok m" and "r' < MAX_TOTAL_THREADS_IN_PROGRAM"
  shows "(\<exists>e. phase m' = Threw e) \<or> executing (phase m') = Some r \<and> 0 < sems m' r'"
proof -
  have "phase m' \<noteq> Outside"
  proof
    assume "phase m' = Outside"
    moreover have "phase m \<noteq> Outside" using assms(2) by auto
    ultimately obtain q where "phase m = Woken q" "sigchld m = 0" using return_step [OF assms(1)] by blast
    from return_ok [OF assms(5) this] assms(4,6) show False by simp
  qed
  with assms(1-4) show ?thesis by (cases rule: returns) auto
qed

lemma threw_stays: "monitor_step m m' \<Longrightarrow> phase m = Threw e \<Longrightarrow> phase m' = Threw e"
  by (cases rule: returns) auto

text \<open>
  C22. A death signal handled between two calls stops the model checker. It posts to the semaphore of the
  runner executed last; the next call for another runner consumes the counted signal in exchange for its
  own runner's check-in and then waits for a second one: it never returns, it can only throw, because
  the branch ended or because \<^verbatim>\<open>waitpid\<close> failed on it.
\<close>

theorem stray_signal_blocks_next_runner:
  assumes "monitor_steps new_branch m" and "executing (phase m) = Some r" and "0 < sems m r'"
    and "r' \<noteq> r" and "r' < MAX_TOTAL_THREADS_IN_PROGRAM" and "monitor_steps m m'"
  shows "(\<exists>e. phase m' = Threw e) \<or> executing (phase m') = Some r"
proof -
  have "monitor_ok m" by (rule monitor_steps_ok [OF assms(1) new_branch_ok])
  with assms(6,2,3) have "monitor_ok m' \<and>
      ((\<exists>e. phase m' = Threw e) \<or> executing (phase m') = Some r \<and> 0 < sems m' r')"
  proof (induction rule: monitor_steps.induct)
    case (more_monitor_steps m m' m'')
    then have ok: "monitor_ok m'"
      and "(\<exists>e. phase m' = Threw e) \<or> executing (phase m') = Some r \<and> 0 < sems m' r'" by auto
    then consider e where "phase m' = Threw e" | "executing (phase m') = Some r" "0 < sems m' r'"
      by (elim disjE exE conjE) simp_all
    then show ?case
    proof cases
      case 1
      from threw_stays [OF more_monitor_steps(2) this] show ?thesis by (simp add: monitor_ok_def)
    next
      case 2
      from stray_unit_stays [OF more_monitor_steps(2) this(1) assms(4) this(2) ok assms(5)]
        monitor_step_ok [OF more_monitor_steps(2) ok] show ?thesis by blast
    qed
  qed simp
  then show ?thesis by blast
qed

text \<open>Runner 1 has checked in, and its call waits for it again.\<close>

definition next_runner_stuck :: monitor where
  "next_runner_stuck =
     (next_runner_waits None)\<lparr>running := \<lambda>_. False, sigchld := 0\<rparr>"

lemma next_runner_stuck_reached: "monitor_steps (next_runner_waits None) next_runner_stuck"
proof -
  let ?m = "next_runner_waits None"
  let ?m1 = "?m\<lparr>running := (running ?m)(1 := False), sems := (sems ?m)(1 := sems ?m 1 + 1)\<rparr>"
  let ?m2 = "?m1\<lparr>phase := Woken 1, sems := (sems ?m1)(1 := sems ?m1 1 - 1)\<rparr>"
  let ?m3 = "?m2\<lparr>phase := Asking 1, sigchld := 0\<rparr>"
  let ?m4 = "?m3\<lparr>phase := Sleeping 1\<rparr>"
  note defs = next_runner_waits_def signal_between_def new_branch_def
  have 1: "monitor_step ?m ?m1" by (rule check_in) (simp_all add: defs)
  have 2: "monitor_step ?m1 ?m2" by (rule sig_semwait) (simp_all add: defs)
  have 3: "monitor_step ?m2 ?m3" by (rule consumed) (simp_all add: defs try_consume_signal_def)
  have 4: "monitor_step ?m3 ?m4" by (rule not_ours) (simp_all add: defs judge_def)
  have "?m4 = next_runner_stuck" by (simp add: next_runner_stuck_def defs fun_eq_iff)
  with 4 have "monitor_step ?m3 next_runner_stuck" by simp
  from more_monitor_steps [OF more_monitor_steps [OF more_monitor_steps [OF
      more_monitor_steps [OF no_monitor_step 1] 2] 3] this] show ?thesis .
qed

theorem stray_signal_blocks_next_runner_witness:
  "\<not> running next_runner_stuck 1 \<and> ended next_runner_stuck = None \<and>
   executing (phase next_runner_stuck) = Some 1"
proof -
  have "executing (phase (next_runner_waits None)) = Some 1" "0 < sems (next_runner_waits None) 0"
    by (simp_all add: next_runner_waits_def signal_between_def)
  from stray_signal_blocks_next_runner [OF next_runner_waits_reached this _ _ next_runner_stuck_reached]
  show ?thesis
    by (simp add: MAX_TOTAL_THREADS_IN_PROGRAM_def next_runner_stuck_def next_runner_waits_def
        signal_between_def new_branch_def)
qed

text \<open>
  A branch that dies between two calls is not noticed. Its signal is counted, but the post goes to
  the mailbox of the runner executed last; \<^verbatim>\<open>execute_runner\<close> for another runner wakes a thread that
  is gone and sleeps until some other process happens to end.
\<close>

lemma death_between_calls_is_missed:
  "\<exists>m. monitor_steps new_branch m \<and> ended m = Some (Killed_by 11) \<and> phase m = Sleeping 1 \<and>
     sigchld m = 1 \<and> {m'. monitor_step m m'} = {m\<lparr>undelivered := 1\<rparr>}"
proof -
  let ?m = "next_runner_waits (Some (Killed_by 11))"
  have m: "ended ?m = Some (Killed_by 11)" "phase ?m = Sleeping 1" "sigchld ?m = 1" "sems ?m 1 = 0"
    "undelivered ?m = 0" "\<not> in_handler ?m"
    by (simp_all add: next_runner_waits_def signal_between_def new_branch_def)
  have "m' = ?m\<lparr>undelivered := 1\<rparr>" if "monitor_step ?m m'" for m'
    using that by (cases rule: returns) (use m in auto)
  moreover have "monitor_step ?m (?m\<lparr>undelivered := 1\<rparr>)" using other_ends [of ?m] m(5) by simp
  ultimately have "{m'. monitor_step ?m m'} = {?m\<lparr>undelivered := 1\<rparr>}" by blast
  moreover have "monitor_steps new_branch ?m" by (rule next_runner_waits_reached) simp
  ultimately show ?thesis using m by blast
qed

section \<open>The ends of processes\<close>

text \<open>
  The destructor kills the process and, if asked to, waits for it. It takes its signal from the counter
  and then one for every other child that can be reaped at once.
\<close>

fun drain :: "nat \<Rightarrow> nat \<Rightarrow> nat" where
  "drain 0 sigchlds = sigchlds"
| "drain (Suc zombies) sigchlds = drain zombies (snd (try_consume_signal sigchlds))"

definition destroy_process :: "int \<Rightarrow> bool \<Rightarrow> bool \<Rightarrow> nat \<Rightarrow> nat \<Rightarrow> nat" where
  "destroy_process pid should_wait reaped zombies sigchlds =
     (if pid > 0 \<and> should_wait \<and> reaped then drain zombies (snd (try_consume_signal sigchlds))
      else sigchlds)"

lemma drain_eq: "drain zombies sigchlds = sigchlds - zombies"
  by (induction zombies sigchlds rule: drain.induct) (auto simp: try_consume_signal_def)

text \<open>
  When every reaped child has had its signal handled, none is left; a signal handled later stays and is
  taken for a death by whoever consumes it.
\<close>

lemma destroyed_process_leaves_no_signal:
  "0 < pid \<Longrightarrow> sigchlds \<le> Suc zombies \<Longrightarrow> destroy_process pid True True zombies sigchlds = 0"
  by (auto simp: destroy_process_def drain_eq try_consume_signal_def)

section \<open>Creating branches\<close>

definition TEMPLATE_FORK_FAILED :: int where
  "TEMPLATE_FORK_FAILED = -2"

text \<open>
  \<^verbatim>\<open>fork_process_source::make_new_process\<close> once there is a template process: the counter before
  and after the template was told to fork, what posting and waiting returned, and the id it reported.
\<close>

definition make_new_process :: "nat \<Rightarrow> int \<Rightarrow> int \<Rightarrow> nat \<Rightarrow> int \<Rightarrow> int res" where
  "make_new_process sigchlds_before post_rc wait_rc sigchlds_after cpid =
     (if fst (try_consume_signal sigchlds_before)
      then Inl (Process_creation_exception ''Failed to create a new process (template process died).'')
      else if post_rc \<noteq> 0 \<or> wait_rc \<noteq> 0
      then Inl (Process_creation_exception ''The template process was not synchronized with correctly'')
      else if fst (try_consume_signal sigchlds_after)
      then Inl (Process_creation_exception ''Failed to create a new process (template or [possibly the branch] process died)'')
      else if cpid = TEMPLATE_FORK_FAILED
      then Inl (Process_creation_exception ''The fork(2) call in the template process failed unexpectedly'')
      else Inr cpid)"

text \<open>
  A counted signal, whichever process it came from, makes the creation fail.
\<close>

lemma stray_signal_fails_creation:
  "0 < sigchlds_before \<or> 0 < sigchlds_after \<Longrightarrow>
     \<exists>msg. make_new_process sigchlds_before post_rc wait_rc sigchlds_after cpid =
       Inl (Process_creation_exception msg)"
  by (auto simp: make_new_process_def try_consume_signal_def)

text \<open>
  \<^verbatim>\<open>multithreaded_fork_process_source\<close> polls for its template to become ready: a timed wait and
  whether the template was found dead after it. \<open>None\<close> means that it is still polling.
\<close>

datatype timed_wait = Acquired | Interrupted | Timed_out | Wait_error

fun await_template :: "(timed_wait \<times> bool) list \<Rightarrow> unit res option" where
  "await_template [] = None"
| "await_template ((answer, template_died) # polls) =
     (if answer = Interrupted then await_template polls
      else if answer = Wait_error
      then Some (Inl (Process_creation_exception ''Error while waiting for the template process to stabilize''))
      else if template_died
      then Some (Inl (Process_creation_exception ''The template process died during `dmtcp_restart` before signaling readiness.''))
      else if answer = Acquired then Some (Inr ())
      else await_template polls)"

lemma template_ready_and_alive: "await_template polls = Some (Inr ()) \<Longrightarrow> (Acquired, False) \<in> set polls"
  by (induction polls rule: await_template.induct) (auto split: if_splits)

lemma dead_template_is_noticed:
  "(Timed_out, True) \<in> set polls \<Longrightarrow> await_template polls \<noteq> None"
  by (induction polls rule: await_template.induct) auto

end
