(* ===== verification/Template_Process.thy ===== *)
theory Template_Process
  imports Branch_Process
begin

text \<open>
  The template process (\<^verbatim>\<open>src/lib/template/loop.c\<close>): it forks a branch whenever the model checker asks
  for one, writes its process id into shared memory, and waits for the branch to end before it serves
  the next request. There are two copies of the loop, for a template that is a program before \<^verbatim>\<open>main\<close>
  (\<^verbatim>\<open>mc_template_process_loop_forever\<close>) and for one restarted from a checkpoint
  (\<^verbatim>\<open>mc_template_thread_loop_forever\<close>); they differ in what they store.

  The loop, the deaths of branches with the handler of \<^verbatim>\<open>SIGCHLD\<close>, and the requests of the model
  checker are interleaved by a step relation. The processes a template has are its branches.
\<close>

section \<open>Replies\<close>

record template_process_t =
  err :: int
  cpid :: int

text \<open>What the template stores after a fork that returned \<open>rc\<close>, when it is not the child.\<close>

definition process_loop_reply :: "int \<Rightarrow> int \<Rightarrow> template_process_t \<Rightarrow> template_process_t" where
  "process_loop_reply rc errno tpt =
     (let tpt = (if rc = -1 then tpt\<lparr>err := errno, cpid := TEMPLATE_FORK_FAILED\<rparr> else tpt)
      in tpt\<lparr>cpid := rc\<rparr>)"

definition thread_loop_reply :: "int \<Rightarrow> int \<Rightarrow> template_process_t \<Rightarrow> template_process_t" where
  "thread_loop_reply rc errno tpt =
     (if rc = -1 then tpt\<lparr>err := errno, cpid := TEMPLATE_FORK_FAILED\<rparr> else tpt\<lparr>cpid := rc\<rparr>)"

section \<open>Deaths of branches\<close>

text \<open>\<^verbatim>\<open>SIGILL\<close>, \<^verbatim>\<open>SIGABRT\<close>, \<^verbatim>\<open>SIGBUS\<close>, \<^verbatim>\<open>SIGFPE\<close>, \<^verbatim>\<open>SIGKILL\<close>, \<^verbatim>\<open>SIGSEGV\<close>, \<^verbatim>\<open>SIGPIPE\<close>, \<^verbatim>\<open>SIGSYS\<close>.\<close>

definition is_bad_signal :: "int \<Rightarrow> bool" where
  "is_bad_signal signo \<longleftrightarrow> signo \<in> {4, 6, 7, 8, 9, 11, 13, 31}"

text \<open>Whether the handler sends \<^verbatim>\<open>SIGCHLD\<close> on to the model checker, and whether it posts to the loop.\<close>

definition mc_template_receive_sigchld :: "wait_result \<Rightarrow> bool \<times> bool" where
  "mc_template_receive_sigchld status =
     (case status of
        Wait_failed \<Rightarrow> (False, False)
      | Exited_with _ \<Rightarrow> (True, True)
      | Killed_by signo \<Rightarrow> (is_bad_signal signo, True)
      | _ \<Rightarrow> (False, True))"

section \<open>The loop\<close>

datatype loop_pc = Waiting_for_request | Forking | Replying | Waiting_for_child

record template =
  libmcmini_sem :: nat
  process_sem :: nat
  tpt :: template_process_t
  loop_pc :: loop_pc
  branches :: "int list"
  sigchld_sem :: nat
  forwarded :: nat

inductive template_step ::
    "(int \<Rightarrow> int \<Rightarrow> template_process_t \<Rightarrow> template_process_t) \<Rightarrow> template \<Rightarrow> template \<Rightarrow> bool"
  for reply :: "int \<Rightarrow> int \<Rightarrow> template_process_t \<Rightarrow> template_process_t" where
  request: "template_step reply s (s\<lparr>libmcmini_sem := libmcmini_sem s + 1\<rparr>)"
| take_request: "loop_pc s = Waiting_for_request \<Longrightarrow> 0 < libmcmini_sem s \<Longrightarrow>
    template_step reply s (s\<lparr>libmcmini_sem := libmcmini_sem s - 1, loop_pc := Forking\<rparr>)"
| fork_succeeds: "loop_pc s = Forking \<Longrightarrow> 0 < pid \<Longrightarrow>
    template_step reply s (s\<lparr>loop_pc := Replying, branches := pid # branches s, tpt := reply pid 0 (tpt s)\<rparr>)"
| fork_fails: "loop_pc s = Forking \<Longrightarrow>
    template_step reply s (s\<lparr>loop_pc := Replying, tpt := reply (-1) errno (tpt s)\<rparr>)"
| post_reply: "loop_pc s = Replying \<Longrightarrow>
    template_step reply s (s\<lparr>loop_pc := Waiting_for_child, process_sem := process_sem s + 1\<rparr>)"
| take_reply: "0 < process_sem s \<Longrightarrow>
    template_step reply s (s\<lparr>process_sem := process_sem s - 1\<rparr>)"
| branch_dies: "pid \<in> set (branches s) \<Longrightarrow> status \<in> {Exited_with code, Killed_by signo} \<Longrightarrow>
    template_step reply s
      (s\<lparr>branches := remove1 pid (branches s),
         forwarded := (if fst (mc_template_receive_sigchld status) then forwarded s + 1 else forwarded s),
         sigchld_sem := (if snd (mc_template_receive_sigchld status) then sigchld_sem s + 1
                         else sigchld_sem s)\<rparr>)"
| child_is_gone: "loop_pc s = Waiting_for_child \<Longrightarrow> 0 < sigchld_sem s \<Longrightarrow>
    template_step reply s (s\<lparr>loop_pc := Waiting_for_request, sigchld_sem := sigchld_sem s - 1\<rparr>)"

inductive template_steps ::
    "(int \<Rightarrow> int \<Rightarrow> template_process_t \<Rightarrow> template_process_t) \<Rightarrow> template \<Rightarrow> template \<Rightarrow> bool"
  for reply :: "int \<Rightarrow> int \<Rightarrow> template_process_t \<Rightarrow> template_process_t" where
  no_template_step: "template_steps reply s s"
| more_template_steps: "template_steps reply s s' \<Longrightarrow> template_step reply s' s'' \<Longrightarrow>
    template_steps reply s s''"

text \<open>The loop is entered.\<close>

definition new_template :: template where
  "new_template =
     \<lparr>libmcmini_sem = 0, process_sem = 0, tpt = \<lparr>err = 0, cpid = 0\<rparr>, loop_pc = Waiting_for_request,
      branches = [], sigchld_sem = 0, forwarded = 0\<rparr>"

section \<open>One branch at a time\<close>

text \<open>
  Between two requests nothing is alive and nothing is pending; while a request is served, there is one
  branch, or one death that the loop has not yet seen, or the fork failed and there is neither.
\<close>

definition template_ok :: "template \<Rightarrow> bool" where
  "template_ok s \<longleftrightarrow>
     (if loop_pc s \<in> {Waiting_for_request, Forking} then branches s = [] \<and> sigchld_sem s = 0
      else length (branches s) + sigchld_sem s \<le> 1 \<and> (\<forall>pid \<in> set (branches s). 0 < pid \<and> cpid (tpt s) = pid))"

lemma replies_pid [simp]:
  "0 < pid \<Longrightarrow> cpid (process_loop_reply pid errno t) = pid"
  "0 < pid \<Longrightarrow> cpid (thread_loop_reply pid errno t) = pid"
  by (simp_all add: process_loop_reply_def thread_loop_reply_def)

lemma only_branch: "pid \<in> set xs \<Longrightarrow> length xs + k \<le> 1 \<Longrightarrow> xs = [pid] \<and> k = 0"
  by (cases xs) auto

lemma template_step_ok:
  assumes "template_step reply s s'" and "template_ok s"
    and "reply \<in> {process_loop_reply, thread_loop_reply}"
  shows "template_ok s'"
  using assms(1)
proof cases
  case (fork_succeeds pid)
  with assms(2,3) show ?thesis by (auto simp: template_ok_def)
next
  case (branch_dies pid status code signo)
  then have "loop_pc s \<notin> {Waiting_for_request, Forking}" "length (branches s) + sigchld_sem s \<le> 1"
    using assms(2) by (auto simp: template_ok_def split: if_splits)
  moreover from this have "branches s = [pid]" "sigchld_sem s = 0"
    using only_branch [OF branch_dies(2)] by simp_all
  ultimately show ?thesis using branch_dies(1) by (simp add: template_ok_def)
next
  case child_is_gone
  with assms(2) have "length (branches s) + sigchld_sem s \<le> 1" by (simp add: template_ok_def)
  with child_is_gone(3) have "length (branches s) = 0" by linarith
  with child_is_gone assms(2) show ?thesis by (simp add: template_ok_def)
qed (use assms(2) in \<open>auto simp: template_ok_def split: if_splits\<close>)

lemma template_steps_ok:
  assumes "template_steps reply s s'" and "template_ok s"
    and "reply \<in> {process_loop_reply, thread_loop_reply}"
  shows "template_ok s'"
  using assms by (induction rule: template_steps.induct) (auto intro: template_step_ok)

lemma new_template_ok: "template_ok new_template"
  by (simp add: template_ok_def new_template_def)

text \<open>
  C20. A template has at most one branch, the one whose id the model checker reads, and forks the next
  only after the last one has ended: the mailboxes are never shared by two branches.
\<close>

theorem one_branch_at_a_time:
  assumes "template_steps reply new_template s" and "reply \<in> {process_loop_reply, thread_loop_reply}"
  shows "(branches s = [] \<or> branches s = [cpid (tpt s)]) \<and> (loop_pc s = Forking \<longrightarrow> branches s = [])"
proof -
  have ok: "template_ok s" by (rule template_steps_ok [OF assms(1) new_template_ok assms(2)])
  then have "length (branches s) \<le> 1" by (auto simp: template_ok_def split: if_splits)
  then consider "branches s = []" | pid where "branches s = [pid]"
    by (cases "branches s") (auto simp: length_Suc_conv)
  then show ?thesis using ok by cases (auto simp: template_ok_def split: if_splits)
qed

section \<open>Failed forks\<close>

lemma finished_loop: "template_step reply s s' \<Longrightarrow>
    branches s = [] \<and> sigchld_sem s = 0 \<and> loop_pc s \<in> {Replying, Waiting_for_child} \<Longrightarrow>
    branches s' = [] \<and> sigchld_sem s' = 0 \<and> loop_pc s' \<in> {Replying, Waiting_for_child}"
  by (cases rule: template_step.cases, assumption) auto

text \<open>
  C36. A fork that fails ends the template: it waits for the end of a branch that it does not have and
  never serves another request. Moreover the model checker is told of the failure only by the loop of a
  restarted template; the loop of a program overwrites the mark of the failure, and the model checker
  goes on with a process whose id is -1.
\<close>

theorem failed_fork_ends_template:
  assumes "template_steps reply new_template s" and "loop_pc s = Forking"
    and "reply \<in> {process_loop_reply, thread_loop_reply}"
    and "template_steps reply (s\<lparr>loop_pc := Replying, tpt := reply (-1) errno (tpt s)\<rparr>) t"
  shows "loop_pc t \<in> {Replying, Waiting_for_child} \<and> branches t = [] \<and>
    make_new_process 0 0 0 0 (cpid (process_loop_reply (-1) errno (tpt s))) = Inr (-1) \<and>
    make_new_process 0 0 0 0 (cpid (thread_loop_reply (-1) errno (tpt s))) =
      Inl (Process_creation_exception ''The fork(2) call in the template process failed unexpectedly'')"
proof -
  let ?s = "s\<lparr>loop_pc := Replying, tpt := reply (-1) errno (tpt s)\<rparr>"
  have "template_ok s" by (rule template_steps_ok [OF assms(1) new_template_ok assms(3)])
  with assms(2) have "branches ?s = [] \<and> sigchld_sem ?s = 0 \<and> loop_pc ?s \<in> {Replying, Waiting_for_child}"
    by (simp add: template_ok_def)
  with assms(4) have "branches t = [] \<and> sigchld_sem t = 0 \<and> loop_pc t \<in> {Replying, Waiting_for_child}"
    by (induction rule: template_steps.induct) (blast dest: finished_loop)+
  then show ?thesis
    by (simp add: make_new_process_def try_consume_signal_def process_loop_reply_def
        thread_loop_reply_def TEMPLATE_FORK_FAILED_def)
qed

text \<open>A template that has been asked for its first branch.\<close>

definition asked :: template where
  "asked = new_template\<lparr>loop_pc := Forking\<rparr>"

lemma asked_reached: "template_steps reply new_template asked"
proof -
  let ?s = "new_template\<lparr>libmcmini_sem := 1\<rparr>"
  have 1: "template_step reply new_template ?s"
    using request [of reply new_template] by (simp add: new_template_def)
  have 2: "template_step reply ?s asked"
    using take_request [of ?s reply] by (simp add: new_template_def asked_def)
  show ?thesis
    by (rule more_template_steps [OF more_template_steps [OF no_template_step 1] 2])
qed

definition forked :: template where
  "forked = asked\<lparr>loop_pc := Replying, branches := [42], tpt := \<lparr>err = 0, cpid = 42\<rparr>\<rparr>"

lemma forked_reached: "template_steps thread_loop_reply new_template forked"
proof -
  have "template_step thread_loop_reply asked forked"
    using fork_succeeds [of asked 42 thread_loop_reply]
    by (simp add: asked_def forked_def new_template_def thread_loop_reply_def)
  with asked_reached show ?thesis by (rule more_template_steps)
qed

theorem one_branch_at_a_time_witness: "branches forked = [cpid (tpt forked)]"
  using one_branch_at_a_time [OF forked_reached] by (simp add: forked_def)

theorem failed_fork_ends_template_witness:
  "Waiting_for_request \<notin> loop_pc ` {t. template_steps process_loop_reply
     (asked\<lparr>loop_pc := Replying, tpt := process_loop_reply (-1) 11 (tpt asked)\<rparr>) t}"
proof -
  have "loop_pc t \<noteq> Waiting_for_request"
    if "template_steps process_loop_reply
      (asked\<lparr>loop_pc := Replying, tpt := process_loop_reply (-1) 11 (tpt asked)\<rparr>) t" for t
  proof -
    have "loop_pc t \<in> {Replying, Waiting_for_child}"
      using failed_fork_ends_template [OF asked_reached _ _ that] by (simp add: asked_def)
    then show ?thesis by auto
  qed
  then show ?thesis by (metis (mono_tags, lifting) imageE mem_Collect_eq)
qed

text \<open>
  Most signals that end a process are not among those the template passes on: the model checker is not
  told that its branch is gone.
\<close>

lemma unforwarded_death:
  assumes "branches s = [pid]" and "\<not> is_bad_signal signo"
  shows "template_step reply s (s\<lparr>branches := [], sigchld_sem := sigchld_sem s + 1\<rparr>)"
  using branch_dies [of pid s "Killed_by signo" 0 signo reply] assms
  by (simp add: mc_template_receive_sigchld_def)

end
