(* ===== verification/Logging.thy ===== *)
theory Logging
  imports Prelude
begin

text \<open>
  The log of the model checker: severities and their names (\<^verbatim>\<open>log/severity_level.hpp\<close>,
  \<^verbatim>\<open>log/severity_level_parser.hpp\<close>), the filters that decide which messages are written
  (\<^verbatim>\<open>log/filter.hpp\<close>, \<^verbatim>\<open>src/mcmini/log/filter.cpp\<close>), the active filter (\<^verbatim>\<open>log/log_control.hpp\<close>) and
  the streams that messages are written to (\<^verbatim>\<open>log/logger.hpp\<close>). A message is a severity with its text;
  prefixes, times and line numbers are not modelled. A regular expression is the predicate that
  \<^verbatim>\<open>std::regex_match\<close> decides.
\<close>

section \<open>Severities\<close>

datatype severity_level =
  nothing | very_verbose | verbose | debug | info | unexpected | error_level | critical | abort | everything

fun severity_value :: "severity_level \<Rightarrow> nat" where
  "severity_value nothing = 0"
| "severity_value very_verbose = 1"
| "severity_value verbose = 2"
| "severity_value debug = 3"
| "severity_value info = 4"
| "severity_value unexpected = 5"
| "severity_value error_level = 6"
| "severity_value critical = 7"
| "severity_value abort = 8"
| "severity_value everything = 9"

lemma severity_value_inject: "severity_value a = severity_value b \<Longrightarrow> a = b"
  by (cases a; cases b) simp_all

instantiation severity_level :: linorder
begin

definition less_eq_severity_level :: "severity_level \<Rightarrow> severity_level \<Rightarrow> bool" where
  "less_eq_severity_level a b \<longleftrightarrow> severity_value a \<le> severity_value b"

definition less_severity_level :: "severity_level \<Rightarrow> severity_level \<Rightarrow> bool" where
  "less_severity_level a b \<longleftrightarrow> severity_value a < severity_value b"

instance
  by standard (auto simp: less_eq_severity_level_def less_severity_level_def intro: severity_value_inject)

end

lemma nothing_least [simp]: "nothing \<le> s"
  by (simp add: less_eq_severity_level_def)

definition tolower :: "char \<Rightarrow> char" where
  "tolower c = (let n = of_char c :: nat in if 65 \<le> n \<and> n \<le> 90 then char_of (n + 32) else c)"

definition parse_severity :: "string \<Rightarrow> severity_level" where
  "parse_severity levelStr =
     (let s = map tolower levelStr in
      if s = ''nothing'' then nothing
      else if s = ''very-verbose'' \<or> s = ''vv'' then very_verbose
      else if s = ''verbose'' \<or> s = ''v'' then verbose
      else if s = ''debug'' then debug
      else if s = ''info'' then info
      else if s = ''unexpected'' then unexpected
      else if s = ''error'' then error_level
      else if s = ''critical'' then critical
      else if s = ''abort'' then abort
      else if s = ''everything'' then everything
      else nothing)"

section \<open>Filters\<close>

record registrations =
  registered_subsystems :: "(string \<times> severity_level) list"
  registered_regexes :: "((string \<Rightarrow> bool) \<times> severity_level) list"

text \<open>The greatest severity of a matching expression, from \<open>nothing\<close> on.\<close>

definition most_matching :: "registrations \<Rightarrow> string \<Rightarrow> severity_level" where
  "most_matching f subsystem =
     foldl (\<lambda>most (matches, sev). if matches subsystem then max most sev else most) nothing
       (registered_regexes f)"

definition whitelist_apply :: "registrations \<Rightarrow> string \<Rightarrow> severity_level \<Rightarrow> bool" where
  "whitelist_apply f subsystem sev =
     (case map_of (registered_subsystems f) subsystem of
        Some limit \<Rightarrow> sev \<le> limit
      | None \<Rightarrow> sev \<le> most_matching f subsystem)"

definition blacklist_apply :: "registrations \<Rightarrow> string \<Rightarrow> severity_level \<Rightarrow> bool" where
  "blacklist_apply f subsystem sev =
     (case map_of (registered_subsystems f) subsystem of
        Some limit \<Rightarrow> sev > limit
      | None \<Rightarrow> sev > most_matching f subsystem)"

datatype log_filter =
    Permissive
  | Severity severity_level
  | Whitelist registrations
  | Blacklist registrations
  | Composite "registrations list" "registrations list"

fun composite_apply :: "(registrations \<Rightarrow> bool) \<Rightarrow> registrations list \<Rightarrow> bool" where
  "composite_apply pass [] = True"
| "composite_apply pass (f # fs) = (if \<not> pass f then False else composite_apply pass fs)"

definition filter_apply :: "log_filter \<Rightarrow> string \<Rightarrow> severity_level \<Rightarrow> bool" where
  "filter_apply filt subsystem sev =
     (case filt of
        Permissive \<Rightarrow> True
      | Severity minimum_level \<Rightarrow> sev \<ge> minimum_level
      | Whitelist wl \<Rightarrow> whitelist_apply wl subsystem sev
      | Blacklist bl \<Rightarrow> blacklist_apply bl subsystem sev
      | Composite whitelists blacklists \<Rightarrow>
          composite_apply (\<lambda>wl. whitelist_apply wl subsystem sev) whitelists \<and>
          composite_apply (\<lambda>bl. blacklist_apply bl subsystem sev) blacklists)"

text \<open>The active filter of \<^verbatim>\<open>log_control\<close>, if one was set.\<close>

definition allow_everything_over :: "severity_level \<Rightarrow> log_filter option" where
  "allow_everything_over level = Some (Severity level)"

definition passes :: "log_filter option \<Rightarrow> string \<Rightarrow> severity_level \<Rightarrow> bool" where
  "passes active_filter subsystem sev =
     (let subsystem_str = (if subsystem \<noteq> '''' then subsystem else ''global'')
      in case active_filter of None \<Rightarrow> True | Some filt \<Rightarrow> filter_apply filt subsystem_str sev)"

lemma composite_apply_iff: "composite_apply pass fs \<longleftrightarrow> (\<forall>f \<in> set fs. pass f)"
  by (induction fs) auto

text \<open>A black list with the same registrations lets through exactly what the white list drops.\<close>

lemma blacklist_complements_whitelist: "blacklist_apply f subsystem sev \<longleftrightarrow> \<not> whitelist_apply f subsystem sev"
  by (auto simp: blacklist_apply_def whitelist_apply_def not_le split: option.split)

text \<open>
  The documentation of \<^verbatim>\<open>whitelist\<close> says that a log less important than the severity permitted for its
  subsystem is dropped. Severities grow with importance, so it is the more important ones that are.
\<close>

lemma whitelist_drops_important:
  "registered_subsystems f = [(subsystem, limit)] \<Longrightarrow>
     whitelist_apply f subsystem sev \<longleftrightarrow> sev \<le> limit"
  by (simp add: whitelist_apply_def)

section \<open>Streams\<close>

record log_stream =
  buffer :: string
  current_severity :: severity_level
  written :: "(severity_level \<times> string) list"

datatype stream_item = Value string | Level severity_level

definition make_stream :: log_stream where
  "make_stream = \<lparr>buffer = '''', current_severity = info, written = []\<rparr>"

definition flush :: "log_stream \<Rightarrow> log_stream" where
  "flush s =
     (if buffer s \<noteq> '''' then s\<lparr>written := written s @ [(current_severity s, buffer s)], buffer := ''''\<rparr>
      else s)"

fun insert_item :: "stream_item \<Rightarrow> log_stream \<Rightarrow> log_stream" where
  "insert_item (Value v) s = s\<lparr>buffer := buffer s @ v\<rparr>"
| "insert_item (Level sev) s =
     (if sev \<noteq> current_severity s then (flush s)\<lparr>current_severity := sev\<rparr> else s)"

text \<open>The life of a stream, its destructor included: the messages it hands to the log.\<close>

definition log_messages :: "stream_item list \<Rightarrow> (severity_level \<times> string) list" where
  "log_messages items = written (flush (fold insert_item items make_stream))"

text \<open>Which characters are written with which severity.\<close>

fun labelled :: "severity_level \<Rightarrow> stream_item list \<Rightarrow> (severity_level \<times> char) list" where
  "labelled sev [] = []"
| "labelled sev (Value v # items) = map (Pair sev) v @ labelled sev items"
| "labelled sev (Level sev' # items) = labelled sev' items"

definition characters :: "(severity_level \<times> string) list \<Rightarrow> (severity_level \<times> char) list" where
  "characters messages = concat (map (\<lambda>(sev, text). map (Pair sev) text) messages)"

lemma labelled_stream:
  "characters (written (flush (fold insert_item items s))) =
     characters (written s) @ map (Pair (current_severity s)) (buffer s)
       @ labelled (current_severity s) items"
proof (induction items arbitrary: s)
  case Nil
  show ?case by (simp add: flush_def characters_def)
next
  case (Cons item items)
  then show ?case by (cases item) (auto simp: flush_def characters_def)
qed

text \<open>No character is lost, reordered or written with another severity than the one in force.\<close>

lemma stream_loses_nothing: "characters (log_messages items) = labelled info items"
  by (simp add: log_messages_def labelled_stream make_stream_def) (simp add: characters_def)

end
