(* ===== verification/Command_Line.thy ===== *)
theory Command_Line
  imports Logging "HOL-Library.Char_ord" "HOL-Library.Sublist"
begin

text \<open>
  The command line of \<^verbatim>\<open>mcmini\<close> (\<^verbatim>\<open>main_cpp\<close> in \<^verbatim>\<open>src/mcmini/mcmini.cpp\<close>) and the configuration it
  builds (\<^verbatim>\<open>model/config.hpp\<close>). The arguments are the strings after the program's name; the array ends
  with a null pointer, so reading one past the last argument gives no string
  (\<open>Null_dereference\<close> where the code uses it) and reading further is out of bounds (\<open>Array_overrun\<close>).
  Members of the configuration that the code leaves uninitialised are \<open>None\<close>. The directory and the
  file system are parameters. Numbers are read with \<^verbatim>\<open>strtoul\<close> and \<^verbatim>\<open>strtol\<close> at 64 bits.
\<close>

section \<open>Numbers\<close>

definition isspace :: "char \<Rightarrow> bool" where
  "isspace c \<longleftrightarrow> (let n = of_char c :: nat in n = 32 \<or> 9 \<le> n \<and> n \<le> 13)"

definition isdigit :: "char \<Rightarrow> bool" where
  "isdigit c \<longleftrightarrow> (let n = of_char c :: nat in 48 \<le> n \<and> n \<le> 57)"

definition digits_value :: "string \<Rightarrow> nat" where
  "digits_value ds = foldl (\<lambda>n c. 10 * n + (of_char c - 48)) 0 ds"

text \<open>Sign, digits and the rest of a decimal number; \<open>None\<close> when there is no digit.\<close>

definition scan_number :: "string \<Rightarrow> (bool \<times> nat \<times> string) option" where
  "scan_number s =
     (let t = dropWhile isspace s;
          negative = (t \<noteq> [] \<and> hd t = CHR ''-'');
          u = (if t \<noteq> [] \<and> hd t \<in> {CHR ''-'', CHR ''+''} then tl t else t);
          ds = takeWhile isdigit u
      in if ds = [] then None else Some (negative, digits_value ds, dropWhile isdigit u))"

definition strtoul :: "string \<Rightarrow> nat" where
  "strtoul s =
     (case scan_number s of
        None \<Rightarrow> 0
      | Some (negative, n, rest) \<Rightarrow>
          if n \<ge> 2 ^ 64 then 2 ^ 64 - 1 else if negative then (2 ^ 64 - n) mod 2 ^ 64 else n)"

definition strtol :: "string \<Rightarrow> int \<times> string" where
  "strtol s =
     (case scan_number s of
        None \<Rightarrow> (0, s)
      | Some (negative, n, rest) \<Rightarrow>
          (if negative then max (- (2 ^ 63)) (- int n) else min (2 ^ 63 - 1) (int n), rest))"

text \<open>The conversion of an \<^verbatim>\<open>unsigned long\<close> to the 64-bit count of \<^verbatim>\<open>std::chrono::seconds\<close>.\<close>

definition signed_seconds :: "nat \<Rightarrow> int" where
  "signed_seconds n = sint (word_of_nat n :: 64 word)"

section \<open>The configuration\<close>

record config =
  max_thread_execution_depth :: "nat option"
  target_trace_id :: "nat option"
  stop_at_first_deadlock :: bool
  record_target_executable_only :: bool
  use_multithreaded_fork :: bool
  checkpoint_period :: "int option"
  checkpoint_file :: string
  target_executable :: string
  target_executable_args :: "string list"
  global_severity_level :: severity_level

definition default_config :: config where
  "default_config =
     \<lparr>max_thread_execution_depth = None, target_trace_id = None, stop_at_first_deadlock = False,
      record_target_executable_only = False, use_multithreaded_fork = False, checkpoint_period = None,
      checkpoint_file = '''', target_executable = '''', target_executable_args = [],
      global_severity_level = info\<rparr>"

section \<open>Options\<close>

text \<open>The character at an index of a C string, which is terminated by a zero.\<close>

definition char_at :: "string \<Rightarrow> nat \<Rightarrow> char" where
  "char_at s i = (if i < length s then s ! i else CHR 0x00)"

text \<open>The end of the run: an exit code, or an expression without a defined behaviour.\<close>

datatype 'a run = Exits nat | Undefined error | Goes_on 'a

definition illegal_value :: "string \<Rightarrow> bool" where
  "illegal_value arg = (case strtol arg of (n, rest) \<Rightarrow> n = 0 \<or> rest \<noteq> [])"

text \<open>The first checkpoint in a directory: whether an entry is a regular file, and its name.\<close>

fun find_first_ckpt_file_in_cwd :: "(bool \<times> string) list option \<Rightarrow> string" where
  "find_first_ckpt_file_in_cwd None = ''''"
| "find_first_ckpt_file_in_cwd (Some []) = ''''"
| "find_first_ckpt_file_in_cwd (Some ((regular, filename) # entries)) =
     (if regular \<and> length filename \<ge> 6 \<and> drop (length filename - 6) filename = ''.dmtcp''
      then filename else find_first_ckpt_file_in_cwd (Some entries))"

fun parse_options ::
    "(bool \<times> string) list option \<Rightarrow> string list \<Rightarrow> config \<Rightarrow> (config \<times> string list) run" where
  "parse_options cwd [] c = Goes_on (c, [])"
| "parse_options cwd (arg # args) c =
     (if char_at arg 0 \<noteq> CHR ''-'' then Goes_on (c, arg # args)
      else if arg = ''--max-depth-per-thread'' \<or> arg = ''-m'' then
        (case args of
           [] \<Rightarrow> Undefined Null_dereference
         | v # rest \<Rightarrow>
             if illegal_value v then Exits 1
             else parse_options cwd rest (c\<lparr>max_thread_execution_depth := Some (strtoul v)\<rparr>))
      else if arg = ''--interval'' \<or> arg = ''-i'' then
        (case args of
           [] \<Rightarrow> Undefined Null_dereference
         | v # rest \<Rightarrow>
             parse_options cwd rest
               (c\<lparr>record_target_executable_only := True,
                  checkpoint_period := Some (signed_seconds (strtoul v))\<rparr>))
      else if arg = ''--from-checkpoint'' \<or> arg = ''-ckpt'' then
        (case args of
           [] \<Rightarrow> Undefined Null_dereference
         | v # rest \<Rightarrow> parse_options cwd rest (c\<lparr>checkpoint_file := v\<rparr>))
      else if arg = ''--log-level'' \<or> arg = ''-log'' then
        (case args of
           [] \<Rightarrow> Undefined Null_dereference
         | v # rest \<Rightarrow> parse_options cwd rest (c\<lparr>global_severity_level := parse_severity v\<rparr>))
      else if arg = ''--from-first-checkpoint'' then
        parse_options cwd args (c\<lparr>checkpoint_file := find_first_ckpt_file_in_cwd cwd\<rparr>)
      else if arg = ''--multithreaded-fork'' \<or> arg = ''-mtf'' then
        parse_options cwd args (c\<lparr>use_multithreaded_fork := True\<rparr>)
      else if char_at arg 1 = CHR ''m'' \<and> isdigit (char_at arg 2) then
        (case args of
           [] \<Rightarrow> Undefined Null_dereference
         | v # rest \<Rightarrow> parse_options cwd args (c\<lparr>max_thread_execution_depth := Some (strtoul v)\<rparr>))
      else if arg = ''--first-deadlock'' \<or> arg = ''--first'' \<or> arg = ''-f'' then
        parse_options cwd args (c\<lparr>stop_at_first_deadlock := True\<rparr>)
      else if arg = ''--print-at-traceId'' \<or> arg = ''-p'' then
        (case args of
           [] \<Rightarrow> Undefined Null_dereference
         | v # rest \<Rightarrow>
             if illegal_value v then Exits 1
             else parse_options cwd rest (c\<lparr>target_trace_id := Some (strtoul v)\<rparr>))
      else if char_at arg 1 = CHR ''p'' \<and> isdigit (char_at arg 2) then
        (case args of
           [] \<Rightarrow> Undefined Array_overrun
         | [v] \<Rightarrow> Undefined Null_dereference
         | v # w # rest \<Rightarrow> parse_options cwd args (c\<lparr>target_trace_id := Some (strtoul w)\<rparr>))
      else Exits 1)"

section \<open>The target\<close>

text \<open>\<open>idx\<close> is a signed \<^verbatim>\<open>char\<close>; the subtraction is on \<^verbatim>\<open>size_t\<close>, which is never negative.\<close>

definition mcmini_idx :: "string \<Rightarrow> int" where
  "mcmini_idx s =
     (let n = (of_nat (length s) - of_nat (length ''mcmini'') - 1 :: 64 word)
      in if n \<ge> 0 then sint (ucast n :: 8 word) else int (length s))"

text \<open>Whether the target is \<^verbatim>\<open>mcmini\<close> itself; reading outside of the string is undefined.\<close>

definition is_mcmini :: "string \<Rightarrow> bool run" where
  "is_mcmini s =
     (if s = ''mcmini'' then Goes_on True
      else if 0 \<le> mcmini_idx s \<and> mcmini_idx s \<le> int (length s)
      then Goes_on (drop (nat (mcmini_idx s)) s = ''/mcmini'')
      else Undefined Array_overrun)"

definition configure_target :: "(string \<Rightarrow> bool) \<Rightarrow> string list \<Rightarrow> config \<Rightarrow> config run" where
  "configure_target file_exists args c =
     (if checkpoint_file c \<noteq> '''' then Goes_on c
      else case args of
        [] \<Rightarrow> Exits 1
      | target # rest \<Rightarrow>
          if \<not> file_exists target then Exits 1
          else case is_mcmini target of
            Goes_on True \<Rightarrow> Exits 1
          | Goes_on False \<Rightarrow>
              Goes_on (c\<lparr>target_executable := target,
                         target_executable_args := target_executable_args c @ rest\<rparr>)
          | Exits n \<Rightarrow> Exits n
          | Undefined e \<Rightarrow> Undefined e)"

datatype task = Do_recording | Do_model_checking_from_dmtcp_ckpt_file | Do_model_checking

definition task_of :: "config \<Rightarrow> task" where
  "task_of c =
     (if record_target_executable_only c then Do_recording
      else if checkpoint_file c \<noteq> '''' then Do_model_checking_from_dmtcp_ckpt_file
      else Do_model_checking)"

definition main_cpp ::
    "string option \<Rightarrow> (bool \<times> string) list option \<Rightarrow> (string \<Rightarrow> bool) \<Rightarrow> string list
       \<Rightarrow> (task \<times> config) run" where
  "main_cpp log_level_env cwd file_exists args =
     (let c = (case log_level_env of
                 None \<Rightarrow> default_config
               | Some v \<Rightarrow> default_config\<lparr>global_severity_level := parse_severity v\<rparr>)
      in if args = [] then Exits 1
         else case parse_options cwd args c of
           Exits n \<Rightarrow> Exits n
         | Undefined e \<Rightarrow> Undefined e
         | Goes_on (c, args) \<Rightarrow>
             (case configure_target file_exists args c of
                Exits n \<Rightarrow> Exits n
              | Undefined e \<Rightarrow> Undefined e
              | Goes_on c \<Rightarrow> Goes_on (task_of c, c)))"

text \<open>The arguments of \<^verbatim>\<open>dmtcp_launch\<close>; \<open>None\<close> when the current directory has too long a name.\<close>

definition dmtcp_launch_args :: "(int \<Rightarrow> string) \<Rightarrow> string option \<Rightarrow> config \<Rightarrow> int \<Rightarrow> string list" where
  "dmtcp_launch_args to_string cwd c period =
     [''--disable-alloc-plugin'', ''-i'', to_string period, ''--with-plugin'',
      (case cwd of None \<Rightarrow> ''PATH_TOO_LONG'' | Some dir \<Rightarrow> dir) @ ''/libmcmini.so'', ''--modify-env'',
      target_executable c] @ target_executable_args c"

section \<open>Options are read back\<close>

fun decimal :: "nat \<Rightarrow> string" where
  "decimal n = (if n < 10 then [char_of (48 + n)] else decimal (n div 10) @ [char_of (48 + n mod 10)])"

declare decimal.simps [simp del]

lemma digit_char:
  assumes "d < 10"
  shows "isdigit (char_of (48 + d))" and "of_char (char_of (48 + d :: nat) :: char) - 48 = d"
  using assms by (simp_all add: isdigit_def)

lemma decimal_digits: "set (decimal n) \<subseteq> Collect isdigit"
  by (induction n rule: decimal.induct) (subst decimal.simps, auto simp: digit_char)

lemma decimal_nonempty [simp]: "decimal n \<noteq> []"
  by (subst decimal.simps) simp

lemma digits_value_snoc [simp]: "digits_value (ds @ [c]) = 10 * digits_value ds + (of_char c - 48)"
  by (simp add: digits_value_def)

lemma digits_value_decimal: "digits_value (decimal n) = n"
proof (induction n rule: decimal.induct)
  case (1 n)
  show ?case
  proof (cases "n < 10")
    case True
    then show ?thesis using digit_char(2) [of n] by (simp add: decimal.simps [of n] digits_value_def)
  next
    case False
    with 1 show ?thesis using digit_char(2) [of "n mod 10"] by (simp add: decimal.simps [of n])
  qed
qed

lemma not_sign: "isdigit c \<Longrightarrow> \<not> isspace c \<and> c \<noteq> CHR ''-'' \<and> c \<noteq> CHR ''+''"
  by (auto simp: isdigit_def isspace_def Let_def)

lemma scan_decimal: "scan_number (decimal n) = Some (False, n, [])"
proof -
  obtain d ds where d: "decimal n = d # ds" by (cases "decimal n") auto
  then have digits: "isdigit d" "\<forall>c \<in> set ds. isdigit c" using decimal_digits [of n] by auto
  then have all: "takeWhile isdigit ds = ds" "dropWhile isdigit ds = []"
    by (simp_all add: takeWhile_eq_all_conv dropWhile_eq_Nil_conv)
  show ?thesis
    using not_sign [OF digits(1)] digits(1) digits_value_decimal [of n]
    by (simp add: scan_number_def d Let_def all)
qed

lemma decimal_read:
  assumes "n < 2 ^ 63"
  shows "strtoul (decimal n) = n" and "0 < n \<Longrightarrow> \<not> illegal_value (decimal n)"
    and "signed_seconds n = int n"
  using assms by (simp_all add: strtoul_def strtol_def illegal_value_def scan_decimal signed_seconds_def
      signed_of_nat signed_take_bit_int_eq_self)

fun severity_name :: "severity_level \<Rightarrow> string" where
  "severity_name nothing = ''nothing''"
| "severity_name very_verbose = ''very-verbose''"
| "severity_name verbose = ''verbose''"
| "severity_name debug = ''debug''"
| "severity_name info = ''info''"
| "severity_name unexpected = ''unexpected''"
| "severity_name error_level = ''error''"
| "severity_name critical = ''critical''"
| "severity_name abort = ''abort''"
| "severity_name everything = ''everything''"

lemma parse_severity_name [simp]: "parse_severity (severity_name sev) = sev"
  by (cases sev) (simp_all add: parse_severity_def tolower_def)

text \<open>The options for a configuration.\<close>

definition render :: "config \<Rightarrow> string list" where
  "render c =
     (case max_thread_execution_depth c of None \<Rightarrow> [] | Some n \<Rightarrow> [''--max-depth-per-thread'', decimal n]) @
     (case target_trace_id c of None \<Rightarrow> [] | Some n \<Rightarrow> [''--print-at-traceId'', decimal n]) @
     (case checkpoint_period c of None \<Rightarrow> [] | Some p \<Rightarrow> [''--interval'', decimal (nat p)]) @
     (if stop_at_first_deadlock c then [''--first-deadlock''] else []) @
     (if use_multithreaded_fork c then [''--multithreaded-fork''] else []) @
     (if checkpoint_file c = '''' then [] else [''--from-checkpoint'', checkpoint_file c]) @
     [''--log-level'', severity_name (global_severity_level c)]"

definition expressible :: "config \<Rightarrow> bool" where
  "expressible c \<longleftrightarrow>
     (\<forall>n. max_thread_execution_depth c = Some n \<longrightarrow> 0 < n \<and> n < 2 ^ 63) \<and>
     (\<forall>n. target_trace_id c = Some n \<longrightarrow> 0 < n \<and> n < 2 ^ 63) \<and>
     (\<forall>p. checkpoint_period c = Some p \<longrightarrow> 0 \<le> p \<and> p < 2 ^ 63) \<and>
     record_target_executable_only c = (checkpoint_period c \<noteq> None) \<and>
     target_executable c = '''' \<and> target_executable_args c = []"

lemma parse_depth: "0 < n \<Longrightarrow> n < 2 ^ 63 \<Longrightarrow>
    parse_options cwd (''--max-depth-per-thread'' # decimal n # rest) c =
      parse_options cwd rest (c\<lparr>max_thread_execution_depth := Some n\<rparr>)"
  by (simp add: char_at_def decimal_read)

lemma parse_trace_id: "0 < n \<Longrightarrow> n < 2 ^ 63 \<Longrightarrow>
    parse_options cwd (''--print-at-traceId'' # decimal n # rest) c =
      parse_options cwd rest (c\<lparr>target_trace_id := Some n\<rparr>)"
  by (simp add: char_at_def decimal_read)

lemma parse_interval: "0 \<le> p \<Longrightarrow> p < 2 ^ 63 \<Longrightarrow>
    parse_options cwd (''--interval'' # decimal (nat p) # rest) c =
      parse_options cwd rest (c\<lparr>record_target_executable_only := True, checkpoint_period := Some p\<rparr>)"
  using decimal_read [of "nat p"] by (simp add: char_at_def nat_less_iff)

lemma parse_rest:
  "rest = [] \<or> char_at (hd rest) 0 \<noteq> CHR ''-'' \<Longrightarrow> parse_options cwd rest c = Goes_on (c, rest)"
  by (cases rest) auto

text \<open>
  C37. The options say what they mean: the options for a configuration, in front of a target, are parsed
  into exactly that configuration, and the target is left over.
\<close>

theorem options_are_read_back:
  assumes "expressible c" and "rest = [] \<or> char_at (hd rest) 0 \<noteq> CHR ''-''"
  shows "parse_options cwd (render c @ rest) default_config = Goes_on (c, rest)"
proof -
  have flags: "parse_options cwd (''--first-deadlock'' # args) d =
      parse_options cwd args (d\<lparr>stop_at_first_deadlock := True\<rparr>)"
    "parse_options cwd (''--multithreaded-fork'' # args) d =
      parse_options cwd args (d\<lparr>use_multithreaded_fork := True\<rparr>)"
    "parse_options cwd (''--from-checkpoint'' # v # args) d =
      parse_options cwd args (d\<lparr>checkpoint_file := v\<rparr>)"
    "parse_options cwd (''--log-level'' # v # args) d =
      parse_options cwd args (d\<lparr>global_severity_level := parse_severity v\<rparr>)" for v args d
    by (simp_all add: char_at_def)
  show ?thesis
    using assms(1) parse_rest [OF assms(2)]
    by (cases c) (auto simp: render_def expressible_def default_config_def flags parse_depth
        parse_trace_id parse_interval simp del: parse_options.simps split: option.split)
qed

theorem options_are_read_back_witness:
  "parse_options None
     ([''--max-depth-per-thread'', decimal 30, ''--interval'', decimal 5, ''--log-level'', ''debug'', ''a.out''])
     default_config =
   Goes_on (default_config\<lparr>max_thread_execution_depth := Some 30, record_target_executable_only := True,
     checkpoint_period := Some 5, global_severity_level := debug\<rparr>, [''a.out''])"
  using options_are_read_back [of "default_config\<lparr>max_thread_execution_depth := Some 30,
      record_target_executable_only := True, checkpoint_period := Some 5,
      global_severity_level := debug\<rparr>" "[''a.out'']" None]
  by (simp add: expressible_def render_def default_config_def char_at_def del: parse_options.simps)

text \<open>
  The forms with an attached number do not read the number: \<^verbatim>\<open>-m7 prog\<close> reads \<open>prog\<close> for it, and
  \<^verbatim>\<open>-p7 prog\<close> reads the null pointer that ends the arguments.
\<close>

lemma attached_numbers_are_not_read:
  "parse_options cwd [''-m7'', ''prog''] c = Goes_on (c\<lparr>max_thread_execution_depth := Some 0\<rparr>, [''prog''])"
  "parse_options cwd [''-p7'', ''prog''] c = Undefined Null_dereference"
  by (simp_all add: char_at_def isdigit_def isspace_def strtoul_def scan_number_def Let_def)

section \<open>Is the target McMini itself?\<close>

text \<open>The usage text offers \<^verbatim>\<open>--record\<close>, which is not accepted.\<close>

lemma record_is_not_accepted: "parse_options cwd (''--record'' # args) c = Exits 1"
  by (simp add: char_at_def isdigit_def)

lemma char_of_size: "sint (ucast (of_int k :: 64 word) :: 8 word) = signed_take_bit 7 k"
proof -
  have "ucast (of_int k :: 64 word) = (of_int (take_bit 64 k) :: 8 word)"
    by (simp only: unsigned_of_int) simp
  moreover have "sint (of_int (take_bit 64 k) :: 8 word) = signed_take_bit 7 (take_bit 64 k)"
    by (simp only: signed_of_int) simp
  ultimately show ?thesis by (simp add: signed_take_bit_take_bit)
qed

lemma mcmini_idx_eq: "mcmini_idx s = signed_take_bit 7 (int (length s) - 7)"
proof -
  have "(of_nat (length s) - of_nat (length ''mcmini'') - 1 :: 64 word) = of_int (int (length s) - 7)"
    by simp
  then show ?thesis unfolding mcmini_idx_def Let_def by (simp only: char_of_size word_zero_le if_True)
qed

lemma signed_take_bit_8_minus: "signed_take_bit 7 k = signed_take_bit 7 (k - 256 :: int)"
proof -
  have "(k - 256) mod 256 = k mod 256" by (rule minus_mod_self2)
  then show ?thesis by (simp add: signed_take_bit_eq_iff_take_bit_eq take_bit_eq_mod)
qed

lemma mcmini_idx_ranges:
  "length s < 7 \<Longrightarrow> mcmini_idx s < 0"
  "7 \<le> length s \<Longrightarrow> length s \<le> 134 \<Longrightarrow> mcmini_idx s = int (length s) - 7"
  "134 < length s \<Longrightarrow> length s \<le> 262 \<Longrightarrow> mcmini_idx s < 0"
proof -
  assume "length s < 7"
  then have "signed_take_bit 7 (int (length s) - 7) = int (length s) - 7"
    by (intro signed_take_bit_int_eq_self) simp_all
  with \<open>length s < 7\<close> show "mcmini_idx s < 0" by (simp add: mcmini_idx_eq)
next
  assume "7 \<le> length s" "length s \<le> 134"
  then show "mcmini_idx s = int (length s) - 7"
    unfolding mcmini_idx_eq by (intro signed_take_bit_int_eq_self) simp_all
next
  assume *: "134 < length s" "length s \<le> 262"
  have "signed_take_bit 7 (int (length s) - 7) = signed_take_bit 7 (int (length s) - 7 - 256)"
    by (rule signed_take_bit_8_minus)
  also have "\<dots> = int (length s) - 7 - 256"
    using * by (intro signed_take_bit_int_eq_self) simp_all
  finally show "mcmini_idx s < 0" using * by (simp add: mcmini_idx_eq)
qed

text \<open>
  C38. The test for \<^verbatim>\<open>mcmini\<close> as the target works for names of 7 to 134 characters only. There it finds
  exactly the names that end in \<^verbatim>\<open>/mcmini\<close>. For a shorter name, other than \<^verbatim>\<open>mcmini\<close> itself, and for
  every name of 135 to 262 characters, the code reads memory in front of the string.
\<close>

theorem target_test_reads_in_bounds:
  assumes "length s \<le> 262"
  shows "is_mcmini s =
    (if s = ''mcmini'' then Goes_on True
     else if 7 \<le> length s \<and> length s \<le> 134 then Goes_on (suffix ''/mcmini'' s)
     else Undefined Array_overrun)"
proof -
  consider "s = ''mcmini''" | "s \<noteq> ''mcmini''" "length s < 7" | "7 \<le> length s" "length s \<le> 134"
    | "134 < length s" by linarith
  then show ?thesis
  proof cases
    case 3
    then have idx: "mcmini_idx s = int (length s) - 7" "s \<noteq> ''mcmini''"
      using mcmini_idx_ranges(2) by auto
    have "drop (length s - 7) s = ''/mcmini'' \<longleftrightarrow> suffix ''/mcmini'' s"
      using 3(1) by (auto simp: suffix_def) (metis append_take_drop_id)
    with idx 3 show ?thesis by (simp add: is_mcmini_def nat_diff_distrib)
  next
    case 4
    then show ?thesis using mcmini_idx_ranges(3) [of s] assms by (auto simp: is_mcmini_def)
  qed (use mcmini_idx_ranges(1) [of s] in \<open>auto simp: is_mcmini_def\<close>)
qed

theorem target_test_reads_in_bounds_witness:
  "is_mcmini ''./a.out'' = Goes_on False \<and> is_mcmini ''/usr/bin/mcmini'' = Goes_on True \<and>
   is_mcmini ''a.out'' = Undefined Array_overrun"
  using target_test_reads_in_bounds [of "''./a.out''"] target_test_reads_in_bounds [of "''/usr/bin/mcmini''"]
    target_test_reads_in_bounds [of "''a.out''"]
  by (simp add: suffix_def)

end
