(* ===== verification/Launching.thy ===== *)
theory Launching
  imports Branch_Process
begin

text \<open>
  Starting programs: the targets of \<^verbatim>\<open>real_world/target.hpp\<close> and \<^verbatim>\<open>dmtcp_target.hpp\<close> with their
  environment variables, the launches of \<^verbatim>\<open>src/mcmini/real_world/target.cpp\<close>, and the source of branches
  that restarts a checkpoint for each, \<^verbatim>\<open>dmtcp_process_source.cpp\<close>.

  What the system calls answer is a record \<open>os_answers\<close>. A launch changes a \<open>launcher\<close>: the
  descriptors it has left open, the death signals counted so far (\<^verbatim>\<open>signal.cpp\<close>), the files and the
  programs that are running, each with its arguments and environment. An unordered map is a list of pairs
  with distinct keys. The personality, the signal mask and \<^verbatim>\<open>prctl\<close> settings of the child are not
  modelled.
\<close>

section \<open>Targets\<close>

record target =
  quiet :: bool
  target_program :: string
  target_program_args :: "string list"
  setenv_vars :: "(string \<times> string) list"
  unsetenv_vars :: "string list"

definition new_target :: "string \<Rightarrow> string list \<Rightarrow> target" where
  "new_target program args = \<lparr>quiet = False, target_program = program, target_program_args = args,
     setenv_vars = [], unsetenv_vars = []\<rparr>"

definition invocation :: "'a target_scheme \<Rightarrow> string" where
  "invocation t = foldl (\<lambda>inv arg. inv @ '' '' @ arg) (target_program t) (target_program_args t)"

definition dont_unset_env :: "string \<Rightarrow> 'a target_scheme \<Rightarrow> 'a target_scheme" where
  "dont_unset_env name t = t\<lparr>unsetenv_vars := set_erase name (unsetenv_vars t)\<rparr>"

definition dont_set_env :: "string \<Rightarrow> 'a target_scheme \<Rightarrow> 'a target_scheme" where
  "dont_set_env name t = t\<lparr>setenv_vars := filter (\<lambda>(n, v). n \<noteq> name) (setenv_vars t)\<rparr>"

definition unset_env :: "string \<Rightarrow> 'a target_scheme \<Rightarrow> 'a target_scheme" where
  "unset_env name t = dont_set_env name (t\<lparr>unsetenv_vars := set_insert name (unsetenv_vars t)\<rparr>)"

text \<open>\<^verbatim>\<open>unordered_map::insert\<close> keeps the value of a name that is already there.\<close>

definition set_env :: "string \<Rightarrow> string \<Rightarrow> 'a target_scheme \<Rightarrow> 'a target_scheme" where
  "set_env name val t =
     dont_unset_env name
       (t\<lparr>setenv_vars := (if map_of (setenv_vars t) name = None then setenv_vars t @ [(name, val)]
                          else setenv_vars t)\<rparr>)"

definition set_quiet :: "bool \<Rightarrow> 'a target_scheme \<Rightarrow> 'a target_scheme" where
  "set_quiet be_quiet t = t\<lparr>quiet := be_quiet\<rparr>"

definition set_is_template :: "'a target_scheme \<Rightarrow> 'a target_scheme" where
  "set_is_template t = set_env ''MCMINI_TEMPLATE_LOOP'' ''1'' t"

section \<open>Launching\<close>

type_synonym environ = "string \<Rightarrow> string option"

record execution =
  argv :: "string list"
  child_env :: environ
  silenced :: bool

record os_answers =
  pipe_error :: "int option"
  fork_answer :: "int + int"
  exec_error :: "int option"
  reap_error :: "int option"
  wait_answer :: wait_result
  env_file_opens :: bool

record launcher =
  descriptors :: nat
  counted_sigchld :: nat
  files :: "string \<Rightarrow> string option"
  own_env :: environ
  started :: "(int \<times> execution) list"

text \<open>The child's environment: \<^verbatim>\<open>setenv\<close> for each pair, then \<^verbatim>\<open>unsetenv\<close> for each name.\<close>

definition environment_of :: "'a target_scheme \<Rightarrow> environ \<Rightarrow> environ" where
  "environment_of t env =
     fold (\<lambda>name e. e(name := None)) (unsetenv_vars t)
       (fold (\<lambda>(name, val) e. e(name \<mapsto> val)) (setenv_vars t) env)"

definition execvp :: "'a target_scheme \<Rightarrow> environ \<Rightarrow> execution" where
  "execvp t env = \<lparr>argv = target_program t # target_program_args t, child_env = environment_of t env,
     silenced = quiet t\<rparr>"

text \<open>
  A failing \<^verbatim>\<open>execvp\<close> in the child writes its error into the pipe and ends the child, whose death
  signal the handler counts.
\<close>

definition launch_dont_wait :: "os_answers \<Rightarrow> 'a target_scheme \<Rightarrow> launcher \<Rightarrow> int res \<times> launcher" where
  "launch_dont_wait os t l =
     (if pipe_error os \<noteq> None then (Inl (Runtime_error ''Failed to open pipe(2)''), l)
      else
        let l1 = l\<lparr>descriptors := descriptors l + 2\<rparr>
        in case fork_answer os of
             Inl e \<Rightarrow> (Inl (Process_creation_exception ''Failed to create a new process (fork(2) failed)''), l1)
           | Inr child_pid \<Rightarrow>
               let l2 = l1\<lparr>descriptors := descriptors l1 - 1\<rparr>
               in if exec_error os \<noteq> None
                  then (Inl (Process_creation_exception
                         (if reap_error os \<noteq> None
                          then ''Failed to create a cleanup zombied child process''
                          else ''Failed to create a new process (execvp(2) failed)'')),
                        l2\<lparr>counted_sigchld := counted_sigchld l2 + 1\<rparr>)
                  else (Inr child_pid,
                        l2\<lparr>descriptors := descriptors l2 - 1,
                           started := started l2 @ [(child_pid, execvp t (own_env l2))]\<rparr>))"

definition launch_and_wait :: "os_answers \<Rightarrow> 'a target_scheme \<Rightarrow> launcher \<Rightarrow> unit res \<times> launcher" where
  "launch_and_wait os t l =
     (case launch_dont_wait os t l of
        (Inl e, l1) \<Rightarrow> (Inl e, l1)
      | (Inr child, l1) \<Rightarrow>
          let l2 = l1\<lparr>counted_sigchld := counted_sigchld l1 + 1\<rparr>
          in case wait_answer os of
               Wait_failed \<Rightarrow> (Inl (Execution_error ''Failed to create a cleanup zombied child process''), l1)
             | Exited_with code \<Rightarrow>
                 (Inr (), l2\<lparr>counted_sigchld := snd (try_consume_signal (counted_sigchld l2))\<rparr>)
             | Killed_by signo \<Rightarrow> (Inl (Execution_error ''The child process was signaled''), l2)
             | _ \<Rightarrow> (Inl (Execution_error ''The child process exited abnormally''), l2))"

section \<open>Restarting a checkpoint\<close>

record dmtcp_target = target +
  propagate_env_through_dmtcp :: bool
  ckpt_file_path :: string
  setenv_file_vars :: "(string \<times> string) list"
  unsetenv_file_vars :: "string list"

text \<open>The constructor adds the path to the arguments and leaves the member of that name empty.\<close>

definition new_dmtcp_target :: "string \<Rightarrow> string list \<Rightarrow> string \<Rightarrow> dmtcp_target" where
  "new_dmtcp_target program args ckpt =
     target.extend (new_target program (args @ [ckpt]))
       \<lparr>propagate_env_through_dmtcp = True, ckpt_file_path = [], setenv_file_vars = [],
        unsetenv_file_vars = []\<rparr>"

definition ckpt_dir :: "string \<Rightarrow> string" where
  "ckpt_dir path =
     (if CHR ''/'' \<in> set path then rev (drop 1 (dropWhile (\<lambda>c. c \<noteq> CHR ''/'') (rev path))) else ''.'')"

definition dmtcp_env_file_path :: "dmtcp_target \<Rightarrow> string" where
  "dmtcp_env_file_path t = ckpt_dir (ckpt_file_path t) @ ''/dmtcp_env.txt''"

definition dmtcp_env_text :: "(string \<times> string) list \<Rightarrow> string list \<Rightarrow> string" where
  "dmtcp_env_text sets unsets =
     ''# This file was autogenerated by `mcmini`'' @ [CHR 0x0A] @
     concat (map (\<lambda>(name, val). name @ ''='' @ [CHR 0x22] @ val @ [CHR 0x22, CHR 0x0A]) sets) @
     concat (map (\<lambda>name. name @ [CHR 0x0A]) unsets)"

text \<open>The comparison of the unordered containers.\<close>

definition env_changed :: "dmtcp_target \<Rightarrow> bool" where
  "env_changed t \<longleftrightarrow> set (unsetenv_vars t) \<noteq> set (unsetenv_file_vars t) \<or>
     set (setenv_vars t) \<noteq> set (setenv_file_vars t)"

text \<open>Writing to a stream that failed to open has no effect.\<close>

definition write_env_file :: "os_answers \<Rightarrow> dmtcp_target \<Rightarrow> launcher \<Rightarrow> dmtcp_target \<times> launcher" where
  "write_env_file os t l =
     (if propagate_env_through_dmtcp t \<and> env_changed t
      then (t\<lparr>setenv_file_vars := setenv_vars t, unsetenv_file_vars := unsetenv_vars t\<rparr>,
            if env_file_opens os
            then l\<lparr>files := (files l)(dmtcp_env_file_path t \<mapsto>
                   dmtcp_env_text (setenv_vars t) (unsetenv_vars t))\<rparr>
            else l)
      else (t, l))"

definition dmtcp_launch_dont_wait ::
    "os_answers \<Rightarrow> dmtcp_target \<Rightarrow> launcher \<Rightarrow> int res \<times> dmtcp_target \<times> launcher" where
  "dmtcp_launch_dont_wait os t l =
     (let (t1, l1) = write_env_file os t l; (r, l2) = launch_dont_wait os t1 l1 in (r, t1, l2))"

text \<open>\<^verbatim>\<open>dmtcp_process_source\<close>; \<open>sem_rc\<close> is what waiting for the template thread returned.\<close>

definition new_dmtcp_process_source :: "string \<Rightarrow> dmtcp_target" where
  "new_dmtcp_process_source ckpt_file =
     set_env ''MCMINI_NEEDS_STATE'' ''1''
       (new_dmtcp_target ''dmtcp_restart'' [''--new-coordinator'', ''--port'', ''0''] ckpt_file)"

definition make_new_restarted_process ::
    "os_answers \<Rightarrow> int \<Rightarrow> dmtcp_target \<Rightarrow> launcher \<Rightarrow> int res \<times> dmtcp_target \<times> launcher" where
  "make_new_restarted_process os sem_rc t l =
     (case dmtcp_launch_dont_wait os t l of
        (Inl e, t1, l1) \<Rightarrow> (Inl e, t1, l1)
      | (Inr target_branch_pid, t1, l1) \<Rightarrow>
          let t2 = unset_env ''MCMINI_NEEDS_STATE'' t1
          in if sem_rc \<noteq> 0
             then (Inl (Process_creation_exception ''The template thread did not synchronize correctly with the McMini process''), t2, l1)
             else (Inr target_branch_pid, t2, l1))"

text \<open>The program that \<^verbatim>\<open>do_recording\<close> turns into; \<open>cwd\<close> is \<open>None\<close> when \<^verbatim>\<open>getcwd\<close> fails.\<close>

definition recording_target :: "string option \<Rightarrow> string \<Rightarrow> string \<Rightarrow> string list \<Rightarrow> target" where
  "recording_target cwd checkpoint_period target_executable args =
     (let libmcini_dir = (case cwd of Some dir \<Rightarrow> dir | None \<Rightarrow> ''PATH_TOO_LONG'');
          libmcmini_path = libmcini_dir @ ''/libmcmini.so''
      in new_target ''dmtcp_launch''
           ([''--disable-alloc-plugin'', ''-i'', checkpoint_period, ''--with-plugin'', libmcmini_path,
             ''--modify-env'', target_executable] @ args))"

section \<open>The environment of a launched program\<close>

definition env_ok :: "'a target_scheme \<Rightarrow> bool" where
  "env_ok t \<longleftrightarrow> distinct (map fst (setenv_vars t)) \<and> distinct (unsetenv_vars t) \<and>
     fst ` set (setenv_vars t) \<inter> set (unsetenv_vars t) = {}"

lemma env_ok_new: "env_ok (new_target program args)"
  by (simp add: env_ok_def new_target_def)

lemma env_ok_set: "env_ok t \<Longrightarrow> env_ok (set_env name val t)"
  by (auto simp: env_ok_def set_env_def dont_unset_env_def map_of_eq_None_iff image_iff intro: wf_intros)

lemma env_ok_unset: "env_ok t \<Longrightarrow> env_ok (unset_env name t)"
  by (auto simp: env_ok_def unset_env_def dont_set_env_def image_iff distinct_map_filter intro: wf_intros)

lemma unset_all: "fold (\<lambda>name e. e(name := None)) names env x = (if x \<in> set names then None else env x)"
  by (induction names arbitrary: env) auto

lemma set_all: "distinct (map fst kvs) \<Longrightarrow>
    fold (\<lambda>(name, val) e. e(name \<mapsto> val)) kvs env x = (case map_of kvs x of Some v \<Rightarrow> Some v | None \<Rightarrow> env x)"
proof (induction kvs arbitrary: env)
  case (Cons kv kvs)
  then show ?case
    by (cases kv; cases "x = fst kv") (force simp: image_iff dest: map_of_SomeD split: option.split)+
qed simp

lemma environment_of_apply:
  "env_ok t \<Longrightarrow> environment_of t env x =
     (if x \<in> set (unsetenv_vars t) then None
      else case map_of (setenv_vars t) x of Some v \<Rightarrow> Some v | None \<Rightarrow> env x)"
  by (simp add: environment_of_def unset_all set_all env_ok_def)

text \<open>
  A variable that is set for the first time has the value it was given, one that is unset has none, and
  no other variable changes.
\<close>

lemma set_env_environment:
  assumes "env_ok t" and "map_of (setenv_vars t) name = None"
  shows "environment_of (set_env name val t) env = (environment_of t env)(name \<mapsto> val)"
proof
  fix x
  show "environment_of (set_env name val t) env x = ((environment_of t env)(name \<mapsto> val)) x"
    using assms env_ok_set [OF assms(1), of name val]
    by (auto simp: environment_of_apply) (auto simp: set_env_def dont_unset_env_def map_add_def split: option.split)
qed

lemma map_of_without:
  "map_of (filter (\<lambda>(n, v). n \<noteq> name) kvs) x = (if x = name then None else map_of kvs x)"
  by (induction kvs) auto

lemma unset_env_environment:
  assumes "env_ok t"
  shows "environment_of (unset_env name t) env = (environment_of t env)(name := None)"
proof
  fix x
  show "environment_of (unset_env name t) env x = ((environment_of t env)(name := None)) x"
    using assms env_ok_unset [OF assms, of name]
    by (auto simp: environment_of_apply) (auto simp: unset_env_def dont_set_env_def map_of_without)
qed

text \<open>Setting a variable again does not change it.\<close>

lemma set_env_twice_keeps_first:
  "env_ok t \<Longrightarrow> map_of (setenv_vars t) name = Some old \<Longrightarrow>
     environment_of (set_env name val t) env name = Some old"
  using env_ok_set [of t name val] by (simp add: environment_of_apply) (auto simp: set_env_def dont_unset_env_def)

section \<open>What a launch leaves behind\<close>

lemma launch_accounts:
  assumes "launch_dont_wait os t l = (r, l')"
  shows "case r of
      Inr pid \<Rightarrow> descriptors l' = descriptors l \<and> counted_sigchld l' = counted_sigchld l \<and>
        started l' = started l @ [(pid, execvp t (own_env l))]
    | Inl e \<Rightarrow> started l' = started l \<and>
        descriptors l' = descriptors l + (if pipe_error os \<noteq> None then 0
          else if \<exists>err. fork_answer os = Inl err then 2 else 1) \<and>
        counted_sigchld l' = counted_sigchld l + (if pipe_error os \<noteq> None \<or> (\<exists>err. fork_answer os = Inl err)
          then 0 else 1)"
  using assms
  by (auto simp: launch_dont_wait_def Let_def split: if_splits sum.splits)

text \<open>
  A program that could not be executed leaves a counted death signal, and with it the next creation of
  a branch fails as well, although its template is alive.
\<close>

lemma failed_exec_fails_next_creation:
  assumes "launch_dont_wait os t l = (r, l')" and "pipe_error os = None" and "fork_answer os = Inr pid"
    and "exec_error os \<noteq> None"
  shows "\<exists>e msg. r = Inl e \<and>
    make_new_process (counted_sigchld l') post_rc wait_rc later cpid = Inl (Process_creation_exception msg)"
proof -
  have "\<exists>e. r = Inl e" "0 < counted_sigchld l'"
    using assms by (auto simp: launch_dont_wait_def Let_def)
  with stray_signal_fails_creation show ?thesis by blast
qed

text \<open>
  A program that is waited for may exit with any code, its signal is consumed; one that is killed leaves
  its signal behind.
\<close>

lemma waited_launch:
  assumes "pipe_error os = None" and "fork_answer os = Inr pid" and "exec_error os = None"
  shows "wait_answer os = Exited_with code \<Longrightarrow>
      \<exists>l'. launch_and_wait os t l = (Inr (), l') \<and> counted_sigchld l' = counted_sigchld l"
    and "wait_answer os = Killed_by signo \<Longrightarrow>
      \<exists>l' e. launch_and_wait os t l = (Inl e, l') \<and> counted_sigchld l' = counted_sigchld l + 1"
  using assms by (simp_all add: launch_and_wait_def launch_dont_wait_def Let_def try_consume_signal_def)

section \<open>Branches restarted from a checkpoint\<close>

text \<open>A launch that succeeds, and any number of them with what each answered.\<close>

definition goes_well :: "os_answers \<times> int \<Rightarrow> bool" where
  "goes_well a \<longleftrightarrow> pipe_error (fst a) = None \<and> (\<exists>pid. fork_answer (fst a) = Inr pid) \<and>
     exec_error (fst a) = None \<and> env_file_opens (fst a) \<and> snd a = 0"

fun make_restarted_processes ::
    "(os_answers \<times> int) list \<Rightarrow> dmtcp_target \<Rightarrow> launcher \<Rightarrow> dmtcp_target \<times> launcher" where
  "make_restarted_processes [] t l = (t, l)"
| "make_restarted_processes (a # as) t l =
     (let (r, t1, l1) = make_new_restarted_process (fst a) (snd a) t l in make_restarted_processes as t1 l1)"

abbreviation NEEDS_STATE :: string where
  "NEEDS_STATE \<equiv> ''MCMINI_NEEDS_STATE''"

text \<open>The target once the first branch exists.\<close>

definition later_target :: "dmtcp_target \<Rightarrow> bool" where
  "later_target t \<longleftrightarrow> setenv_vars t = [] \<and> unsetenv_vars t = [NEEDS_STATE] \<and>
     propagate_env_through_dmtcp t \<and> ckpt_file_path t = []"

abbreviation env_file :: string where
  "env_file \<equiv> ''./dmtcp_env.txt''"

definition file_up_to_date :: "dmtcp_target \<Rightarrow> launcher \<Rightarrow> bool" where
  "file_up_to_date t l \<longleftrightarrow> files l env_file = Some (dmtcp_env_text (setenv_file_vars t) (unsetenv_file_vars t))"

lemma ckpt_dir_empty [simp]: "ckpt_dir [] = ''.''"
  by (simp add: ckpt_dir_def)

lemma restarted_process:
  assumes "goes_well a" and "make_new_restarted_process (fst a) (snd a) t l = (r, t', l')"
    and "write_env_file (fst a) t l = (t1, l1)"
  shows "t' = unset_env NEEDS_STATE t1 \<and> files l' = files l1 \<and> own_env l' = own_env l1 \<and>
    (\<exists>pid. started l' = started l1 @ [(pid, execvp t1 (own_env l1))])"
  using assms
  by (auto simp: goes_well_def make_new_restarted_process_def dmtcp_launch_dont_wait_def
      launch_dont_wait_def Let_def)

lemma write_env_file_keeps:
  "write_env_file os t l = (t1, l1) \<Longrightarrow>
     own_env l1 = own_env l \<and> started l1 = started l \<and> execvp t1 env = execvp t env \<and>
     setenv_vars t1 = setenv_vars t \<and> unsetenv_vars t1 = unsetenv_vars t \<and>
     propagate_env_through_dmtcp t1 = propagate_env_through_dmtcp t \<and> ckpt_file_path t1 = ckpt_file_path t"
  by (auto simp: write_env_file_def execvp_def environment_of_def split: if_splits)

text \<open>The variables the file was written for, in the order they were written.\<close>

definition file_written_for :: "(string \<times> string) list \<Rightarrow> string list \<Rightarrow> dmtcp_target \<Rightarrow> bool" where
  "file_written_for sets unsets t \<longleftrightarrow> setenv_file_vars t = sets \<and> unsetenv_file_vars t = unsets"

lemma write_env_file_updates:
  assumes "write_env_file os t l = (t1, l1)" and "env_file_opens os" and "propagate_env_through_dmtcp t"
    and "ckpt_file_path t = []"
    and "env_changed t \<or> file_up_to_date t l \<and> file_written_for (setenv_vars t) (unsetenv_vars t) t"
  shows "file_up_to_date t1 l1 \<and> file_written_for (setenv_vars t) (unsetenv_vars t) t1"
  using assms
  by (cases "env_changed t")
    (auto simp: write_env_file_def file_up_to_date_def dmtcp_env_file_path_def file_written_for_def)

definition later_ok :: "dmtcp_target \<Rightarrow> launcher \<Rightarrow> bool" where
  "later_ok t l \<longleftrightarrow> later_target t \<and>
     (env_changed t \<or> file_up_to_date t l \<and> file_written_for [] [NEEDS_STATE] t)"

lemma later_branch:
  assumes "goes_well a" and "later_ok t l"
    and "make_new_restarted_process (fst a) (snd a) t l = (r, t', l')"
  shows "later_ok t' l' \<and> file_up_to_date t' l' \<and> file_written_for [] [NEEDS_STATE] t' \<and>
    (\<exists>pid ex. started l' = started l @ [(pid, ex)] \<and> child_env ex NEEDS_STATE = None)"
proof -
  obtain t1 l1 where w: "write_env_file (fst a) t l = (t1, l1)" by (cases "write_env_file (fst a) t l")
  note x = restarted_process [OF assms(1,3) w] write_env_file_keeps [OF w]
  have "file_up_to_date t1 l1" "file_written_for [] [NEEDS_STATE] t1"
    using write_env_file_updates [OF w] assms(1,2) by (auto simp: goes_well_def later_target_def later_ok_def)
  with x assms(2) show ?thesis
    by (auto simp: later_ok_def later_target_def file_up_to_date_def file_written_for_def unset_env_def
        dont_set_env_def set_insert_def execvp_def environment_of_def)
qed

lemma later_branches:
  assumes "list_all goes_well as" and "later_ok t l" and "make_restarted_processes as t l = (t', l')"
  shows "\<exists>new. started l' = started l @ new \<and> map (\<lambda>(pid, ex). child_env ex NEEDS_STATE) new
      = replicate (length as) None \<and>
    (as \<noteq> [] \<longrightarrow> files l' env_file = Some (dmtcp_env_text [] [NEEDS_STATE]))"
  using assms
proof (induction "as" arbitrary: t l)
  case (Cons a as)
  obtain r t1 l1 where step: "make_new_restarted_process (fst a) (snd a) t l = (r, t1, l1)"
    by (cases "make_new_restarted_process (fst a) (snd a) t l")
  with Cons.prems(3) have rest: "make_restarted_processes as t1 l1 = (t', l')" by simp
  have good: "goes_well a" "list_all goes_well as" using Cons.prems(1) by simp_all
  from later_branch [OF good(1) Cons.prems(2) step] obtain pid ex where b: "later_ok t1 l1"
    "started l1 = started l @ [(pid, ex)]" "child_env ex NEEDS_STATE = None"
    "files l1 env_file = Some (dmtcp_env_text [] [NEEDS_STATE])"
    by (auto simp: file_up_to_date_def file_written_for_def)
  from Cons.IH [OF good(2) b(1) rest] obtain new where "started l' = started l1 @ new"
    "map (\<lambda>(pid, ex). child_env ex NEEDS_STATE) new = replicate (length as) None"
    "as \<noteq> [] \<Longrightarrow> files l' env_file = Some (dmtcp_env_text [] [NEEDS_STATE])" by auto
  moreover from rest b(4) have "as = [] \<Longrightarrow> files l' env_file = Some (dmtcp_env_text [] [NEEDS_STATE])" by simp
  ultimately show ?case using b(2,3) by auto
qed simp

text \<open>
  Only the first branch restarted from a checkpoint is told to send its state: its environment and the
  file for DMTCP set the variable, and those of every later branch unset it.
\<close>

lemma only_first_branch_sends_state:
  assumes "list_all goes_well (a # as)"
    and "make_restarted_processes (a # as) (new_dmtcp_process_source ckpt) l = (t', l')"
  shows "\<exists>new. started l' = started l @ new \<and>
    map (\<lambda>(pid, ex). child_env ex NEEDS_STATE) new = Some ''1'' # replicate (length as) None \<and>
    files l' env_file = Some (if as = [] then dmtcp_env_text [(NEEDS_STATE, ''1'')] []
      else dmtcp_env_text [] [NEEDS_STATE])"
proof -
  let ?t = "new_dmtcp_process_source ckpt"
  have t: "setenv_vars ?t = [(NEEDS_STATE, ''1'')]" "unsetenv_vars ?t = []" "propagate_env_through_dmtcp ?t"
    "ckpt_file_path ?t = []" "env_changed ?t"
    by (simp_all add: new_dmtcp_process_source_def new_dmtcp_target_def new_target_def set_env_def
        dont_unset_env_def set_erase_def env_changed_def target.defs)
  obtain t1 l1 where w: "write_env_file (fst a) ?t l = (t1, l1)" by (cases "write_env_file (fst a) ?t l")
  obtain r t2 l2 where step: "make_new_restarted_process (fst a) (snd a) ?t l = (r, t2, l2)"
    by (cases "make_new_restarted_process (fst a) (snd a) ?t l")
  have good: "goes_well a" "list_all goes_well as" using assms(1) by simp_all
  note x = restarted_process [OF good(1) step w] write_env_file_keeps [OF w]
  have f: "file_up_to_date t1 l1" "file_written_for [(NEEDS_STATE, ''1'')] [] t1"
    using write_env_file_updates [OF w] good(1) t by (auto simp: goes_well_def)
  obtain pid where pid: "started l2 = started l @ [(pid, execvp t1 (own_env l1))]" using x by auto
  have env: "child_env (execvp t1 (own_env l1)) NEEDS_STATE = Some ''1''"
    using x t by (simp add: execvp_def environment_of_def)
  have "later_ok t2 l2"
    using x t f by (simp add: later_ok_def later_target_def env_changed_def file_written_for_def
        unset_env_def dont_set_env_def set_insert_def)
  moreover have "make_restarted_processes as t2 l2 = (t', l')" using assms(2) step by simp
  ultimately obtain new where new: "started l' = started l2 @ new"
    "map (\<lambda>(pid, ex). child_env ex NEEDS_STATE) new = replicate (length as) None"
    "as \<noteq> [] \<longrightarrow> files l' env_file = Some (dmtcp_env_text [] [NEEDS_STATE])"
    using later_branches [OF good(2)] by blast
  moreover have "files l2 env_file = Some (dmtcp_env_text [(NEEDS_STATE, ''1'')] [])"
    using x f by (simp add: file_up_to_date_def file_written_for_def)
  then have "as = [] \<Longrightarrow> files l' env_file = Some (dmtcp_env_text [(NEEDS_STATE, ''1'')] [])"
    using assms(2) step by simp
  ultimately show ?thesis
    using pid env by (intro exI [of _ "(pid, execvp t1 (own_env l1)) # new"]) auto
qed

text \<open>
  The file for DMTCP is to lie next to the checkpoint. It never does unless the checkpoint is in the
  working directory: the path the constructor is given is not kept.
\<close>

lemma env_file_not_next_to_checkpoint:
  assumes "CHR ''/'' \<notin> set name"
  shows "dmtcp_env_file_path (new_dmtcp_target program args (dir @ CHR ''/'' # name)) = env_file"
    and "ckpt_dir (dir @ CHR ''/'' # name) = dir"
proof -
  have "dropWhile (\<lambda>c. c \<noteq> CHR ''/'') (rev name @ CHR ''/'' # rev dir) = CHR ''/'' # rev dir"
    using assms by (subst dropWhile_append2) auto
  then show "ckpt_dir (dir @ CHR ''/'' # name) = dir" by (simp add: ckpt_dir_def)
qed (simp add: dmtcp_env_file_path_def new_dmtcp_target_def new_target_def target.defs)

text \<open>
  Without variables nothing is written: a file that an earlier run has left stays for DMTCP to read.
\<close>

lemma stale_env_file_stays:
  "setenv_vars t = [] \<Longrightarrow> unsetenv_vars t = [] \<Longrightarrow> setenv_file_vars t = [] \<Longrightarrow> unsetenv_file_vars t = [] \<Longrightarrow>
     write_env_file os t l = (t, l)"
  by (simp add: write_env_file_def env_changed_def)

text \<open>Two branches of a checkpoint.\<close>

definition answers :: "int \<Rightarrow> os_answers" where
  "answers pid = \<lparr>pipe_error = None, fork_answer = Inr pid, exec_error = None, reap_error = None,
     wait_answer = Exited_with 0, env_file_opens = True\<rparr>"

lemma only_first_branch_sends_state_example:
  "\<exists>t l. make_restarted_processes [(answers 7, 0), (answers 8, 0)] (new_dmtcp_process_source ''ckpt.dmtcp'')
       \<lparr>descriptors = 3, counted_sigchld = 0, files = Map.empty, own_env = Map.empty, started = []\<rparr> = (t, l) \<and>
     map (\<lambda>(pid, ex). child_env ex NEEDS_STATE) (started l) = [Some ''1'', None]"
proof -
  let ?l = "\<lparr>descriptors = 3, counted_sigchld = 0, files = Map.empty, own_env = Map.empty, started = []\<rparr>"
  obtain t l where run: "make_restarted_processes [(answers 7, 0), (answers 8, 0)]
    (new_dmtcp_process_source ''ckpt.dmtcp'') ?l = (t, l)"
    by (cases "make_restarted_processes [(answers 7, 0), (answers 8, 0)]
      (new_dmtcp_process_source ''ckpt.dmtcp'') ?l")
  with only_first_branch_sends_state [OF _ run] show ?thesis by (auto simp: goes_well_def answers_def)
qed

end
