(* ===== verification/Spec2Isabelle.thy ===== *)
theory Spec2Isabelle
  imports Reporting Dependency_Properties Restore_Properties Restart_Properties
    Recording_Steps Recording_Properties Handshake Raw_Semaphore Template_Process Command_Line
    Launching
begin

text \<open>
  A model of McMini, a model checker for programs that use the POSIX threads library.

  \<^bold>\<open>The program.\<close> McMini runs a target program under the control of a library that intercepts its
  thread operations. Each thread announces its next operation in a mailbox and waits. The model
  checker keeps a model of the target: the visible objects (threads, mutexes, semaphores, condition
  variables) with all the states they have had, the trace of transitions executed so far, and the
  transition each thread executes next. The coordinator lets a thread take a step in the target and
  in the model; the algorithm \<^verbatim>\<open>classic_dpor\<close> decides which thread, going depth first through the
  interleavings and leaving out those that dynamic partial order reduction shows redundant. To
  backtrack, the model is cut back to an earlier depth and a fresh target process replays the trace.
  Before that, a target may have run on its own for a while and been saved as a checkpoint. The library
  then records which objects and threads it has seen and in which state; the model is built from this
  record and every target process is a copy of the restarted checkpoint.

  \<^bold>\<open>Theories.\<close> From the bottom up; sources are under \<^verbatim>\<open>src/src/mcmini\<close> and
  \<^verbatim>\<open>src/include/mcmini\<close>.

  \<^item> \<open>Prelude\<close>: ids, 32-bit arithmetic, exceptions as values of \<open>error\<close>, the containers of the
    C++ library, and the collections \<open>res_simps\<close> and \<open>wf_intros\<close>.
  \<^item> \<open>Cond_Policy\<close> (\<^verbatim>\<open>misc/cond\<close>, \<^verbatim>\<open>model/cond_var_*.cpp\<close>): the wake-up policy of condition
    variables, as a state machine of messages and waiters; how many threads signals and broadcasts
    let out over a run.
  \<^item> \<open>Objects\<close> (\<^verbatim>\<open>model/objects\<close>, \<^verbatim>\<open>model/visible_object.hpp\<close>), \<open>Injective_Function\<close>
    (\<^verbatim>\<open>misc/injective_function.hpp\<close>): the objects and the table of runners.
  \<^item> \<open>States\<close>, \<open>State_Laws\<close>, \<open>Sequence_Laws\<close>, \<open>State_Properties\<close> (\<^verbatim>\<open>model/state\<close>): detached states,
    differences of states and the sequence of states with its invariant \<open>seq_wf\<close>; earlier states
    never change, and backtracking restores them.
  \<^item> \<open>Transitions\<close>, \<open>Transition_Spec\<close>, \<open>Transition_Properties\<close> (\<^verbatim>\<open>model/transition.hpp\<close>,
    \<^verbatim>\<open>model/transitions\<close>): \<open>modify\<close> of each of the 18 transition classes and the protocol around it; a
    specification by guards and effects on a map of objects, and the proof that \<open>apply_to\<close> and
    \<open>follow\<close> implement it. Mutual exclusion and the wake-up of sleepers hold of runs of \<open>follow\<close>
    (\<open>follow_run\<close>) on a sequence of states.
  \<^item> \<open>Dependency\<close>, \<open>Independence\<close>, \<open>Dependency_Properties\<close> (\<^verbatim>\<open>misc/ddt.hpp\<close>,
    \<^verbatim>\<open>classic_dpor.hpp\<close>): the double-dispatch table and the default relations; independent
    transitions commute, so a transition independent of a prefix can be moved in front of it.
  \<^item> \<open>Program\<close>, \<open>Program_Laws\<close>, \<open>Program_Properties\<close> (\<^verbatim>\<open>model/program.cpp\<close>,
    \<^verbatim>\<open>pending_transitions.hpp\<close>, \<^verbatim>\<open>transition_sequence.hpp\<close>): the program with its invariant
    \<open>prog_wf\<close>; execution, restoration, enabled runners, deadlocks.
  \<^item> \<open>Coordinator\<close>, \<open>Callbacks\<close>, \<open>Coordinator_Properties\<close> (\<^verbatim>\<open>coordinator\<close>,
    \<^verbatim>\<open>model/transition_registry\<close>, \<^verbatim>\<open>model/transitions/*.cpp\<close>): mailboxes, the registry and the
    callbacks, \<open>execute_runner\<close> and \<open>return_to_depth\<close>; model and process stay in step.
  \<^item> \<open>Clock_Vector\<close>, \<open>Stack_Item\<close>, \<open>Dpor\<close>, \<open>Dpor_Laws\<close>, \<open>Dpor_Termination\<close>,
    \<open>Dpor_Properties\<close> (\<^verbatim>\<open>model_checking/algorithms\<close>): clock vectors, the items of the stack, the
    search of \<open>verify_using\<close>; its invariant \<open>search_inv\<close>, its end, and what it schedules and reports.
  \<^item> \<open>Model_Checking\<close> (\<^verbatim>\<open>mcmini.cpp\<close>): the two runs of the model checker, from \<^verbatim>\<open>main\<close> and from a
    checkpoint, as coordinator, callbacks and search put together; that they end, and that what they
    report is true of a state which model and target have reached in step.
  \<^item> \<open>Signals\<close> (\<^verbatim>\<open>signal.cpp\<close>), \<open>Reporting\<close> (\<^verbatim>\<open>mcmini.cpp\<close>): the signals of the model checker itself;
    the reports the callbacks print, and that a run reports exactly the deadlocks it meets and the
    schedule in the report of each reproduces it.
  \<^item> \<open>Thread_Queue\<close> (\<^verbatim>\<open>Thread_queue.c\<close>): the linked queue of threads that wait for a recorded condition
    variable, on a heap of nodes; it implements a list.
  \<^item> \<open>Recording\<close>, \<open>Recording_Steps\<close>, \<open>Recording_Properties\<close> (\<^verbatim>\<open>src/src/lib/record.c\<close> and the
    sections of \<^verbatim>\<open>wrappers.c\<close> and \<^verbatim>\<open>sem-wrappers.c\<close> for the modes RECORD and PRE_CHECKPOINT): the
    list of recorded objects, what each wrapper notes before and after the real operation, and the
    interleavings of these notes with the real operations of mutexes, condition variables and
    semaphores (without the initialisation and destruction of the last two). A mutex recorded as locked
    is held by its recorded owner, unless that thread sleeps in a wait on a condition variable.
  \<^item> \<open>Wrappers\<close>, \<open>Wrapper_Properties\<close> (\<^verbatim>\<open>wrappers.c\<close>, \<^verbatim>\<open>sem-wrappers.c\<close>): which actions each wrapper
    takes in each mode, the bytes it announces, and that the callbacks read them back.
  \<^item> \<open>Raw_Semaphore\<close>, \<open>Handshake\<close> (\<^verbatim>\<open>src/src/common/runner_mailbox.c\<close>): the futex a thread sleeps on is
    a counting semaphore of 32 bits; a thread and the scheduler alternate over the two semaphores of a
    mailbox, for the operations of \<open>visible_op\<close> (no \<^verbatim>\<open>sem_destroy\<close>, \<^verbatim>\<open>pthread_create\<close> and
    \<^verbatim>\<open>pthread_exit\<close>) and for both modes of a branch.
  \<^item> \<open>Branch_Process\<close> (\<^verbatim>\<open>real_world/local_linux_process.cpp\<close>, \<^verbatim>\<open>signal.cpp\<close>,
    \<^verbatim>\<open>fork_process_source.cpp\<close>): running a thread of a process that may die, with the signals of
    deaths that interrupt the wait; \<^verbatim>\<open>waitpid\<close> on a branch that is the template's child may fail.
  \<^item> \<open>Launching\<close> (\<^verbatim>\<open>real_world/target.hpp\<close>, \<^verbatim>\<open>target.cpp\<close>, \<^verbatim>\<open>dmtcp_process_source.cpp\<close>): starting
    programs with their environment, and what a failed launch leaves behind.
  \<^item> \<open>Template_Process\<close> (\<^verbatim>\<open>src/src/lib/template\<close>): the process that forks a branch per request.
  \<^item> \<open>Restart\<close>, \<open>Restart_Properties\<close> (\<^verbatim>\<open>src/src/lib/dmtcp-callback.c\<close>): how the threads of a restarted
    checkpoint are collected, the fork of a branch with all its threads, and how these come under
    the control of the model checker.
  \<^item> \<open>Restore\<close>, \<open>Restore_Properties\<close> (\<^verbatim>\<open>mcmini.cpp\<close>, \<^verbatim>\<open>dmtcp-callback.c\<close>): what the restarted template
    sends about its recording and the model that is built from it.
  \<^item> \<open>Ini_Parser\<close> (\<^verbatim>\<open>misc/ini-parser.hpp\<close>): configuration files; their comments are read from left
    to right, and what is written is read back.
  \<^item> \<open>Logging\<close> (\<^verbatim>\<open>log\<close>), \<open>Command_Line\<close> (\<^verbatim>\<open>main_cpp\<close> in \<^verbatim>\<open>mcmini.cpp\<close>, \<^verbatim>\<open>model/config.hpp\<close>): filters
    and streams of messages; the options and the configuration they build.

  \<^bold>\<open>Correspondence.\<close> A class is a \<open>record\<close> with its data members, an enumeration or a class
  hierarchy a \<open>datatype\<close>, a method a function that takes the object and returns it updated. Names are
  those of the code. Exceptions, failed assertions and expressions whose behaviour C++ leaves undefined
  are values of \<open>error\<close>, and sequencing is \<open>bind_res\<close>. Owned raw pointers are values. Ids that the
  code narrows to 16 or 32 bits are narrowed with \<open>u16\<close> and \<open>u32\<close>; the semaphore count and exit codes are
  32-bit integers. An unordered container is a list whose order no statement depends on, except
  where the code itself takes the first element.

  \<^bold>\<open>Interfaces.\<close> Locales state what one part relies on in another, each interpreted on the model's own
  definitions: \<open>waiter_policy\<close> (what a policy promises its condition variable), \<open>mutable_state\<close> and
  its extension \<open>object_store\<close> (what transitions read and write; met by detached states, differences
  and sequences), \<open>independence\<close> (steps that may be swapped) and \<open>clock_join\<close> (the maximum of clocks).

  \<^bold>\<open>Outside the model.\<close> The target process is the record \<open>environment\<close> of functions on a type of
  states of the outside world: creating a process, running a runner to its next operation, reading
  its memory. The theorems about the coordinator and the search hold for every such record. Which
  callbacks are set is the record \<open>dpor_callbacks\<close>; calling one is recorded as an event. The theories of
  the recording, of the mailbox, of branch and template processes and of the restart open parts of that
  environment: there the atomic actions of threads, kernel and model checker are the rules of a step
  relation, and statements hold for every interleaving of them.

  \<^bold>\<open>Bounds.\<close> The loops of the search are iterated by \<open>verify_loop\<close> with fuel, and \<open>None\<close> means that the
  fuel ran out. \<open>verification_ends\<close> proves that with a depth bound \<open>d\<close> more than
  \<open>20 * 21 ^ d\<close> passes are never needed: the weight of a stack item of depth \<open>i\<close> is \<open>21 ^ (d - i)\<close> for
  each of the at most 20 threads not searched from it. Theorems on states assume room for one more
  id and fewer than \<open>2 ^ 32\<close> steps, where the code would wrap around.

  \<^bold>\<open>Not modelled.\<close> The text that is printed. Of the operating system: the settings a new process
  makes before \<^verbatim>\<open>exec\<close>, signal masks, the mapping of shared memory, pipes, contexts and thread-local
  storage. Of the interception library: the search for the real functions with \<^verbatim>\<open>dlsym\<close> (\<^verbatim>\<open>interception.c\<close>), the interface of DMTCP, the
  annotations for ThreadSanitizer. These are effects of the system or of third-party code with no logic
  of McMini's own to prove about. \<^verbatim>\<open>multithreaded_fork.c\<close> is an older version of the fork in
  \<^verbatim>\<open>dmtcp-callback.c\<close> that nothing calls.
\<close>

end
